(* ===== verification/Prelude.thy ===== *)
theory Prelude
  imports Main "HOL-Library.Code_Target_Numeral"
begin

text \<open>
  Shared vocabulary of the development.

  A Rust \<^verbatim>\<open>String\<close> or \<^verbatim>\<open>&str\<close> is modelled by its UTF-8 byte sequence, as an
  Isabelle \<^typ>\<open>string\<close> (whose characters are exactly the 256 byte values); every
  delimiter the program splits on is ASCII, so splitting bytes and splitting
  characters agree.  A \<^verbatim>\<open>Result<T, E>\<close> is the sum type with the error on the left.
  Unsigned machine integers are natural numbers with their width written out
  where the code parses, casts or computes them.

  The theory holds the string operations of the Rust standard library that the
  program calls (\<^verbatim>\<open>split\<close>, \<^verbatim>\<open>split_once\<close>, \<^verbatim>\<open>rsplit_once\<close>, \<^verbatim>\<open>strip_prefix\<close>,
  \<^verbatim>\<open>trim\<close>, \<^verbatim>\<open>parse\<close> and \<^verbatim>\<open>Display\<close> of integers, \<^verbatim>\<open>String::from_utf8\<close>) with the
  lemmas the components share about them.
\<close>

section \<open>Collections of facts\<close>

named_theorems result_simps \<open>inversion of chains of fallible steps\<close>
named_theorems str_simps \<open>round trips of the string operations\<close>

section \<open>Results\<close>

type_synonym ('e, 'a) result = "'e + 'a"

definition bindr :: "('e, 'a) result \<Rightarrow> ('a \<Rightarrow> ('e, 'b) result) \<Rightarrow> ('e, 'b) result" where
  "bindr m f = (case m of Inl e \<Rightarrow> Inl e | Inr x \<Rightarrow> f x)"

definition map_err :: "('e \<Rightarrow> 'd) \<Rightarrow> ('e, 'a) result \<Rightarrow> ('d, 'a) result" where
  "map_err g m = (case m of Inl e \<Rightarrow> Inl (g e) | Inr x \<Rightarrow> Inr x)"

definition ok_or :: "'e \<Rightarrow> 'a option \<Rightarrow> ('e, 'a) result" where
  "ok_or e m = (case m of None \<Rightarrow> Inl e | Some x \<Rightarrow> Inr x)"

definition is_ok :: "('e, 'a) result \<Rightarrow> bool" where
  "is_ok m = (case m of Inl e \<Rightarrow> False | Inr x \<Rightarrow> True)"

lemma bindr_simps [simp]:
  "bindr (Inl e) f = Inl e" "bindr (Inr x) f = f x"
  by (simp_all add: bindr_def)

lemma map_err_simps [simp]:
  "map_err g (Inl e) = Inl (g e)" "map_err g (Inr x) = Inr x"
  by (simp_all add: map_err_def)

lemma ok_or_simps [simp]:
  "ok_or e None = Inl e" "ok_or e (Some x) = Inr x"
  by (simp_all add: ok_or_def)

lemma is_ok_simps [simp]: "is_ok (Inr x)" "\<not> is_ok (Inl e)"
  by (simp_all add: is_ok_def)

lemma is_ok_iff: "is_ok m \<longleftrightarrow> (\<exists>x. m = Inr x)"
  by (cases m) auto

lemma bindr_Inr_iff [result_simps]:
  "bindr m f = Inr y \<longleftrightarrow> (\<exists>x. m = Inr x \<and> f x = Inr y)"
  by (cases m) auto

lemma bindr_Inl_iff [result_simps]:
  "bindr m f = Inl e \<longleftrightarrow> m = Inl e \<or> (\<exists>x. m = Inr x \<and> f x = Inl e)"
  by (cases m) auto

lemma map_err_Inr_iff [result_simps]: "map_err g m = Inr y \<longleftrightarrow> m = Inr y"
  by (cases m) auto

lemma map_err_Inl_iff [result_simps]: "map_err g m = Inl d \<longleftrightarrow> (\<exists>e. m = Inl e \<and> d = g e)"
  by (cases m) auto

lemma ok_or_Inr_iff [result_simps]: "ok_or e m = Inr y \<longleftrightarrow> m = Some y"
  by (cases m) auto

lemma ok_or_Inl_iff [result_simps]: "ok_or e m = Inl d \<longleftrightarrow> m = None \<and> d = e"
  by (cases m) auto

lemma bindr_cong [fundef_cong]:
  "m = m' \<Longrightarrow> (\<And>x. m' = Inr x \<Longrightarrow> f x = f' x) \<Longrightarrow> bindr m f = bindr m' f'"
  by (cases m') auto

lemma bindr_assoc: "bindr (bindr m f) g = bindr m (\<lambda>x. bindr (f x) g)"
  by (cases m) auto

definition unwrap_or :: "'a option \<Rightarrow> 'a \<Rightarrow> 'a" where
  "unwrap_or m d = (case m of Some x \<Rightarrow> x | None \<Rightarrow> d)"

lemma unwrap_or_simps [simp]: "unwrap_or None d = d" "unwrap_or (Some x) d = x"
  by (simp_all add: unwrap_or_def)

text \<open>A left fold whose steps may fail: a \<^verbatim>\<open>for\<close> loop with \<^verbatim>\<open>?\<close> in its body.\<close>

fun foldr_res :: "('s \<Rightarrow> 'a \<Rightarrow> ('e, 's) result) \<Rightarrow> 's \<Rightarrow> 'a list \<Rightarrow> ('e, 's) result" where
  "foldr_res f s [] = Inr s"
| "foldr_res f s (x # xs) = bindr (f s x) (\<lambda>s'. foldr_res f s' xs)"

lemma foldr_res_append:
  "foldr_res f s (xs @ ys) = bindr (foldr_res f s xs) (\<lambda>s'. foldr_res f s' ys)"
  by (induction xs arbitrary: s) (auto simp: bindr_assoc)

lemma foldr_res_invariant:
  assumes "foldr_res f s xs = Inr s'" "P s"
    and "\<And>s x t. x \<in> set xs \<Longrightarrow> P s \<Longrightarrow> f s x = Inr t \<Longrightarrow> P t"
  shows "P s'"
  using assms by (induction xs arbitrary: s) (auto simp: bindr_Inr_iff)

section \<open>Bytes and characters\<close>

abbreviation byte :: "char \<Rightarrow> nat" where
  "byte c \<equiv> of_char c"

definition is_ascii_digit :: "char \<Rightarrow> bool" where
  "is_ascii_digit c = (48 \<le> byte c \<and> byte c \<le> 57)"

definition to_digit16 :: "char \<Rightarrow> nat option" where
  "to_digit16 c =
     (if 48 \<le> byte c \<and> byte c \<le> 57 then Some (byte c - 48)
      else if 97 \<le> byte c \<and> byte c \<le> 102 then Some (byte c - 87)
      else if 65 \<le> byte c \<and> byte c \<le> 70 then Some (byte c - 55)
      else None)"

definition is_ascii_hexdigit :: "char \<Rightarrow> bool" where
  "is_ascii_hexdigit c = (to_digit16 c \<noteq> None)"

definition to_digit10 :: "char \<Rightarrow> nat option" where
  "to_digit10 c = (if is_ascii_digit c then Some (byte c - 48) else None)"

definition digit_char :: "nat \<Rightarrow> char" where
  "digit_char d = char_of (48 + d)"

text \<open>Lower-case hexadecimal digits, as the \<^verbatim>\<open>:02x\<close> and \<^verbatim>\<open>:x\<close> formats print them.\<close>

definition hex_char :: "nat \<Rightarrow> char" where
  "hex_char d = (if d < 10 then char_of (48 + d) else char_of (87 + d))"

definition to_ascii_lower :: "char \<Rightarrow> char" where
  "to_ascii_lower c = (if 65 \<le> byte c \<and> byte c \<le> 90 then char_of (byte c + 32) else c)"

definition to_ascii_lowercase :: "string \<Rightarrow> string" where
  "to_ascii_lowercase = map to_ascii_lower"

definition eq_ignore_ascii_case :: "string \<Rightarrow> string \<Rightarrow> bool" where
  "eq_ignore_ascii_case a b = (to_ascii_lowercase a = to_ascii_lowercase b)"

lemma to_digit10_digit_char [simp]: "d < 10 \<Longrightarrow> to_digit10 (digit_char d) = Some d"
  by (simp add: to_digit10_def digit_char_def is_ascii_digit_def)

lemma to_digit10_bound: "to_digit10 c = Some d \<Longrightarrow> d < 10"
  by (auto simp: to_digit10_def is_ascii_digit_def split: if_splits)

lemma to_digit16_bound: "to_digit16 c = Some d \<Longrightarrow> d < 16"
  by (auto simp: to_digit16_def split: if_splits)

lemma to_digit16_hex_char [simp]: "d < 16 \<Longrightarrow> to_digit16 (hex_char d) = Some d"
  by (simp add: to_digit16_def hex_char_def)

lemma inj_hex_char: "d < 16 \<Longrightarrow> e < 16 \<Longrightarrow> hex_char d = hex_char e \<longleftrightarrow> d = e"
  by (metis option.inject to_digit16_hex_char)

lemma to_ascii_lower_idem [simp]: "to_ascii_lower (to_ascii_lower c) = to_ascii_lower c"
  by (simp add: to_ascii_lower_def)

section \<open>Splitting and joining\<close>

text \<open>\<^verbatim>\<open>str::split(c)\<close>: always yields at least one piece.\<close>

fun split_on :: "char \<Rightarrow> string \<Rightarrow> string list" where
  "split_on c [] = [[]]"
| "split_on c (x # xs) =
     (if x = c then [] # split_on c xs
      else (case split_on c xs of [] \<Rightarrow> [[x]] | w # ws \<Rightarrow> (x # w) # ws))"

fun join_with :: "string \<Rightarrow> string list \<Rightarrow> string" where
  "join_with sep [] = []"
| "join_with sep [w] = w"
| "join_with sep (w # v # ws) = w @ sep @ join_with sep (v # ws)"

fun split_once :: "char \<Rightarrow> string \<Rightarrow> (string \<times> string) option" where
  "split_once c [] = None"
| "split_once c (x # xs) =
     (if x = c then Some ([], xs)
      else map_option (\<lambda>(a, b). (x # a, b)) (split_once c xs))"

text \<open>\<^verbatim>\<open>str::rsplit_once(c)\<close>: at the last occurrence of the delimiter.\<close>

fun rsplit_once :: "char \<Rightarrow> string \<Rightarrow> (string \<times> string) option" where
  "rsplit_once c [] = None"
| "rsplit_once c (x # xs) =
     (case rsplit_once c xs of
        Some (a, b) \<Rightarrow> Some (x # a, b)
      | None \<Rightarrow> if x = c then Some ([], xs) else None)"

fun strip_prefix :: "string \<Rightarrow> string \<Rightarrow> string option" where
  "strip_prefix [] s = Some s"
| "strip_prefix (p # ps) [] = None"
| "strip_prefix (p # ps) (x # xs) = (if p = x then strip_prefix ps xs else None)"

definition strip_suffix :: "string \<Rightarrow> string \<Rightarrow> string option" where
  "strip_suffix p s = map_option rev (strip_prefix (rev p) (rev s))"

definition starts_with :: "string \<Rightarrow> string \<Rightarrow> bool" where
  "starts_with p s = (strip_prefix p s \<noteq> None)"

definition ends_with :: "string \<Rightarrow> string \<Rightarrow> bool" where
  "ends_with p s = (strip_suffix p s \<noteq> None)"

text \<open>\<^verbatim>\<open>str::contains(&str)\<close>.\<close>

fun contains_str :: "string \<Rightarrow> string \<Rightarrow> bool" where
  "contains_str p [] = (p = [])"
| "contains_str p (x # xs) = (starts_with p (x # xs) \<or> contains_str p xs)"

lemma split_on_not_Nil [simp]: "split_on c s \<noteq> []"
  by (cases s) (auto split: list.splits)

lemma hd_split_on_no_delim: "c \<notin> set (hd (split_on c s))"
  by (induction s) (auto split: list.splits)

lemma set_split_on: "w \<in> set (split_on c s) \<Longrightarrow> c \<notin> set w"
proof (induction s arbitrary: w)
  case (Cons x xs)
  then show ?case
    using hd_split_on_no_delim [of c xs]
    by (cases "split_on c xs") (auto split: if_splits)
qed simp

lemma join_with_Cons: "ws \<noteq> [] \<Longrightarrow> join_with sep (w # ws) = w @ sep @ join_with sep ws"
  by (cases ws) auto

lemma join_split [str_simps]: "join_with [c] (split_on c s) = s"
proof (induction s)
  case (Cons x xs)
  show ?case
  proof (cases "x = c")
    case True
    then show ?thesis using Cons by (simp add: join_with_Cons)
  next
    case False
    obtain w ws where ws: "split_on c xs = w # ws"
      by (cases "split_on c xs") auto
    show ?thesis
      using Cons False ws by (cases ws) auto
  qed
qed simp

lemma split_on_no_delim: "c \<notin> set w \<Longrightarrow> split_on c w = [w]"
  by (induction w) auto

lemma split_on_append: "c \<notin> set w \<Longrightarrow> split_on c (w @ c # s) = w # split_on c s"
  by (induction w) auto

lemma split_join [str_simps]:
  "ws \<noteq> [] \<Longrightarrow> (\<And>w. w \<in> set ws \<Longrightarrow> c \<notin> set w) \<Longrightarrow> split_on c (join_with [c] ws) = ws"
proof (induction ws)
  case (Cons w ws)
  then show ?case
    by (cases "ws = []") (simp_all add: split_on_no_delim split_on_append join_with_Cons)
qed simp

lemma split_on_inj: "split_on c s = split_on c t \<Longrightarrow> s = t"
  by (metis join_split)

lemma length_join_with_ge: "w \<in> set ws \<Longrightarrow> length w \<le> length (join_with sep ws)"
proof (induction ws)
  case (Cons v ws)
  then show ?case
    by (cases ws) auto
qed simp

lemma split_once_Some_iff:
  "split_once c s = Some (a, b) \<longleftrightarrow> s = a @ c # b \<and> c \<notin> set a"
proof (induction s arbitrary: a)
  case (Cons x xs)
  show ?case
    by (cases a) (auto simp: Cons.IH)
qed simp

lemma split_once_None_iff: "split_once c s = None \<longleftrightarrow> c \<notin> set s"
  by (induction s) auto

lemma rsplit_once_None_iff: "rsplit_once c s = None \<longleftrightarrow> c \<notin> set s"
  by (induction s) (auto split: option.splits)

lemma rsplit_once_Some_iff:
  "rsplit_once c s = Some (a, b) \<longleftrightarrow> s = a @ c # b \<and> c \<notin> set b"
proof (induction s arbitrary: a)
  case (Cons x xs)
  show ?case
  proof (cases a)
    case Nil
    have "c \<in> set xs \<longleftrightarrow> rsplit_once c xs \<noteq> None"
      by (simp add: rsplit_once_None_iff)
    then show ?thesis
      using Nil by (auto split: option.splits)
  next
    case (Cons y ys)
    then show ?thesis
      using Cons.IH [of ys] by (cases "rsplit_once c xs") (auto split: option.splits)
  qed
qed simp

lemma strip_prefix_Some_iff: "strip_prefix p s = Some t \<longleftrightarrow> s = p @ t"
  by (induction p s rule: strip_prefix.induct) auto

lemma strip_prefix_append [simp]: "strip_prefix p (p @ t) = Some t"
  by (simp add: strip_prefix_Some_iff)

lemma starts_with_iff: "starts_with p s \<longleftrightarrow> (\<exists>t. s = p @ t)"
  by (auto simp: starts_with_def strip_prefix_Some_iff)

lemma strip_suffix_Some_iff: "strip_suffix p s = Some t \<longleftrightarrow> s = t @ p"
  unfolding strip_suffix_def
  by (auto simp: strip_prefix_Some_iff) (metis rev_append rev_rev_ident)

lemma ends_with_iff: "ends_with p s \<longleftrightarrow> (\<exists>t. s = t @ p)"
  by (auto simp: ends_with_def strip_suffix_Some_iff)

lemma contains_str_iff: "contains_str p s \<longleftrightarrow> (\<exists>a b. s = a @ p @ b)"
proof (induction s)
  case (Cons x xs)
  show ?case (is "_ \<longleftrightarrow> ?R")
  proof
    assume "contains_str p (x # xs)"
    then show ?R
      using Cons by (auto simp: starts_with_iff) (metis append_Cons append_Nil)+
  next
    assume ?R
    then obtain a b where "x # xs = a @ p @ b"
      by blast
    then have "starts_with p (x # xs) \<or> (\<exists>a b. xs = a @ p @ b)"
      by (cases a) (auto simp: starts_with_iff)
    then show "contains_str p (x # xs)"
      using Cons.IH by auto
  qed
qed auto

section \<open>Trimming\<close>

text \<open>
  \<^verbatim>\<open>str::trim\<close> removes every leading and trailing code point with the Unicode
  \<^verbatim>\<open>White_Space\<close> property.  The UTF-8 encodings of those code points:
\<close>

definition unicode_whitespace :: "nat list list" where
  "unicode_whitespace =
     map (\<lambda>b. [b]) [9, 10, 11, 12, 13, 32]
     @ [[194, 133], [194, 160], [225, 154, 128]]
     @ map (\<lambda>b. [226, 128, b]) [128, 129, 130, 131, 132, 133, 134, 135, 136, 137, 138, 168, 169, 175]
     @ [[226, 129, 159], [227, 128, 128]]"

definition ws_encodings :: "string list" where
  "ws_encodings = map (map char_of) unicode_whitespace"

fun strip_any :: "string list \<Rightarrow> string \<Rightarrow> string option" where
  "strip_any [] s = None"
| "strip_any (w # ws) s =
     (case strip_prefix w s of Some t \<Rightarrow> Some t | None \<Rightarrow> strip_any ws s)"

lemma strip_any_length:
  "strip_any ws s = Some t \<Longrightarrow> (\<And>w. w \<in> set ws \<Longrightarrow> w \<noteq> []) \<Longrightarrow> length t < length s"
  by (induction ws) (auto simp: strip_prefix_Some_iff split: option.splits)

lemma strip_any_suffix: "strip_any ws s = Some t \<Longrightarrow> \<exists>p. s = p @ t"
  by (induction ws) (auto simp: strip_prefix_Some_iff split: option.splits)

lemma ws_encodings_not_Nil: "w \<in> set ws_encodings \<Longrightarrow> w \<noteq> []"
  by (auto simp: ws_encodings_def unicode_whitespace_def)

function trim_start :: "string \<Rightarrow> string" where
  "trim_start s = (case strip_any ws_encodings s of None \<Rightarrow> s | Some t \<Rightarrow> trim_start t)"
  by auto
termination
  by (relation "measure length") (auto dest: strip_any_length ws_encodings_not_Nil)

function trim_end_rev :: "string \<Rightarrow> string" where
  "trim_end_rev s =
     (case strip_any (map rev ws_encodings) s of None \<Rightarrow> s | Some t \<Rightarrow> trim_end_rev t)"
  by auto
termination
  by (relation "measure length") (auto dest!: strip_any_length ws_encodings_not_Nil)

declare trim_start.simps [simp del] trim_end_rev.simps [simp del]

definition trim :: "string \<Rightarrow> string" where
  "trim s = rev (trim_end_rev (rev (trim_start s)))"

lemma trim_start_suffix: "\<exists>p. s = p @ trim_start s"
proof (induction s rule: trim_start.induct)
  case (1 s)
  show ?case
  proof (cases "strip_any ws_encodings s")
    case None
    then show ?thesis by (simp add: trim_start.simps)
  next
    case (Some t)
    then have "\<exists>p. s = p @ t"
      by (rule strip_any_suffix)
    with 1 Some show ?thesis
      by (metis append_assoc option.simps(5) trim_start.simps)
  qed
qed

definition is_graphic :: "char \<Rightarrow> bool" where
  "is_graphic c = (33 \<le> byte c \<and> byte c < 128)"

lemma strip_any_None:
  "s \<noteq> [] \<Longrightarrow> (\<And>w. w \<in> set ws \<Longrightarrow> w \<noteq> [] \<and> hd w \<noteq> hd s) \<Longrightarrow> strip_any ws s = None"
proof (induction ws)
  case (Cons w ws)
  then have "w \<noteq> []" "hd w \<noteq> hd s"
    by auto
  then have "strip_prefix w s = None"
    using Cons.prems(1) by (cases w; cases s) auto
  then show ?case
    using Cons by simp
qed simp

lemma ws_encodings_not_graphic:
  "w \<in> set ws_encodings \<Longrightarrow> \<not> is_graphic (hd w) \<and> \<not> is_graphic (last w)"
  by (auto simp: ws_encodings_def unicode_whitespace_def is_graphic_def)

lemma trim_graphic:
  assumes "s \<noteq> []" "is_graphic (hd s)" "is_graphic (last s)"
  shows "trim s = s"
proof -
  have "strip_any ws_encodings s = None"
    using assms ws_encodings_not_graphic ws_encodings_not_Nil by (intro strip_any_None) metis+
  then have 1: "trim_start s = s"
    by (simp add: trim_start.simps)
  have "strip_any (map rev ws_encodings) (rev s) = None"
  proof (rule strip_any_None)
    fix v
    assume "v \<in> set (map rev ws_encodings)"
    then obtain w where w: "v = rev w" "w \<in> set ws_encodings"
      by auto
    then show "v \<noteq> [] \<and> hd v \<noteq> hd (rev s)"
      using assms ws_encodings_not_graphic [OF w(2)] ws_encodings_not_Nil [OF w(2)] by (metis hd_rev rev_is_Nil_conv)
  qed (use assms in simp)
  then have "trim_end_rev (rev s) = rev s"
    by (simp add: trim_end_rev.simps)
  then show ?thesis
    by (simp add: trim_def 1)
qed

section \<open>Integers in decimal\<close>

fun digits_value :: "nat \<Rightarrow> (char \<Rightarrow> nat option) \<Rightarrow> nat \<Rightarrow> string \<Rightarrow> nat option" where
  "digits_value radix dig acc [] = Some acc"
| "digits_value radix dig acc (c # cs) =
     (case dig c of None \<Rightarrow> None | Some d \<Rightarrow> digits_value radix dig (acc * radix + d) cs)"

text \<open>
  \<^verbatim>\<open>from_str_radix\<close> of an unsigned type with \<^term>\<open>bound\<close> values: an optional
  leading \<^verbatim>\<open>+\<close>, at least one digit, and an error when the value does not fit.
\<close>

definition parse_unsigned :: "nat \<Rightarrow> (char \<Rightarrow> nat option) \<Rightarrow> nat \<Rightarrow> string \<Rightarrow> nat option" where
  "parse_unsigned radix dig bound s =
     (let ds = (case s of c # cs \<Rightarrow> if c = CHR ''+'' \<and> cs \<noteq> [] then cs else s | [] \<Rightarrow> [])
      in if ds = [] then None
         else (case digits_value radix dig 0 ds of
                 Some n \<Rightarrow> if n < bound then Some n else None
               | None \<Rightarrow> None))"

definition parse_u8 :: "string \<Rightarrow> nat option" where
  "parse_u8 = parse_unsigned 10 to_digit10 (2 ^ 8)"

definition parse_u16 :: "string \<Rightarrow> nat option" where
  "parse_u16 = parse_unsigned 10 to_digit10 (2 ^ 16)"

definition parse_u32 :: "string \<Rightarrow> nat option" where
  "parse_u32 = parse_unsigned 10 to_digit10 (2 ^ 32)"

definition parse_u64 :: "string \<Rightarrow> nat option" where
  "parse_u64 = parse_unsigned 10 to_digit10 (2 ^ 64)"

definition parse_u8_hex :: "string \<Rightarrow> nat option" where
  "parse_u8_hex = parse_unsigned 16 to_digit16 (2 ^ 8)"

definition parse_i32 :: "string \<Rightarrow> int option" where
  "parse_i32 s =
     (case s of
        c # cs \<Rightarrow>
          if c = CHR ''-'' \<and> cs \<noteq> []
          then (case digits_value 10 to_digit10 0 cs of
                  Some n \<Rightarrow> if n \<le> 2 ^ 31 then Some (- int n) else None
                | None \<Rightarrow> None)
          else map_option int (parse_unsigned 10 to_digit10 (2 ^ 31) s)
      | [] \<Rightarrow> None)"

text \<open>\<^verbatim>\<open>Display\<close> of integers.\<close>

fun show_nat :: "nat \<Rightarrow> string" where
  "show_nat n = (if n < 10 then [digit_char n] else show_nat (n div 10) @ [digit_char (n mod 10)])"

declare show_nat.simps [simp del]

definition show_int :: "int \<Rightarrow> string" where
  "show_int i = (if i < 0 then CHR ''-'' # show_nat (nat (- i)) else show_nat (nat i))"

definition show_bool :: "bool \<Rightarrow> string" where
  "show_bool b = (if b then ''true'' else ''false'')"

lemma digits_value_append:
  "digits_value r dig acc (xs @ ys) =
     (case digits_value r dig acc xs of None \<Rightarrow> None | Some a \<Rightarrow> digits_value r dig a ys)"
  by (induction xs arbitrary: acc) (auto split: option.splits)

lemma digits_value_show_nat [str_simps]: "digits_value 10 to_digit10 0 (show_nat n) = Some n"
proof (induction n rule: show_nat.induct)
  case (1 n)
  then show ?case
    by (cases "n < 10") (simp_all add: show_nat.simps [of n] digits_value_append)
qed

lemma show_nat_not_Nil [simp]: "show_nat n \<noteq> []"
  by (subst show_nat.simps) auto

lemma digit_char_is_digit [simp]: "d < 10 \<Longrightarrow> is_ascii_digit (digit_char d)"
  by (simp add: is_ascii_digit_def digit_char_def)

lemma show_nat_digits: "c \<in> set (show_nat n) \<Longrightarrow> is_ascii_digit c"
proof (induction n arbitrary: c rule: show_nat.induct)
  case (1 n)
  then show ?case
    by (cases "n < 10") (auto simp: show_nat.simps [of n])
qed

lemma show_nat_inj [simp]: "show_nat m = show_nat n \<longleftrightarrow> m = n"
  by (metis digits_value_show_nat option.inject)

lemma not_digit_simps [simp]:
  "\<not> is_ascii_digit CHR ''+''" "\<not> is_ascii_digit CHR ''-''" "\<not> is_ascii_digit CHR '':''"
  "\<not> is_ascii_digit CHR ''.''" "\<not> is_ascii_digit CHR ''x''" "\<not> is_ascii_digit CHR ''N''"
  "\<not> is_ascii_digit CHR ''/''"
  by (simp_all add: is_ascii_digit_def)

lemma hd_show_nat_digit: "is_ascii_digit (hd (show_nat n))"
  by (rule show_nat_digits [of _ n]) simp

lemma show_nat_no_sign [simp]:
  "show_nat n = c # cs \<Longrightarrow> \<not> is_ascii_digit c \<Longrightarrow> False"
  using hd_show_nat_digit [of n] by auto

lemma parse_unsigned_show_nat:
  assumes "n < bound"
  shows "parse_unsigned 10 to_digit10 bound (show_nat n) = Some n"
proof -
  obtain c cs where s: "show_nat n = c # cs"
    by (cases "show_nat n") auto
  then have "c \<noteq> CHR ''+''"
    using hd_show_nat_digit [of n] by auto
  then show ?thesis
    using assms s digits_value_show_nat [of n]
    by (simp add: parse_unsigned_def)
qed

lemma parse_unsigned_bound: "parse_unsigned r dig bound s = Some n \<Longrightarrow> n < bound"
  by (auto simp: parse_unsigned_def Let_def split: option.splits if_splits)

lemmas parse_u_defs = parse_u8_def parse_u16_def parse_u32_def parse_u64_def parse_u8_hex_def

lemma parse_u_show [str_simps]:
  "n < 2 ^ 8 \<Longrightarrow> parse_u8 (show_nat n) = Some n"
  "n < 2 ^ 16 \<Longrightarrow> parse_u16 (show_nat n) = Some n"
  "n < 2 ^ 32 \<Longrightarrow> parse_u32 (show_nat n) = Some n"
  "n < 2 ^ 64 \<Longrightarrow> parse_u64 (show_nat n) = Some n"
  by (simp_all add: parse_u_defs parse_unsigned_show_nat)

lemma parse_u_bound:
  "parse_u8 s = Some n \<Longrightarrow> n < 2 ^ 8"
  "parse_u16 s = Some n \<Longrightarrow> n < 2 ^ 16"
  "parse_u32 s = Some n \<Longrightarrow> n < 2 ^ 32"
  "parse_u64 s = Some n \<Longrightarrow> n < 2 ^ 64"
  "parse_u8_hex s = Some n \<Longrightarrow> n < 2 ^ 8"
  unfolding parse_u_defs by (erule parse_unsigned_bound)+

lemma parse_i32_bound: "parse_i32 s = Some i \<Longrightarrow> - (2 ^ 31) \<le> i \<and> i < 2 ^ 31"
  by (auto simp: parse_i32_def split: list.splits if_splits option.splits dest!: parse_unsigned_bound)

lemma parse_i32_show_int [str_simps]:
  assumes "- (2 ^ 31) \<le> i" "i < 2 ^ 31"
  shows "parse_i32 (show_int i) = Some i"
proof (cases "i < 0")
  case True
  then show ?thesis
    using assms by (simp add: parse_i32_def show_int_def digits_value_show_nat nat_le_iff)
next
  case False
  obtain c cs where s: "show_nat (nat i) = c # cs"
    by (cases "show_nat (nat i)") auto
  then have "c \<noteq> CHR ''-''"
    using hd_show_nat_digit [of "nat i"] by auto
  moreover have "parse_unsigned 10 to_digit10 (2 ^ 31) (show_nat (nat i)) = Some (nat i)"
    using assms False by (intro parse_unsigned_show_nat) (simp add: nat_less_iff)
  ultimately show ?thesis
    using assms False s by (simp add: parse_i32_def show_int_def)
qed

lemma show_int_inj [simp]: "show_int i = show_int j \<longleftrightarrow> i = j"
proof
  assume eq: "show_int i = show_int j"
  then have "i < 0 \<longleftrightarrow> j < 0"
    by (auto simp: show_int_def split: if_splits) (metis not_digit_simps(2) show_nat_no_sign)+
  with eq show "i = j"
    by (auto simp: show_int_def split: if_splits)
qed simp

lemma show_bool_inj [simp]: "show_bool a = show_bool b \<longleftrightarrow> a = b"
  by (simp add: show_bool_def)

section \<open>UTF-8\<close>

text \<open>
  The validation of \<^verbatim>\<open>String::from_utf8\<close>: the well-formed byte sequences of the
  Unicode standard (no overlong forms, no surrogates, at most U+10FFFF).
\<close>

definition utf8_cont :: "nat \<Rightarrow> bool" where
  "utf8_cont b = (128 \<le> b \<and> b \<le> 191)"

fun utf8_bytes :: "nat list \<Rightarrow> bool" where
  "utf8_bytes [] = True"
| "utf8_bytes (a # bs) =
     (if a < 128 then utf8_bytes bs
      else if 194 \<le> a \<and> a \<le> 223 then
        (case bs of b # cs \<Rightarrow> utf8_cont b \<and> utf8_bytes cs | _ \<Rightarrow> False)
      else if 224 \<le> a \<and> a \<le> 239 then
        (case bs of
           b # c # ds \<Rightarrow>
             utf8_cont b \<and> (a = 224 \<longrightarrow> 160 \<le> b) \<and> (a = 237 \<longrightarrow> b \<le> 159)
             \<and> utf8_cont c \<and> utf8_bytes ds
         | _ \<Rightarrow> False)
      else if 240 \<le> a \<and> a \<le> 244 then
        (case bs of
           b # c # d # es \<Rightarrow>
             utf8_cont b \<and> (a = 240 \<longrightarrow> 144 \<le> b) \<and> (a = 244 \<longrightarrow> b \<le> 143)
             \<and> utf8_cont c \<and> utf8_cont d \<and> utf8_bytes es
         | _ \<Rightarrow> False)
      else False)"

definition from_utf8 :: "string \<Rightarrow> string option" where
  "from_utf8 s = (if utf8_bytes (map of_char s) then Some s else None)"

lemma from_utf8_ascii: "(\<And>c. c \<in> set s \<Longrightarrow> byte c < 128) \<Longrightarrow> from_utf8 s = Some s"
proof -
  assume "\<And>c. c \<in> set s \<Longrightarrow> byte c < 128"
  then have "utf8_bytes (map of_char s)"
    by (induction s) auto
  then show ?thesis
    by (simp add: from_utf8_def)
qed

lemma from_utf8_Some [simp]: "from_utf8 s = Some t \<Longrightarrow> t = s"
  by (simp add: from_utf8_def split: if_splits)

end
