(* ===== verification/Byte_Order.thy ===== *)
theory Byte_Order
  imports Prelude "HOL-Library.Monad_Syntax"
begin

text \<open>
  Machine integers in byte strings: the value of a big-endian and of a
  little-endian byte string (\<^verbatim>\<open>from_be_bytes\<close>, \<^verbatim>\<open>from_le_bytes\<close>), their inverses
  \<^verbatim>\<open>to_be_bytes\<close> and \<^verbatim>\<open>to_le_bytes\<close> at a given width, and \<^verbatim>\<open>slice::get\<close> on a range.
  The AVIF reader, the EXIF rewriter and the RIFF writer share them.
\<close>

section \<open>Values of byte strings\<close>

definition be_val :: "string \<Rightarrow> nat" where
  "be_val bytes = foldl (\<lambda>acc b. acc * 256 + byte b) 0 bytes"

definition le_val :: "string \<Rightarrow> nat" where
  "le_val bytes = be_val (rev bytes)"

fun to_be :: "nat \<Rightarrow> nat \<Rightarrow> string" where
  "to_be 0 v = []"
| "to_be (Suc k) v = to_be k (v div 256) @ [char_of (v mod 256)]"

definition to_le :: "nat \<Rightarrow> nat \<Rightarrow> string" where
  "to_le k v = rev (to_be k v)"

lemma be_val_Nil [simp]: "be_val [] = 0"
  by (simp add: be_val_def)

lemma be_val_snoc [simp]: "be_val (bs @ [b]) = be_val bs * 256 + byte b"
  by (simp add: be_val_def)

lemma be_val_append: "be_val (as @ bs) = be_val as * 256 ^ length bs + be_val bs"
proof (induction bs rule: rev_induct)
  case (snoc b bs)
  have "be_val (as @ bs @ [b]) = be_val (as @ bs) * 256 + byte b"
    by (metis append_assoc be_val_snoc)
  then show ?case
    by (simp add: snoc algebra_simps)
qed simp

lemma be_val_bound: "be_val bs < 256 ^ length bs"
proof (induction bs rule: rev_induct)
  case (snoc b bs)
  have "x * 256 + c < y * 256" if "x < y" "c < 256" for x y c :: nat
    using that by linarith
  moreover have "byte b < 256"
    by (metis of_char_mod_256 mod_less_divisor zero_less_numeral)
  ultimately have "be_val (bs @ [b]) < 256 ^ length bs * 256"
    unfolding be_val_snoc using snoc by blast
  then show ?case
    by (simp add: mult.commute)
qed simp

lemma length_to_be [simp]: "length (to_be k v) = k"
  by (induction k arbitrary: v) auto

lemma length_to_le [simp]: "length (to_le k v) = k"
  by (simp add: to_le_def)

lemma be_val_to_be: "be_val (to_be k v) = v mod 256 ^ k"
proof (induction k arbitrary: v)
  case (Suc k)
  have "v mod (256 * 256 ^ k) = 256 * (v div 256 mod 256 ^ k) + v mod 256"
    by (rule mod_mult2_eq)
  then show ?case
    using Suc by simp
qed simp

lemma be_val_to_be_small [simp]: "v < 256 ^ k \<Longrightarrow> be_val (to_be k v) = v"
  by (simp add: be_val_to_be)

lemma le_val_to_le_small [simp]: "v < 256 ^ k \<Longrightarrow> le_val (to_le k v) = v"
  by (simp add: le_val_def to_le_def)

section \<open>Ranges\<close>

text \<open>\<^verbatim>\<open>s.get(a..b)\<close>: nothing when the range is reversed or runs past the end.\<close>

definition get_range :: "string \<Rightarrow> nat \<Rightarrow> nat \<Rightarrow> string option" where
  "get_range s a b = (if a \<le> b \<and> b \<le> length s then Some (take (b - a) (drop a s)) else None)"

text \<open>\<^verbatim>\<open>s.get(a..)\<close>.\<close>

definition get_from :: "string \<Rightarrow> nat \<Rightarrow> string option" where
  "get_from s a = (if a \<le> length s then Some (drop a s) else None)"

text \<open>\<^verbatim>\<open>usize::checked_add\<close> and \<^verbatim>\<open>checked_mul\<close> on a 64-bit target (\<^verbatim>\<open>u64\<close> has the same range).\<close>

definition checked_add :: "nat \<Rightarrow> nat \<Rightarrow> nat option" where
  "checked_add a b = (if a + b < 2 ^ 64 then Some (a + b) else None)"

definition checked_mul :: "nat \<Rightarrow> nat \<Rightarrow> nat option" where
  "checked_mul a b = (if a * b < 2 ^ 64 then Some (a * b) else None)"

lemma get_range_Some_iff:
  "get_range s a b = Some t \<longleftrightarrow> a \<le> b \<and> b \<le> length s \<and> t = take (b - a) (drop a s)"
  by (auto simp: get_range_def)

lemma get_range_length: "get_range s a b = Some t \<Longrightarrow> length t = b - a"
  by (auto simp: get_range_Some_iff)

lemma get_range_middle [simp]: "get_range (p @ t @ r) (length p) (length p + length t) = Some t"
  by (simp add: get_range_def)

end
