(* ===== verification/Float_Model.thy ===== *)
theory Float_Model
  imports Prelude Complex_Main "HOL-Library.Log_Nat"
begin

text \<open>
  IEEE~754 binary32 and binary64 arithmetic as Rust's \<^verbatim>\<open>f32\<close> and \<^verbatim>\<open>f64\<close> have it.

  A value is NaN (the program never looks at payloads), a signed infinity or a
  sign with an exact non-negative rational magnitude.  Every operation computes
  the exact rational result and rounds it once, to nearest with ties to even,
  at the precision of its format; overflow gives an infinity and the gradual
  underflow of subnormals is kept.  The theory also has the saturating casts
  to integers, \<^verbatim>\<open>FromStr\<close> and \<^verbatim>\<open>Display\<close> of floats, and the error bounds the
  geometry proofs rest on.
\<close>

section \<open>Formats and values\<close>

text \<open>
  \<^term>\<open>Fmt p q m\<close>: \<^term>\<open>p\<close> bits of significand, least exponent \<^term>\<open>q\<close> of the
  last place, and every finite value below \<^term>\<open>2 powi m\<close>.
\<close>

datatype float_format = Fmt (prec: nat) (qmin: int) (emax: int)

definition f32_fmt :: float_format where
  "f32_fmt = Fmt 24 (- 149) 128"

definition f64_fmt :: float_format where
  "f64_fmt = Fmt 53 (- 1074) 1024"

datatype rfloat = NaN | Infin (neg_inf: bool) | Fin (fneg: bool) (fmag: rat)

abbreviation pow2 :: "int \<Rightarrow> rat" where
  "pow2 k \<equiv> 2 powi k"

text \<open>The floor of the logarithm to base \<^term>\<open>b\<close> of a positive rational.\<close>

definition flog :: "nat \<Rightarrow> rat \<Rightarrow> int" where
  "flog b x =
     (let (n, d) = quotient_of x;
          k = int (floorlog b (nat n)) - int (floorlog b (nat d))
      in if of_nat b powi k \<le> x then k else k - 1)"

definition flog2 :: "rat \<Rightarrow> int" where
  "flog2 = flog 2"

definition rhe :: "rat \<Rightarrow> int" where
  "rhe x =
     (let n = \<lfloor>x\<rfloor>; r = x - of_int n
      in if r < 1 / 2 \<or> (r = 1 / 2 \<and> even n) then n else n + 1)"

definition ulp_exp :: "float_format \<Rightarrow> rat \<Rightarrow> int" where
  "ulp_exp F x = max (qmin F) (flog2 x - int (prec F) + 1)"

definition round_mag :: "float_format \<Rightarrow> rat \<Rightarrow> rat" where
  "round_mag F x =
     (if x \<le> 0 then 0 else of_int (rhe (x / pow2 (ulp_exp F x))) * pow2 (ulp_exp F x))"

definition round_float :: "float_format \<Rightarrow> bool \<Rightarrow> rat \<Rightarrow> rfloat" where
  "round_float F neg x =
     (let m = round_mag F x in if m < pow2 (emax F) then Fin neg m else Infin neg)"

text \<open>The finite values a format can hold.\<close>

definition representable :: "float_format \<Rightarrow> rat \<Rightarrow> bool" where
  "representable F x \<longleftrightarrow> 0 \<le> x \<and> x < pow2 (emax F) \<and> round_mag F x = x"

fun wf_float :: "float_format \<Rightarrow> rfloat \<Rightarrow> bool" where
  "wf_float F (Fin s m) = representable F m"
| "wf_float F _ = True"

section \<open>Rounding\<close>

lemma pow2_pos [simp]: "0 < pow2 k"
  by (simp add: zero_less_power_int)

lemma pow2_nonneg [simp]: "0 \<le> pow2 k"
  using pow2_pos [of k] by linarith

lemma pow2_ne0 [simp]: "pow2 k \<noteq> 0"
  using pow2_pos [of k] by linarith

lemma pow2_mono: "i \<le> j \<Longrightarrow> pow2 i \<le> pow2 j"
  by (simp add: power_int_increasing)

lemma pow2_less_iff [simp]: "pow2 i < pow2 j \<longleftrightarrow> i < j"
  by (metis (no_types, lifting) not_less one_less_numeral_iff pow2_mono power_int_strict_increasing
      semiring_norm(76))

lemma pow2_le_iff [simp]: "pow2 i \<le> pow2 j \<longleftrightarrow> i \<le> j"
  using pow2_less_iff [of j i] by linarith

lemma pow2_add: "pow2 (i + j) = pow2 i * pow2 j"
  by (simp add: power_int_add)

lemma pow2_diff: "pow2 (i - j) = pow2 i / pow2 j"
  by (simp add: power_int_diff)

lemma pow2_of_nat: "pow2 (int n) = 2 ^ n"
  by simp

lemma pow2_int: "0 \<le> k \<Longrightarrow> pow2 k = of_int (2 ^ nat k)"
  by (simp add: power_int_def)

lemma floorlog_rat_bounds:
  assumes "0 < n" "1 < b"
  shows "(of_nat b :: rat) ^ floorlog b n \<le> of_nat b * of_nat n"
    "(of_nat n :: rat) < of_nat b ^ floorlog b n"
proof -
  have bd: "b ^ (floorlog b n - 1) \<le> n \<and> n < b ^ floorlog b n"
    using floorlog_bounds [of n b] assms by simp
  then have "0 < floorlog b n"
    using assms by (cases "floorlog b n") auto
  then have "b ^ floorlog b n \<le> b * n"
    using bd by (cases "floorlog b n") auto
  then have "of_nat (b ^ floorlog b n) \<le> (of_nat (b * n) :: rat)"
    by (simp only: of_nat_le_iff)
  then show "(of_nat b :: rat) ^ floorlog b n \<le> of_nat b * of_nat n"
    by simp
  have "of_nat n < (of_nat (b ^ floorlog b n) :: rat)"
    using bd by (simp only: of_nat_less_iff)
  then show "(of_nat n :: rat) < of_nat b ^ floorlog b n"
    by simp
qed

lemma flog_bounds:
  assumes "0 < x" "1 < b"
  shows "of_nat b powi flog b x \<le> x" "x < of_nat b powi (flog b x + 1)"
proof -
  let ?B = "of_nat b :: rat"
  obtain num den where q: "quotient_of x = (num, den)"
    by (cases "quotient_of x")
  have den: "0 < den"
    using q by (rule quotient_of_denom_pos)
  have x: "x = of_int num / of_int den"
    using q by (rule quotient_of_div)
  have num: "0 < num"
    using assms den x by (simp add: zero_less_divide_iff)
  define m n where mn: "m = nat num" "n = nat den"
  define k where "k = int (floorlog b m) - int (floorlog b n)"
  have mn0: "0 < m" "0 < n" and xmn: "x = of_nat m / of_nat n"
    using num den mn x by auto
  have B: "0 < ?B" "?B \<noteq> 0"
    using assms by auto
  have k: "?B powi k = ?B ^ floorlog b m / ?B ^ floorlog b n"
    using B by (simp add: k_def power_int_diff)
  note ms = floorlog_rat_bounds [OF mn0(1) assms(2)] and ns = floorlog_rat_bounds [OF mn0(2) assms(2)]
  have n0: "0 < (of_nat n :: rat)"
    using mn0 by simp
  have up: "x < ?B * ?B powi k"
  proof -
    have "of_nat m / of_nat n < ?B ^ floorlog b m / of_nat n"
      using ms(2) n0 by (rule divide_strict_right_mono)
    also have "\<dots> \<le> ?B ^ floorlog b m / (?B ^ floorlog b n / ?B)"
      using ns(1) n0 B by (intro divide_left_mono) (auto simp: field_simps)
    finally show ?thesis
      by (simp add: k xmn ac_simps)
  qed
  have low: "?B powi k < ?B * x"
  proof -
    have "?B ^ floorlog b m / ?B ^ floorlog b n \<le> (?B * of_nat m) / ?B ^ floorlog b n"
      using ms(1) B by (intro divide_right_mono) auto
    also have "\<dots> < (?B * of_nat m) / of_nat n"
      using ns(2) n0 mn0 B by (intro divide_strict_left_mono) auto
    finally show ?thesis
      by (simp add: k xmn)
  qed
  have fl: "flog b x = (if ?B powi k \<le> x then k else k - 1)"
    by (simp add: flog_def q k_def mn Let_def)
  show "?B powi flog b x \<le> x"
    using low B by (auto simp: fl power_int_diff field_simps)
  show "x < ?B powi (flog b x + 1)"
    using up B by (auto simp: fl power_int_add power_int_diff not_le mult.commute)
qed

lemma flog2_bounds:
  assumes "0 < x"
  shows "pow2 (flog2 x) \<le> x" "x < pow2 (flog2 x + 1)"
  using flog_bounds [of x 2] assms by (simp_all add: flog2_def)

lemma flog2_unique:
  assumes "pow2 k \<le> x" "x < pow2 (k + 1)"
  shows "flog2 x = k"
proof -
  have x: "0 < x"
    using assms(1) pow2_pos [of k] by linarith
  have "pow2 k < pow2 (flog2 x + 1)" "pow2 (flog2 x) < pow2 (k + 1)"
    using flog2_bounds [OF x] assms by linarith+
  then show ?thesis
    by simp
qed

lemma flog2_mono: "0 < x \<Longrightarrow> x \<le> y \<Longrightarrow> flog2 x \<le> flog2 y"
proof -
  assume a: "0 < x" "x \<le> y"
  have "pow2 (flog2 x) < pow2 (flog2 y + 1)"
    using flog2_bounds [OF a(1)] flog2_bounds [of y] a by linarith
  then show ?thesis
    by simp
qed

lemma rhe_error: "\<bar>of_int (rhe x) - x\<bar> \<le> 1 / 2"
proof -
  have "of_int \<lfloor>x\<rfloor> \<le> x" "x < of_int \<lfloor>x\<rfloor> + 1"
    by linarith+
  then show ?thesis
    by (auto simp: rhe_def Let_def abs_le_iff)
qed

lemma rhe_of_int [simp]: "rhe (of_int n) = n"
  by (simp add: rhe_def)

lemma rhe_unique:
  assumes "\<bar>x - of_int n\<bar> < 1 / 2"
  shows "rhe x = n"
proof -
  have "\<bar>of_int (rhe x) - of_int n :: rat\<bar> < 1"
    using rhe_error [of x] assms by linarith
  then have "\<bar>rhe x - n\<bar> < 1"
    by linarith
  then show ?thesis
    by simp
qed

lemma rhe_mono: assumes "x \<le> y" shows "rhe x \<le> rhe y"
proof (cases "\<lfloor>x\<rfloor> = \<lfloor>y\<rfloor>")
  case True
  then show ?thesis
    using assms by (auto simp: rhe_def Let_def)
next
  case False
  have "\<lfloor>x\<rfloor> \<le> \<lfloor>y\<rfloor>"
    using assms by (rule floor_mono)
  with False have "\<lfloor>x\<rfloor> + 1 \<le> \<lfloor>y\<rfloor>"
    by simp
  then show ?thesis
    by (auto simp: rhe_def Let_def)
qed

lemma rhe_nonneg: "0 \<le> x \<Longrightarrow> 0 \<le> rhe x"
  using rhe_mono [of 0 x] rhe_of_int [of 0] by simp

lemma round_mag_nonneg [simp]: "0 \<le> round_mag F x"
  by (auto simp: round_mag_def intro!: mult_nonneg_nonneg rhe_nonneg)

lemma round_mag_0 [simp]: "round_mag F 0 = 0"
  by (simp add: round_mag_def)

lemma round_mag_error:
  assumes "0 < x"
  shows "\<bar>round_mag F x - x\<bar> \<le> pow2 (ulp_exp F x) / 2"
proof -
  let ?u = "pow2 (ulp_exp F x)"
  have "round_mag F x - x = (of_int (rhe (x / ?u)) - x / ?u) * ?u"
    using assms by (simp add: round_mag_def algebra_simps)
  then have "\<bar>round_mag F x - x\<bar> = \<bar>of_int (rhe (x / ?u)) - x / ?u\<bar> * ?u"
    by (simp add: abs_mult)
  also have "\<dots> \<le> 1 / 2 * ?u"
    using rhe_error by (intro mult_right_mono) auto
  finally show ?thesis
    by simp
qed

text \<open>The relative error of one rounding in the normal range.\<close>

lemma round_mag_rel_error:
  assumes "pow2 (qmin F + int (prec F) - 1) \<le> x"
  shows "\<bar>round_mag F x - x\<bar> \<le> x * pow2 (- int (prec F))"
proof -
  have x: "0 < x"
    using assms pow2_pos [of "qmin F + int (prec F) - 1"] by linarith
  have "pow2 (qmin F + int (prec F) - 1) < pow2 (flog2 x + 1)"
    using assms flog2_bounds(2) [OF x] by (rule le_less_trans)
  then have "ulp_exp F x = flog2 x - int (prec F) + 1"
    by (simp add: ulp_exp_def)
  then have "pow2 (ulp_exp F x) = pow2 (flog2 x + - int (prec F) + 1)"
    by simp
  then have "pow2 (ulp_exp F x) / 2 = pow2 (flog2 x) * pow2 (- int (prec F))"
    by (simp only: pow2_add) simp
  also have "\<dots> \<le> x * pow2 (- int (prec F))"
    using flog2_bounds(1) [OF x] by (intro mult_right_mono) auto
  finally show ?thesis
    using round_mag_error [OF x, of F] by linarith
qed

lemma round_mag_multiple:
  assumes "0 < x" "0 \<le> k - ulp_exp F x"
  shows "rhe (pow2 k / pow2 (ulp_exp F x)) = 2 ^ nat (k - ulp_exp F x)"
    "of_int (2 ^ nat (k - ulp_exp F x)) * pow2 (ulp_exp F x) = pow2 k"
proof -
  have e: "pow2 k / pow2 (ulp_exp F x) = of_int (2 ^ nat (k - ulp_exp F x))"
    using pow2_int [OF assms(2)] by (simp only: pow2_diff)
  show "rhe (pow2 k / pow2 (ulp_exp F x)) = 2 ^ nat (k - ulp_exp F x)"
    by (simp only: e rhe_of_int)
  show "of_int (2 ^ nat (k - ulp_exp F x)) * pow2 (ulp_exp F x) = pow2 k"
    by (simp only: e [symmetric]) simp
qed

lemma round_mag_mono:
  assumes p: "0 < prec F" and xy: "x \<le> y"
  shows "round_mag F x \<le> round_mag F y"
proof (cases "0 < x")
  case False
  then show ?thesis
    by (simp add: round_mag_def [of _ x])
next
  case x: True
  then have y: "0 < y"
    using xy by auto
  let ?a = "ulp_exp F x" and ?b = "ulp_exp F y" and ?k = "flog2 y"
  have ab: "?a \<le> ?b"
    using flog2_mono [OF x xy] by (simp add: ulp_exp_def)
  show ?thesis
  proof (cases "?a = ?b")
    case True
    have "rhe (x / pow2 ?b) \<le> rhe (y / pow2 ?b)"
      using xy by (intro rhe_mono divide_right_mono) auto
    then show ?thesis
      using x y True by (simp add: round_mag_def)
  next
    case False
    have b: "?b = ?k - int (prec F) + 1" "flog2 x < ?k"
      using ab False by (auto simp: ulp_exp_def max_def split: if_splits)
    then have kb: "0 \<le> ?k - ?b" "0 \<le> ?k - ?a"
      using p ab by auto
    have "x \<le> pow2 ?k"
      using flog2_bounds(2) [OF x] b(2) pow2_mono [of "flog2 x + 1" ?k] by linarith
    then have "rhe (x / pow2 ?a) \<le> rhe (pow2 ?k / pow2 ?a)"
      by (intro rhe_mono divide_right_mono) auto
    then have "round_mag F x \<le> of_int (2 ^ nat (?k - ?a)) * pow2 ?a"
      unfolding round_mag_multiple(1) [OF x kb(2)] round_mag_def
      using x by (auto simp del: of_int_power intro!: mult_right_mono)
    also have "\<dots> = of_int (2 ^ nat (?k - ?b)) * pow2 ?b"
      by (simp only: round_mag_multiple(2) [OF x kb(2)] round_mag_multiple(2) [OF y kb(1)])
    also have "\<dots> \<le> round_mag F y"
    proof -
      have "rhe (pow2 ?k / pow2 ?b) \<le> rhe (y / pow2 ?b)"
        using flog2_bounds(1) [OF y] by (intro rhe_mono divide_right_mono) auto
      then show ?thesis
        unfolding round_mag_multiple(1) [OF y kb(1)] round_mag_def
        using y by (auto simp del: of_int_power intro!: mult_right_mono)
    qed
    finally show ?thesis .
  qed
qed

text \<open>Multiples of the last place are kept exactly.\<close>

lemma round_mag_exact:
  assumes "0 < x" "x = of_int n * pow2 (ulp_exp F x)"
  shows "round_mag F x = x"
proof -
  have "x / pow2 (ulp_exp F x) = of_int n"
    by (subst assms(2)) simp
  then show ?thesis
    using assms by (simp add: round_mag_def)
qed

lemma round_mag_dyadic:
  assumes "x = of_int n * pow2 e" "0 \<le> n" "n < 2 ^ prec F" "qmin F \<le> e"
  shows "round_mag F x = x"
proof (cases "n = 0")
  case True
  then show ?thesis using assms by simp
next
  case False
  then have n: "0 < n" using assms by simp
  have x: "0 < x"
    using n by (simp add: assms(1))
  have "(of_int n :: rat) < of_int (2 ^ prec F)"
    using assms(3) by (simp only: of_int_less_iff)
  then have "x < pow2 (int (prec F)) * pow2 e"
    by (simp add: assms(1))
  then have "pow2 (flog2 x) < pow2 (int (prec F) + e)"
    using flog2_bounds(1) [OF x] by (simp add: pow2_add)
  then have "flog2 x < int (prec F) + e"
    by simp
  then have e: "ulp_exp F x \<le> e"
    using assms(4) by (simp add: ulp_exp_def)
  have "x = of_int (n * 2 ^ nat (e - ulp_exp F x)) * pow2 (ulp_exp F x)"
  proof -
    have "of_int (2 ^ nat (e - ulp_exp F x)) * pow2 (ulp_exp F x) = pow2 e"
      using round_mag_multiple(2) [OF x, of e F] e by simp
    then show ?thesis
      by (simp only: assms(1) of_int_mult mult.assoc)
  qed
  then show ?thesis
    by (rule round_mag_exact [OF x])
qed

lemma round_mag_idem [simp]:
  assumes p: "0 < prec F"
  shows "round_mag F (round_mag F x) = round_mag F x"
proof (cases "0 < x")
  case x: True
  let ?e = "ulp_exp F x"
  let ?n = "rhe (x / pow2 ?e)"
  have rx: "round_mag F x = of_int ?n * pow2 ?e"
    using x by (simp add: round_mag_def)
  have "x < pow2 (int (prec F) + ?e)"
  proof -
    have "flog2 x + 1 \<le> int (prec F) + ?e"
      by (simp add: ulp_exp_def)
    then show ?thesis
      using flog2_bounds(2) [OF x] by (meson less_le_trans pow2_mono)
  qed
  then have "x / pow2 ?e \<le> of_int (2 ^ prec F)"
    by (simp add: pow2_add field_simps)
  then have "?n \<le> 2 ^ prec F"
    using rhe_mono [of "x / pow2 ?e" "of_int (2 ^ prec F)"] by (simp only: rhe_of_int)
  moreover have n0: "0 \<le> ?n"
    using x by (intro rhe_nonneg) auto
  moreover have qe: "qmin F \<le> ?e"
    by (simp add: ulp_exp_def)
  ultimately consider "?n < 2 ^ prec F" | "?n = 2 ^ prec F"
    by linarith
  then show ?thesis
  proof cases
    case 1
    then show ?thesis
      using round_mag_dyadic [OF rx n0 _ qe] by simp
  next
    case 2
    have "round_mag F x = of_int 1 * pow2 (int (prec F) + ?e)"
      by (simp add: rx 2 pow2_add)
    then show ?thesis
      by (rule round_mag_dyadic) (use p qe in auto)
  qed
qed (simp add: round_mag_def)

lemma representable_round_mag:
  "0 < prec F \<Longrightarrow> round_mag F x < pow2 (emax F) \<Longrightarrow> representable F (round_mag F x)"
  by (simp add: representable_def)

lemma wf_round_float: "0 < prec F \<Longrightarrow> wf_float F (round_float F s x)"
  by (simp add: round_float_def Let_def representable_round_mag)

lemma fmt_simps [simp]:
  "prec f32_fmt = 24" "qmin f32_fmt = - 149" "emax f32_fmt = 128"
  "prec f64_fmt = 53" "qmin f64_fmt = - 1074" "emax f64_fmt = 1024"
  by (simp_all add: f32_fmt_def f64_fmt_def)

text \<open>The rounding of a representable value is the value itself.\<close>

lemma round_float_representable:
  "representable F x \<Longrightarrow> round_float F s x = Fin s x"
  by (simp add: representable_def round_float_def Let_def)

lemma representable_nat:
  assumes "n < 2 ^ prec F" "qmin F \<le> 0" "int (prec F) \<le> emax F"
  shows "representable F (of_nat n)"
proof -
  have "(of_nat n :: rat) < of_nat (2 ^ prec F)"
    using assms(1) by (simp only: of_nat_less_iff)
  also have "of_nat (2 ^ prec F) = pow2 (int (prec F))"
    by simp
  also have "\<dots> \<le> pow2 (emax F)"
    using assms(3) by (rule pow2_mono)
  finally have "(of_nat n :: rat) < pow2 (emax F)" .
  moreover have "round_mag F (of_nat n) = of_nat n"
    using assms by (intro round_mag_dyadic [of _ "int n" 0]) (auto simp flip: of_nat_less_iff)
  ultimately show ?thesis
    by (simp add: representable_def)
qed

section \<open>Operations\<close>

fun fval :: "rfloat \<Rightarrow> rat" where
  "fval (Fin s m) = (if s then - m else m)"
| "fval _ = 0"

fun is_finite :: "rfloat \<Rightarrow> bool" where
  "is_finite (Fin s m) = True"
| "is_finite _ = False"

fun is_nan :: "rfloat \<Rightarrow> bool" where
  "is_nan NaN = True"
| "is_nan _ = False"

text \<open>Comparisons: every comparison with NaN is false; zeros of either sign are equal.\<close>

fun f_lt :: "rfloat \<Rightarrow> rfloat \<Rightarrow> bool" where
  "f_lt NaN _ = False"
| "f_lt _ NaN = False"
| "f_lt (Infin s) (Infin t) = (s \<and> \<not> t)"
| "f_lt (Infin s) (Fin _ _) = s"
| "f_lt (Fin _ _) (Infin t) = (\<not> t)"
| "f_lt (Fin s m) (Fin t n) = (fval (Fin s m) < fval (Fin t n))"

fun f_le :: "rfloat \<Rightarrow> rfloat \<Rightarrow> bool" where
  "f_le NaN _ = False"
| "f_le _ NaN = False"
| "f_le (Infin s) (Infin t) = (s \<or> \<not> t)"
| "f_le (Infin s) (Fin _ _) = s"
| "f_le (Fin _ _) (Infin t) = (\<not> t)"
| "f_le (Fin s m) (Fin t n) = (fval (Fin s m) \<le> fval (Fin t n))"

definition f_eq :: "rfloat \<Rightarrow> rfloat \<Rightarrow> bool" where
  "f_eq a b = (f_le a b \<and> f_le b a)"

text \<open>\<^verbatim>\<open>f64::min\<close> and \<^verbatim>\<open>f64::max\<close> ignore a NaN operand.\<close>

definition f_min :: "rfloat \<Rightarrow> rfloat \<Rightarrow> rfloat" where
  "f_min a b = (if is_nan a then b else if is_nan b then a else if f_lt b a then b else a)"

definition f_max :: "rfloat \<Rightarrow> rfloat \<Rightarrow> rfloat" where
  "f_max a b = (if is_nan a then b else if is_nan b then a else if f_lt a b then b else a)"

fun f_neg :: "rfloat \<Rightarrow> rfloat" where
  "f_neg NaN = NaN"
| "f_neg (Infin s) = Infin (\<not> s)"
| "f_neg (Fin s m) = Fin (\<not> s) m"

fun f_mul :: "float_format \<Rightarrow> rfloat \<Rightarrow> rfloat \<Rightarrow> rfloat" where
  "f_mul F NaN _ = NaN"
| "f_mul F _ NaN = NaN"
| "f_mul F (Infin s) (Infin t) = Infin (s \<noteq> t)"
| "f_mul F (Infin s) (Fin t n) = (if n = 0 then NaN else Infin (s \<noteq> t))"
| "f_mul F (Fin s m) (Infin t) = (if m = 0 then NaN else Infin (s \<noteq> t))"
| "f_mul F (Fin s m) (Fin t n) = round_float F (s \<noteq> t) (m * n)"

fun f_div :: "float_format \<Rightarrow> rfloat \<Rightarrow> rfloat \<Rightarrow> rfloat" where
  "f_div F NaN _ = NaN"
| "f_div F _ NaN = NaN"
| "f_div F (Infin s) (Infin t) = NaN"
| "f_div F (Infin s) (Fin t n) = Infin (s \<noteq> t)"
| "f_div F (Fin s m) (Infin t) = Fin (s \<noteq> t) 0"
| "f_div F (Fin s m) (Fin t n) =
     (if n = 0 then (if m = 0 then NaN else Infin (s \<noteq> t)) else round_float F (s \<noteq> t) (m / n))"

fun f_add :: "float_format \<Rightarrow> rfloat \<Rightarrow> rfloat \<Rightarrow> rfloat" where
  "f_add F NaN _ = NaN"
| "f_add F _ NaN = NaN"
| "f_add F (Infin s) (Infin t) = (if s = t then Infin s else NaN)"
| "f_add F (Infin s) (Fin t n) = Infin s"
| "f_add F (Fin s m) (Infin t) = Infin t"
| "f_add F (Fin s m) (Fin t n) =
     (let v = fval (Fin s m) + fval (Fin t n)
      in if v = 0 then Fin (s \<and> t) 0 else round_float F (v < 0) \<bar>v\<bar>)"

definition f_sub :: "float_format \<Rightarrow> rfloat \<Rightarrow> rfloat \<Rightarrow> rfloat" where
  "f_sub F a b = f_add F a (f_neg b)"

text \<open>\<^verbatim>\<open>round\<close> goes half away from zero; \<^verbatim>\<open>ceil\<close> and \<^verbatim>\<open>floor\<close> follow the sign.\<close>

fun f_round :: "rfloat \<Rightarrow> rfloat" where
  "f_round (Fin s m) = Fin s (of_int \<lfloor>m + 1 / 2\<rfloor>)"
| "f_round x = x"

fun f_ceil :: "rfloat \<Rightarrow> rfloat" where
  "f_ceil (Fin s m) = Fin s (of_int (if s then \<lfloor>m\<rfloor> else \<lceil>m\<rceil>))"
| "f_ceil x = x"

fun f_floor :: "rfloat \<Rightarrow> rfloat" where
  "f_floor (Fin s m) = Fin s (of_int (if s then \<lceil>m\<rceil> else \<lfloor>m\<rfloor>))"
| "f_floor x = x"

text \<open>\<^verbatim>\<open>as u32\<close> and friends: truncation, saturating at the bounds, NaN to zero.\<close>

fun f_as_uint :: "nat \<Rightarrow> rfloat \<Rightarrow> nat" where
  "f_as_uint bound NaN = 0"
| "f_as_uint bound (Infin s) = (if s then 0 else bound - 1)"
| "f_as_uint bound (Fin s m) = (if s then 0 else min (nat \<lfloor>m\<rfloor>) (bound - 1))"

fun f_as_int :: "int \<Rightarrow> int \<Rightarrow> rfloat \<Rightarrow> int" where
  "f_as_int lo hi NaN = 0"
| "f_as_int lo hi (Infin s) = (if s then lo else hi)"
| "f_as_int lo hi (Fin s m) = max lo (min hi (if s then - \<lfloor>m\<rfloor> else \<lfloor>m\<rfloor>))"

definition f64_of_nat :: "nat \<Rightarrow> rfloat" where
  "f64_of_nat n = round_float f64_fmt False (of_nat n)"

definition f32_of_nat :: "nat \<Rightarrow> rfloat" where
  "f32_of_nat n = round_float f32_fmt False (of_nat n)"

abbreviation f_one :: rfloat where
  "f_one \<equiv> Fin False 1"

abbreviation f_zero :: rfloat where
  "f_zero \<equiv> Fin False 0"

lemma f64_of_nat_exact: "n < 2 ^ 53 \<Longrightarrow> f64_of_nat n = Fin False (of_nat n)"
  by (simp add: f64_of_nat_def round_float_representable representable_nat)

lemma f32_of_nat_exact: "n < 2 ^ 24 \<Longrightarrow> f32_of_nat n = Fin False (of_nat n)"
  by (simp add: f32_of_nat_def round_float_representable representable_nat)

lemma representable_small_nats [simp]:
  "representable f32_fmt 0" "representable f64_fmt 0"
  "representable f32_fmt 1" "representable f64_fmt 1"
  using representable_nat [of 0 f32_fmt] representable_nat [of 0 f64_fmt]
    representable_nat [of 1 f32_fmt] representable_nat [of 1 f64_fmt] by simp_all

lemma wf_f_mul [simp]: "0 < prec F \<Longrightarrow> wf_float F (f_mul F a b)"
  by (induction F a b rule: f_mul.induct) (auto simp: wf_round_float)

lemma f_as_uint_bound: "0 < bound \<Longrightarrow> f_as_uint bound x < bound"
  by (cases x) auto

section \<open>Decimal input\<close>

text \<open>
  \<^verbatim>\<open>FromStr\<close> for floats: an optional sign, then \<^verbatim>\<open>inf\<close>, \<^verbatim>\<open>infinity\<close> or \<^verbatim>\<open>nan\<close> in any
  case, or decimal digits with an optional point (at least one digit) and an
  optional exponent; the exact value is rounded once.
\<close>

definition parse_exponent :: "string \<Rightarrow> int option" where
  "parse_exponent s =
     (let (neg, ds) = (case s of
           c # cs \<Rightarrow> if c = CHR ''-'' then (True, cs) else if c = CHR ''+'' then (False, cs) else (False, s)
         | [] \<Rightarrow> (False, []))
      in if ds = [] then None
         else map_option (\<lambda>n. if neg then - int n else int n) (digits_value 10 to_digit10 0 ds))"

definition parse_decimal :: "string \<Rightarrow> rat option" where
  "parse_decimal s =
     (let ip = takeWhile is_ascii_digit s;
          r1 = dropWhile is_ascii_digit s;
          (fp, r2) = (case r1 of
              c # cs \<Rightarrow> if c = CHR ''.'' then (takeWhile is_ascii_digit cs, dropWhile is_ascii_digit cs)
                        else ([], r1)
            | [] \<Rightarrow> ([], []))
      in if ip = [] \<and> fp = [] then None
         else case digits_value 10 to_digit10 0 (ip @ fp) of
           None \<Rightarrow> None
         | Some m \<Rightarrow>
             (case r2 of
                [] \<Rightarrow> Some (of_nat m * 10 powi (- int (length fp)))
              | c # cs \<Rightarrow>
                  if c = CHR ''e'' \<or> c = CHR ''E''
                  then map_option (\<lambda>e. of_nat m * 10 powi (e - int (length fp))) (parse_exponent cs)
                  else None))"

definition parse_float_fmt :: "float_format \<Rightarrow> string \<Rightarrow> rfloat option" where
  "parse_float_fmt F s =
     (let (neg, t) = (case s of
           c # cs \<Rightarrow> if c = CHR ''-'' then (True, cs) else if c = CHR ''+'' then (False, cs) else (False, s)
         | [] \<Rightarrow> (False, []))
      in case parse_decimal t of
           Some x \<Rightarrow> Some (round_float F neg x)
         | None \<Rightarrow>
             (let l = to_ascii_lowercase t
              in if l = ''nan'' then Some NaN
                 else if l = ''inf'' \<or> l = ''infinity'' then Some (Infin neg)
                 else None))"

definition parse_f32 :: "string \<Rightarrow> rfloat option" where
  "parse_f32 = parse_float_fmt f32_fmt"

definition parse_f64 :: "string \<Rightarrow> rfloat option" where
  "parse_f64 = parse_float_fmt f64_fmt"

lemma parse_float_fmt_wf: "0 < prec F \<Longrightarrow> parse_float_fmt F s = Some x \<Longrightarrow> wf_float F x"
  by (auto simp: parse_float_fmt_def Let_def wf_round_float
      split: list.splits if_splits option.splits prod.splits)

lemma parse_f32_wf: "parse_f32 s = Some x \<Longrightarrow> wf_float f32_fmt x"
  by (simp add: parse_f32_def parse_float_fmt_wf)

lemma parse_f64_wf: "parse_f64 s = Some x \<Longrightarrow> wf_float f64_fmt x"
  by (simp add: parse_f64_def parse_float_fmt_wf)

end
