(* ===== verification/Params.thy ===== *)
theory Params
  imports Float_Model
begin

text \<open>
  The request model of \<^verbatim>\<open>src/src/models/params.rs\<close>: the option enums with their
  \<^verbatim>\<open>Display\<close> and \<^verbatim>\<open>FromStr\<close> forms, and the records \<^verbatim>\<open>Crop\<close>, \<^verbatim>\<open>Padding\<close>,
  \<^verbatim>\<open>TrimOptions\<close>, \<^verbatim>\<open>WatermarkQuery\<close> and \<^verbatim>\<open>ResizeQuery\<close>.  Record fields carry a
  short prefix naming their record.  \<^verbatim>\<open>u8\<close>, \<^verbatim>\<open>u32\<close> and \<^verbatim>\<open>u64\<close> fields are natural
  numbers whose ranges are the well-formedness predicate \<^verbatim>\<open>wf_resize_query\<close>.

  An error message is kept as the distinguishing words of its format template
  with the values it interpolates, so that distinct messages stay distinct
  without their full rendering.
\<close>

section \<open>Messages\<close>

datatype msg_arg = AStr string | ANat nat | AInt int | AFloat rfloat

datatype message = Msg (template: string) (msg_args: "msg_arg list")

section \<open>Formats and resize types\<close>

datatype image_format = Jpg | Png | Webp | Avif | Gif | AutoFormat

definition image_format_display :: "image_format \<Rightarrow> string" where
  "image_format_display f = (case f of
       Jpg \<Rightarrow> ''jpg'' | Png \<Rightarrow> ''png'' | Webp \<Rightarrow> ''webp'' | Avif \<Rightarrow> ''avif'' | Gif \<Rightarrow> ''gif''
     | AutoFormat \<Rightarrow> ''auto'')"

definition image_format_from_str :: "string \<Rightarrow> (message, image_format) result" where
  "image_format_from_str s =
     (if s = ''jpg'' \<or> s = ''jpeg'' then Inr Jpg
      else if s = ''png'' then Inr Png
      else if s = ''webp'' then Inr Webp
      else if s = ''avif'' then Inr Avif
      else if s = ''gif'' then Inr Gif
      else if s = ''auto'' then Inr AutoFormat
      else Inl (Msg ''unsupported image format'' [AStr s]))"

datatype resize_type = Fit | Fill | Force | AutoResize

definition resize_type_display :: "resize_type \<Rightarrow> string" where
  "resize_type_display t = (case t of
       Fit \<Rightarrow> ''fit'' | Fill \<Rightarrow> ''fill'' | Force \<Rightarrow> ''force'' | AutoResize \<Rightarrow> ''auto'')"

definition resize_type_from_str :: "string \<Rightarrow> (message, resize_type) result" where
  "resize_type_from_str s =
     (if s = '''' \<or> s = ''fit'' then Inr Fit
      else if s = ''fill'' then Inr Fill
      else if s = ''force'' then Inr Force
      else if s = ''auto'' then Inr AutoResize
      else Inl (Msg ''unsupported resize type'' [AStr s]))"

section \<open>Gravity, crop, padding, trim\<close>

datatype gravity =
    Center | North | South | East | West | NorthEast | NorthWest | SouthEast | SouthWest
  | FocusPoint (fp_x: rfloat) (fp_y: rfloat)

datatype crop_dimension = Full | Absolute nat | Relative rfloat

record crop =
  crop_width :: crop_dimension
  crop_height :: crop_dimension
  crop_gravity :: gravity

record padding =
  pad_top :: nat
  pad_right :: nat
  pad_bottom :: nat
  pad_left :: nat

type_synonym rgb = "nat \<times> nat \<times> nat"

record trim_options =
  trim_threshold :: rfloat
  trim_color :: "rgb option"
  trim_equal_hor :: bool
  trim_equal_ver :: bool

section \<open>Watermarks\<close>

datatype watermark_position =
    WmCenter | WmNorth | WmSouth | WmEast | WmWest | WmNorthEast | WmNorthWest | WmSouthEast | WmSouthWest

record watermark_query =
  wq_opacity :: rfloat
  wq_position :: watermark_position
  wq_x_offset :: rfloat
  wq_y_offset :: rfloat
  wq_scale :: rfloat
  wq_url :: "string option"
  wq_size :: "(nat \<times> nat) option"
  wq_rotate :: rfloat
  wq_shadow :: "rfloat option"

section \<open>The resize query\<close>

record resize_query =
  rq_url :: string
  rq_width :: "nat option"
  rq_height :: "nat option"
  rq_resize_type :: resize_type
  rq_format :: image_format
  rq_blur_sigma :: "rfloat option"
  rq_grayscale :: "bool option"
  rq_enlarge :: bool
  rq_quality :: "nat option"
  rq_jpeg_quality :: "nat option"
  rq_webp_quality :: "nat option"
  rq_webp_lossless :: "bool option"
  rq_jpeg_progressive :: "bool option"
  rq_jpeg_no_subsampling :: "bool option"
  rq_max_bytes :: "nat option"
  rq_background :: "rgb option"
  rq_autorotate :: bool
  rq_strip_metadata :: bool
  rq_crop :: "crop option"
  rq_gravity :: gravity
  rq_rotate :: int
  rq_flip_horizontal :: bool
  rq_flip_vertical :: bool
  rq_trim :: "trim_options option"
  rq_extend :: bool
  rq_padding :: "padding option"
  rq_zoom_x :: rfloat
  rq_zoom_y :: rfloat
  rq_dpr :: rfloat
  rq_min_width :: "nat option"
  rq_min_height :: "nat option"
  rq_watermark :: "watermark_query option"

definition resize_query_default :: resize_query where
  "resize_query_default = \<lparr>
     rq_url = '''', rq_width = None, rq_height = None, rq_resize_type = Fit, rq_format = Jpg,
     rq_blur_sigma = None, rq_grayscale = None, rq_enlarge = False, rq_quality = None,
     rq_jpeg_quality = None, rq_webp_quality = None, rq_webp_lossless = None,
     rq_jpeg_progressive = None, rq_jpeg_no_subsampling = None, rq_max_bytes = None,
     rq_background = None, rq_autorotate = True, rq_strip_metadata = True, rq_crop = None,
     rq_gravity = Center, rq_rotate = 0, rq_flip_horizontal = False, rq_flip_vertical = False,
     rq_trim = None, rq_extend = False, rq_padding = None, rq_zoom_x = f_one, rq_zoom_y = f_one,
     rq_dpr = f_one, rq_min_width = None, rq_min_height = None, rq_watermark = None \<rparr>"

section \<open>Round trips of the enums\<close>

lemma image_format_round_trip: "image_format_from_str (image_format_display f) = Inr f"
  by (cases f) (simp_all add: image_format_from_str_def image_format_display_def)

lemma image_format_display_inj [simp]: "image_format_display f = image_format_display g \<longleftrightarrow> f = g"
  by (metis image_format_round_trip sum.inject(2))

lemma resize_type_round_trip: "resize_type_from_str (resize_type_display t) = Inr t"
  by (cases t) (simp_all add: resize_type_from_str_def resize_type_display_def)

lemma resize_type_display_inj [simp]: "resize_type_display f = resize_type_display g \<longleftrightarrow> f = g"
  by (metis resize_type_round_trip sum.inject(2))

end
