(* ===== verification/Performance.thy ===== *)
theory Performance
  imports Float_Model
begin

text \<open>
  The operating limits of the service: the CPU count a container is entitled to
  (\<^verbatim>\<open>src/src/modules/utils/cgroup.rs\<close>) and the performance configuration
  (\<^verbatim>\<open>src/src/config/performance.rs\<close>) with its profiles, its environment overrides
  and its runtime counters.

  The contents of the cgroup files and the host's core count are arguments.  The
  environment is the record of the variables \<^verbatim>\<open>EnvConfig\<close> has already typed.  A
  profile name is compared after Unicode lower casing in the code; no non-ASCII
  character lowers to a letter of the three names, so lowering the ASCII letters
  decides the same.
\<close>

section \<open>The CPU count of a container\<close>

function split_ws_from :: "string \<Rightarrow> string \<Rightarrow> string list" where
  "split_ws_from w s =
     (case strip_any ws_encodings s of
        Some t \<Rightarrow> (if w = [] then [] else [w]) @ split_ws_from [] t
      | None \<Rightarrow>
          (case s of
             [] \<Rightarrow> if w = [] then [] else [w]
           | c # cs \<Rightarrow> split_ws_from (w @ [c]) cs))"
  by auto
termination
  by (relation "measure (\<lambda>(w, s). length s)") (auto dest: strip_any_length ws_encodings_not_Nil)

declare split_ws_from.simps [simp del]

definition split_whitespace :: "string \<Rightarrow> string list" where
  "split_whitespace s = split_ws_from [] s"

definition parse_i64 :: "string \<Rightarrow> int option" where
  "parse_i64 s =
     (case s of
        c # cs \<Rightarrow>
          if c = CHR ''-'' \<and> cs \<noteq> []
          then (case digits_value 10 to_digit10 0 cs of
                  Some n \<Rightarrow> if n \<le> 2 ^ 63 then Some (- int n) else None
                | None \<Rightarrow> None)
          else map_option int (parse_unsigned 10 to_digit10 (2 ^ 63) s)
      | [] \<Rightarrow> None)"

definition cgroup_v2_cpu_max :: string where
  "cgroup_v2_cpu_max = ''/sys/fs/cgroup/cpu.max''"

definition cgroup_v1_quota :: string where
  "cgroup_v1_quota = ''/sys/fs/cgroup/cpu/cpu.cfs_quota_us''"

definition cgroup_v1_period :: string where
  "cgroup_v1_period = ''/sys/fs/cgroup/cpu/cpu.cfs_period_us''"

definition quota_to_cpu_count :: "nat \<Rightarrow> nat \<Rightarrow> nat option" where
  "quota_to_cpu_count quota period =
     (if period = 0 then None else Some (max (quota div period + (if quota mod period > 0 then 1 else 0)) 1))"

definition parse_cgroup_v2_cpu_max :: "string \<Rightarrow> nat option" where
  "parse_cgroup_v2_cpu_max contents =
     (case split_whitespace contents of
        quota # period_text # _ \<Rightarrow>
          Option.bind (parse_u64 period_text) (\<lambda>period.
            if quota = ''max'' then None
            else Option.bind (parse_u64 quota) (\<lambda>q. quota_to_cpu_count q period))
      | _ \<Rightarrow> None)"

definition parse_cgroup_v1_quota :: "string \<Rightarrow> string \<Rightarrow> nat option" where
  "parse_cgroup_v1_quota quota_text period_text =
     Option.bind (parse_i64 (trim quota_text)) (\<lambda>quota.
     Option.bind (parse_u64 (trim period_text)) (\<lambda>period.
       if quota < 0 then None else quota_to_cpu_count (nat quota) period))"

text \<open>\<^term>\<open>read\<close> is \<^verbatim>\<open>fs::read_to_string\<close>, with an error as \<^term>\<open>None\<close>.\<close>

definition cgroup_cpu_quota ::
  "(string \<Rightarrow> string option) \<Rightarrow> string \<Rightarrow> string \<Rightarrow> string \<Rightarrow> nat option" where
  "cgroup_cpu_quota read v2_path v1_quota_path v1_period_path =
     (case Option.bind (read v2_path) parse_cgroup_v2_cpu_max of
        Some cpus \<Rightarrow> Some cpus
      | None \<Rightarrow>
          (case (read v1_quota_path, read v1_period_path) of
             (Some quota, Some period) \<Rightarrow> parse_cgroup_v1_quota quota period
           | _ \<Rightarrow> None))"

definition effective_cpu_count :: "(string \<Rightarrow> string option) \<Rightarrow> nat \<Rightarrow> nat" where
  "effective_cpu_count read num_cpus =
     (let host_cpus = max num_cpus 1 in
      case cgroup_cpu_quota read cgroup_v2_cpu_max cgroup_v1_quota cgroup_v1_period of
        Some quota \<Rightarrow> max 1 (min quota host_cpus)
      | None \<Rightarrow> host_cpus)"

section \<open>The performance configuration\<close>

text \<open>Durations are in whole seconds, as the code only ever builds them.\<close>

record performance_config =
  pc_max_concurrent_downloads :: nat
  pc_max_concurrent_processing :: nat
  pc_http_timeout :: nat
  pc_max_image_size :: nat
  pc_cpu_thread_pool_size :: "nat option"
  pc_enable_http2 :: bool
  pc_connection_pool_size :: nat
  pc_keep_alive_timeout :: nat
  pc_max_redirects :: nat
  pc_allowed_sources :: "string list option"
  pc_allow_loopback_source_addresses :: bool
  pc_allow_link_local_source_addresses :: bool
  pc_max_src_resolution_mp :: nat
  pc_max_output_width :: nat
  pc_max_output_height :: nat
  pc_max_animation_frames :: nat
  pc_watermark_url :: "string option"
  pc_jpeg_progressive_default :: bool
  pc_jpeg_no_subsampling_default :: bool

definition default_config :: "nat \<Rightarrow> performance_config" where
  "default_config cpus =
     \<lparr> pc_max_concurrent_downloads = 20, pc_max_concurrent_processing = cpus, pc_http_timeout = 30,
       pc_max_image_size = 50 * 1024 * 1024, pc_cpu_thread_pool_size = None, pc_enable_http2 = True,
       pc_connection_pool_size = 50, pc_keep_alive_timeout = 60, pc_max_redirects = 5, pc_allowed_sources = None,
       pc_allow_loopback_source_addresses = False, pc_allow_link_local_source_addresses = False,
       pc_max_src_resolution_mp = 50, pc_max_output_width = 4096, pc_max_output_height = 4096,
       pc_max_animation_frames = 512, pc_watermark_url = None, pc_jpeg_progressive_default = False,
       pc_jpeg_no_subsampling_default = False \<rparr>"

definition high_throughput :: "nat \<Rightarrow> performance_config" where
  "high_throughput cpus =
     \<lparr> pc_max_concurrent_downloads = 50, pc_max_concurrent_processing = cpus * 2, pc_http_timeout = 15,
       pc_max_image_size = 100 * 1024 * 1024, pc_cpu_thread_pool_size = Some cpus, pc_enable_http2 = True,
       pc_connection_pool_size = 100, pc_keep_alive_timeout = 120, pc_max_redirects = 5, pc_allowed_sources = None,
       pc_allow_loopback_source_addresses = False, pc_allow_link_local_source_addresses = False,
       pc_max_src_resolution_mp = 50, pc_max_output_width = 4096, pc_max_output_height = 4096,
       pc_max_animation_frames = 512, pc_watermark_url = None, pc_jpeg_progressive_default = False,
       pc_jpeg_no_subsampling_default = False \<rparr>"

definition low_latency :: "nat \<Rightarrow> performance_config" where
  "low_latency cpus =
     \<lparr> pc_max_concurrent_downloads = 10, pc_max_concurrent_processing = cpus, pc_http_timeout = 10,
       pc_max_image_size = 20 * 1024 * 1024, pc_cpu_thread_pool_size = Some cpus, pc_enable_http2 = True,
       pc_connection_pool_size = 25, pc_keep_alive_timeout = 30, pc_max_redirects = 5, pc_allowed_sources = None,
       pc_allow_loopback_source_addresses = False, pc_allow_link_local_source_addresses = False,
       pc_max_src_resolution_mp = 50, pc_max_output_width = 4096, pc_max_output_height = 4096,
       pc_max_animation_frames = 512, pc_watermark_url = None, pc_jpeg_progressive_default = False,
       pc_jpeg_no_subsampling_default = False \<rparr>"

definition memory_efficient :: "nat \<Rightarrow> performance_config" where
  "memory_efficient cpus =
     \<lparr> pc_max_concurrent_downloads = 5, pc_max_concurrent_processing = cpus div 2, pc_http_timeout = 45,
       pc_max_image_size = 10 * 1024 * 1024, pc_cpu_thread_pool_size = Some (cpus div 2), pc_enable_http2 = False,
       pc_connection_pool_size = 10, pc_keep_alive_timeout = 30, pc_max_redirects = 5, pc_allowed_sources = None,
       pc_allow_loopback_source_addresses = False, pc_allow_link_local_source_addresses = False,
       pc_max_src_resolution_mp = 25, pc_max_output_width = 2048, pc_max_output_height = 2048,
       pc_max_animation_frames = 128, pc_watermark_url = None, pc_jpeg_progressive_default = False,
       pc_jpeg_no_subsampling_default = False \<rparr>"

text \<open>The variables of \<^verbatim>\<open>EnvConfig\<close> that this configuration reads.\<close>

record perf_env =
  en_max_concurrent_downloads :: "nat option"
  en_max_concurrent_processing :: "nat option"
  en_http_timeout_secs :: "nat option"
  en_max_image_size_mb :: "nat option"
  en_cpu_thread_pool_size :: "nat option"
  en_enable_http2 :: "bool option"
  en_connection_pool_size :: "nat option"
  en_keep_alive_timeout_secs :: "nat option"
  en_performance_profile :: "string option"
  en_max_redirects :: "nat option"
  en_allowed_sources :: "string option"
  en_allow_loopback_source_addresses :: "bool option"
  en_allow_link_local_source_addresses :: "bool option"
  en_max_src_resolution_mp :: "nat option"
  en_max_output_width :: "nat option"
  en_max_output_height :: "nat option"
  en_max_animation_frames :: "nat option"
  en_watermark_url :: "string option"
  en_jpeg_progressive :: "bool option"
  en_jpeg_no_subsampling :: "bool option"

definition parse_allowed_sources :: "string \<Rightarrow> string list option" where
  "parse_allowed_sources raw =
     (let list = filter (\<lambda>s. s \<noteq> []) (map trim (split_on CHR '','' raw)) in
      if list = [] then None else Some list)"

text \<open>The product is a \<^verbatim>\<open>u64\<close>, which wraps in a release build.\<close>

definition image_size_bytes :: "nat \<Rightarrow> nat" where
  "image_size_bytes mb = mb * 1024 * 1024 mod 2 ^ 64"

definition override :: "'a option \<Rightarrow> ('a \<Rightarrow> 'c \<Rightarrow> 'c) \<Rightarrow> 'c \<Rightarrow> 'c" where
  "override v set_field c = (case v of Some x \<Rightarrow> set_field x c | None \<Rightarrow> c)"

definition apply_env_overrides :: "performance_config \<Rightarrow> perf_env \<Rightarrow> performance_config" where
  "apply_env_overrides config env =
     (let c = config;
          c = override (en_max_concurrent_downloads env) (\<lambda>v c. c\<lparr>pc_max_concurrent_downloads := v\<rparr>) c;
          c = override (en_max_concurrent_processing env) (\<lambda>v c. c\<lparr>pc_max_concurrent_processing := v\<rparr>) c;
          c = override (en_http_timeout_secs env) (\<lambda>v c. c\<lparr>pc_http_timeout := v\<rparr>) c;
          c = override (en_max_image_size_mb env) (\<lambda>v c. c\<lparr>pc_max_image_size := image_size_bytes v\<rparr>) c;
          c = override (en_cpu_thread_pool_size env) (\<lambda>v c. c\<lparr>pc_cpu_thread_pool_size := Some v\<rparr>) c;
          c = override (en_enable_http2 env) (\<lambda>v c. c\<lparr>pc_enable_http2 := v\<rparr>) c;
          c = override (en_connection_pool_size env) (\<lambda>v c. c\<lparr>pc_connection_pool_size := v\<rparr>) c;
          c = override (en_keep_alive_timeout_secs env) (\<lambda>v c. c\<lparr>pc_keep_alive_timeout := v\<rparr>) c;
          c = override (en_max_redirects env) (\<lambda>v c. c\<lparr>pc_max_redirects := v\<rparr>) c;
          c = override (en_allowed_sources env) (\<lambda>v c. c\<lparr>pc_allowed_sources := parse_allowed_sources v\<rparr>) c;
          c = override (en_allow_loopback_source_addresses env)
                (\<lambda>v c. c\<lparr>pc_allow_loopback_source_addresses := v\<rparr>) c;
          c = override (en_allow_link_local_source_addresses env)
                (\<lambda>v c. c\<lparr>pc_allow_link_local_source_addresses := v\<rparr>) c;
          c = override (en_max_src_resolution_mp env) (\<lambda>v c. c\<lparr>pc_max_src_resolution_mp := v\<rparr>) c;
          c = override (en_max_output_width env) (\<lambda>v c. c\<lparr>pc_max_output_width := v\<rparr>) c;
          c = override (en_max_output_height env) (\<lambda>v c. c\<lparr>pc_max_output_height := v\<rparr>) c;
          c = override (en_max_animation_frames env) (\<lambda>v c. c\<lparr>pc_max_animation_frames := v\<rparr>) c;
          c = override (en_watermark_url env) (\<lambda>v c. c\<lparr>pc_watermark_url := Some v\<rparr>) c;
          c = override (en_jpeg_progressive env) (\<lambda>v c. c\<lparr>pc_jpeg_progressive_default := v\<rparr>) c;
          c = override (en_jpeg_no_subsampling env) (\<lambda>v c. c\<lparr>pc_jpeg_no_subsampling_default := v\<rparr>) c
      in c)"

definition high_throughput_from_env :: "nat \<Rightarrow> perf_env \<Rightarrow> performance_config" where
  "high_throughput_from_env cpus env = apply_env_overrides (high_throughput cpus) env"

definition low_latency_from_env :: "nat \<Rightarrow> perf_env \<Rightarrow> performance_config" where
  "low_latency_from_env cpus env = apply_env_overrides (low_latency cpus) env"

definition memory_efficient_from_env :: "nat \<Rightarrow> perf_env \<Rightarrow> performance_config" where
  "memory_efficient_from_env cpus env = apply_env_overrides (memory_efficient cpus) env"

definition get_cpu_thread_pool_size :: "nat \<Rightarrow> performance_config \<Rightarrow> nat" where
  "get_cpu_thread_pool_size cpus c = (case pc_cpu_thread_pool_size c of Some n \<Rightarrow> n | None \<Rightarrow> cpus)"

text \<open>The configuration outside any profile, field by field.\<close>

definition custom_config :: "nat \<Rightarrow> perf_env \<Rightarrow> performance_config" where
  "custom_config cpus env =
     \<lparr> pc_max_concurrent_downloads = unwrap_or (en_max_concurrent_downloads env) 20,
       pc_max_concurrent_processing = unwrap_or (en_max_concurrent_processing env) cpus,
       pc_http_timeout = unwrap_or (en_http_timeout_secs env) 30,
       pc_max_image_size = image_size_bytes (unwrap_or (en_max_image_size_mb env) 50),
       pc_cpu_thread_pool_size = en_cpu_thread_pool_size env,
       pc_enable_http2 = unwrap_or (en_enable_http2 env) True,
       pc_connection_pool_size = unwrap_or (en_connection_pool_size env) 50,
       pc_keep_alive_timeout = unwrap_or (en_keep_alive_timeout_secs env) 60,
       pc_max_redirects = unwrap_or (en_max_redirects env) 5,
       pc_allowed_sources = Option.bind (en_allowed_sources env) parse_allowed_sources,
       pc_allow_loopback_source_addresses = unwrap_or (en_allow_loopback_source_addresses env) False,
       pc_allow_link_local_source_addresses = unwrap_or (en_allow_link_local_source_addresses env) False,
       pc_max_src_resolution_mp = unwrap_or (en_max_src_resolution_mp env) 50,
       pc_max_output_width = unwrap_or (en_max_output_width env) 4096,
       pc_max_output_height = unwrap_or (en_max_output_height env) 4096,
       pc_max_animation_frames = unwrap_or (en_max_animation_frames env) 512,
       pc_watermark_url = en_watermark_url env,
       pc_jpeg_progressive_default = unwrap_or (en_jpeg_progressive env) False,
       pc_jpeg_no_subsampling_default = unwrap_or (en_jpeg_no_subsampling env) False \<rparr>"

datatype config_error = UnrecognisedProfile string

definition config_from_env :: "nat \<Rightarrow> perf_env \<Rightarrow> (config_error, performance_config) result" where
  "config_from_env cpus env =
     (case Option.bind (map_option trim (en_performance_profile env)) (\<lambda>s. if s \<noteq> [] then Some s else None) of
        Some profile \<Rightarrow>
          (let lower = to_ascii_lowercase profile in
           if lower = ''high_throughput'' then Inr (high_throughput_from_env cpus env)
           else if lower = ''low_latency'' then Inr (low_latency_from_env cpus env)
           else if lower = ''memory_efficient'' then Inr (memory_efficient_from_env cpus env)
           else Inl (UnrecognisedProfile profile))
      | None \<Rightarrow> Inr (custom_config cpus env))"

section \<open>Runtime counters\<close>

record perf_metrics =
  pm_total_requests :: nat
  pm_cache_hits :: nat
  pm_cache_misses :: nat

definition increment_requests :: "perf_metrics \<Rightarrow> perf_metrics" where
  "increment_requests m = m\<lparr>pm_total_requests := (pm_total_requests m + 1) mod 2 ^ 64\<rparr>"

definition increment_cache_hits :: "perf_metrics \<Rightarrow> perf_metrics" where
  "increment_cache_hits m = m\<lparr>pm_cache_hits := (pm_cache_hits m + 1) mod 2 ^ 64\<rparr>"

definition increment_cache_misses :: "perf_metrics \<Rightarrow> perf_metrics" where
  "increment_cache_misses m = m\<lparr>pm_cache_misses := (pm_cache_misses m + 1) mod 2 ^ 64\<rparr>"

definition get_cache_hit_ratio :: "perf_metrics \<Rightarrow> rfloat" where
  "get_cache_hit_ratio m =
     (let hits = pm_cache_hits m; misses = pm_cache_misses m; total = (hits + misses) mod 2 ^ 64 in
      if total = 0 then f_zero else f_div f64_fmt (f64_of_nat hits) (f64_of_nat total))"

section \<open>What the CPU quota gives\<close>

lemma split_ws_from_word:
  "list_all is_graphic v \<Longrightarrow> split_ws_from w (v @ s) = split_ws_from (w @ v) s"
proof (induction v arbitrary: w)
  case (Cons c v)
  then have "strip_any ws_encodings (c # v @ s) = None"
    by (intro strip_any_None) (auto dest: ws_encodings_not_graphic ws_encodings_not_Nil)
  then show ?case
    using Cons by (simp add: split_ws_from.simps [of w "c # v @ s"])
qed simp

lemma split_ws_from_blank:
  assumes "c = CHR '' '' \<or> c = CHR 0x0A" "w \<noteq> []"
  shows "split_ws_from w (c # s) = w # split_ws_from [] s"
proof -
  have "strip_any ws_encodings (c # s) = Some s"
    using assms(1) by (elim disjE) (simp_all add: ws_encodings_def unicode_whitespace_def char_of_eq_iff take_bit_eq_mod)
  then show ?thesis
    using assms(2) by (subst split_ws_from.simps) simp
qed

lemma split_ws_from_end [simp]: "split_ws_from w [] = (if w = [] then [] else [w])"
  by (subst split_ws_from.simps) (auto simp: ws_encodings_def unicode_whitespace_def)

lemma show_nat_graphic: "list_all is_graphic (show_nat n)"
  by (force simp: list_all_iff is_graphic_def is_ascii_digit_def dest: show_nat_digits)

text \<open>The line \<^verbatim>\<open>cpu.max\<close> has for a quota of \<^term>\<open>q\<close> out of every \<^term>\<open>p\<close>.\<close>

definition cpu_max_line :: "nat \<Rightarrow> nat \<Rightarrow> string" where
  "cpu_max_line q p = show_nat q @ '' '' @ show_nat p @ [CHR 0x0A]"

lemma split_cpu_max_line: "split_whitespace (cpu_max_line q p) = [show_nat q, show_nat p]"
  by (simp add: split_whitespace_def cpu_max_line_def split_ws_from_word show_nat_graphic split_ws_from_blank)

lemma parse_cpu_max_line:
  assumes "q < 2 ^ 64" "p < 2 ^ 64"
  shows "parse_cgroup_v2_cpu_max (cpu_max_line q p) = quota_to_cpu_count q p"
proof -
  have "show_nat q \<noteq> ''max''"
    using hd_show_nat_digit [of q] by (auto simp: is_ascii_digit_def)
  then show ?thesis
    using assms by (simp add: parse_cgroup_v2_cpu_max_def split_cpu_max_line str_simps)
qed

lemma div_ceil_rat:
  assumes "0 < p"
  shows "nat \<lceil>of_nat q / (of_nat p :: rat)\<rceil> = q div p + (if q mod p > 0 then 1 else 0)"
proof -
  have "\<lceil>of_nat q / (of_nat p :: rat)\<rceil> = - (- int q div int p)"
    using ceiling_divide_eq_div [of "int q" "int p", where 'a = rat] by simp
  also have "\<dots> = int (q div p) + (if q mod p > 0 then 1 else 0)"
    using assms by (simp add: zdiv_zminus1_eq_if flip: of_nat_div of_nat_mod)
  finally show ?thesis
    by (simp add: nat_add_distrib)
qed

lemma effective_cpu_count_bounds:
  "1 \<le> effective_cpu_count read n \<and> effective_cpu_count read n \<le> max n 1"
  by (auto simp: effective_cpu_count_def Let_def split: option.splits)

text \<open>
  C27. The CPU count follows the container's quota.  With a cgroup v2 quota of \<^term>\<open>q\<close>
  microseconds in every \<^term>\<open>p\<close>, the service sizes its pools for the quotient
  rounded up, never for less than one CPU and never for more than the host has,
  whatever the cgroup v1 files say; and whatever the files say, the count lies
  between one and the host's.
\<close>
theorem effective_cpu_count_quota:
  "(0 < p \<longrightarrow> q < 2 ^ 64 \<longrightarrow> p < 2 ^ 64 \<longrightarrow> read cgroup_v2_cpu_max = Some (cpu_max_line q p) \<longrightarrow>
      effective_cpu_count read n = max 1 (min (nat \<lceil>of_nat q / (of_nat p :: rat)\<rceil>) (max n 1)))
   \<and> 1 \<le> effective_cpu_count read n \<and> effective_cpu_count read n \<le> max n 1"
proof (intro conjI impI)
  assume p: "0 < p" and q: "q < 2 ^ 64" "p < 2 ^ 64" and r: "read cgroup_v2_cpu_max = Some (cpu_max_line q p)"
  show "effective_cpu_count read n = max 1 (min (nat \<lceil>of_nat q / (of_nat p :: rat)\<rceil>) (max n 1))"
    using p parse_cpu_max_line [OF q] r
    by (simp add: effective_cpu_count_def cgroup_cpu_quota_def quota_to_cpu_count_def div_ceil_rat)
qed (use effective_cpu_count_bounds in auto)

lemma ceiling_three_halves [simp]: "\<lceil>3 / (2 :: rat)\<rceil> = 2"
  by (simp add: ceiling_eq_iff)

theorem effective_cpu_count_quota_witness:
  "effective_cpu_count (\<lambda>f. if f = cgroup_v2_cpu_max then Some (cpu_max_line 150000 100000) else None) 16 = 2"
  using effective_cpu_count_quota [of 100000 150000 "\<lambda>f. if f = cgroup_v2_cpu_max then Some (cpu_max_line 150000 100000) else None" 16]
  by (simp add: ceiling_three_halves)

section \<open>Profiles and overrides\<close>

text \<open>
  What the variables promise: each one that is set decides its field, and the
  base configuration decides the rest.
\<close>

definition layered :: "performance_config \<Rightarrow> perf_env \<Rightarrow> performance_config" where
  "layered base env =
     \<lparr> pc_max_concurrent_downloads = unwrap_or (en_max_concurrent_downloads env) (pc_max_concurrent_downloads base),
       pc_max_concurrent_processing = unwrap_or (en_max_concurrent_processing env) (pc_max_concurrent_processing base),
       pc_http_timeout = unwrap_or (en_http_timeout_secs env) (pc_http_timeout base),
       pc_max_image_size = unwrap_or (map_option image_size_bytes (en_max_image_size_mb env)) (pc_max_image_size base),
       pc_cpu_thread_pool_size =
         (if en_cpu_thread_pool_size env = None then pc_cpu_thread_pool_size base else en_cpu_thread_pool_size env),
       pc_enable_http2 = unwrap_or (en_enable_http2 env) (pc_enable_http2 base),
       pc_connection_pool_size = unwrap_or (en_connection_pool_size env) (pc_connection_pool_size base),
       pc_keep_alive_timeout = unwrap_or (en_keep_alive_timeout_secs env) (pc_keep_alive_timeout base),
       pc_max_redirects = unwrap_or (en_max_redirects env) (pc_max_redirects base),
       pc_allowed_sources = unwrap_or (map_option parse_allowed_sources (en_allowed_sources env)) (pc_allowed_sources base),
       pc_allow_loopback_source_addresses =
         unwrap_or (en_allow_loopback_source_addresses env) (pc_allow_loopback_source_addresses base),
       pc_allow_link_local_source_addresses =
         unwrap_or (en_allow_link_local_source_addresses env) (pc_allow_link_local_source_addresses base),
       pc_max_src_resolution_mp = unwrap_or (en_max_src_resolution_mp env) (pc_max_src_resolution_mp base),
       pc_max_output_width = unwrap_or (en_max_output_width env) (pc_max_output_width base),
       pc_max_output_height = unwrap_or (en_max_output_height env) (pc_max_output_height base),
       pc_max_animation_frames = unwrap_or (en_max_animation_frames env) (pc_max_animation_frames base),
       pc_watermark_url = (if en_watermark_url env = None then pc_watermark_url base else en_watermark_url env),
       pc_jpeg_progressive_default = unwrap_or (en_jpeg_progressive env) (pc_jpeg_progressive_default base),
       pc_jpeg_no_subsampling_default = unwrap_or (en_jpeg_no_subsampling env) (pc_jpeg_no_subsampling_default base) \<rparr>"

lemma override_simps [simp]: "override None f c = c" "override (Some x) f c = f x c"
  by (simp_all add: override_def)

lemma override_field:
  assumes "\<And>x c. g (f x c) = g c"
  shows "g (override v f c) = g c"
  using assms by (cases v) simp_all

lemma override_own:
  assumes "\<And>x c. g (f x c) = h x"
  shows "g (override v f c) = unwrap_or (map_option h v) (g c)"
  using assms by (cases v) simp_all

lemma override_more: "(\<And>x c. performance_config.more (f x c) = performance_config.more c) \<Longrightarrow>
    performance_config.more (override v f c) = performance_config.more c"
  by (cases v) simp_all

lemma apply_env_overrides_layered: "apply_env_overrides base env = layered base env"
  unfolding apply_env_overrides_def layered_def Let_def
  by (rule performance_config.equality)
     (simp_all add: override_field override_own option.map_ident; auto simp: unwrap_or_def split: option.splits)+

lemma custom_config_layered: "custom_config cpus env = layered (default_config cpus) env"
  by (cases "en_max_image_size_mb env"; cases "en_allowed_sources env")
     (simp_all add: custom_config_def layered_def default_config_def image_size_bytes_def)

text \<open>The base a profile name chooses.\<close>

definition chosen_base :: "nat \<Rightarrow> string option \<Rightarrow> (config_error, performance_config) result" where
  "chosen_base cpus profile =
     (case profile of
        None \<Rightarrow> Inr (default_config cpus)
      | Some p \<Rightarrow>
          if trim p = [] then Inr (default_config cpus)
          else if eq_ignore_ascii_case (trim p) ''high_throughput'' then Inr (high_throughput cpus)
          else if eq_ignore_ascii_case (trim p) ''low_latency'' then Inr (low_latency cpus)
          else if eq_ignore_ascii_case (trim p) ''memory_efficient'' then Inr (memory_efficient cpus)
          else Inl (UnrecognisedProfile (trim p)))"

lemma profile_names_lower:
  "to_ascii_lowercase ''high_throughput'' = ''high_throughput''"
  "to_ascii_lowercase ''low_latency'' = ''low_latency''"
  "to_ascii_lowercase ''memory_efficient'' = ''memory_efficient''"
  by (simp_all add: to_ascii_lowercase_def to_ascii_lower_def)

text \<open>
  The configuration is its profile with the environment laid over it.  A blank or
  absent profile is the default configuration, the three names are recognised in any
  case, and any other name is refused with the name it was given; the accepted
  configuration takes each field from its variable where that variable is set and
  from the base where it is not, on the profile path and on the custom path alike,
  which the code writes as two separate pieces.
\<close>
theorem config_from_env_layers:
  "config_from_env cpus env =
     bindr (chosen_base cpus (en_performance_profile env)) (\<lambda>base. Inr (layered base env))"
  by (cases "en_performance_profile env")
    (simp_all add: config_from_env_def chosen_base_def eq_ignore_ascii_case_def profile_names_lower Let_def
      high_throughput_from_env_def low_latency_from_env_def memory_efficient_from_env_def
      apply_env_overrides_layered custom_config_layered)

text \<open>With one CPU the memory-efficient profile admits no image to processing at all.\<close>

lemma memory_efficient_one_cpu: "pc_max_concurrent_processing (memory_efficient 1) = 0"
  by (simp add: memory_efficient_def)

section \<open>The hit ratio\<close>


lemma f64_of_nat_value:
  assumes "n < 2 ^ 64"
  shows "f64_of_nat n = Fin False (round_mag f64_fmt (of_nat n))"
proof -
  have "(of_nat n :: rat) \<le> of_nat (2 ^ 64)"
    using assms by (simp only: of_nat_le_iff)
  then have "round_mag f64_fmt (of_nat n) \<le> round_mag f64_fmt (2 ^ 64)"
    by (intro round_mag_mono) (simp_all add: f64_fmt_def)
  also have "round_mag f64_fmt (2 ^ 64) = 2 ^ 64"
    using round_mag_dyadic [of "2 ^ 64" 1 64 f64_fmt] by (simp add: f64_fmt_def)
  also have "(2 ^ 64 :: rat) = pow2 64"
    by (simp add: power_int_def)
  also have "\<dots> < pow2 1024"
    by (simp only: pow2_less_iff)
  finally show ?thesis
    by (simp add: f64_of_nat_def round_float_def f64_fmt_def)
qed

lemma round_mag_f64_one: "round_mag f64_fmt 1 = 1"
  using round_mag_dyadic [of 1 1 0 f64_fmt] by (simp add: f64_fmt_def)

lemma one_less_f64_max: "1 < pow2 (emax f64_fmt)"
  using pow2_less_iff [of 0 1024] by (simp only: f64_fmt_def float_format.sel) simp

text \<open>As long as the counters have not wrapped, the ratio is a number between zero and one.\<close>

lemma hit_ratio_bounds:
  assumes "pm_cache_hits m + pm_cache_misses m < 2 ^ 64"
  shows "\<exists>r. get_cache_hit_ratio m = Fin False r \<and> 0 \<le> r \<and> r \<le> 1"
proof (cases "pm_cache_hits m + pm_cache_misses m = 0")
  case True
  then show ?thesis
    by (simp add: get_cache_hit_ratio_def)
next
  case False
  define h t where "h = pm_cache_hits m" and "t = pm_cache_hits m + pm_cache_misses m"
  have t: "0 < t" "h \<le> t" "t < 2 ^ 64" "h < 2 ^ 64"
    using False assms by (simp_all add: h_def t_def)
  have mono: "round_mag f64_fmt x \<le> round_mag f64_fmt y" if "x \<le> y" for x y
    using that by (intro round_mag_mono) (simp_all add: f64_fmt_def)
  have one: "1 \<le> round_mag f64_fmt (of_nat t)"
    using mono [of 1 "of_nat t"] t(1) by (simp add: round_mag_f64_one)
  have le: "round_mag f64_fmt (of_nat h) / round_mag f64_fmt (of_nat t) \<le> 1"
    using mono [of "of_nat h" "of_nat t"] t(2) one by simp
  have r: "round_mag f64_fmt (round_mag f64_fmt (of_nat h) / round_mag f64_fmt (of_nat t)) \<le> 1"
    using mono [OF le] by (simp add: round_mag_f64_one)
  then have fin: "round_float f64_fmt False (round_mag f64_fmt (of_nat h) / round_mag f64_fmt (of_nat t))
      = Fin False (round_mag f64_fmt (round_mag f64_fmt (of_nat h) / round_mag f64_fmt (of_nat t)))"
    using le_less_trans [OF r one_less_f64_max] by (simp add: round_float_def Let_def)
  have "get_cache_hit_ratio m = f_div f64_fmt (f64_of_nat h) (f64_of_nat t)"
  proof -
    have "(pm_cache_hits m + pm_cache_misses m) mod 2 ^ 64 = t"
      using t(3) by (simp add: t_def)
    then show ?thesis
      using t(1) by (simp add: get_cache_hit_ratio_def Let_def h_def del: power_numeral)
  qed
  also have "\<dots> = Fin False (round_mag f64_fmt (round_mag f64_fmt (of_nat h) / round_mag f64_fmt (of_nat t)))"
    using one by (simp only: f64_of_nat_value [OF t(3)] f64_of_nat_value [OF t(4)] f_div.simps) (simp add: fin)
  finally have "get_cache_hit_ratio m =
      Fin False (round_mag f64_fmt (round_mag f64_fmt (of_nat h) / round_mag f64_fmt (of_nat t)))" .
  then show ?thesis
    using r by simp
qed

end
