(* ===== verification/Errors.thy ===== *)
theory Errors
  imports Prelude
begin

text \<open>
  The application errors of \<^verbatim>\<open>src/src/modules/utils/err.rs\<close>: \<^verbatim>\<open>AppError\<close>, its
  status codes, and the classification of the service errors.

  An \<^verbatim>\<open>anyhow::Error\<close> is its rendered message together with the typed error it
  wraps, which is all that \<^verbatim>\<open>downcast_ref\<close> can see.  The classification lowers
  the message and searches it for ASCII words; no non-ASCII character lowers to
  a letter of those words, so lowering the ASCII letters alone decides the same.
  A panic unwinds past every handler; where an operation can panic, that result is a
  kind of its own, and no property lets it be classified.
\<close>

datatype error_kind = PlainError | InvalidKeyError | SourceRejected | Panicked

record any_error =
  err_kind :: error_kind
  err_msg :: string

definition plain_error :: "string \<Rightarrow> any_error" where
  "plain_error msg = \<lparr> err_kind = PlainError, err_msg = msg \<rparr>"

definition panicked :: any_error where
  "panicked = \<lparr> err_kind = Panicked, err_msg = [] \<rparr>"

text \<open>\<^verbatim>\<open>context\<close> replaces the text of an error; its type can still be found beneath.\<close>

definition with_context :: "string \<Rightarrow> any_error \<Rightarrow> any_error" where
  "with_context msg e = e\<lparr>err_msg := msg\<rparr>"

datatype app_error =
    NotFound string
  | BadRequest string
  | Forbidden string
  | BadGateway string
  | ServiceUnavailable string
  | IoError string
  | AnyError any_error

definition status_code :: "app_error \<Rightarrow> nat" where
  "status_code e = (case e of
       NotFound _ \<Rightarrow> 404
     | BadRequest _ \<Rightarrow> 400
     | Forbidden _ \<Rightarrow> 403
     | BadGateway _ \<Rightarrow> 502
     | ServiceUnavailable _ \<Rightarrow> 503
     | IoError _ \<Rightarrow> 500
     | AnyError _ \<Rightarrow> 500)"

definition classify_download_error :: "any_error \<Rightarrow> app_error" where
  "classify_download_error err =
     (if err_kind err = InvalidKeyError then NotFound (err_msg err)
      else if contains_str ''not found'' (to_ascii_lowercase (err_msg err)) then NotFound (err_msg err)
      else BadGateway (err_msg err))"

definition classify_resize_error :: "any_error \<Rightarrow> app_error" where
  "classify_resize_error err =
     (if err_kind err = SourceRejected then BadRequest (err_msg err)
      else (let lower = to_ascii_lowercase (err_msg err) in
        if contains_str ''too large'' lower \<or> contains_str ''decode'' lower then BadRequest (err_msg err)
        else if contains_str ''permit'' lower \<or> contains_str ''cancelled'' lower then ServiceUnavailable (err_msg err)
        else if contains_str ''encode'' lower then AnyError err
        else BadGateway (err_msg err)))"

text \<open>A response as far as the handlers decide it.\<close>

record response =
  resp_status :: nat
  resp_headers :: "(string \<times> string) list"
  resp_body :: string

definition display_app_error :: "app_error \<Rightarrow> string" where
  "display_app_error e = (case e of
       NotFound m \<Rightarrow> ''not found: '' @ m
     | BadRequest m \<Rightarrow> ''bad request: '' @ m
     | Forbidden m \<Rightarrow> ''forbidden: '' @ m
     | BadGateway m \<Rightarrow> ''bad gateway: '' @ m
     | ServiceUnavailable m \<Rightarrow> ''service unavailable: '' @ m
     | IoError m \<Rightarrow> ''I/O error: '' @ m
     | AnyError a \<Rightarrow> ''internal error: '' @ err_msg a)"

definition error_response :: "app_error \<Rightarrow> response" where
  "error_response e =
     \<lparr> resp_status = status_code e, resp_headers = [(''cache-control'', ''no-store'')],
       resp_body = display_app_error e \<rparr>"

lemma status_code_error: "400 \<le> status_code e \<and> status_code e < 600"
  by (cases e) (simp_all add: status_code_def)

lemma classify_download_cases:
  "status_code (classify_download_error err) \<in> {404, 502}"
  by (simp add: classify_download_error_def status_code_def)

end
