(* ===== verification/Geometry.thy ===== *)
theory Geometry
  imports Params Performance Errors
begin

text \<open>
  The size arithmetic of \<^verbatim>\<open>src/src/services/image/handler.rs\<close>: aspect-ratio scaling,
  anchoring and cropping, trimming, the boxes that zoom, dpr, enlarge, the minimum
  sizes and rotation resolve to, the output and source limits, and the scale of a
  DCT-scaled JPEG decode.  Sizes are natural numbers below \<^term>\<open>2 ^ 32 :: nat\<close>; the
  \<^verbatim>\<open>f64\<close> arithmetic is that of \<^verbatim>\<open>Float_Model\<close>, rounding included.  A rectangle is
  given by its corner, width and height, as \<^verbatim>\<open>crop_imm\<close> takes it.

  Shown: \<^verbatim>\<open>fit\<close> stays in its box and touches it, in spite of rounding; an anchored box
  lies in its container; a trim cuts background only and leaves the tightest
  rectangle; a request that passes the check of the output limits cannot ask the
  resize step for more on an axis it names; and a scaled JPEG decode never falls
  below its target.
\<close>

section \<open>Float operations of this file\<close>

text \<open>\<^verbatim>\<open>clamp\<close> leaves NaN alone.\<close>

definition f_clamp :: "rfloat \<Rightarrow> rfloat \<Rightarrow> rfloat \<Rightarrow> rfloat" where
  "f_clamp lo hi x = (if f_lt x lo then lo else if f_lt hi x then hi else x)"

fun f_abs :: "rfloat \<Rightarrow> rfloat" where
  "f_abs NaN = NaN"
| "f_abs (Infin s) = Infin False"
| "f_abs (Fin s m) = Fin False m"

abbreviation f_two :: rfloat where
  "f_two \<equiv> Fin False 2"

definition u32_max :: nat where
  "u32_max = 2 ^ 32 - 1"

section \<open>Aspect-ratio scaling\<close>

text \<open>\<^verbatim>\<open>(f64::from(side) * ratio).round().max(1.0)\<close>.\<close>

definition scaled_side :: "nat \<Rightarrow> rfloat \<Rightarrow> rfloat" where
  "scaled_side side ratio = f_max (f_round (f_mul f64_fmt (f64_of_nat side) ratio)) f_one"

definition resize_dimensions :: "nat \<Rightarrow> nat \<Rightarrow> nat \<Rightarrow> nat \<Rightarrow> bool \<Rightarrow> nat \<times> nat" where
  "resize_dimensions width height nwidth nheight fill =
     (let wratio = f_div f64_fmt (f64_of_nat nwidth) (f64_of_nat width);
          hratio = f_div f64_fmt (f64_of_nat nheight) (f64_of_nat height);
          ratio = (if fill then f_max wratio hratio else f_min wratio hratio);
          nw = f_as_uint (2 ^ 64) (scaled_side width ratio);
          nh = f_as_uint (2 ^ 64) (scaled_side height ratio)
      in if nw > u32_max
         then (u32_max, f_as_uint (2 ^ 32) (scaled_side height (f_div f64_fmt (f64_of_nat u32_max) (f64_of_nat width))))
         else if nh > u32_max
         then (f_as_uint (2 ^ 32) (scaled_side width (f_div f64_fmt (f64_of_nat u32_max) (f64_of_nat height))), u32_max)
         else (nw, nh))"

section \<open>Anchoring and cropping\<close>

definition anchor_point :: "gravity \<Rightarrow> nat \<Rightarrow> nat \<Rightarrow> nat \<Rightarrow> nat \<Rightarrow> rfloat \<times> rfloat" where
  "anchor_point gravity container_w container_h box_w box_h =
     (let max_x = f64_of_nat (container_w - box_w); max_y = f64_of_nat (container_h - box_h);
          mid_x = f_div f64_fmt max_x f_two; mid_y = f_div f64_fmt max_y f_two
      in case gravity of
           Center \<Rightarrow> (mid_x, mid_y)
         | North \<Rightarrow> (mid_x, f_zero)
         | South \<Rightarrow> (mid_x, max_y)
         | West \<Rightarrow> (f_zero, mid_y)
         | East \<Rightarrow> (max_x, mid_y)
         | NorthWest \<Rightarrow> (f_zero, f_zero)
         | NorthEast \<Rightarrow> (max_x, f_zero)
         | SouthWest \<Rightarrow> (f_zero, max_y)
         | SouthEast \<Rightarrow> (max_x, max_y)
         | FocusPoint x y \<Rightarrow>
             (let center_x = f_mul f64_fmt (f64_of_nat container_w) (f_clamp f_zero f_one x);
                  center_y = f_mul f64_fmt (f64_of_nat container_h) (f_clamp f_zero f_one y)
              in (f_clamp f_zero max_x (f_sub f64_fmt center_x (f_div f64_fmt (f64_of_nat box_w) f_two)),
                  f_clamp f_zero max_y (f_sub f64_fmt center_y (f_div f64_fmt (f64_of_nat box_h) f_two)))))"

definition gravity_anchor :: "gravity \<Rightarrow> nat \<Rightarrow> nat \<Rightarrow> nat \<Rightarrow> nat \<Rightarrow> nat \<times> nat" where
  "gravity_anchor gravity container_w container_h box_w box_h =
     (case anchor_point gravity container_w container_h (min box_w container_w) (min box_h container_h) of
        (x, y) \<Rightarrow> (f_as_uint (2 ^ 32) (f_floor x), f_as_uint (2 ^ 32) (f_floor y)))"

type_synonym rect = "(nat \<times> nat) \<times> (nat \<times> nat)"

definition resolve_crop_side :: "crop_dimension \<Rightarrow> nat \<Rightarrow> nat" where
  "resolve_crop_side side source =
     (let resolved = (case side of
           Full \<Rightarrow> source
         | Absolute v \<Rightarrow> v
         | Relative fraction \<Rightarrow> f_as_uint (2 ^ 32) (f_round (f_mul f64_fmt (f64_of_nat source) fraction)))
      in max 1 (min resolved (max source 1)))"

definition crop_rect :: "crop \<Rightarrow> nat \<times> nat \<Rightarrow> rect" where
  "crop_rect crop src =
     (case src of (src_width, src_height) \<Rightarrow>
        let crop_w = resolve_crop_side (crop_width crop) src_width;
            crop_h = resolve_crop_side (crop_height crop) src_height
        in (gravity_anchor (crop_gravity crop) src_width src_height crop_w crop_h, (crop_w, crop_h)))"

section \<open>Trimming\<close>

type_synonym rgba = "nat \<times> nat \<times> nat \<times> nat"

definition channel_distance :: "nat \<Rightarrow> nat \<Rightarrow> rfloat" where
  "channel_distance p target = f_abs (f_sub f32_fmt (f32_of_nat p) (f32_of_nat target))"

definition is_background :: "rfloat \<Rightarrow> rgb \<Rightarrow> rgba \<Rightarrow> bool" where
  "is_background threshold target p =
     (case (p, target) of ((r, g, b, a), (tr, tg, tb)) \<Rightarrow>
        f_le (f_max (f_max (channel_distance r tr) (channel_distance g tg)) (channel_distance b tb)) threshold)"

text \<open>\<^verbatim>\<open>while i < limit && background(i) { i += 1 }\<close>, with the rounds that are left.\<close>

fun scan :: "(nat \<Rightarrow> bool) \<Rightarrow> nat \<Rightarrow> nat \<Rightarrow> nat" where
  "scan background i 0 = i"
| "scan background i (Suc left) = (if background i then scan background (i + 1) left else i)"

definition trim_target :: "trim_options \<Rightarrow> (nat \<Rightarrow> nat \<Rightarrow> rgba) \<Rightarrow> rgb" where
  "trim_target options px =
     (case trim_color options of Some c \<Rightarrow> c | None \<Rightarrow> (case px 0 0 of (r, g, b, a) \<Rightarrow> (r, g, b)))"

text \<open>Nothing when the image is returned unchanged.\<close>

definition trim_rect :: "trim_options \<Rightarrow> (nat \<Rightarrow> nat \<Rightarrow> rgba) \<Rightarrow> nat \<times> nat \<Rightarrow> rect option" where
  "trim_rect options px dims =
     (case dims of (width, height) \<Rightarrow>
        if width = 0 \<or> height = 0 then None
        else
          (let background = (\<lambda>x y. is_background (trim_threshold options) (trim_target options px) (px x y));
               row = (\<lambda>y. list_all (\<lambda>x. background x y) [0..<width]);
               col = (\<lambda>x. list_all (\<lambda>y. background x y) [0..<height]);
               top = scan row 0 height;
               bottom = scan (\<lambda>i. row (height - 1 - i)) 0 (height - top);
               left = scan col 0 width;
               right = scan (\<lambda>i. col (width - 1 - i)) 0 (width - left);
               (left, right) = (if trim_equal_hor options then (min left right, min left right) else (left, right));
               (top, bottom) = (if trim_equal_ver options then (min top bottom, min top bottom) else (top, bottom))
           in if top + bottom \<ge> height \<or> left + right \<ge> width then None
              else Some ((left, top), (width - left - right, height - top - bottom))))"

section \<open>Limits\<close>

definition check_axis_bound ::
  "nat option \<Rightarrow> nat option \<Rightarrow> rfloat \<Rightarrow> rfloat \<Rightarrow> nat \<Rightarrow> string \<Rightarrow> (any_error, unit) result" where
  "check_axis_bound explicit least zoom dpr limit axis_name =
     (let multiplier = f_mul f64_fmt (f_max zoom f_one) (f_max dpr f_one);
          scaled_explicit =
            map_option (\<lambda>v. f_as_uint (2 ^ 64) (f_ceil (f_mul f64_fmt (f64_of_nat v) multiplier))) explicit;
          check = (\<lambda>bound. if bound > limit
             then Inl (plain_error (''Requested output dimensions too large: '' @ axis_name @ '' '' @ show_nat bound
                    @ '' exceeds maximum '' @ show_nat limit))
             else Inr ())
      in case (scaled_explicit, least) of
           (Some a, Some b) \<Rightarrow> check (max a b)
         | (Some a, None) \<Rightarrow> check a
         | (None, Some b) \<Rightarrow> check b
         | (None, None) \<Rightarrow> Inr ())"

definition check_output_dimensions :: "resize_query \<Rightarrow> performance_config \<Rightarrow> (any_error, unit) result" where
  "check_output_dimensions params config =
     bindr (check_axis_bound (rq_width params) (rq_min_width params) (rq_zoom_x params) (rq_dpr params)
              (pc_max_output_width config) ''width'') (\<lambda>_.
     bindr (check_axis_bound (rq_height params) (rq_min_height params) (rq_zoom_y params) (rq_dpr params)
              (pc_max_output_height config) ''height'') (\<lambda>_. Inr ()))"

definition check_source_resolution :: "nat \<Rightarrow> nat \<Rightarrow> nat \<Rightarrow> (any_error, unit) result" where
  "check_source_resolution width height max_src_resolution_mp =
     (if width * height \<ge> 2 ^ 64
      then Inl (plain_error ''Source image dimensions overflow while checking resolution'')
      else
        (let megapixels = width * height div 1000000 in
         if megapixels > max_src_resolution_mp
         then Inl (plain_error (''Source image resolution too large: '' @ show_nat width @ ''x'' @ show_nat height
                @ '' ('' @ show_nat megapixels @ '' MP, max '' @ show_nat max_src_resolution_mp @ '' MP)''))
         else Inr ()))"

record limits =
  lm_max_image_width :: "nat option"
  lm_max_image_height :: "nat option"
  lm_max_alloc :: "nat option"

definition saturating_mul64 :: "nat \<Rightarrow> nat \<Rightarrow> nat" where
  "saturating_mul64 a b = min (a * b) (2 ^ 64 - 1)"

definition build_decode_limits :: "nat \<Rightarrow> limits" where
  "build_decode_limits max_src_resolution_mp =
     (let max_pixels = saturating_mul64 max_src_resolution_mp 1000000;
          max_bytes = saturating_mul64 (saturating_mul64 max_pixels 4) 2
      in \<lparr> lm_max_image_width = Some 65535, lm_max_image_height = Some 65535,
           lm_max_alloc = Some (max max_bytes (64 * 1024 * 1024)) \<rparr>)"

section \<open>The boxes of a request\<close>

definition rotate_swaps_axes :: "int \<Rightarrow> bool" where
  "rotate_swaps_axes degrees = (degrees mod 360 div 90 mod 2 = 1)"

definition swap_if :: "bool \<Rightarrow> 'a \<times> 'a \<Rightarrow> 'a \<times> 'a" where
  "swap_if swap p = (if swap then (snd p, fst p) else p)"

record effective_sizing =
  es_resize_box :: "nat option \<times> nat option"
  es_extend_box :: "(nat \<times> nat) option"

definition scale_axis :: "rfloat \<Rightarrow> rfloat \<Rightarrow> nat \<Rightarrow> nat" where
  "scale_axis zoom dpr v =
     f_as_uint (2 ^ 32)
       (f_max (f_round (f_mul f64_fmt (f_mul f64_fmt (f64_of_nat v) zoom) dpr)) f_one)"

definition min_floor :: "nat option \<Rightarrow> nat \<Rightarrow> nat option \<Rightarrow> nat option" where
  "min_floor least src value = (case least of Some m \<Rightarrow> Some (max (unwrap_or value src) m) | None \<Rightarrow> value)"

definition effective_resize_box :: "resize_query \<Rightarrow> nat \<Rightarrow> nat \<Rightarrow> effective_sizing" where
  "effective_resize_box params src_width src_height =
     (if rq_width params = None \<and> rq_height params = None \<and> rq_min_width params = None \<and> rq_min_height params = None
      then \<lparr> es_resize_box = (None, None), es_extend_box = None \<rparr>
      else
        (let swap = rotate_swaps_axes (rq_rotate params);
             (final_src_w, final_src_h) = swap_if swap (src_width, src_height);
             final_width = map_option (scale_axis (rq_zoom_x params) (rq_dpr params)) (rq_width params);
             final_height = map_option (scale_axis (rq_zoom_y params) (rq_dpr params)) (rq_height params);
             extend_box = (case (final_width, final_height) of (Some w, Some h) \<Rightarrow> Some (w, h) | _ \<Rightarrow> None);
             final_width = map_option (\<lambda>w. if rq_enlarge params then w else min w final_src_w) final_width;
             final_height = map_option (\<lambda>h. if rq_enlarge params then h else min h final_src_h) final_height;
             final_width = min_floor (rq_min_width params) final_src_w final_width;
             final_height = min_floor (rq_min_height params) final_src_h final_height
         in \<lparr> es_resize_box = swap_if swap (final_width, final_height), es_extend_box = extend_box \<rparr>))"

definition effective_resize_target :: "nat \<Rightarrow> nat \<Rightarrow> resize_query \<Rightarrow> nat \<times> nat" where
  "effective_resize_target src_width src_height params =
     (case es_resize_box (effective_resize_box params src_width src_height) of
        (Some w, None) \<Rightarrow> resize_dimensions src_width src_height w u32_max False
      | (None, Some h) \<Rightarrow> resize_dimensions src_width src_height u32_max h False
      | (Some w, Some h) \<Rightarrow>
          (case rq_resize_type params of
             Fit \<Rightarrow> resize_dimensions src_width src_height w h False
           | Fill \<Rightarrow> resize_dimensions src_width src_height w h True
           | Force \<Rightarrow> (max w 1, max h 1)
           | AutoResize \<Rightarrow>
               resize_dimensions src_width src_height w h ((src_width \<ge> src_height) = (w \<ge> h)))
      | (None, None) \<Rightarrow> (src_width, src_height))"

section \<open>The scale of a JPEG decode\<close>

definition jpeg_scaled_dimension :: "nat \<Rightarrow> nat \<Rightarrow> nat" where
  "jpeg_scaled_dimension side scale_num =
     (side * scale_num div 8 + (if side * scale_num mod 8 > 0 then 1 else 0)) mod 2 ^ 32"

fun first_scale :: "nat \<Rightarrow> nat \<Rightarrow> nat \<Rightarrow> nat \<Rightarrow> nat list \<Rightarrow> nat" where
  "first_scale raw_width raw_height target_width target_height [] = 8"
| "first_scale raw_width raw_height target_width target_height (scale_num # scales) =
     (if jpeg_scaled_dimension raw_width scale_num \<ge> target_width
         \<and> jpeg_scaled_dimension raw_height scale_num \<ge> target_height
      then scale_num
      else first_scale raw_width raw_height target_width target_height scales)"

definition select_jpeg_dct_scale :: "nat \<Rightarrow> nat \<Rightarrow> nat \<Rightarrow> nat \<Rightarrow> nat" where
  "select_jpeg_dct_scale raw_width raw_height target_width target_height =
     first_scale raw_width raw_height target_width target_height [1, 2, 4]"

text \<open>
  How \<^verbatim>\<open>decode_jpeg_scaled\<close> chooses: the header's size in the axes of the oriented
  image, the predicted target, and the target back in the axes of the file.
\<close>

definition jpeg_decode_scale :: "resize_query \<Rightarrow> bool \<Rightarrow> nat \<times> nat \<Rightarrow> nat" where
  "jpeg_decode_scale params orientation_swaps header =
     (let axis_swap = rq_autorotate params \<and> orientation_swaps;
          (post_width, post_height) = swap_if axis_swap header;
          (raw_target_width, raw_target_height) =
            swap_if axis_swap (effective_resize_target post_width post_height params)
      in select_jpeg_dct_scale (fst header) (snd header) raw_target_width raw_target_height)"

section \<open>Rounding in the range of sizes\<close>

abbreviation r64 :: "rat \<Rightarrow> rat" where
  "r64 \<equiv> round_mag f64_fmt"

lemma r64_mono: "x \<le> y \<Longrightarrow> r64 x \<le> r64 y"
  by (rule round_mag_mono) simp_all

lemma r64_pow2: "0 \<le> k \<Longrightarrow> r64 (pow2 k) = pow2 k"
  by (rule round_mag_dyadic [of _ 1 k]) simp_all

lemma round_f64_small:
  assumes "x \<le> pow2 512"
  shows "round_float f64_fmt s x = Fin s (r64 x)"
proof -
  have "r64 x \<le> pow2 512"
    using r64_mono [OF assms] r64_pow2 [of 512] by simp
  also have "pow2 512 < pow2 1024"
    by (simp only: pow2_less_iff)
  finally show ?thesis
    by (simp add: round_float_def Let_def)
qed

lemma r64_error:
  assumes "1 / 2 ^ 64 \<le> x"
  shows "\<bar>r64 x - x\<bar> \<le> x / 2 ^ 53"
proof -
  have fmt: "qmin f64_fmt + int (prec f64_fmt) - 1 = - 1022" "- int (prec f64_fmt) = - 53"
    by simp_all
  have neg: "pow2 (- numeral k) = 1 / 2 ^ numeral k" for k
    by (simp only: power_int_minus power_int_numeral inverse_eq_divide)
  have "pow2 (- 1022) \<le> pow2 (- 64)"
    by (simp only: pow2_le_iff)
  then have "pow2 (- 1022) \<le> x"
    using assms neg [of "num.Bit0 (num.Bit0 (num.Bit0 (num.Bit0 (num.Bit0 (num.Bit0 num.One)))))"] by (metis order_trans)
  then have "\<bar>r64 x - x\<bar> \<le> x * pow2 (- 53)"
    by (rule round_mag_rel_error [of f64_fmt x, unfolded fmt])
  then show ?thesis
    unfolding neg by simp
qed

lemma f64_u32: "n < 2 ^ 32 \<Longrightarrow> f64_of_nat n = Fin False (of_nat n)"
  by (rule f64_of_nat_exact) simp

lemma small_le_pow2:
  assumes "x \<le> 2 ^ k" "k \<le> 512"
  shows "x \<le> pow2 512"
proof -
  have "pow2 (int k) \<le> pow2 512"
    unfolding pow2_le_iff using assms(2) by simp
  then show ?thesis
    using assms(1) unfolding pow2_of_nat by (rule order_trans [rotated])
qed

text \<open>A quotient of two sizes, and the side that it scales.\<close>

lemma div_u32:
  assumes "0 < s" "s < 2 ^ 32" "n < 2 ^ 32"
  shows "f_div f64_fmt (f64_of_nat n) (f64_of_nat s) = Fin False (r64 (of_nat n / of_nat s))"
proof -
  have "(of_nat n :: rat) < 2 ^ 32" "1 \<le> (of_nat s :: rat)"
    using assms by (simp_all flip: of_nat_less_iff)
  then have "of_nat n / of_nat s \<le> (2 ^ 32 :: rat)"
    by (simp add: divide_le_eq)
  then have "of_nat n / of_nat s \<le> pow2 512"
    by (rule small_le_pow2) simp
  then show ?thesis
    using assms by (simp add: f64_u32 round_f64_small)
qed

lemma scaled_side_value:
  assumes "s < 2 ^ 32" "0 \<le> q" "q \<le> 2 ^ 64"
  shows "scaled_side s (Fin False q) = Fin False (of_int (max 1 \<lfloor>r64 (of_nat s * q) + 1 / 2\<rfloor>))"
proof -
  have "(of_nat s :: rat) \<le> 2 ^ 32"
    using assms(1) by (simp flip: of_nat_less_iff)
  then have "of_nat s * q \<le> 2 ^ 32 * 2 ^ 64"
    using assms(2,3) by (intro mult_mono) simp_all
  then have "of_nat s * q \<le> 2 ^ 96"
    by simp
  then have "of_nat s * q \<le> pow2 512"
    by (rule small_le_pow2) simp
  then show ?thesis
    using assms(1) by (simp add: scaled_side_def f64_u32 round_f64_small f_max_def max_def)
qed

text \<open>The side that a box's own quotient scales is the box's side: two roundings are not felt.\<close>

lemma own_ratio_exact:
  assumes "0 < s" "s < 2 ^ 32" "0 < n" "n < 2 ^ 32"
  shows "\<lfloor>r64 (of_nat s * r64 (of_nat n / of_nat s)) + 1 / 2\<rfloor> = int n"
proof -
  define S N :: rat where SN: "S = of_nat s" "N = of_nat n"
  have b: "1 \<le> S" "S < 2 ^ 32" "1 \<le> N" "N < 2 ^ 32"
    using assms by (simp_all add: SN flip: of_nat_less_iff)
  have "1 / 2 ^ 32 \<le> N / S"
    using b by (simp add: field_simps)
  moreover have "1 / 2 ^ 64 \<le> (1 / 2 ^ 32 :: rat)"
    by simp
  ultimately have e1: "\<bar>r64 (N / S) - N / S\<bar> \<le> N / S / 2 ^ 53"
    by (intro r64_error) (rule order_trans)
  have "S * r64 (N / S) - N = S * (r64 (N / S) - N / S)"
    using b by (simp add: right_diff_distrib)
  then have "\<bar>S * r64 (N / S) - N\<bar> = S * \<bar>r64 (N / S) - N / S\<bar>"
    using b by (simp add: abs_mult)
  also have "\<dots> \<le> S * (N / S / 2 ^ 53)"
    using e1 b by (intro mult_left_mono) simp_all
  also have "\<dots> = N / 2 ^ 53"
    using b by simp
  finally have e2: "\<bar>S * r64 (N / S) - N\<bar> \<le> N / 2 ^ 53" .
  define y where "y = S * r64 (N / S)"
  have y: "y - N \<le> N / 2 ^ 53" "- (y - N) \<le> N / 2 ^ 53"
    using abs_le_D1 [OF e2] abs_le_D2 [OF e2] by (simp_all only: y_def)
  have d: "N / 2 ^ 53 \<le> 1 / 2 ^ 20"
    using b(4) by (simp add: field_simps)
  have "1 / 2 \<le> y"
    using y(2) d b(3) by simp
  then have e3: "\<bar>r64 y - y\<bar> \<le> y / 2 ^ 53"
    by (intro r64_error) simp
  have "y \<le> 2 ^ 33"
    using y(1) d b(4) by simp
  then have d2: "y / 2 ^ 53 \<le> 1 / 2 ^ 20"
    by (simp add: field_simps)
  have z: "r64 y - y \<le> 1 / 2 ^ 20" "- (r64 y - y) \<le> 1 / 2 ^ 20"
    using abs_le_D1 [OF e3] abs_le_D2 [OF e3] d2 by (blast intro: order_trans)+
  have "N - 1 / 2 < r64 y" "r64 y < N + 1 / 2"
    using y z d by simp_all
  then have "\<lfloor>r64 y + 1 / 2\<rfloor> = int n"
    by (simp add: floor_eq_iff SN)
  then show ?thesis
    by (simp add: y_def SN)
qed

lemma scaled_floor_mono: "0 \<le> S \<Longrightarrow> q \<le> r \<Longrightarrow> \<lfloor>r64 (S * q) + 1 / 2\<rfloor> \<le> \<lfloor>r64 (S * r) + 1 / 2\<rfloor>"
  by (intro floor_mono add_mono r64_mono mult_left_mono) simp_all

lemma f_min_max_pos [simp]:
  "f_min (Fin False a) (Fin False b) = Fin False (min a b)" "f_max (Fin False a) (Fin False b) = Fin False (max a b)"
  by (auto simp: f_min_def f_max_def)

lemma ratio_bounds:
  assumes "0 < s" "n < 2 ^ 32"
  shows "0 \<le> r64 (of_nat n / of_nat s)" "r64 (of_nat n / of_nat s) \<le> 2 ^ 64"
proof -
  have "(of_nat n :: rat) < 2 ^ 32" "1 \<le> (of_nat s :: rat)"
    using assms by (simp_all flip: of_nat_less_iff)
  then have "of_nat n / of_nat s \<le> (2 ^ 32 :: rat)"
    by (simp add: divide_le_eq)
  also have "2 ^ 32 = pow2 32"
    by simp
  finally have "r64 (of_nat n / of_nat s) \<le> pow2 32"
    using r64_mono [of "of_nat n / of_nat s" "pow2 32"] r64_pow2 [of 32] by simp
  then show "r64 (of_nat n / of_nat s) \<le> 2 ^ 64"
    by simp
qed simp

text \<open>Both sides of a scaling, before the guard against overflow.\<close>

definition scaled_floor :: "nat \<Rightarrow> rat \<Rightarrow> int" where
  "scaled_floor s q = max 1 \<lfloor>r64 (of_nat s * q) + 1 / 2\<rfloor>"

lemma scaled_floor_own:
  "0 < s \<Longrightarrow> s < 2 ^ 32 \<Longrightarrow> 0 < n \<Longrightarrow> n < 2 ^ 32 \<Longrightarrow> scaled_floor s (r64 (of_nat n / of_nat s)) = int n"
  by (simp add: scaled_floor_def own_ratio_exact)

lemma scaled_floor_le: "q \<le> r \<Longrightarrow> scaled_floor s q \<le> scaled_floor s r"
  using scaled_floor_mono [of "of_nat s" q r] by (auto simp: scaled_floor_def)

lemma scaled_floor_pos: "1 \<le> scaled_floor s q"
  by (simp add: scaled_floor_def)

lemma resize_dimensions_cases:
  fixes w h nw nh :: nat and fill :: bool
  assumes "0 < w" "w < 2 ^ 32" "0 < h" "h < 2 ^ 32" "nw < 2 ^ 32" "nh < 2 ^ 32"
  defines "q \<equiv> (if fill then max else min) (r64 (of_nat nw / of_nat w)) (r64 (of_nat nh / of_nat h))"
  assumes "resize_dimensions w h nw nh fill = (a, b)"
  shows "a = nat (scaled_floor w q) \<and> b = nat (scaled_floor h q)
    \<or> a = u32_max \<and> int u32_max < scaled_floor w q \<or> b = u32_max \<and> int u32_max < scaled_floor h q"
proof -
  note r = ratio_bounds [OF assms(1,5)] ratio_bounds [OF assms(3,6)]
  have q: "0 \<le> q" "q \<le> 2 ^ 64"
    using r by (auto simp: q_def le_max_iff_disj)
  have side: "f_as_uint (2 ^ 64) (scaled_side s (Fin False q)) = min (nat (scaled_floor s q)) (2 ^ 64 - 1)" if "s < 2 ^ 32" for s
    by (simp add: scaled_side_value [OF that q] scaled_floor_def)
  have ratio: "(if fill then f_max (f_div f64_fmt (f64_of_nat nw) (f64_of_nat w)) (f_div f64_fmt (f64_of_nat nh) (f64_of_nat h))
       else f_min (f_div f64_fmt (f64_of_nat nw) (f64_of_nat w)) (f_div f64_fmt (f64_of_nat nh) (f64_of_nat h))) = Fin False q"
    by (simp add: div_u32 [OF assms(1,2,5)] div_u32 [OF assms(3,4,6)] q_def)
  show ?thesis
    using assms(8) unfolding resize_dimensions_def Let_def ratio side [OF assms(2)] side [OF assms(4)]
    by (auto simp: u32_max_def split: if_splits)
qed

lemma fit_box:
  assumes "0 < w" "w < 2 ^ 32" "0 < h" "h < 2 ^ 32" "0 < nw" "nw < 2 ^ 32" "0 < nh" "nh < 2 ^ 32"
    "resize_dimensions w h nw nh False = (a, b)"
  shows "1 \<le> a \<and> a \<le> nw \<and> 1 \<le> b \<and> b \<le> nh \<and> (a = nw \<or> b = nh)"
proof -
  let ?rw = "r64 (of_nat nw / of_nat w)" and ?rh = "r64 (of_nat nh / of_nat h)"
  define A B where AB: "A = scaled_floor w (min ?rw ?rh)" "B = scaled_floor h (min ?rw ?rh)"
  note own = scaled_floor_own [OF assms(1,2,5,6)] scaled_floor_own [OF assms(3,4,7,8)]
  have lo: "A \<le> int nw" "B \<le> int nh"
    using scaled_floor_le [of "min ?rw ?rh" ?rw w] scaled_floor_le [of "min ?rw ?rh" ?rh h] own
    by (simp_all add: AB)
  have eq: "A = int nw \<or> B = int nh"
    using own by (cases "?rw \<le> ?rh"; simp add: AB min_def)
  have pos: "1 \<le> A" "1 \<le> B"
    by (simp_all add: AB scaled_floor_pos)
  have "a = nat A \<and> b = nat B \<or> a = u32_max \<and> int u32_max < A \<or> b = u32_max \<and> int u32_max < B"
    using resize_dimensions_cases [OF assms(1-4,6,8,9)] by (simp add: AB)
  then have "a = nat A \<and> b = nat B"
    using lo assms(6,8) by (auto simp: u32_max_def)
  then show ?thesis
    using lo pos eq by linarith
qed

lemma fill_box:
  assumes "0 < w" "w < 2 ^ 32" "0 < h" "h < 2 ^ 32" "0 < nw" "nw < 2 ^ 32" "0 < nh" "nh < 2 ^ 32"
    "resize_dimensions w h nw nh True = (c, d)"
  shows "nw \<le> c \<and> nh \<le> d \<and> (c = nw \<or> d = nh) \<or> c = u32_max \<or> d = u32_max"
proof -
  let ?rw = "r64 (of_nat nw / of_nat w)" and ?rh = "r64 (of_nat nh / of_nat h)"
  define C D where CD: "C = scaled_floor w (max ?rw ?rh)" "D = scaled_floor h (max ?rw ?rh)"
  note own = scaled_floor_own [OF assms(1,2,5,6)] scaled_floor_own [OF assms(3,4,7,8)]
  have hi: "int nw \<le> C" "int nh \<le> D"
    using scaled_floor_le [of ?rw "max ?rw ?rh" w] scaled_floor_le [of ?rh "max ?rw ?rh" h] own
    by (simp_all add: CD)
  have eq: "C = int nw \<or> D = int nh"
    using own by (cases "?rw \<le> ?rh"; simp add: CD max_def)
  have "c = nat C \<and> d = nat D \<or> c = u32_max \<or> d = u32_max"
    using resize_dimensions_cases [OF assms(1-4,6,8,9)] by (auto simp: CD)
  then show ?thesis
    using hi eq by linarith
qed

text \<open>
  C31. Fitting and filling, rounding included.  For all sizes of at least one pixel
  that a 32-bit number holds, \<^verbatim>\<open>fit\<close> gives a size of at least one pixel that lies in
  the requested box and equals it on one axis at least; \<^verbatim>\<open>fill\<close> gives one that covers
  the box and equals it on one axis, unless an axis is cut off at the largest 32-bit
  number.
\<close>

theorem resize_dimensions_fit_and_fill:
  assumes "0 < w" "w < 2 ^ 32" "0 < h" "h < 2 ^ 32" "0 < nw" "nw < 2 ^ 32" "0 < nh" "nh < 2 ^ 32"
    "resize_dimensions w h nw nh False = (a, b)" "resize_dimensions w h nw nh True = (c, d)"
  shows "(1 \<le> a \<and> a \<le> nw \<and> 1 \<le> b \<and> b \<le> nh \<and> (a = nw \<or> b = nh))
    \<and> (nw \<le> c \<and> nh \<le> d \<and> (c = nw \<or> d = nh) \<or> c = u32_max \<or> d = u32_max)"
  using fit_box [OF assms(1-9)] fill_box [OF assms(1-8,10)] by blast

theorem resize_dimensions_fit_and_fill_witness:
  "fst (resize_dimensions 1920 1080 300 200 False) \<le> 300 \<and> snd (resize_dimensions 1920 1080 300 200 False) \<le> 200"
  using resize_dimensions_fit_and_fill [of 1920 1080 300 200 "fst (resize_dimensions 1920 1080 300 200 False)"
      "snd (resize_dimensions 1920 1080 300 200 False)" "fst (resize_dimensions 1920 1080 300 200 True)"
      "snd (resize_dimensions 1920 1080 300 200 True)"]
  by simp

section \<open>The guard before the decode\<close>

lemma r64_bounds:
  assumes "1 / 2 ^ 64 \<le> x"
  shows "x * (1 - 1 / 2 ^ 53) \<le> r64 x" "r64 x \<le> x * (1 + 1 / 2 ^ 53)"
  using abs_le_D1 [OF r64_error [OF assms]] abs_le_D2 [OF r64_error [OF assms]]
  by (simp_all add: algebra_simps)

text \<open>Three roundings against three roundings: the error is far below half a pixel.\<close>

lemma product_rounding:
  assumes "1 \<le> V" "1 \<le> A" "1 \<le> B" "r64 (V * r64 (A * B)) \<le> 2 ^ 32"
  shows "r64 (r64 (V * A) * B) \<le> r64 (V * r64 (A * B)) + 1 / 2 ^ 10"
proof -
  let ?e = "1 / 2 ^ 53 :: rat"
  define P where "P = V * (A * B)"
  have ge: "1 \<le> V * A" "1 \<le> A * B" "1 \<le> P"
    using assms(1-3) mult_mono [of 1 V 1 A] mult_mono [of 1 A 1 B] mult_mono [of 1 V 1 "A * B"] by (simp_all add: P_def)
  have small: "1 / 2 ^ 64 \<le> x" if "1 \<le> x" for x :: rat
    by (rule order_trans [OF _ that]) simp
  have "A * B * (1 - ?e) \<le> r64 (A * B)"
    using r64_bounds(1) [OF small [OF ge(2)]] .
  then have "P * (1 - ?e) \<le> V * r64 (A * B)"
    using mult_left_mono [of "A * B * (1 - ?e)" "r64 (A * B)" V] assms(1) by (simp add: P_def mult.assoc)
  moreover have "1 / 2 ^ 64 \<le> V * r64 (A * B)"
    using calculation ge(3) by (simp add: field_simps)
  ultimately have lo: "P * (1 - ?e) * (1 - ?e) \<le> r64 (V * r64 (A * B))"
    using r64_bounds(1) [of "V * r64 (A * B)"] mult_right_mono [of "P * (1 - ?e)" "V * r64 (A * B)" "1 - ?e"]
    by (simp add: order_trans)
  have "r64 (V * A) \<le> V * A * (1 + ?e)"
    using r64_bounds(2) [OF small [OF ge(1)]] .
  then have "r64 (V * A) * B \<le> P * (1 + ?e)"
    using mult_right_mono [of "r64 (V * A)" "V * A * (1 + ?e)" B] assms(3) by (simp add: P_def ac_simps)
  then have "r64 (r64 (V * A) * B) \<le> r64 (P * (1 + ?e))"
    by (rule r64_mono)
  also have "\<dots> \<le> P * (1 + ?e) * (1 + ?e)"
    using ge(3) by (intro r64_bounds(2) small) (simp add: algebra_simps)
  finally have hi: "r64 (r64 (V * A) * B) \<le> P * (1 + ?e) * (1 + ?e)" .
  have "P \<le> 2 ^ 33"
    using lo assms(4) by simp
  then show ?thesis
    using lo hi by simp
qed

lemma positive_f32_cases:
  assumes "f_lt f_zero z" "wf_float f32_fmt z"
  obtains "z = Infin False" | a where "z = Fin False a" "0 < a" "a \<le> 2 ^ 128"
proof (cases z)
  case (Fin s a)
  have "0 \<le> a" "a < pow2 128"
    using assms(2) by (simp_all add: Fin representable_def)
  moreover have "pow2 128 = 2 ^ 128"
    by (simp only: power_int_numeral)
  ultimately show ?thesis
    using that(2) [of a] assms(1) Fin by (cases s) auto
qed (use assms that in auto)

definition inflated :: "rfloat \<Rightarrow> rfloat \<Rightarrow> nat \<Rightarrow> nat" where
  "inflated zoom dpr v =
     f_as_uint (2 ^ 64) (f_ceil (f_mul f64_fmt (f64_of_nat v) (f_mul f64_fmt (f_max zoom f_one) (f_max dpr f_one))))"

lemma f_mul_inf [simp]: "0 < a \<Longrightarrow> f_mul F (Fin False a) (Infin False) = Infin False"
  "0 < a \<Longrightarrow> f_mul F (Infin False) (Fin False a) = Infin False"
  by simp_all

lemma inflated_infinite:
  assumes "1 \<le> v" "v < 2 ^ 32" "f_lt f_zero z" "f_lt f_zero d" "wf_float f32_fmt z" "wf_float f32_fmt d"
    "z = Infin False \<or> d = Infin False"
  shows "inflated z d v = 2 ^ 64 - 1"
proof -
  have "z = Infin False \<or> (\<exists>a. z = Fin False a)" "d = Infin False \<or> (\<exists>a. d = Fin False a)"
    using positive_f32_cases [OF assms(3,5)] positive_f32_cases [OF assms(4,6)] by metis+
  moreover have "f_max (Infin False) f_one = Infin False" "f_max (Fin False a) f_one = Fin False (max a 1)"
    "max a 1 \<noteq> 0" for a :: rat
    by (auto simp: f_max_def)
  ultimately have m: "f_mul f64_fmt (f_max z f_one) (f_max d f_one) = Infin False"
    using assms(7) by auto
  have "f_mul f64_fmt (f64_of_nat v) (Infin False) = Infin False"
    using assms(1,2) by (simp add: f64_u32)
  then show ?thesis
    by (simp add: inflated_def m)
qed

lemma f_as_uint_at_least_one: "f_as_uint b (f_max (Fin False (of_int k)) f_one) = min (nat (max 1 k)) (b - 1)"
  by (auto simp: max_def)

lemma inflated_bounds_scale:
  assumes v: "1 \<le> v" "v < 2 ^ 32" and pos: "f_lt f_zero z" "f_lt f_zero d"
    and wf: "wf_float f32_fmt z" "wf_float f32_fmt d" and b: "inflated z d v < 2 ^ 32"
  shows "scale_axis z d v \<le> inflated z d v"
proof -
  have "z \<noteq> Infin False" "d \<noteq> Infin False"
    using inflated_infinite [OF v pos wf] b by auto
  then obtain a c where z: "z = Fin False a" "0 < a" "a \<le> 2 ^ 128" and d: "d = Fin False c" "0 < c" "c \<le> 2 ^ 128"
    using positive_f32_cases [OF pos(1) wf(1)] positive_f32_cases [OF pos(2) wf(2)] by metis
  define V A C :: rat where VAC: "V = of_nat v" "A = max a 1" "C = max c 1"
  have V: "1 \<le> V" "V \<le> 2 ^ 32"
    using v by (simp_all add: VAC flip: of_nat_less_iff)
  have AC: "1 \<le> A" "1 \<le> C" "a \<le> A" "c \<le> C" "A \<le> 2 ^ 128" "C \<le> 2 ^ 128"
    using z d by (simp_all add: VAC)
  have big: "x * y \<le> 2 ^ (k + n)" if "x \<le> 2 ^ k" "y \<le> 2 ^ n" "0 \<le> x" "0 \<le> y" for x y :: rat and k n
    unfolding power_add using that by (intro mult_mono) simp_all
  have r64_le: "r64 x \<le> 2 ^ k" if "x \<le> 2 ^ k" for x k
    using r64_mono [OF that] r64_pow2 [of "int k"] by (simp only: pow2_of_nat of_nat_0_le_iff)
  have M: "f_mul f64_fmt (f_max z f_one) (f_max d f_one) = Fin False (r64 (A * C))"
    using round_f64_small [OF small_le_pow2 [OF big [OF AC(5,6)]]] AC(1,2) by (simp add: z d VAC)
  have "r64 (A * C) \<le> 2 ^ 256"
    using r64_le [OF big [OF AC(5,6)]] AC(1,2) by simp
  then have vm: "V * r64 (A * C) \<le> 2 ^ (32 + 256)"
    using V(1) by (intro big [OF V(2)]) simp_all
  then have Y: "f_mul f64_fmt (f64_of_nat v) (Fin False (r64 (A * C))) = Fin False (r64 (V * r64 (A * C)))"
    using round_f64_small [OF small_le_pow2 [OF vm]] v by (simp add: f64_u32 VAC)
  let ?y = "r64 (V * r64 (A * C))" and ?x = "r64 (r64 (V * a) * c)"
  have infl: "inflated z d v = min (nat \<lceil>?y\<rceil>) (2 ^ 64 - 1)"
    by (simp add: inflated_def M Y)
  then have "nat \<lceil>?y\<rceil> < 2 ^ 32"
    using b by (simp add: min_def split: if_splits)
  moreover have "i \<le> 2 ^ 32" if "nat i < 2 ^ 32" for i :: int
    using that by (cases "0 \<le> i") (simp_all add: nat_less_iff)
  ultimately have small: "\<lceil>?y\<rceil> \<le> 2 ^ 32"
    by blast
  then have "of_int \<lceil>?y\<rceil> \<le> (of_int (2 ^ 32) :: rat)"
    by (simp only: of_int_le_iff)
  then have y: "?y \<le> 2 ^ 32"
    using le_of_int_ceiling [of ?y] by simp
  have va: "V * a \<le> 2 ^ (32 + 128)"
    using V(1) z(2) by (intro big [OF V(2) z(3)]) simp_all
  then have g: "f_mul f64_fmt (f64_of_nat v) z = Fin False (r64 (V * a))" "r64 (V * a) \<le> 2 ^ (32 + 128)"
    using round_f64_small [OF small_le_pow2 [OF va]] r64_le [OF va] v by (simp_all add: f64_u32 z VAC)
  have vac: "r64 (V * a) * c \<le> 2 ^ (32 + 128 + 128)"
    using d(2) by (intro big [OF g(2) d(3)]) simp_all
  have x: "f_mul f64_fmt (Fin False (r64 (V * a))) d = Fin False ?x"
    using round_f64_small [OF small_le_pow2 [OF vac]] by (simp add: d)
  have "?x \<le> r64 (r64 (V * A) * C)"
    using AC V(1) z(2) d(2) by (intro r64_mono mult_mono) simp_all
  also have "\<dots> \<le> ?y + 1 / 2 ^ 10"
    by (rule product_rounding [OF V(1) AC(1,2) y])
  also have "\<dots> < ?y + 1 / 2"
    by simp
  finally have "?x + 1 / 2 < of_int \<lceil>?y\<rceil> + 1"
    using le_of_int_ceiling [of ?y] by linarith
  then have fl: "\<lfloor>?x + 1 / 2\<rfloor> \<le> \<lceil>?y\<rceil>"
    by (simp add: floor_le_iff)
  have sc: "scale_axis z d v = min (nat (max 1 \<lfloor>?x + 1 / 2\<rfloor>)) (2 ^ 32 - 1)"
    unfolding scale_axis_def g(1) x f_round.simps by (rule f_as_uint_at_least_one)
  have "1 \<le> \<lceil>?y\<rceil>"
  proof -
    have "1 \<le> V * r64 (A * C)"
      using V(1) AC(1,2) mult_mono [of 1 A 1 C] r64_mono [of 1 "A * C"] r64_pow2 [of 0]
        mult_mono [of 1 V 1 "r64 (A * C)"] by simp
    then have "1 \<le> ?y"
      using r64_mono [of 1 "V * r64 (A * C)"] r64_pow2 [of 0] by simp
    then show ?thesis
      by simp
  qed
  then have "max 1 \<lfloor>?x + 1 / 2\<rfloor> \<le> \<lceil>?y\<rceil>"
    using fl by simp
  then have le: "nat (max 1 \<lfloor>?x + 1 / 2\<rfloor>) \<le> nat \<lceil>?y\<rceil>"
    by (rule nat_mono)
  show ?thesis
    unfolding sc infl by (rule min.mono [OF le]) simp
qed

lemma check_axis_bound_Some:
  "check_axis_bound (Some v) least zoom dpr limit name = Inr () \<longleftrightarrow>
     inflated zoom dpr v \<le> limit \<and> pred_option (\<lambda>m. m \<le> limit) least"
  by (cases least) (auto simp: check_axis_bound_def inflated_def Let_def split: if_splits)

lemma axis_within_limit:
  assumes "check_axis_bound (Some v) least zoom dpr limit name = Inr ()" "limit < 2 ^ 32" "1 \<le> v" "v < 2 ^ 32"
    "f_lt f_zero zoom" "f_lt f_zero dpr" "wf_float f32_fmt zoom" "wf_float f32_fmt dpr"
  shows "scale_axis zoom dpr v \<le> limit
    \<and> (\<exists>w. min_floor least src (Some (if enlarge then scale_axis zoom dpr v else min (scale_axis zoom dpr v) src)) = Some w
       \<and> w \<le> limit)"
proof -
  have b: "inflated zoom dpr v \<le> limit" "pred_option (\<lambda>m. m \<le> limit) least"
    using assms(1) by (simp_all add: check_axis_bound_Some)
  then have "inflated zoom dpr v < 2 ^ 32"
    using assms(2) by (rule_tac le_less_trans)
  then have "scale_axis zoom dpr v \<le> inflated zoom dpr v"
    by (rule inflated_bounds_scale [OF assms(3-8)])
  then have s: "scale_axis zoom dpr v \<le> limit"
    using b(1) by simp
  have "\<exists>w. min_floor least src (Some (if enlarge then scale_axis zoom dpr v else min (scale_axis zoom dpr v) src)) = Some w
       \<and> w \<le> limit"
    using s b(2) by (cases least) (auto simp: min_floor_def)
  then show ?thesis
    using s by simp
qed

lemma swap_if_inj: "swap_if b p = swap_if b q \<longleftrightarrow> p = q"
  by (auto simp: swap_if_def prod_eq_iff)

text \<open>
  C32. The guard before the decode is sound for the axes a request names.  When
  \<^verbatim>\<open>check_output_dimensions\<close> lets a request through, then, whatever the source's
  size, the box that zoom, dpr, the enlarge guard, the minimum sizes and the axis swap
  of a rotation resolve to stays within the configured maximum on every axis the
  request gives, and so does the canvas that \<^verbatim>\<open>extend\<close> pads to.  All roundings of
  the two computations, which round in different places, are accounted for.
\<close>

theorem output_check_bounds_resize_box:
  assumes "check_output_dimensions params config = Inr ()"
    "pred_option (\<lambda>v. 1 \<le> v \<and> v < 2 ^ 32) (rq_width params)"
    "pred_option (\<lambda>v. 1 \<le> v \<and> v < 2 ^ 32) (rq_height params)"
    "f_lt f_zero (rq_zoom_x params)" "f_lt f_zero (rq_zoom_y params)" "f_lt f_zero (rq_dpr params)"
    "wf_float f32_fmt (rq_zoom_x params)" "wf_float f32_fmt (rq_zoom_y params)" "wf_float f32_fmt (rq_dpr params)"
    "pc_max_output_width config < 2 ^ 32" "pc_max_output_height config < 2 ^ 32"
    "es_resize_box (effective_resize_box params src_width src_height)
       = swap_if (rotate_swaps_axes (rq_rotate params)) (bw, bh)"
  shows "(rq_width params \<noteq> None \<longrightarrow> (\<exists>w. bw = Some w \<and> w \<le> pc_max_output_width config))
    \<and> (rq_height params \<noteq> None \<longrightarrow> (\<exists>h. bh = Some h \<and> h \<le> pc_max_output_height config))
    \<and> (\<forall>w h. es_extend_box (effective_resize_box params src_width src_height) = Some (w, h)
         \<longrightarrow> w \<le> pc_max_output_width config \<and> h \<le> pc_max_output_height config)"
proof -
  let ?swap = "rotate_swaps_axes (rq_rotate params)"
  let ?sw = "fst (swap_if ?swap (src_width, src_height))" and ?sh = "snd (swap_if ?swap (src_width, src_height))"
  let ?fw = "map_option (scale_axis (rq_zoom_x params) (rq_dpr params)) (rq_width params)"
    and ?fh = "map_option (scale_axis (rq_zoom_y params) (rq_dpr params)) (rq_height params)"
  let ?cap = "\<lambda>src. map_option (\<lambda>v. if rq_enlarge params then v else min v src)"
  have c: "check_axis_bound (rq_width params) (rq_min_width params) (rq_zoom_x params) (rq_dpr params)
      (pc_max_output_width config) ''width'' = Inr ()"
    "check_axis_bound (rq_height params) (rq_min_height params) (rq_zoom_y params) (rq_dpr params)
      (pc_max_output_height config) ''height'' = Inr ()"
    using assms(1) by (auto simp: check_output_dimensions_def bindr_Inr_iff)
  have w: "scale_axis (rq_zoom_x params) (rq_dpr params) v \<le> pc_max_output_width config
      \<and> (\<exists>w. min_floor (rq_min_width params) ?sw (?cap ?sw ?fw) = Some w \<and> w \<le> pc_max_output_width config)"
    if "rq_width params = Some v" for v
    using axis_within_limit [of v "rq_min_width params" "rq_zoom_x params" "rq_dpr params" "pc_max_output_width config"
        "''width''" ?sw "rq_enlarge params"] c(1) assms(2,4,6,7,9,10) that by simp
  have h: "scale_axis (rq_zoom_y params) (rq_dpr params) v \<le> pc_max_output_height config
      \<and> (\<exists>h. min_floor (rq_min_height params) ?sh (?cap ?sh ?fh) = Some h \<and> h \<le> pc_max_output_height config)"
    if "rq_height params = Some v" for v
    using axis_within_limit [of v "rq_min_height params" "rq_zoom_y params" "rq_dpr params" "pc_max_output_height config"
        "''height''" ?sh "rq_enlarge params"] c(2) assms(3,5,6,8,9,11) that by simp
  have box: "rq_width params \<noteq> None \<or> rq_height params \<noteq> None
    \<Longrightarrow> bw = min_floor (rq_min_width params) ?sw (?cap ?sw ?fw) \<and> bh = min_floor (rq_min_height params) ?sh (?cap ?sh ?fh)"
    using assms(12) by (auto simp: effective_resize_box_def Let_def case_prod_unfold swap_if_inj)
  have ext: "es_extend_box (effective_resize_box params src_width src_height)
      = (case (?fw, ?fh) of (Some w, Some h) \<Rightarrow> Some (w, h) | _ \<Rightarrow> None)"
    by (auto simp: effective_resize_box_def Let_def case_prod_unfold)
  show ?thesis
    unfolding ext using w h box by (cases "rq_width params"; cases "rq_height params") auto
qed

lemma r64_nat [simp]: "n < 2 ^ 53 \<Longrightarrow> r64 (of_nat n) = of_nat n"
  using representable_nat [of n f64_fmt] by (simp add: representable_def)

lemma f_mul_nat:
  assumes "m * n < 2 ^ 53"
  shows "f_mul f64_fmt (Fin False (of_nat m)) (Fin False (of_nat n)) = Fin False (of_nat (m * n))"
  using round_float_representable [OF representable_nat [of "m * n" f64_fmt], of False] assms by simp

lemma f_mul_one:
  "n < 2 ^ 53 \<Longrightarrow> f_mul f64_fmt (Fin False (of_nat n)) f_one = Fin False (of_nat n)"
  using f_mul_nat [of n 1] by (simp del: f_mul.simps)

lemma inflated_one: "v < 2 ^ 32 \<Longrightarrow> inflated f_one f_one v = v"
  using f_mul_one [of 1] f_mul_one [of v]
  by (simp add: inflated_def f64_u32 del: f_mul.simps)

lemma half_floor: "\<lfloor>of_nat n + 1 / 2 :: rat\<rfloor> = int n"
  by (rule floor_unique) simp_all

lemma scale_axis_one:
  assumes "1 \<le> v" "v < 2 ^ 32"
  shows "scale_axis f_one f_one v = v"
proof -
  have m: "f_mul f64_fmt (f_mul f64_fmt (f64_of_nat v) f_one) f_one = Fin False (of_nat v)"
    using assms f_mul_one [of v] by (simp add: f64_u32 del: f_mul.simps)
  show ?thesis
    unfolding scale_axis_def m f_round.simps half_floor f_as_uint_at_least_one using assms by simp
qed

definition demo_query :: resize_query where
  "demo_query = resize_query_default\<lparr>rq_width := Some 640, rq_min_height := Some 480\<rparr>"

lemma unit_scale: "f_lt f_zero f_one" "wf_float f32_fmt f_one"
  by simp_all

theorem output_check_bounds_resize_box_witness:
  "\<exists>w. fst (es_resize_box (effective_resize_box demo_query 4000 3000)) = Some w
     \<and> w \<le> pc_max_output_width (default_config 4)"
proof -
  let ?c = "default_config 4"
  have c: "pc_max_output_width ?c = 4096" "pc_max_output_height ?c = 4096"
    by (simp_all add: default_config_def)
  have p: "rq_width demo_query = Some 640" "rq_height demo_query = None" "rq_min_width demo_query = None"
    "rq_min_height demo_query = Some 480" "rq_zoom_x demo_query = f_one" "rq_zoom_y demo_query = f_one"
    "rq_dpr demo_query = f_one" "rq_rotate demo_query = 0"
    by (simp_all add: demo_query_def resize_query_default_def)
  have "check_axis_bound (Some 640) None f_one f_one 4096 ''width'' = Inr ()"
    "check_axis_bound None (Some 480) f_one f_one 4096 ''height'' = Inr ()"
    by (simp_all add: check_axis_bound_Some inflated_one) (simp add: check_axis_bound_def Let_def)
  then have "check_output_dimensions demo_query ?c = Inr ()"
    by (simp add: check_output_dimensions_def p c)
  then show ?thesis
    using output_check_bounds_resize_box [of demo_query ?c 4000 3000
        "fst (es_resize_box (effective_resize_box demo_query 4000 3000))"
        "snd (es_resize_box (effective_resize_box demo_query 4000 3000))"]
    by (simp add: p c rotate_swaps_axes_def swap_if_def)
qed

text \<open>
  What the guard does not see.  An axis the request leaves open follows the source's
  shape, and the cover size of \<^verbatim>\<open>fill\<close> follows it too; both are allocated before the
  final size is checked.  Two sources well below the limit of megapixels:
\<close>

definition lone_width :: resize_query where
  "lone_width = resize_query_default\<lparr>rq_width := Some 4096, rq_enlarge := True\<rparr>"

definition cover_box :: resize_query where
  "cover_box = resize_query_default\<lparr>rq_width := Some 4096, rq_height := Some 4096, rq_enlarge := True, rq_resize_type := Fill\<rparr>"

lemma scaled_floor_nat:
  assumes "1 \<le> s * n" "s * n < 2 ^ 53"
  shows "scaled_floor s (of_nat n) = int (s * n)"
proof -
  have "r64 (of_nat s * of_nat n) = of_nat (s * n)"
    using r64_nat [OF assms(2)] by simp
  then show ?thesis
    using assms(1) unfolding scaled_floor_def by (simp only: half_floor)
qed

lemma lone_width_allocates:
  "check_output_dimensions lone_width (default_config 4) = Inr ()"
  "check_source_resolution 64 50000 50 = Inr ()"
  "effective_resize_target 64 50000 lone_width = (4096, 3200000)"
proof -
  have p: "rq_width lone_width = Some 4096" "rq_height lone_width = None" "rq_min_width lone_width = None"
    "rq_min_height lone_width = None" "rq_zoom_x lone_width = f_one" "rq_zoom_y lone_width = f_one"
    "rq_dpr lone_width = f_one" "rq_rotate lone_width = 0" "rq_enlarge lone_width"
    by (simp_all add: lone_width_def resize_query_default_def)
  have "check_axis_bound (Some 4096) None f_one f_one 4096 ''width'' = Inr ()"
    "check_axis_bound None None f_one f_one 4096 ''height'' = Inr ()"
    by (simp_all add: check_axis_bound_Some inflated_one) (simp add: check_axis_bound_def Let_def)
  then show "check_output_dimensions lone_width (default_config 4) = Inr ()"
    by (simp add: check_output_dimensions_def p default_config_def)
  show "check_source_resolution 64 50000 50 = Inr ()"
    by (simp add: check_source_resolution_def)
  have "r64 (of_nat 4096 / of_nat 64) = of_nat 64"
    using r64_nat [of 64] by simp
  moreover have "64 \<le> r64 (of_nat u32_max / of_nat 50000)"
    using r64_mono [of 64 "of_nat u32_max / of_nat 50000"] r64_nat [of 64] by (simp add: u32_max_def)
  ultimately have q: "min (r64 (of_nat 4096 / of_nat 64)) (r64 (of_nat u32_max / of_nat 50000)) = of_nat 64"
    by simp
  have "resize_dimensions 64 50000 4096 u32_max False = (4096, 3200000)"
    using resize_dimensions_cases [of 64 50000 4096 u32_max False
        "fst (resize_dimensions 64 50000 4096 u32_max False)" "snd (resize_dimensions 64 50000 4096 u32_max False)"]
      scaled_floor_nat [of 64 64] scaled_floor_nat [of 50000 64]
    unfolding if_False q by (auto simp: u32_max_def prod_eq_iff)
  then show "effective_resize_target 64 50000 lone_width = (4096, 3200000)"
    by (simp add: effective_resize_target_def effective_resize_box_def p rotate_swaps_axes_def swap_if_def Let_def
        scale_axis_one min_floor_def)
qed

lemma cover_box_allocates:
  "check_output_dimensions cover_box (default_config 4) = Inr ()"
  "check_source_resolution 50000 1 50 = Inr ()"
  "effective_resize_target 50000 1 cover_box = (204800000, 4096)"
proof -
  have p: "rq_width cover_box = Some 4096" "rq_height cover_box = Some 4096" "rq_min_width cover_box = None"
    "rq_min_height cover_box = None" "rq_zoom_x cover_box = f_one" "rq_zoom_y cover_box = f_one"
    "rq_dpr cover_box = f_one" "rq_rotate cover_box = 0" "rq_enlarge cover_box" "rq_resize_type cover_box = Fill"
    by (simp_all add: cover_box_def resize_query_default_def)
  have "check_axis_bound (Some 4096) None f_one f_one 4096 ''width'' = Inr ()"
    "check_axis_bound (Some 4096) None f_one f_one 4096 ''height'' = Inr ()"
    by (simp_all add: check_axis_bound_Some inflated_one)
  then show "check_output_dimensions cover_box (default_config 4) = Inr ()"
    by (simp add: check_output_dimensions_def p default_config_def)
  show "check_source_resolution 50000 1 50 = Inr ()"
    by (simp add: check_source_resolution_def)
  have "r64 (of_nat 4096 / of_nat 1) = of_nat 4096"
    using r64_nat [of 4096] by simp
  moreover have "r64 (of_nat 4096 / of_nat 50000) \<le> 4096"
    using r64_mono [of "of_nat 4096 / of_nat 50000" 4096] r64_nat [of 4096] by simp
  ultimately have q: "max (r64 (of_nat 4096 / of_nat 50000)) (r64 (of_nat 4096 / of_nat 1)) = of_nat 4096"
    by simp
  have "resize_dimensions 50000 1 4096 4096 True = (204800000, 4096)"
    using resize_dimensions_cases [of 50000 1 4096 4096 True
        "fst (resize_dimensions 50000 1 4096 4096 True)" "snd (resize_dimensions 50000 1 4096 4096 True)"]
      scaled_floor_nat [of 50000 4096] scaled_floor_nat [of 1 4096]
    unfolding if_True q by (auto simp: u32_max_def prod_eq_iff)
  then show "effective_resize_target 50000 1 cover_box = (204800000, 4096)"
    by (simp add: effective_resize_target_def effective_resize_box_def p rotate_swaps_axes_def swap_if_def Let_def
        scale_axis_one min_floor_def)
qed

section \<open>Anchored boxes\<close>

text \<open>A coordinate that \<^verbatim>\<open>clamp\<close> and \<^verbatim>\<open>floor\<close> bring into a range.\<close>

lemma floor_within:
  assumes "f_le x (Fin False (of_nat m)) \<or> is_nan x"
  shows "f_as_uint (2 ^ 32) (f_floor x) \<le> m"
  using assms
proof (cases x)
  case (Fin s a)
  then have "\<not> s \<Longrightarrow> \<lfloor>a\<rfloor> \<le> int m"
    using assms by (simp add: floor_le_iff)
  then show ?thesis
    by (auto simp: Fin)
qed auto

lemma clamp_within: "0 \<le> m \<Longrightarrow> f_le (f_clamp f_zero (Fin False m) x) (Fin False m) \<or> is_nan (f_clamp f_zero (Fin False m) x)"
  by (cases x) (auto simp: f_clamp_def not_less)

lemma half_within:
  assumes "m < 2 ^ 32"
  shows "f_le (f_div f64_fmt (Fin False (of_nat m)) f_two) (Fin False (of_nat m))"
proof -
  have m: "(of_nat m :: rat) \<le> 2 ^ 32"
    using assms by (simp flip: of_nat_less_iff)
  then have "of_nat m / 2 \<le> pow2 512"
    by (intro small_le_pow2 [of _ 32]) simp_all
  moreover have "r64 (of_nat m / 2) \<le> of_nat m"
    using r64_mono [of "of_nat m / 2" "of_nat m"] r64_nat [of m] assms by simp
  ultimately show ?thesis
    by (simp add: round_f64_small)
qed

lemma anchor_point_within:
  assumes "container_w < 2 ^ 32" "container_h < 2 ^ 32" "anchor_point g container_w container_h box_w box_h = (x, y)"
  shows "(f_le x (Fin False (of_nat (container_w - box_w))) \<or> is_nan x)
    \<and> (f_le y (Fin False (of_nat (container_h - box_h))) \<or> is_nan y)"
proof -
  have s: "container_w - box_w < 2 ^ 32" "container_h - box_h < 2 ^ 32"
    using assms(1,2) by simp_all
  then have mx: "f64_of_nat (container_w - box_w) = Fin False (of_nat (container_w - box_w))"
    "f64_of_nat (container_h - box_h) = Fin False (of_nat (container_h - box_h))"
    by (simp_all add: f64_u32)
  show ?thesis
    using assms(3) half_within [OF s(1)] half_within [OF s(2)]
      clamp_within [of "of_nat (container_w - box_w)"] clamp_within [of "of_nat (container_h - box_h)"]
    unfolding anchor_point_def mx Let_def
    by (cases g) (auto simp del: f_div.simps of_nat_diff)
qed

lemma gravity_anchor_inside:
  assumes "container_w < 2 ^ 32" "container_h < 2 ^ 32" "gravity_anchor g container_w container_h box_w box_h = (x, y)"
  shows "x + min box_w container_w \<le> container_w" "y + min box_h container_h \<le> container_h"
proof -
  obtain fx fy where p: "anchor_point g container_w container_h (min box_w container_w) (min box_h container_h) = (fx, fy)"
    by fastforce
  have "x = f_as_uint (2 ^ 32) (f_floor fx)" "y = f_as_uint (2 ^ 32) (f_floor fy)"
    using assms(3) by (simp_all add: gravity_anchor_def p)
  then have "x \<le> container_w - min box_w container_w" "y \<le> container_h - min box_h container_h"
    using anchor_point_within [OF assms(1,2) p] by (simp_all only: floor_within)
  then show "x + min box_w container_w \<le> container_w" "y + min box_h container_h \<le> container_h"
    by linarith+
qed

lemma crop_rect_inside:
  assumes "0 < sw" "sw < 2 ^ 32" "0 < sh" "sh < 2 ^ 32" "crop_rect c (sw, sh) = ((x, y), (w, h))"
  shows "1 \<le> w \<and> x + w \<le> sw \<and> 1 \<le> h \<and> y + h \<le> sh"
proof -
  have side: "1 \<le> resolve_crop_side d s \<and> resolve_crop_side d s \<le> s" if "0 < s" for d s
    using that by (auto simp: resolve_crop_side_def Let_def)
  have e: "w = resolve_crop_side (crop_width c) sw" "h = resolve_crop_side (crop_height c) sh"
    "gravity_anchor (crop_gravity c) sw sh w h = (x, y)"
    using assms(5) by (auto simp: crop_rect_def Let_def)
  show ?thesis
    using side [OF assms(1)] side [OF assms(3)] gravity_anchor_inside [OF assms(2,4) e(3)] e(1,2) by (simp add: min_absorb1)
qed

section \<open>Trimming\<close>

lemma scan_spec:
  "i \<le> scan P i n \<and> scan P i n \<le> i + n \<and> (\<forall>k. i \<le> k \<and> k < scan P i n \<longrightarrow> P k)
   \<and> (scan P i n < i + n \<longrightarrow> \<not> P (scan P i n))"
proof (induction n arbitrary: i)
  case (Suc n)
  show ?case
  proof (cases "P i")
    case True
    let ?s = "scan P (i + 1) n"
    have ih: "i + 1 \<le> ?s" "?s \<le> i + 1 + n" "\<forall>k. i + 1 \<le> k \<and> k < ?s \<longrightarrow> P k" "?s < i + 1 + n \<longrightarrow> \<not> P ?s"
      using Suc.IH [of "i + 1"] by blast+
    have e: "scan P i (Suc n) = ?s"
      using True by simp
    have "\<forall>k. i \<le> k \<and> k < ?s \<longrightarrow> P k"
      using ih(3) True by (metis Suc_eq_plus1 Suc_leI le_neq_implies_less)
    then show ?thesis
      unfolding e using ih(1,2,4) by simp
  qed auto
qed auto

text \<open>The amount cut from both ends of an axis of length \<^term>\<open>n\<close>.\<close>

definition trim_axis :: "bool \<Rightarrow> (nat \<Rightarrow> bool) \<Rightarrow> nat \<Rightarrow> nat \<times> nat" where
  "trim_axis equal bg n =
     (let a = scan bg 0 n; b = scan (\<lambda>i. bg (n - 1 - i)) 0 (n - a) in if equal then (min a b, min a b) else (a, b))"

lemma trim_rect_axes:
  "trim_rect options px (width, height) =
     (if width = 0 \<or> height = 0 then None
      else
        (let bg = (\<lambda>x y. is_background (trim_threshold options) (trim_target options px) (px x y));
             (left, right) = trim_axis (trim_equal_hor options) (\<lambda>x. \<forall>y<height. bg x y) width;
             (top, bottom) = trim_axis (trim_equal_ver options) (\<lambda>y. \<forall>x<width. bg x y) height
         in if top + bottom \<ge> height \<or> left + right \<ge> width then None
            else Some ((left, top), (width - left - right, height - top - bottom))))"
  by (simp add: trim_rect_def trim_axis_def Let_def list_all_iff Ball_def)

lemma trim_axis_spec:
  assumes "trim_axis equal bg n = (a, b)"
  shows "\<forall>k. k < a \<or> n - b \<le> k \<and> k < n \<longrightarrow> bg k"
    and "equal \<Longrightarrow> a = b"
    and "\<not> equal \<Longrightarrow> a + b < n \<Longrightarrow> \<not> bg a \<and> \<not> bg (n - 1 - b)"
    and "k < n \<Longrightarrow> \<not> bg k \<Longrightarrow> a + b < n"
proof -
  define a' b' where ab: "a' = scan bg 0 n" "b' = scan (\<lambda>i. bg (n - 1 - i)) 0 (n - a')"
  have s: "a' \<le> n" "\<And>k. k < a' \<Longrightarrow> bg k" "a' < n \<Longrightarrow> \<not> bg a'"
    "b' \<le> n - a'" "\<And>i. i < b' \<Longrightarrow> bg (n - 1 - i)" "b' < n - a' \<Longrightarrow> \<not> bg (n - 1 - b')"
    using scan_spec [of 0 bg n] scan_spec [of 0 "\<lambda>i. bg (n - 1 - i)" "n - a'"] by (auto simp: ab)
  have d: "(a, b) = (if equal then (min a' b', min a' b') else (a', b'))"
    using assms by (auto simp: trim_axis_def ab Let_def split: if_splits)
  have cut: "bg k" if "n - b' \<le> k" "k < n" for k
    using s(5) [of "n - 1 - k"] that by auto
  have le: "a \<le> a'" "b \<le> b'"
    using d by (auto split: if_splits)
  then show "\<forall>k. k < a \<or> n - b \<le> k \<and> k < n \<longrightarrow> bg k"
    using s(2) cut by auto
  show "equal \<Longrightarrow> a = b"
    using d by simp
  show "\<not> equal \<Longrightarrow> a + b < n \<Longrightarrow> \<not> bg a \<and> \<not> bg (n - 1 - b)"
    using d s(3,6) by auto
  show "a + b < n" if k: "k < n" "\<not> bg k"
  proof -
    have "a' \<le> k" "k < n - b'"
      using s(2) cut k by (meson not_less)+
    then show ?thesis
      using le by linarith
  qed
qed

text \<open>
  C33. What trimming does.  A trim returns a rectangle of at least one pixel inside
  the image; every pixel it cuts off is background; unless equal margins are asked
  for, the rectangle is the smallest possible, since each of its edges has a pixel
  that is not background; with equal margins the two sides are equal; and an image
  with a pixel that is not background is never left uncut by the degenerate case.
\<close>

theorem trim_cuts_background:
  defines "bg \<equiv> \<lambda>options px i j. is_background (trim_threshold options) (trim_target options px) (px i j)"
  shows "(trim_rect options px (width, height) = Some ((x, y), (w, h)) \<longrightarrow>
      1 \<le> w \<and> x + w \<le> width \<and> 1 \<le> h \<and> y + h \<le> height
      \<and> (\<forall>i<width. \<forall>j<height. \<not> bg options px i j \<longrightarrow> x \<le> i \<and> i < x + w \<and> y \<le> j \<and> j < y + h)
      \<and> (if trim_equal_hor options then x = width - (x + w)
         else (\<exists>j<height. \<not> bg options px x j) \<and> (\<exists>j<height. \<not> bg options px (x + w - 1) j))
      \<and> (if trim_equal_ver options then y = height - (y + h)
         else (\<exists>i<width. \<not> bg options px i y) \<and> (\<exists>i<width. \<not> bg options px i (y + h - 1))))
    \<and> (i < width \<and> j < height \<and> \<not> bg options px i j \<longrightarrow> trim_rect options px (width, height) \<noteq> None)"
proof -
  let ?b = "bg options px"
  let ?col = "\<lambda>x. \<forall>y<height. ?b x y" and ?row = "\<lambda>y. \<forall>x<width. ?b x y"
  obtain l r where h: "trim_axis (trim_equal_hor options) ?col width = (l, r)"
    by fastforce
  obtain t b where v: "trim_axis (trim_equal_ver options) ?row height = (t, b)"
    by fastforce
  note hs = trim_axis_spec [OF h] and vs = trim_axis_spec [OF v]
  have rect: "trim_rect options px (width, height) =
      (if width = 0 \<or> height = 0 \<or> t + b \<ge> height \<or> l + r \<ge> width then None
       else Some ((l, t), (width - l - r, height - t - b)))"
    using h v by (simp add: trim_rect_axes bg_def Let_def)
  have "trim_rect options px (width, height) \<noteq> None" if "i < width" "j < height" "\<not> ?b i j"
  proof -
    have "\<not> ?col i" "\<not> ?row j"
      using that by auto
    then have "l + r < width" "t + b < height"
      using hs(4) vs(4) that(1,2) by blast+
    then show ?thesis
      by (simp add: rect)
  qed
  moreover have "1 \<le> w \<and> x + w \<le> width \<and> 1 \<le> h \<and> y + h \<le> height
      \<and> (\<forall>i<width. \<forall>j<height. \<not> ?b i j \<longrightarrow> x \<le> i \<and> i < x + w \<and> y \<le> j \<and> j < y + h)
      \<and> (if trim_equal_hor options then x = width - (x + w)
         else (\<exists>j<height. \<not> ?b x j) \<and> (\<exists>j<height. \<not> ?b (x + w - 1) j))
      \<and> (if trim_equal_ver options then y = height - (y + h)
         else (\<exists>i<width. \<not> ?b i y) \<and> (\<exists>i<width. \<not> ?b i (y + h - 1)))"
    if "trim_rect options px (width, height) = Some ((x, y), (w, h))"
  proof -
    have e: "x = l" "y = t" "w = width - l - r" "h = height - t - b" and n: "t + b < height" "l + r < width"
      using that by (auto simp: rect split: if_splits)
    have edge: "x + w - 1 = width - 1 - r" "y + h - 1 = height - 1 - b" "x + w = width - r" "y + h = height - b" "1 \<le> w" "1 \<le> h"
      using e n by auto
    have inside: "x \<le> i \<and> i < x + w \<and> y \<le> j \<and> j < y + h" if "i < width" "j < height" "\<not> ?b i j" for i j
    proof -
      have "\<not> ?col i" "\<not> ?row j"
        using that by auto
      then have "\<not> (i < l \<or> width - r \<le> i \<and> i < width)" "\<not> (j < t \<or> height - b \<le> j \<and> j < height)"
        using hs(1) vs(1) by blast+
      then show ?thesis
        using that edge(3,4) e(1,2) by auto
    qed
    show ?thesis
      using inside e(1,2) n hs(2,3) vs(2,3) edge(5,6) unfolding edge(1-4) by auto
  qed
  ultimately show ?thesis
    by blast
qed

definition demo_trim :: trim_options where
  "demo_trim = \<lparr> trim_threshold = Fin False 10, trim_color = Some (255, 255, 255), trim_equal_hor = False, trim_equal_ver = False \<rparr>"

definition demo_pixels :: "nat \<Rightarrow> nat \<Rightarrow> rgba" where
  "demo_pixels x y = (if (x, y) = (2, 1) then (0, 0, 0, 255) else (255, 255, 255, 255))"

lemma f32_u8: "n < 256 \<Longrightarrow> f32_of_nat n = Fin False (of_nat n)"
  by (rule f32_of_nat_exact) simp

lemma channel_distance_white: "channel_distance 0 255 = Fin False 255"
  using representable_nat [of 255 f32_fmt]
  by (simp add: channel_distance_def f32_u8 f_sub_def round_float_representable)

theorem trim_cuts_background_witness:
  "\<exists>x y w h. trim_rect demo_trim demo_pixels (4, 4) = Some ((x, y), (w, h)) \<and> x \<le> 2 \<and> 2 < x + w \<and> y \<le> 1 \<and> 1 < y + h"
proof -
  have px: "\<not> is_background (trim_threshold demo_trim) (trim_target demo_trim demo_pixels) (demo_pixels 2 1)"
    by (simp add: is_background_def demo_trim_def trim_target_def demo_pixels_def channel_distance_white)
  then have "trim_rect demo_trim demo_pixels (4, 4) \<noteq> None"
    using trim_cuts_background [of demo_trim demo_pixels 4 4 0 0 0 0 2 1] by simp
  then obtain x y w h where r: "trim_rect demo_trim demo_pixels (4, 4) = Some ((x, y), (w, h))"
    by auto
  moreover have "\<forall>i<4. \<forall>j<4. \<not> is_background (trim_threshold demo_trim) (trim_target demo_trim demo_pixels) (demo_pixels i j)
      \<longrightarrow> x \<le> i \<and> i < x + w \<and> y \<le> j \<and> j < y + h"
    using trim_cuts_background [of demo_trim demo_pixels 4 4 x y w h] r by blast
  then have "(2 :: nat) < 4 \<longrightarrow> (1 :: nat) < 4 \<longrightarrow> x \<le> 2 \<and> 2 < x + w \<and> y \<le> 1 \<and> 1 < y + h"
    using px by blast
  then have "x \<le> 2 \<and> 2 < x + w \<and> y \<le> 1 \<and> 1 < y + h"
    by simp
  ultimately show ?thesis
    by blast
qed

section \<open>The scale of a JPEG decode\<close>

lemma jpeg_scaled_dimension_ceil:
  assumes "d < 2 ^ 32" "s \<le> 8"
  shows "jpeg_scaled_dimension d s = (d * s + 7) div 8"
proof -
  have "N div 8 + (if N mod 8 > 0 then 1 else 0) = (N + 7) div 8" for N :: nat
    by presburger
  moreover have "d * s \<le> (2 ^ 32 - 1) * 8"
    using assms by (intro mult_le_mono) simp_all
  then have "(d * s + 7) div 8 < 2 ^ 32"
    by (intro less_mult_imp_div_less) simp
  ultimately show ?thesis
    by (simp add: jpeg_scaled_dimension_def)
qed

lemma jpeg_scaled_dimension_full: "d < 2 ^ 32 \<Longrightarrow> jpeg_scaled_dimension d 8 = d"
  by (simp add: jpeg_scaled_dimension_ceil)

lemma jpeg_scaled_dimension_mono:
  "d < 2 ^ 32 \<Longrightarrow> s \<le> t \<Longrightarrow> t \<le> 8 \<Longrightarrow> jpeg_scaled_dimension d s \<le> jpeg_scaled_dimension d t"
  by (simp add: jpeg_scaled_dimension_ceil div_le_mono)

lemma select_scale_spec:
  fixes rw rh tw th s :: nat
  assumes "rw < 2 ^ 32" "rh < 2 ^ 32"
  defines "covers \<equiv> \<lambda>s. tw \<le> jpeg_scaled_dimension rw s \<and> th \<le> jpeg_scaled_dimension rh s"
  shows "select_jpeg_dct_scale rw rh tw th \<in> {1, 2, 4, 8}"
    and "tw \<le> rw \<Longrightarrow> th \<le> rh \<Longrightarrow> covers (select_jpeg_dct_scale rw rh tw th)"
    and "s \<in> {1, 2, 4, 8} \<Longrightarrow> covers s \<Longrightarrow> select_jpeg_dct_scale rw rh tw th \<le> s"
    and "\<not> (tw \<le> rw \<and> th \<le> rh) \<Longrightarrow> select_jpeg_dct_scale rw rh tw th = 8"
proof -
  have up: "covers t" if "covers s" "s \<le> t" "t \<le> 8" for s t
    using that jpeg_scaled_dimension_mono [OF assms(1)] jpeg_scaled_dimension_mono [OF assms(2)]
    by (fastforce simp: covers_def intro: order_trans)
  have full: "covers 8 \<longleftrightarrow> tw \<le> rw \<and> th \<le> rh"
    using assms by (simp add: jpeg_scaled_dimension_full)
  have sel: "select_jpeg_dct_scale rw rh tw th = (if covers 1 then 1 else if covers 2 then 2 else if covers 4 then 4 else 8)"
    by (simp add: select_jpeg_dct_scale_def covers_def)
  show "select_jpeg_dct_scale rw rh tw th \<in> {1, 2, 4, 8}"
    by (simp add: sel)
  show "covers (select_jpeg_dct_scale rw rh tw th)" if "tw \<le> rw" "th \<le> rh"
    using that full by (simp add: sel)
  show "select_jpeg_dct_scale rw rh tw th \<le> s" if "s \<in> {1, 2, 4, 8}" "covers s"
    using that up [of s] by (auto simp: sel)
  show "select_jpeg_dct_scale rw rh tw th = 8" if "\<not> (tw \<le> rw \<and> th \<le> rh)"
    using that full up [of 1 8] up [of 2 8] up [of 4 8] by (auto simp: sel)
qed

lemma swap_if_swap [simp]: "swap_if b (swap_if b p) = p"
  by (simp add: swap_if_def)

lemma swap_if_le:
  "fst (swap_if b p) \<le> fst (swap_if b q) \<and> snd (swap_if b p) \<le> snd (swap_if b q)
     \<longleftrightarrow> fst p \<le> fst q \<and> snd p \<le> snd (q :: nat \<times> nat)"
  by (auto simp: swap_if_def)

text \<open>
  C34. Shrink on load.  The scale chosen for a JPEG is one of 1/8, 1/4, 1/2 and 1,
  and the picture it decodes to, turned by the EXIF orientation, is at least as large
  on both axes as the size the resize step was predicted to need for the header's
  size, unless that size is larger than the source itself; and it is the smallest
  scale for which this holds.
\<close>

theorem jpeg_scale_never_below_target:
  fixes params :: resize_query and swaps :: bool and hw hh :: nat
  defines "swap \<equiv> rq_autorotate params \<and> swaps"
  defines "target \<equiv> effective_resize_target (fst (swap_if swap (hw, hh))) (snd (swap_if swap (hw, hh))) params"
  defines "decoded \<equiv> \<lambda>s. swap_if swap (jpeg_scaled_dimension hw s, jpeg_scaled_dimension hh s)"
  assumes "hw < 2 ^ 32" "hh < 2 ^ 32"
    "fst target \<le> fst (swap_if swap (hw, hh))" "snd target \<le> snd (swap_if swap (hw, hh))"
  shows "jpeg_decode_scale params swaps (hw, hh) \<in> {1, 2, 4, 8}
    \<and> fst target \<le> fst (decoded (jpeg_decode_scale params swaps (hw, hh)))
    \<and> snd target \<le> snd (decoded (jpeg_decode_scale params swaps (hw, hh)))
    \<and> (\<forall>s \<in> {1, 2, 4, 8}. fst target \<le> fst (decoded s) \<and> snd target \<le> snd (decoded s)
         \<longrightarrow> jpeg_decode_scale params swaps (hw, hh) \<le> s)"
proof -
  let ?t = "swap_if swap target"
  have s: "jpeg_decode_scale params swaps (hw, hh) = select_jpeg_dct_scale hw hh (fst ?t) (snd ?t)"
    by (simp add: jpeg_decode_scale_def swap_def target_def Let_def case_prod_unfold)
  have c: "fst target \<le> fst (decoded k) \<and> snd target \<le> snd (decoded k)
      \<longleftrightarrow> fst ?t \<le> jpeg_scaled_dimension hw k \<and> snd ?t \<le> jpeg_scaled_dimension hh k" for k
    using swap_if_le [of swap "?t" "(jpeg_scaled_dimension hw k, jpeg_scaled_dimension hh k)"] by (simp add: decoded_def)
  have le: "fst ?t \<le> hw" "snd ?t \<le> hh"
    using swap_if_le [of swap ?t "(hw, hh)"] assms(6,7) by simp_all
  note spec = select_scale_spec [OF assms(4,5), where tw = "fst ?t" and th = "snd ?t"]
  let ?s = "jpeg_decode_scale params swaps (hw, hh)"
  have "fst target \<le> fst (decoded ?s) \<and> snd target \<le> snd (decoded ?s)"
    using spec(2) [OF le] unfolding c s .
  moreover have "?s \<le> k" if "k \<in> {1, 2, 4, 8}" "fst target \<le> fst (decoded k) \<and> snd target \<le> snd (decoded k)" for k
    using spec(3) [OF that(1)] that(2) unfolding c s .
  ultimately show ?thesis
    using spec(1) unfolding s by blast
qed

definition thumbnail :: resize_query where
  "thumbnail = resize_query_default\<lparr>rq_width := Some 100, rq_height := Some 100\<rparr>"

lemma both_sides_target:
  assumes "rq_width q = Some w" "rq_height q = Some h" "rq_min_width q = None" "rq_min_height q = None"
    "rq_zoom_x q = f_one" "rq_zoom_y q = f_one" "rq_dpr q = f_one" "rq_rotate q = 0"
    "1 \<le> w" "w \<le> sw" "1 \<le> h" "h \<le> sh" "sw < 2 ^ 32" "sh < 2 ^ 32"
  shows "es_resize_box (effective_resize_box q sw sh) = (Some w, Some h)"
  using assms by (simp add: effective_resize_box_def rotate_swaps_axes_def swap_if_def Let_def scale_axis_one min_floor_def)

lemma thumbnail_target:
  "effective_resize_target 4000 3000 thumbnail = resize_dimensions 4000 3000 100 100 False"
  by (simp add: effective_resize_target_def both_sides_target thumbnail_def resize_query_default_def)

theorem jpeg_scale_never_below_target_witness:
  "fst (effective_resize_target 4000 3000 thumbnail) \<le> jpeg_scaled_dimension 4000 (jpeg_decode_scale thumbnail False (4000, 3000))
   \<and> snd (effective_resize_target 4000 3000 thumbnail) \<le> jpeg_scaled_dimension 3000 (jpeg_decode_scale thumbnail False (4000, 3000))"
  using jpeg_scale_never_below_target [of 4000 3000 thumbnail False] thumbnail_target
    fit_box [of 4000 3000 100 100 "fst (resize_dimensions 4000 3000 100 100 False)" "snd (resize_dimensions 4000 3000 100 100 False)"]
  by (simp add: swap_if_def)

text \<open>
  Two things the prediction leaves out.  A crop counts pixels of the source, but it
  is applied to the picture as decoded, and the scale is chosen from the whole
  source's size: the same 400 by 400 crop cuts out a hundredth of a 4000 by 4000 PNG
  and sixteen twenty-fifths of a JPEG of that size.
\<close>

definition cropped_thumbnail :: resize_query where
  "cropped_thumbnail = thumbnail\<lparr>rq_crop := Some \<lparr> crop_width = Absolute 400, crop_height = Absolute 400, crop_gravity = Center \<rparr>\<rparr>"

lemma square_thumbnail_target:
  assumes "1 \<le> n" "n \<le> s" "s < 2 ^ 32"
  shows "resize_dimensions s s n n False = (n, n)"
proof -
  have "scaled_floor s (r64 (of_nat n / of_nat s)) = int n"
    using assms by (intro scaled_floor_own) simp_all
  then show ?thesis
    using resize_dimensions_cases [of s s n n False "fst (resize_dimensions s s n n False)" "snd (resize_dimensions s s n n False)"]
      assms by (auto simp: u32_max_def prod_eq_iff)
qed

lemma decode_scale_ignores_crop:
  "jpeg_decode_scale cropped_thumbnail False (4000, 4000) = 1"
  "jpeg_scaled_dimension 4000 1 = 500"
  "rq_crop cropped_thumbnail = Some c \<Longrightarrow> snd (crop_rect c (500, 500)) = (400, 400) \<and> snd (crop_rect c (4000, 4000)) = (400, 400)"
proof -
  show d: "jpeg_scaled_dimension 4000 1 = 500"
    by (simp add: jpeg_scaled_dimension_def)
  have "effective_resize_target 4000 4000 cropped_thumbnail = (100, 100)"
    by (simp add: effective_resize_target_def both_sides_target cropped_thumbnail_def thumbnail_def resize_query_default_def
        square_thumbnail_target)
  then show "jpeg_decode_scale cropped_thumbnail False (4000, 4000) = 1"
    using d by (simp add: jpeg_decode_scale_def swap_if_def select_jpeg_dct_scale_def)
  show "snd (crop_rect c (500, 500)) = (400, 400) \<and> snd (crop_rect c (4000, 4000)) = (400, 400)"
    if "rq_crop cropped_thumbnail = Some c"
    using that by (auto simp: cropped_thumbnail_def crop_rect_def resolve_crop_side_def Let_def)
qed

text \<open>
  And the sizes of a scaled decode are rounded up, so a portrait source can become
  square; \<^verbatim>\<open>auto\<close>, which compares orientations, then fills where it was to fit.
\<close>

definition auto_thumbnail :: resize_query where
  "auto_thumbnail = resize_query_default\<lparr>rq_width := Some 100, rq_height := Some 50, rq_resize_type := AutoResize\<rparr>"

lemma decode_scale_flips_auto:
  "effective_resize_target 801 805 auto_thumbnail = resize_dimensions 801 805 100 50 False"
  "jpeg_decode_scale auto_thumbnail False (801, 805) = 1"
  "jpeg_scaled_dimension 801 1 = 101" "jpeg_scaled_dimension 805 1 = 101"
  "effective_resize_target 101 101 auto_thumbnail = resize_dimensions 101 101 100 50 True"
proof -
  have box: "es_resize_box (effective_resize_box auto_thumbnail sw sh) = (Some 100, Some 50)"
    if "100 \<le> sw" "50 \<le> sh" "sw < 2 ^ 32" "sh < 2 ^ 32" for sw sh
    using that by (intro both_sides_target) (simp_all add: auto_thumbnail_def resize_query_default_def)
  have auto: "rq_resize_type auto_thumbnail = AutoResize"
    by (simp add: auto_thumbnail_def)
  show t: "effective_resize_target 801 805 auto_thumbnail = resize_dimensions 801 805 100 50 False"
    "effective_resize_target 101 101 auto_thumbnail = resize_dimensions 101 101 100 50 True"
    by (simp_all add: effective_resize_target_def box auto)
  show d: "jpeg_scaled_dimension 801 1 = 101" "jpeg_scaled_dimension 805 1 = 101"
    by (simp_all add: jpeg_scaled_dimension_def)
  have "fst (resize_dimensions 801 805 100 50 False) \<le> 100" "snd (resize_dimensions 801 805 100 50 False) \<le> 50"
    using fit_box [of 801 805 100 50 "fst (resize_dimensions 801 805 100 50 False)" "snd (resize_dimensions 801 805 100 50 False)"]
    by simp_all
  then show "jpeg_decode_scale auto_thumbnail False (801, 805) = 1"
    using d by (simp add: jpeg_decode_scale_def swap_if_def select_jpeg_dct_scale_def t case_prod_unfold)
qed
end
