(* ===== verification/Pixels.thy ===== *)
theory Pixels
  imports Geometry
begin

text \<open>
  The pixel arithmetic of \<^verbatim>\<open>src/src/services/image/handler.rs\<close>: flattening onto a
  background, the normalisation of invisible pixels, the position, rotation and
  compositing of a watermark, and the conversion of CMYK samples.  A buffer of the
  \<^verbatim>\<open>image\<close> crate is its size and the pixel at each coordinate; \<^verbatim>\<open>f32\<close> and \<^verbatim>\<open>f64\<close> are
  rounded as in \<^verbatim>\<open>Float_Model\<close>, and \<^verbatim>\<open>i64\<close> sums wrap.

  Shown: a flattened channel lies between the pixel's and the background's, both
  included, in spite of four roundings; compositing changes exactly the pixels that
  the overlay covers, whatever the position; an opaque overlay replaces and a
  transparent one leaves; and a rotation only moves pixels.
\<close>

section \<open>Buffers\<close>

record 'p raster =
  ra_width :: nat
  ra_height :: nat
  ra_pixel :: "nat \<Rightarrow> nat \<Rightarrow> 'p"

definition dimensions :: "'p raster \<Rightarrow> nat \<times> nat" where
  "dimensions img = (ra_width img, ra_height img)"

definition map_pixels :: "('p \<Rightarrow> 'q) \<Rightarrow> 'p raster \<Rightarrow> 'q raster" where
  "map_pixels f img = \<lparr> ra_width = ra_width img, ra_height = ra_height img, ra_pixel = (\<lambda>x y. f (ra_pixel img x y)) \<rparr>"

definition put_pixel :: "nat \<Rightarrow> nat \<Rightarrow> 'p \<Rightarrow> 'p raster \<Rightarrow> 'p raster" where
  "put_pixel x y p img = img\<lparr>ra_pixel := (\<lambda>i j. if i = x \<and> j = y then p else ra_pixel img i j)\<rparr>"

section \<open>Alpha\<close>

abbreviation f_255 :: rfloat where
  "f_255 \<equiv> Fin False 255"

definition flatten_channel :: "rfloat \<Rightarrow> nat \<Rightarrow> nat \<Rightarrow> nat" where
  "flatten_channel alpha c bg =
     f_as_uint 256 (f_round (f_add f32_fmt (f_mul f32_fmt (f32_of_nat c) alpha)
       (f_mul f32_fmt (f32_of_nat bg) (f_sub f32_fmt f_one alpha))))"

definition flatten_pixel :: "rgb \<Rightarrow> rgba \<Rightarrow> rgb" where
  "flatten_pixel background p =
     (case (p, background) of ((r, g, b, a), (br, bg, bb)) \<Rightarrow>
        if a = 255 then (r, g, b)
        else if a = 0 then background
        else
          (let alpha = f_div f32_fmt (f32_of_nat a) f_255
           in (flatten_channel alpha r br, flatten_channel alpha g bg, flatten_channel alpha b bb)))"

definition flatten_onto_background :: "rgba raster \<Rightarrow> rgb \<Rightarrow> rgb raster" where
  "flatten_onto_background rgba background = map_pixels (flatten_pixel background) rgba"

definition normalize_pixel :: "rgb \<Rightarrow> rgba \<Rightarrow> rgba" where
  "normalize_pixel background p =
     (case (p, background) of ((r, g, b, a), (br, bg, bb)) \<Rightarrow> if a = 0 then (br, bg, bb, a) else (r, g, b, a))"

definition normalize_transparent_pixels :: "rgba raster \<Rightarrow> rgb \<Rightarrow> rgba raster" where
  "normalize_transparent_pixels rgba background = map_pixels (normalize_pixel background) rgba"

section \<open>Where a watermark goes\<close>

definition wrap_i64 :: "int \<Rightarrow> int" where
  "wrap_i64 n = (n + 2 ^ 63) mod 2 ^ 64 - 2 ^ 63"

text \<open>Rust's division truncates towards zero.\<close>

definition half :: "int \<Rightarrow> int" where
  "half n = (if n < 0 then - (- n div 2) else n div 2)"

definition resolve_offset :: "rfloat \<Rightarrow> nat \<Rightarrow> int" where
  "resolve_offset offset dimension =
     f_as_int (- (2 ^ 63)) (2 ^ 63 - 1)
       (if f_le f_one (f_abs offset) then f_round offset
        else f_round (f_mul f64_fmt offset (f64_of_nat dimension)))"

definition watermark_position_fn ::
  "watermark_position \<Rightarrow> rfloat \<Rightarrow> rfloat \<Rightarrow> nat \<Rightarrow> nat \<Rightarrow> nat \<Rightarrow> nat \<Rightarrow> int \<times> int" where
  "watermark_position_fn pos x_offset y_offset base_width base_height watermark_width watermark_height =
     (let dx = resolve_offset x_offset base_width; dy = resolve_offset y_offset base_height;
          bw = int base_width; bh = int base_height; ww = int watermark_width; wh = int watermark_height;
          (base_x, base_y) = (case pos of
              WmCenter \<Rightarrow> (half (bw - ww), half (bh - wh))
            | WmNorth \<Rightarrow> (half (bw - ww), 0)
            | WmSouth \<Rightarrow> (half (bw - ww), bh - wh)
            | WmEast \<Rightarrow> (bw - ww, half (bh - wh))
            | WmWest \<Rightarrow> (0, half (bh - wh))
            | WmNorthEast \<Rightarrow> (bw - ww, 0)
            | WmNorthWest \<Rightarrow> (0, 0)
            | WmSouthEast \<Rightarrow> (bw - ww, bh - wh)
            | WmSouthWest \<Rightarrow> (0, bh - wh))
      in (wrap_i64 (base_x + dx), wrap_i64 (base_y + dy)))"

section \<open>Compositing\<close>

definition composite_channel :: "rfloat \<Rightarrow> rfloat \<Rightarrow> rfloat \<Rightarrow> nat \<Rightarrow> nat \<Rightarrow> nat" where
  "composite_channel src_a dst_a out_a s d =
     f_as_uint 256 (f_clamp f_zero f_255 (f_round (f_div f32_fmt
       (f_add f32_fmt (f_mul f32_fmt (f32_of_nat s) src_a)
          (f_mul f32_fmt (f_mul f32_fmt (f32_of_nat d) dst_a) (f_sub f32_fmt f_one src_a)))
       out_a)))"

definition composite_pixel :: "rfloat \<Rightarrow> rgba \<Rightarrow> rgba \<Rightarrow> rgba" where
  "composite_pixel opacity src dst =
     (case (src, dst) of ((sr, sg, sb, sa), (dr, dg, db, da)) \<Rightarrow>
        let src_a = f_mul f32_fmt (f_div f32_fmt (f32_of_nat sa) f_255) opacity in
        if f_le src_a f_zero then dst
        else
          (let dst_a = f_div f32_fmt (f32_of_nat da) f_255;
               out_a = f_add f32_fmt src_a (f_mul f32_fmt dst_a (f_sub f32_fmt f_one src_a))
           in if f_le out_a f_zero then (0, 0, 0, 0)
              else
                (composite_channel src_a dst_a out_a sr dr, composite_channel src_a dst_a out_a sg dg,
                 composite_channel src_a dst_a out_a sb db,
                 f_as_uint 256 (f_clamp f_zero f_255 (f_round (f_mul f32_fmt out_a f_255))))))"

definition composite_at :: "rgba raster \<Rightarrow> rfloat \<Rightarrow> int \<Rightarrow> int \<Rightarrow> nat \<Rightarrow> rgba raster \<Rightarrow> nat \<Rightarrow> rgba raster" where
  "composite_at overlay opacity x canvas_y overlay_y canvas overlay_x =
     (let canvas_x = wrap_i64 (x + int overlay_x) in
      if canvas_x < 0 \<or> canvas_x \<ge> int (ra_width canvas) then canvas
      else put_pixel (nat canvas_x) (nat canvas_y)
             (composite_pixel opacity (ra_pixel overlay overlay_x overlay_y)
                (ra_pixel canvas (nat canvas_x) (nat canvas_y))) canvas)"

definition composite_row :: "rgba raster \<Rightarrow> rfloat \<Rightarrow> int \<Rightarrow> int \<Rightarrow> rgba raster \<Rightarrow> nat \<Rightarrow> rgba raster" where
  "composite_row overlay opacity x y canvas overlay_y =
     (let canvas_y = wrap_i64 (y + int overlay_y) in
      if canvas_y < 0 \<or> canvas_y \<ge> int (ra_height canvas) then canvas
      else foldl (composite_at overlay opacity x canvas_y overlay_y) canvas [0..<ra_width overlay])"

definition composite_over :: "rgba raster \<Rightarrow> rgba raster \<Rightarrow> int \<Rightarrow> int \<Rightarrow> rfloat \<Rightarrow> rgba raster" where
  "composite_over canvas overlay x y opacity =
     (if f_le opacity f_zero then canvas
      else foldl (composite_row overlay opacity x y) canvas [0..<ra_height overlay])"

section \<open>Rotation and shadow of a watermark\<close>

text \<open>\<^verbatim>\<open>a % b\<close> is exact; \<^verbatim>\<open>rem_euclid\<close> shifts a negative remainder.\<close>

fun f_rem :: "rfloat \<Rightarrow> rfloat \<Rightarrow> rfloat" where
  "f_rem (Fin s m) (Fin t n) = (if n = 0 then NaN else Fin s (m - n * of_int \<lfloor>m / n\<rfloor>))"
| "f_rem (Fin s m) (Infin t) = Fin s m"
| "f_rem _ _ = NaN"

definition f_rem_euclid :: "rfloat \<Rightarrow> rfloat \<Rightarrow> rfloat" where
  "f_rem_euclid a b = (let r = f_rem a b in if f_lt r f_zero then f_add f64_fmt r (f_abs b) else r)"

text \<open>\<^verbatim>\<open>to_radians\<close> multiplies by the constant \<^verbatim>\<open>PI / 180.0\<close>.\<close>

definition f64_pi :: rfloat where
  "f64_pi = Fin False (884279719003555 / 281474976710656)"

definition to_radians :: "rfloat \<Rightarrow> rfloat" where
  "to_radians degrees = f_mul f64_fmt degrees (f_div f64_fmt f64_pi (Fin False 180))"

definition f64_max :: rfloat where
  "f64_max = Fin False (2 ^ 1024 - 2 ^ 971)"

definition rotation_epsilon :: rfloat where
  "rotation_epsilon = round_float f64_fmt False (1 / 10 ^ 9)"

abbreviation add64 :: "rfloat \<Rightarrow> rfloat \<Rightarrow> rfloat" where "add64 \<equiv> f_add f64_fmt"
abbreviation sub64 :: "rfloat \<Rightarrow> rfloat \<Rightarrow> rfloat" where "sub64 \<equiv> f_sub f64_fmt"
abbreviation mul64 :: "rfloat \<Rightarrow> rfloat \<Rightarrow> rfloat" where "mul64 \<equiv> f_mul f64_fmt"

definition rotated_corners :: "rfloat \<Rightarrow> rfloat \<Rightarrow> rfloat \<Rightarrow> rfloat \<Rightarrow> (rfloat \<times> rfloat) list" where
  "rotated_corners sin_t cos_t fw fh =
     (let cx = f_div f64_fmt fw f_two; cy = f_div f64_fmt fh f_two
      in map (\<lambda>(px, py).
               let dx = sub64 px cx; dy = sub64 py cy
               in (sub64 (mul64 dx cos_t) (mul64 dy sin_t), add64 (mul64 dx sin_t) (mul64 dy cos_t)))
             [(f_zero, f_zero), (fw, f_zero), (f_zero, fh), (fw, fh)])"

definition rotated_dimension :: "rfloat list \<Rightarrow> nat" where
  "rotated_dimension vs =
     (let least = foldl f_min f64_max vs; greatest = foldl f_max (f_neg f64_max) vs
      in f_as_uint (2 ^ 32) (f_max (f_ceil (sub64 (sub64 greatest least) rotation_epsilon)) f_one))"

definition rotate_source :: "rfloat \<Rightarrow> rfloat \<Rightarrow> nat \<times> nat \<Rightarrow> nat \<times> nat \<Rightarrow> nat \<Rightarrow> nat \<Rightarrow> (nat \<times> nat) option" where
  "rotate_source sin_t cos_t src out out_x out_y =
     (case (src, out) of ((width, height), (new_width, new_height)) \<Rightarrow>
        let fw = f64_of_nat width; fh = f64_of_nat height;
            dx = sub64 (add64 (f64_of_nat out_x) (Fin False (1 / 2))) (f_div f64_fmt (f64_of_nat new_width) f_two);
            dy = sub64 (add64 (f64_of_nat out_y) (Fin False (1 / 2))) (f_div f64_fmt (f64_of_nat new_height) f_two);
            src_x = add64 (add64 (mul64 dx cos_t) (mul64 dy sin_t)) (f_div f64_fmt fw f_two);
            src_y = add64 (add64 (mul64 (f_neg dx) sin_t) (mul64 dy cos_t)) (f_div f64_fmt fh f_two);
            src_ix = f_floor src_x;
            src_iy = f_floor src_y
        in if f_le f_zero src_ix \<and> f_le f_zero src_iy \<and> f_lt src_ix fw \<and> f_lt src_iy fh
           then Some (f_as_uint (2 ^ 32) src_ix, f_as_uint (2 ^ 32) src_iy) else None)"

definition rotate_rgba :: "(rfloat \<Rightarrow> rfloat \<times> rfloat) \<Rightarrow> rgba raster \<Rightarrow> rfloat \<Rightarrow> rgba raster" where
  "rotate_rgba sin_cos img degrees =
     (if ra_width img = 0 \<or> ra_height img = 0 then img
      else
        (let normalized_degrees = f_rem_euclid degrees (Fin False 360) in
         if f_eq normalized_degrees f_zero then img
         else
           (let (sin_t, cos_t) = sin_cos (to_radians normalized_degrees);
                corners = rotated_corners sin_t cos_t (f64_of_nat (ra_width img)) (f64_of_nat (ra_height img));
                new_width = rotated_dimension (map fst corners);
                new_height = rotated_dimension (map snd corners)
            in \<lparr> ra_width = new_width, ra_height = new_height,
                 ra_pixel = (\<lambda>out_x out_y.
                   case rotate_source sin_t cos_t (dimensions img) (new_width, new_height) out_x out_y of
                     Some (ix, iy) \<Rightarrow> ra_pixel img ix iy
                   | None \<Rightarrow> (0, 0, 0, 0)) \<rparr>)))"

definition shadow_silhouette :: "rgba raster \<Rightarrow> rgba raster" where
  "shadow_silhouette watermark = map_pixels (\<lambda>(r, g, b, a). (0, 0, 0, a)) watermark"

section \<open>CMYK\<close>

definition cmyk_sample :: "nat \<Rightarrow> nat \<Rightarrow> nat" where
  "cmyk_sample c k = (255 - c) * (255 - k) div 255 mod 256"

fun cmyk_to_rgb :: "nat list \<Rightarrow> nat list" where
  "cmyk_to_rgb (c # m # y # k # rest) = [cmyk_sample c k, cmyk_sample m k, cmyk_sample y k] @ cmyk_to_rgb rest"
| "cmyk_to_rgb _ = []"

section \<open>Rounding in the range of samples\<close>

abbreviation r32 :: "rat \<Rightarrow> rat" where
  "r32 \<equiv> round_mag f32_fmt"

lemma r32_mono: "x \<le> y \<Longrightarrow> r32 x \<le> r32 y"
  by (rule round_mag_mono) simp_all

lemma r32_dyadic: "0 \<le> n \<Longrightarrow> n < 2 ^ 24 \<Longrightarrow> - 149 \<le> e \<Longrightarrow> r32 (of_int n * pow2 e) = of_int n * pow2 e"
  by (rule round_mag_dyadic [of _ n e]) simp_all

lemma r32_nat [simp]: "n < 2 ^ 24 \<Longrightarrow> r32 (of_nat n) = of_nat n"
  using r32_dyadic [of "int n" 0] by simp

lemma r32_error:
  assumes "0 \<le> x" "x \<le> 1024"
  shows "\<bar>r32 x - x\<bar> \<le> 1 / 2 ^ 13"
proof (cases "pow2 (- 60) \<le> x")
  case True
  have "pow2 (- 126) \<le> pow2 (- 60)"
    by (simp only: pow2_le_iff)
  then have "\<bar>r32 x - x\<bar> \<le> x * pow2 (- 24)"
    using True round_mag_rel_error [of f32_fmt x] by simp
  also have "\<dots> \<le> 1024 * pow2 (- 24)"
    using assms(2) by (intro mult_right_mono) simp_all
  also have "\<dots> \<le> 1 / 2 ^ 13"
    by (simp add: power_int_minus)
  finally show ?thesis .
next
  case False
  have p: "r32 (pow2 (- 60)) = pow2 (- 60)"
    using r32_dyadic [of 1 "- 60"] by simp
  have x: "x \<le> pow2 (- 60)"
    using False by linarith
  have "r32 x \<le> pow2 (- 60)"
    using r32_mono [OF x] unfolding p .
  moreover have "pow2 (- 60) \<le> pow2 (- 13)"
    by (simp only: pow2_le_iff)
  moreover have "pow2 (- 13) = 1 / 2 ^ 13"
    by (simp only: power_int_minus power_int_numeral inverse_eq_divide)
  moreover have "0 \<le> r32 x"
    by simp
  ultimately show ?thesis
    using x assms(1) unfolding abs_le_iff by linarith
qed

lemma round_f32_small:
  assumes "x \<le> 1024"
  shows "round_float f32_fmt s x = Fin s (r32 x)"
proof -
  have "r32 x \<le> 1024"
    using r32_mono [OF assms] r32_nat [of 1024] by simp
  also have "1024 = pow2 10"
    using pow2_of_nat [of 10] by simp
  also have "pow2 10 < pow2 128"
    by (simp only: pow2_less_iff)
  finally show ?thesis
    by (simp add: round_float_def Let_def)
qed

lemma f32_small:
  "m * n \<le> 1024 \<Longrightarrow> f_mul f32_fmt (Fin False m) (Fin False n) = Fin False (r32 (m * n))"
  "0 < n \<Longrightarrow> m / n \<le> 1024 \<Longrightarrow> f_div f32_fmt (Fin False m) (Fin False n) = Fin False (r32 (m / n))"
  "0 \<le> m \<Longrightarrow> 0 \<le> n \<Longrightarrow> m + n \<le> 1024 \<Longrightarrow> f_add f32_fmt (Fin False m) (Fin False n) = Fin False (r32 (m + n))"
  "n \<le> m \<Longrightarrow> m - n \<le> 1024 \<Longrightarrow> f_sub f32_fmt (Fin False m) (Fin False n) = Fin False (r32 (m - n))"
proof -
  show "m * n \<le> 1024 \<Longrightarrow> f_mul f32_fmt (Fin False m) (Fin False n) = Fin False (r32 (m * n))"
    "0 < n \<Longrightarrow> m / n \<le> 1024 \<Longrightarrow> f_div f32_fmt (Fin False m) (Fin False n) = Fin False (r32 (m / n))"
    by (simp_all add: round_f32_small)
  show "f_add f32_fmt (Fin False m) (Fin False n) = Fin False (r32 (m + n))" if "0 \<le> m" "0 \<le> n" "m + n \<le> 1024"
    using that by (simp add: round_f32_small Let_def add_nonneg_eq_0_iff not_less)
  show "f_sub f32_fmt (Fin False m) (Fin False n) = Fin False (r32 (m - n))" if "n \<le> m" "m - n \<le> 1024"
    using that by (simp add: round_f32_small f_sub_def Let_def)
qed

lemma f32_byte [simp]: "n < 256 \<Longrightarrow> f32_of_nat n = Fin False (of_nat n)"
  by (rule f32_of_nat_exact) simp

section \<open>Flattening\<close>

definition opacity_of :: "nat \<Rightarrow> rat" where
  "opacity_of a = r32 (of_nat a / 255)"

lemma opacity_of_bounds: "a < 256 \<Longrightarrow> 0 \<le> opacity_of a" "a < 256 \<Longrightarrow> opacity_of a \<le> 1"
proof -
  show "opacity_of a \<le> 1" if "a < 256"
  proof -
    have "(of_nat a :: rat) \<le> of_nat 255"
      using that by (subst of_nat_le_iff) simp
    then have "of_nat a / 255 \<le> (1 :: rat)"
      by simp
    then show ?thesis
      unfolding opacity_of_def using r32_mono [of _ 1] r32_nat [of 1] by simp
  qed
qed (simp add: opacity_of_def)

lemma opacity_of_ends [simp]: "opacity_of 255 = 1" "opacity_of 0 = 0"
  using r32_nat [of 1] by (simp_all add: opacity_of_def)

lemma f32_opacity: "a < 256 \<Longrightarrow> f_div f32_fmt (f32_of_nat a) f_255 = Fin False (opacity_of a)"
proof -
  assume a: "a < 256"
  then have "(of_nat a :: rat) < of_nat 256"
    by (subst of_nat_less_iff)
  then have "of_nat a / 255 \<le> (1024 :: rat)"
    by simp
  then show ?thesis
    using a by (simp add: opacity_of_def round_f32_small)
qed

lemma f32_opacity' [simp]: "a < 256 \<Longrightarrow> round_float f32_fmt False (of_nat a / 255) = Fin False (opacity_of a)"
  using f32_opacity [of a] by simp

lemma mix_bounds:
  fixes c d a :: rat
  assumes "0 \<le> a" "a \<le> 1" "lo \<le> c" "lo \<le> d" "c \<le> hi" "d \<le> hi"
  shows "lo \<le> c * a + d * (1 - a)" "c * a + d * (1 - a) \<le> hi"
proof -
  have "lo * a + lo * (1 - a) \<le> c * a + d * (1 - a)" "c * a + d * (1 - a) \<le> hi * a + hi * (1 - a)"
    using assms by (intro add_mono mult_right_mono; simp)+
  then show "lo \<le> c * a + d * (1 - a)" "c * a + d * (1 - a) \<le> hi"
    by (simp_all add: algebra_simps)
qed

lemma flatten_channel_value:
  assumes "c < 256" "bg < 256" "0 \<le> q" "q \<le> 1"
  shows "\<exists>s. flatten_channel (Fin False q) c bg = min (nat \<lfloor>s + 1 / 2\<rfloor>) 255
    \<and> \<bar>s - (of_nat c * q + of_nat bg * (1 - q))\<bar> \<le> 1 / 4"
proof -
  define C B :: rat where "C = of_nat c" "B = of_nat bg"
  have b: "0 \<le> C" "C \<le> 255" "0 \<le> B" "B \<le> 255"
    using of_nat_le_iff [of c 255, where 'a = rat] of_nat_le_iff [of bg 255, where 'a = rat] assms(1,2)
    by (simp_all add: C_B_def)
  define p where "p = r32 (1 - q)"
  have p: "0 \<le> p" "p \<le> 1"
    using assms(3,4) r32_mono [of "1 - q" 1] r32_nat [of 1] by (simp_all add: p_def)
  have ep: "\<bar>p - (1 - q)\<bar> \<le> 1 / 2 ^ 13"
    unfolding p_def using assms(3,4) by (intro r32_error) simp_all
  have cq: "0 \<le> C * q" "C * q \<le> 255"
    using b assms(3,4) mult_mono [of C 255 q 1] by simp_all
  have bp: "0 \<le> B * p" "B * p \<le> 255"
    using b p mult_mono [of B 255 p 1] by simp_all
  define t u where "t = r32 (C * q)" "u = r32 (B * p)"
  have et: "\<bar>t - C * q\<bar> \<le> 1 / 2 ^ 13" "\<bar>u - B * p\<bar> \<le> 1 / 2 ^ 13"
    unfolding t_u_def using cq bp by (intro r32_error; simp)+
  have tu: "0 \<le> t" "0 \<le> u"
    by (simp_all add: t_u_def)
  have tu2: "t + u \<le> 1024"
    using et cq(2) bp(2) unfolding abs_le_iff by simp
  have es: "\<bar>r32 (t + u) - (t + u)\<bar> \<le> 1 / 2 ^ 13"
    using tu tu2 by (intro r32_error) simp_all
  have "\<bar>B * p - B * (1 - q)\<bar> = B * \<bar>p - (1 - q)\<bar>"
    using b(3) by (simp add: abs_mult flip: right_diff_distrib)
  also have "\<dots> \<le> 255 * (1 / 2 ^ 13)"
    using b ep by (intro mult_mono) simp_all
  finally have eb: "\<bar>B * p - B * (1 - q)\<bar> \<le> 255 / 2 ^ 13"
    by simp
  have "\<bar>r32 (t + u) - (C * q + B * (1 - q))\<bar> \<le> 1 / 4"
    using es et eb unfolding abs_le_iff by simp
  moreover have "flatten_channel (Fin False q) c bg = min (nat \<lfloor>r32 (t + u) + 1 / 2\<rfloor>) 255"
  proof -
    have "f_sub f32_fmt f_one (Fin False q) = Fin False p"
      using f32_small(4) [of q 1] assms(3,4) by (simp only: p_def)
    moreover have "f_mul f32_fmt (Fin False C) (Fin False q) = Fin False t" "f_mul f32_fmt (Fin False B) (Fin False p) = Fin False u"
      using f32_small(1) [of C q] f32_small(1) [of B p] cq bp by (simp_all only: t_u_def)
    moreover have "f_add f32_fmt (Fin False t) (Fin False u) = Fin False (r32 (t + u))"
      by (rule f32_small(3)) (fact tu tu2)+
    ultimately show ?thesis
      using assms(1,2) by (simp only: flatten_channel_def f32_byte C_B_def) simp
  qed
  ultimately show ?thesis
    unfolding C_B_def by blast
qed

lemma flatten_channel_between:
  assumes "c < 256" "bg < 256" "0 \<le> q" "q \<le> 1"
  shows "min c bg \<le> flatten_channel (Fin False q) c bg" "flatten_channel (Fin False q) c bg \<le> max c bg"
proof -
  obtain s where s: "flatten_channel (Fin False q) c bg = min (nat \<lfloor>s + 1 / 2\<rfloor>) 255"
      "\<bar>s - (of_nat c * q + of_nat bg * (1 - q))\<bar> \<le> 1 / 4"
    using flatten_channel_value [OF assms] by blast
  have "of_nat (min c bg) \<le> of_nat c * q + of_nat bg * (1 - q)"
      "of_nat c * q + of_nat bg * (1 - q) \<le> of_nat (max c bg)"
    using assms(3,4) mix_bounds [of q "of_nat (min c bg)" "of_nat c" "of_nat bg" "of_nat (max c bg)"]
    unfolding of_nat_le_iff by simp_all
  then have "of_nat (min c bg) - 1 / 4 \<le> s" "s \<le> of_nat (max c bg) + 1 / 4"
    using s(2) unfolding abs_le_iff by linarith+
  then have "int (min c bg) \<le> \<lfloor>s + 1 / 2\<rfloor>" "\<lfloor>s + 1 / 2\<rfloor> < int (max c bg) + 1"
    unfolding le_floor_iff floor_less_iff by (simp_all del: of_nat_min of_nat_max)
  then show "min c bg \<le> flatten_channel (Fin False q) c bg" "flatten_channel (Fin False q) c bg \<le> max c bg"
    using assms(1,2) by (simp_all add: s(1))
qed

definition wf_rgb :: "rgb \<Rightarrow> bool" where
  "wf_rgb c \<longleftrightarrow> (case c of (r, g, b) \<Rightarrow> r < 256 \<and> g < 256 \<and> b < 256)"

definition wf_rgba :: "rgba \<Rightarrow> bool" where
  "wf_rgba p \<longleftrightarrow> (case p of (r, g, b, a) \<Rightarrow> r < 256 \<and> g < 256 \<and> b < 256 \<and> a < 256)"

definition between :: "nat \<Rightarrow> nat \<Rightarrow> nat \<Rightarrow> bool" where
  "between a b c \<longleftrightarrow> min a b \<le> c \<and> c \<le> max a b"

text \<open>
  C36. Flattening.  Every channel of a flattened pixel lies between the pixel's and the
  background's, both included: the four roundings of the \<^verbatim>\<open>f32\<close> blend are never felt as
  an overshoot, so a background of the pixel's own colour changes nothing.  An opaque
  pixel keeps its colour and an invisible one becomes the background.
\<close>
theorem flatten_between:
  assumes "wf_rgba (r, g, b, a)" "wf_rgb (br, bg, bb)"
  shows "\<exists>r' g' b'. flatten_pixel (br, bg, bb) (r, g, b, a) = (r', g', b')
    \<and> between r br r' \<and> between g bg g' \<and> between b bb b'
    \<and> (a = 255 \<longrightarrow> (r', g', b') = (r, g, b)) \<and> (a = 0 \<longrightarrow> (r', g', b') = (br, bg, bb))"
  using assms flatten_channel_between [OF _ _ opacity_of_bounds [of a]]
  by (auto simp: flatten_pixel_def f32_opacity wf_rgba_def wf_rgb_def between_def Let_def)

theorem flatten_between_witness:
  "\<exists>r' g' b'. flatten_pixel (255, 255, 255) (10, 20, 255, 128) = (r', g', b') \<and> between 10 255 r' \<and> b' = 255"
  using flatten_between [of 10 20 255 128 255 255 255] by (auto simp: wf_rgba_def wf_rgb_def between_def)

text \<open>Normalising keeps every pixel that can be seen, and the opacity of all.\<close>

lemma normalize_pixel_visible: "snd (snd (snd p)) \<noteq> 0 \<Longrightarrow> normalize_pixel bg p = p"
  by (auto simp: normalize_pixel_def split: prod.splits)

lemma normalize_pixel_alpha: "snd (snd (snd (normalize_pixel bg p))) = snd (snd (snd p))"
  by (auto simp: normalize_pixel_def split: prod.splits)

lemma normalize_pixel_idem: "normalize_pixel bg (normalize_pixel bg p) = normalize_pixel bg p"
  by (auto simp: normalize_pixel_def split: prod.splits)

text \<open>What is seen of a picture over any backdrop: its flattening.  Normalising never shows.\<close>

lemma flatten_normalized: "flatten_pixel bg (normalize_pixel nb p) = flatten_pixel bg p"
  by (auto simp: normalize_pixel_def flatten_pixel_def split: prod.splits)

section \<open>Compositing pixel by pixel\<close>

lemma ra_put_pixel [simp]:
  "ra_width (put_pixel x y p img) = ra_width img" "ra_height (put_pixel x y p img) = ra_height img"
  "ra_pixel (put_pixel x y p img) i j = (if i = x \<and> j = y then p else ra_pixel img i j)"
  by (simp_all add: put_pixel_def)

text \<open>The column (or row) of an overlay that falls on a coordinate of the canvas.\<close>

definition overlay_index :: "int \<Rightarrow> nat \<Rightarrow> nat" where
  "overlay_index x i = nat ((int i - x) mod 2 ^ 64)"

lemma wrap_i64_eq_iff:
  assumes "i < 2 ^ 32" "k < 2 ^ 32"
  shows "wrap_i64 (x + int k) = int i \<longleftrightarrow> overlay_index x i = k"
proof -
  have i: "(int i + 2 ^ 63) mod 2 ^ 64 = int i + 2 ^ 63" and k: "int k mod 2 ^ 64 = int k"
    using assms by (intro mod_pos_pos_trivial; simp)+
  have "wrap_i64 (x + int k) = int i \<longleftrightarrow> (x + int k + 2 ^ 63) mod 2 ^ 64 = (int i + 2 ^ 63) mod 2 ^ 64"
    unfolding wrap_i64_def i by linarith
  also have "\<dots> \<longleftrightarrow> 2 ^ 64 dvd (int k - (int i - x))"
    unfolding mod_eq_dvd_iff by (simp add: algebra_simps)
  also have "\<dots> \<longleftrightarrow> int k = (int i - x) mod 2 ^ 64"
    unfolding mod_eq_dvd_iff [symmetric] k ..
  also have "\<dots> \<longleftrightarrow> overlay_index x i = k"
    unfolding overlay_index_def by (metis nat_int int_nat_eq pos_mod_sign zero_less_numeral zero_less_power)
  finally show ?thesis .
qed

lemma composite_at_frame [simp]:
  "ra_width (composite_at ov op x cy oy c ox) = ra_width c" "ra_height (composite_at ov op x cy oy c ox) = ra_height c"
  by (simp_all add: composite_at_def Let_def)

lemma composite_at_pixel:
  assumes "ra_width c \<le> 2 ^ 32" "ox < 2 ^ 32" "i < ra_width c"
  shows "ra_pixel (composite_at ov op x (int cy) oy c ox) i j
    = (if overlay_index x i = ox \<and> j = cy then composite_pixel op (ra_pixel ov ox oy) (ra_pixel c i j) else ra_pixel c i j)"
proof -
  define cx where "cx = wrap_i64 (x + int ox)"
  have eq: "cx = int i \<longleftrightarrow> overlay_index x i = ox"
    unfolding cx_def using assms by (intro wrap_i64_eq_iff) simp_all
  show ?thesis
  proof (cases "cx < 0 \<or> cx \<ge> int (ra_width c)")
    case True
    then have "overlay_index x i \<noteq> ox"
      using eq assms(3) by auto
    then show ?thesis
      using True by (simp add: composite_at_def cx_def [symmetric])
  next
    case False
    then have "nat cx = i \<longleftrightarrow> overlay_index x i = ox"
      using eq by auto
    then show ?thesis
      using False by (auto simp: composite_at_def cx_def [symmetric])
  qed
qed

lemma composite_row_frame [simp]:
  "ra_width (foldl (composite_at ov op x cy oy) c ks) = ra_width c"
  "ra_height (foldl (composite_at ov op x cy oy) c ks) = ra_height c"
  by (induction ks arbitrary: c) simp_all

lemma composite_row_loop:
  assumes c: "ra_width c \<le> 2 ^ 32" and i: "i < ra_width c"
  shows "n \<le> 2 ^ 32 \<Longrightarrow> ra_pixel (foldl (composite_at ov op x (int cy) oy) c [0..<n]) i j
    = (if overlay_index x i < n \<and> j = cy then composite_pixel op (ra_pixel ov (overlay_index x i) oy) (ra_pixel c i j)
       else ra_pixel c i j)"
proof (induction n)
  case (Suc n)
  let ?c = "foldl (composite_at ov op x (int cy) oy) c [0..<n]"
  have "ra_pixel (composite_at ov op x (int cy) oy ?c n) i j
      = (if overlay_index x i = n \<and> j = cy then composite_pixel op (ra_pixel ov n oy) (ra_pixel ?c i j) else ra_pixel ?c i j)"
    using c i Suc.prems by (intro composite_at_pixel) simp_all
  then show ?case
    using Suc.IH Suc.prems by (cases "overlay_index x i = n"; cases "j = cy") (simp_all add: less_Suc_eq)
qed simp

lemma composite_row_size [simp]:
  "ra_width (composite_row ov op x y c oy) = ra_width c" "ra_height (composite_row ov op x y c oy) = ra_height c"
  by (simp_all add: composite_row_def Let_def)

lemma composite_row_pixel:
  assumes "ra_width c \<le> 2 ^ 32" "ra_height c \<le> 2 ^ 32" "ra_width ov \<le> 2 ^ 32" "oy < 2 ^ 32" "i < ra_width c" "j < ra_height c"
  shows "ra_pixel (composite_row ov op x y c oy) i j
      = (if overlay_index x i < ra_width ov \<and> overlay_index y j = oy
         then composite_pixel op (ra_pixel ov (overlay_index x i) oy) (ra_pixel c i j) else ra_pixel c i j)"
proof -
  define cy where "cy = wrap_i64 (y + int oy)"
  have eq: "cy = int j \<longleftrightarrow> overlay_index y j = oy"
    unfolding cy_def using assms(2,4,6) by (intro wrap_i64_eq_iff) simp_all
  show ?thesis
  proof (cases "cy < 0 \<or> cy \<ge> int (ra_height c)")
    case True
    then have "overlay_index y j \<noteq> oy"
      using eq assms(6) by auto
    then show ?thesis
      using True by (simp add: composite_row_def cy_def [symmetric])
  next
    case False
    then have "int (nat cy) = cy"
      by simp
    then show ?thesis
      using False eq composite_row_loop [OF assms(1,5,3), of ov op x "nat cy" oy j]
      by (auto simp: composite_row_def cy_def [symmetric])
  qed
qed

lemma composite_rows_size [simp]:
  "ra_width (foldl (composite_row ov op x y) c ks) = ra_width c"
  "ra_height (foldl (composite_row ov op x y) c ks) = ra_height c"
  by (induction ks arbitrary: c) simp_all

lemma composite_rows_loop:
  assumes c: "ra_width c \<le> 2 ^ 32" "ra_height c \<le> 2 ^ 32" and ov: "ra_width ov \<le> 2 ^ 32"
    and ij: "i < ra_width c" "j < ra_height c"
  shows "n \<le> 2 ^ 32 \<Longrightarrow> ra_pixel (foldl (composite_row ov op x y) c [0..<n]) i j
    = (if overlay_index x i < ra_width ov \<and> overlay_index y j < n
       then composite_pixel op (ra_pixel ov (overlay_index x i) (overlay_index y j)) (ra_pixel c i j) else ra_pixel c i j)"
proof (induction n)
  case (Suc n)
  let ?c = "foldl (composite_row ov op x y) c [0..<n]"
  have "ra_pixel (composite_row ov op x y ?c n) i j
      = (if overlay_index x i < ra_width ov \<and> overlay_index y j = n
         then composite_pixel op (ra_pixel ov (overlay_index x i) n) (ra_pixel ?c i j) else ra_pixel ?c i j)"
    using c ov ij Suc.prems by (intro composite_row_pixel) simp_all
  then show ?case
    using Suc.IH Suc.prems by (cases "overlay_index y j = n") (simp_all add: less_Suc_eq)
qed simp

lemma composite_over_size [simp]:
  "ra_width (composite_over c ov x y op) = ra_width c" "ra_height (composite_over c ov x y op) = ra_height c"
  by (simp_all add: composite_over_def)

text \<open>
  A position that a watermark can have is the exact sum wrapped to \<^verbatim>\<open>i64\<close>; an overlay
  that covers nothing when placed exactly covers nothing after wrapping either.
\<close>

lemma overlay_index_exact:
  assumes "\<bar>x\<bar> < 2 ^ 63 + 2 ^ 33" "i < 2 ^ 32" "n \<le> 2 ^ 32"
  shows "overlay_index (wrap_i64 x) i < n \<longleftrightarrow> x \<le> int i \<and> int i < x + int n"
    and "x \<le> int i \<Longrightarrow> int i < x + int n \<Longrightarrow> overlay_index (wrap_i64 x) i = nat (int i - x)"
proof -
  have "(int i - wrap_i64 x) mod 2 ^ 64 = (int i - x) mod 2 ^ 64"
  proof -
    have "int i - wrap_i64 x - (int i - x) = (x + 2 ^ 63) - (x + 2 ^ 63) mod 2 ^ 64"
      unfolding wrap_i64_def by linarith
    then show ?thesis
      unfolding mod_eq_dvd_iff by (simp only: dvd_minus_mod)
  qed
  then have o: "overlay_index (wrap_i64 x) i = nat ((int i - x) mod 2 ^ 64)"
    by (simp add: overlay_index_def)
  have d: "(int i - x) mod 2 ^ 64 = (if x \<le> int i then int i - x else int i - x + 2 ^ 64)"
  proof (cases "x \<le> int i")
    case True
    then have "(int i - x) mod 2 ^ 64 = int i - x"
      using assms(1,2) by (intro mod_pos_pos_trivial) simp_all
    then show ?thesis
      using True by simp
  next
    case False
    have "(int i - x) mod 2 ^ 64 = (int i - x + 2 ^ 64) mod 2 ^ 64"
      by simp
    also have "\<dots> = int i - x + 2 ^ 64"
      using False assms(1) by (intro mod_pos_pos_trivial) simp_all
    finally show ?thesis
      using False by simp
  qed
  show "overlay_index (wrap_i64 x) i < n \<longleftrightarrow> x \<le> int i \<and> int i < x + int n"
    unfolding o d using assms by auto
  show "x \<le> int i \<Longrightarrow> int i < x + int n \<Longrightarrow> overlay_index (wrap_i64 x) i = nat (int i - x)"
    unfolding o d by simp
qed

lemma f_as_int_bounds: "lo \<le> 0 \<Longrightarrow> 0 \<le> hi \<Longrightarrow> lo \<le> f_as_int lo hi x \<and> f_as_int lo hi x \<le> hi"
  by (cases x) auto

lemma resolve_offset_bounds: "- (2 ^ 63) \<le> resolve_offset offset n" "resolve_offset offset n < 2 ^ 63"
proof -
  have b: "- (2 ^ 63) \<le> f_as_int (- (2 ^ 63)) (2 ^ 63 - 1) y" "f_as_int (- (2 ^ 63)) (2 ^ 63 - 1) y \<le> 2 ^ 63 - 1" for y
    using f_as_int_bounds [of "- (2 ^ 63)" "2 ^ 63 - 1" y] by simp_all
  show "- (2 ^ 63) \<le> resolve_offset offset n" "resolve_offset offset n < 2 ^ 63"
    unfolding resolve_offset_def by (rule b(1)) (rule le_less_trans [OF b(2)], simp)
qed

text \<open>Where the anchor and the offsets put the watermark, in exact arithmetic.\<close>

definition watermark_place ::
  "watermark_position \<Rightarrow> rfloat \<Rightarrow> rfloat \<Rightarrow> nat \<times> nat \<Rightarrow> nat \<times> nat \<Rightarrow> int \<times> int" where
  "watermark_place pos x_offset y_offset base wm =
     ((if pos \<in> {WmWest, WmNorthWest, WmSouthWest} then 0
       else if pos \<in> {WmEast, WmNorthEast, WmSouthEast} then int (fst base) - int (fst wm)
       else half (int (fst base) - int (fst wm))) + resolve_offset x_offset (fst base),
      (if pos \<in> {WmNorth, WmNorthWest, WmNorthEast} then 0
       else if pos \<in> {WmSouth, WmSouthWest, WmSouthEast} then int (snd base) - int (snd wm)
       else half (int (snd base) - int (snd wm))) + resolve_offset y_offset (snd base))"

lemma watermark_position_wraps:
  "watermark_position_fn pos xo yo bw bh ww wh = map_prod wrap_i64 wrap_i64 (watermark_place pos xo yo (bw, bh) (ww, wh))"
  by (cases pos) (simp_all add: watermark_position_fn_def watermark_place_def Let_def)

lemma half_bound: "\<bar>half n\<bar> \<le> \<bar>n\<bar>"
  by (auto simp: half_def)

lemma watermark_place_bounds:
  assumes "bw < 2 ^ 32" "bh < 2 ^ 32" "ww < 2 ^ 32" "wh < 2 ^ 32"
  shows "\<bar>fst (watermark_place pos xo yo (bw, bh) (ww, wh))\<bar> < 2 ^ 63 + 2 ^ 33"
    and "\<bar>snd (watermark_place pos xo yo (bw, bh) (ww, wh))\<bar> < 2 ^ 63 + 2 ^ 33"
proof -
  have n: "\<bar>int a - int b\<bar> < 2 ^ 32" "\<bar>half (int a - int b)\<bar> < 2 ^ 32" if "a < 2 ^ 32" "b < 2 ^ 32" for a b
    using that half_bound [of "int a - int b"] by auto
  show "\<bar>fst (watermark_place pos xo yo (bw, bh) (ww, wh))\<bar> < 2 ^ 63 + 2 ^ 33"
    using n [OF assms(1,3)] resolve_offset_bounds [of xo bw] by (auto simp: watermark_place_def)
  show "\<bar>snd (watermark_place pos xo yo (bw, bh) (ww, wh))\<bar> < 2 ^ 63 + 2 ^ 33"
    using n [OF assms(2,4)] resolve_offset_bounds [of yo bh] by (auto simp: watermark_place_def)
qed

section \<open>Opaque and invisible overlays\<close>

lemma f_as_u8 [simp]: "f_as_uint 256 x < 256"
  by (rule f_as_uint_bound) simp

lemma composite_pixel_wf: "wf_rgba dst \<Longrightarrow> wf_rgba (composite_pixel op src dst)"
  by (auto simp: composite_pixel_def wf_rgba_def composite_channel_def Let_def split: prod.splits)

lemma composite_pixel_invisible:
  assumes "0 \<le> q" "q \<le> 1"
  shows "composite_pixel (Fin False q) (r, g, b, 0) dst = dst"
  by (cases dst) (simp add: composite_pixel_def round_f32_small f32_opacity [of 0, simplified])

lemma r32_1 [simp]: "r32 1 = 1"
  using r32_nat [of 1] by simp

lemma composite_channel_opaque:
  assumes "s < 256" "d < 256" "0 \<le> q" "q \<le> 1"
  shows "composite_channel f_one (Fin False q) f_one s d = s"
proof -
  define S D :: rat where "S = of_nat s" "D = of_nat d"
  have b: "S \<le> 255" "0 \<le> D" "D \<le> 255"
    using of_nat_le_iff [of s 255, where 'a = rat] of_nat_le_iff [of d 255, where 'a = rat] assms(1,2)
    by (simp_all add: S_D_def)
  have "D * q \<le> 255"
    using b assms(3,4) mult_mono [of D 255 q 1] by simp
  then have dq: "f_mul f32_fmt (Fin False D) (Fin False q) = Fin False (r32 (D * q))"
    by (intro f32_small(1)) simp
  have z: "f_sub f32_fmt f_one f_one = Fin False 0"
    by (simp add: f_sub_def)
  have m: "f_mul f32_fmt (Fin False S) f_one = Fin False S" "f_mul f32_fmt (Fin False (r32 (D * q))) (Fin False 0) = Fin False 0"
    using f32_small(1) [of S 1] f32_small(1) [of "r32 (D * q)" 0] b assms(1) by (simp_all add: S_D_def)
  have a: "f_add f32_fmt (Fin False S) (Fin False 0) = Fin False S"
    using f32_small(3) [of S 0] b assms(1) by (simp add: S_D_def)
  have e: "f_div f32_fmt (Fin False S) f_one = Fin False S"
    using f32_small(2) [of 1 S] b assms(1) by (simp add: S_D_def)
  have "\<lfloor>S + 1 / 2\<rfloor> = int s"
    by (simp add: S_D_def floor_eq_iff)
  then have r: "f_round (Fin False S) = Fin False S"
    by (simp add: S_D_def)
  have "f_as_uint 256 (f_clamp f_zero f_255 (Fin False S)) = s"
    using b assms(1) by (simp add: f_clamp_def S_D_def)
  then show ?thesis
    using assms(1,2) by (simp only: composite_channel_def f32_byte S_D_def [symmetric] dq z m a e r)
qed

lemma composite_pixel_opaque:
  assumes "wf_rgba (r, g, b, 255)" "wf_rgba (dr, dg, db, da)"
  shows "composite_pixel f_one (r, g, b, 255) (dr, dg, db, da) = (r, g, b, 255)"
proof -
  have q: "0 \<le> opacity_of da" "opacity_of da \<le> 1" "da < 256"
    using assms(2) opacity_of_bounds by (auto simp: wf_rgba_def)
  have s: "f_mul f32_fmt (f_div f32_fmt (f32_of_nat 255) f_255) f_one = f_one"
    unfolding f32_opacity [of 255, simplified] using f32_small(1) [of 1 1] by simp
  have o: "f_add f32_fmt f_one (f_mul f32_fmt (Fin False (opacity_of da)) (f_sub f32_fmt f_one f_one)) = f_one"
    using f32_small(1) [of "opacity_of da" 0] f32_small(3) [of 1 0] by (simp add: f_sub_def)
  have a: "f_as_uint 256 (f_clamp f_zero f_255 (f_round (f_mul f32_fmt f_one f_255))) = 255"
  proof -
    have "\<lfloor>511 / 2 :: rat\<rfloor> = 255"
      by (simp add: floor_eq_iff)
    then show ?thesis
      using f32_small(1) [of 1 255] r32_nat [of 255] by (simp add: f_clamp_def)
  qed
  have c: "composite_channel f_one (Fin False (opacity_of da)) f_one x y = x" if "x < 256" "y < 256" for x y
    using that q by (intro composite_channel_opaque)
  have "r < 256" "g < 256" "b < 256" "dr < 256" "dg < 256" "db < 256"
    using assms by (auto simp: wf_rgba_def)
  then show ?thesis
    by (simp only: composite_pixel_def prod.case s Let_def f32_opacity [OF q(3)] o a c) simp
qed

text \<open>
  C35. Drawing a watermark.  The nested loops of \<^verbatim>\<open>composite_over\<close>, run at the position that
  anchor and offsets give, change exactly the pixels of the canvas that the watermark
  covers at its exact, unwrapped place, each by the blend of the two pixels at that
  place, and keep the canvas's size.  Offsets of any magnitude are allowed: the wrap of
  the \<^verbatim>\<open>i64\<close> sum and the clipping draw nothing that the exact place does not cover.  An
  opaque watermark pixel at opacity one replaces, an invisible one leaves the canvas.
\<close>
theorem watermark_drawn_exactly:
  fixes canvas overlay :: "rgba raster" and i j :: nat and opacity xo yo :: rfloat and pos :: watermark_position
  defines "spot \<equiv> watermark_position_fn pos xo yo (ra_width canvas) (ra_height canvas) (ra_width overlay) (ra_height overlay)"
    and "place \<equiv> watermark_place pos xo yo (dimensions canvas) (dimensions overlay)"
  defines "drawn \<equiv> composite_over canvas overlay (fst spot) (snd spot) opacity"
    and "src \<equiv> ra_pixel overlay (nat (int i - fst place)) (nat (int j - snd place))"
    and "covered \<equiv> fst place \<le> int i \<and> int i < fst place + int (ra_width overlay)
      \<and> snd place \<le> int j \<and> int j < snd place + int (ra_height overlay)"
  assumes "ra_width canvas < 2 ^ 32" "ra_height canvas < 2 ^ 32" "ra_width overlay < 2 ^ 32" "ra_height overlay < 2 ^ 32"
    and "i < ra_width canvas" "j < ra_height canvas" "wf_rgba (ra_pixel canvas i j)" "wf_rgba src"
  shows "dimensions drawn = dimensions canvas
    \<and> ra_pixel drawn i j = (if covered \<and> \<not> f_le opacity f_zero then composite_pixel opacity src (ra_pixel canvas i j)
         else ra_pixel canvas i j)
    \<and> wf_rgba (ra_pixel drawn i j)
    \<and> (covered \<and> opacity = f_one \<and> snd (snd (snd src)) = 255 \<longrightarrow> ra_pixel drawn i j = src)
    \<and> (snd (snd (snd src)) = 0 \<and> opacity = Fin False q \<and> 0 \<le> q \<and> q \<le> 1 \<longrightarrow> ra_pixel drawn i j = ra_pixel canvas i j)"
proof -
  have spot: "fst spot = wrap_i64 (fst place)" "snd spot = wrap_i64 (snd place)"
    by (simp_all add: spot_def place_def watermark_position_wraps dimensions_def)
  have b: "\<bar>fst place\<bar> < 2 ^ 63 + 2 ^ 33" "\<bar>snd place\<bar> < 2 ^ 63 + 2 ^ 33"
    using watermark_place_bounds assms(6-9) by (simp_all add: place_def dimensions_def)
  have ij: "i < 2 ^ 32" "j < 2 ^ 32"
    using assms(6,7,10,11) by simp_all
  note xi = overlay_index_exact [OF b(1) ij(1) less_imp_le [OF assms(8)]]
  note yi = overlay_index_exact [OF b(2) ij(2) less_imp_le [OF assms(9)]]
  have p: "ra_pixel drawn i j = (if covered \<and> \<not> f_le opacity f_zero then composite_pixel opacity src (ra_pixel canvas i j)
      else ra_pixel canvas i j)"
  proof (cases "f_le opacity f_zero")
    case False
    have "ra_pixel drawn i j = (if overlay_index (fst spot) i < ra_width overlay \<and> overlay_index (snd spot) j < ra_height overlay
        then composite_pixel opacity (ra_pixel overlay (overlay_index (fst spot) i) (overlay_index (snd spot) j)) (ra_pixel canvas i j)
        else ra_pixel canvas i j)"
      unfolding drawn_def composite_over_def using False assms(6-11) by (simp add: composite_rows_loop)
    then show ?thesis
      using False xi yi unfolding spot covered_def src_def by (auto split: if_splits)
  qed (simp add: drawn_def composite_over_def)
  obtain sr sg sb sa dr dg db da where sd: "src = (sr, sg, sb, sa)" "ra_pixel canvas i j = (dr, dg, db, da)"
    by (metis prod.exhaust)
  have "dimensions drawn = dimensions canvas"
    by (simp add: drawn_def dimensions_def)
  moreover have "wf_rgba (ra_pixel drawn i j)"
    unfolding p using assms(12) composite_pixel_wf by simp
  moreover have "covered \<and> opacity = f_one \<and> snd (snd (snd src)) = 255 \<longrightarrow> ra_pixel drawn i j = src"
    unfolding p using composite_pixel_opaque assms(12,13) by (auto simp: sd)
  moreover have "snd (snd (snd src)) = 0 \<and> opacity = Fin False q \<and> 0 \<le> q \<and> q \<le> 1 \<longrightarrow> ra_pixel drawn i j = ra_pixel canvas i j"
    unfolding p using composite_pixel_invisible by (auto simp: sd)
  ultimately show ?thesis
    using p by blast
qed

definition plain_raster :: "nat \<Rightarrow> nat \<Rightarrow> 'p \<Rightarrow> 'p raster" where
  "plain_raster w h p = \<lparr> ra_width = w, ra_height = h, ra_pixel = (\<lambda>x y. p) \<rparr>"

theorem watermark_drawn_exactly_witness:
  "ra_pixel (composite_over (plain_raster 8 8 (9, 9, 9, 255)) (plain_raster 2 2 (1, 2, 3, 255))
       (fst (watermark_position_fn WmSouthEast f_zero f_zero 8 8 2 2)) (snd (watermark_position_fn WmSouthEast f_zero f_zero 8 8 2 2)) f_one) 7 7
     = (1, 2, 3, 255)"
proof -
  have o: "resolve_offset f_zero 8 = 0"
    using f64_of_nat_exact [of 8] by (simp add: resolve_offset_def round_float_representable floor_eq_iff)
  then have pl: "watermark_place WmSouthEast f_zero f_zero (8, 8) (2, 2) = (6, 6)"
    by (simp add: watermark_place_def)
  have "composite_pixel f_one (1, 2, 3, 255) (9, 9, 9, 255) = (1, 2, 3, 255)"
    by (rule composite_pixel_opaque) (simp_all add: wf_rgba_def)
  then show ?thesis
    using watermark_drawn_exactly [of "plain_raster 8 8 (9, 9, 9, 255)" "plain_raster 2 2 (1, 2, 3, 255)" 7 7
        WmSouthEast f_zero f_zero f_one 1]
    by (simp add: plain_raster_def dimensions_def pl wf_rgba_def)
qed

text \<open>
  The offset of a watermark is any float the request names; the sum with the anchor then
  leaves \<^verbatim>\<open>i64\<close>, which a release build wraps and a build with overflow checks panics on.
\<close>

lemma watermark_offset_overflows:
  "resolve_offset (Fin False (10 ^ 30)) 100 = 2 ^ 63 - 1"
  "\<not> fst (watermark_place WmEast (Fin False (10 ^ 30)) f_zero (100, 100) (1, 1)) < 2 ^ 63"
proof -
  show r: "resolve_offset (Fin False (10 ^ 30)) 100 = 2 ^ 63 - 1"
    by (simp add: resolve_offset_def floor_eq_iff)
  show "\<not> fst (watermark_place WmEast (Fin False (10 ^ 30)) f_zero (100, 100) (1, 1)) < 2 ^ 63"
    using r by (simp add: watermark_place_def)
qed

section \<open>Rotation\<close>

text \<open>A rotated watermark has at least one pixel, and every pixel is one of the source's or invisible.\<close>

lemma f_add_mag: "f_add F a b = Fin s m \<Longrightarrow> 0 \<le> m"
  by (induction F a b rule: f_add.induct) (auto simp: Let_def round_float_def split: if_splits)

lemma rotated_dimension_pos: "1 \<le> rotated_dimension vs"
proof -
  have "1 \<le> f_as_uint (2 ^ 32) (f_max (f_ceil x) f_one)" if "\<And>s m. x = Fin s m \<Longrightarrow> 0 \<le> m" for x
  proof (cases x)
    case (Fin s m)
    then have "0 \<le> \<lfloor>m\<rfloor>"
      using that by simp
    then have "\<not> of_int \<lfloor>m\<rfloor> \<le> (- 1 :: rat)"
      using of_int_0_le_iff [of "\<lfloor>m\<rfloor>", where 'a = rat] by linarith
    then show ?thesis
      using Fin by (auto simp: f_max_def le_nat_iff le_floor_iff not_less)
  qed (auto simp: f_max_def)
  then show ?thesis
    using f_add_mag unfolding rotated_dimension_def Let_def f_sub_def by blast
qed

lemma rotate_source_inside:
  assumes "rotate_source s c (w, h) out x y = Some (ix, iy)" "w < 2 ^ 32" "h < 2 ^ 32"
  shows "ix < w" "iy < h"
proof -
  have lt: "f_as_uint (2 ^ 32) v < n" if "f_le f_zero v" "f_lt v (f64_of_nat n)" "n < 2 ^ 32" for v n
  proof -
    have "f64_of_nat n = Fin False (of_nat n)"
      using that(3) by (intro f64_of_nat_exact) simp
    then show ?thesis
      using that by (cases v) (auto simp: nat_less_iff floor_less_iff split: if_splits)
  qed
  show "ix < w" "iy < h"
    using assms lt by (auto simp: rotate_source_def Let_def split: prod.splits if_splits)
qed

lemma rotate_rgba_pixels:
  assumes "ra_width img < 2 ^ 32" "ra_height img < 2 ^ 32"
    and "0 < ra_width img" "0 < ra_height img" "x < ra_width (rotate_rgba sc img d)" "y < ra_height (rotate_rgba sc img d)"
  shows "ra_pixel (rotate_rgba sc img d) x y = (0, 0, 0, 0)
    \<or> (\<exists>ix<ra_width img. \<exists>iy<ra_height img. ra_pixel (rotate_rgba sc img d) x y = ra_pixel img ix iy)"
proof (cases "f_eq (f_rem_euclid d (Fin False 360)) f_zero")
  case True
  then have "rotate_rgba sc img d = img"
    using assms(3,4) by (simp add: rotate_rgba_def)
  then show ?thesis
    using assms(5,6) by auto
next
  case False
  then obtain st ct out where r: "ra_pixel (rotate_rgba sc img d) x y
      = (case rotate_source st ct (dimensions img) out x y of Some (ix, iy) \<Rightarrow> ra_pixel img ix iy | None \<Rightarrow> (0, 0, 0, 0))"
    using assms(3,4) by (cases "sc (to_radians (f_rem_euclid d (Fin False 360)))") (auto simp: rotate_rgba_def Let_def)
  show ?thesis
  proof (cases "rotate_source st ct (dimensions img) out x y")
    case (Some q)
    then show ?thesis
      using r rotate_source_inside [of st ct "ra_width img" "ra_height img" out x y "fst q" "snd q"] assms(1,2)
      by (cases q) (auto simp: dimensions_def)
  qed (simp add: r)
qed

lemma rotate_rgba_size:
  "0 < ra_width img \<Longrightarrow> 0 < ra_height img \<Longrightarrow> 0 < ra_width (rotate_rgba sc img d) \<and> 0 < ra_height (rotate_rgba sc img d)"
  using rotated_dimension_pos by (auto simp: rotate_rgba_def Let_def Suc_le_eq split: prod.splits)

section \<open>CMYK\<close>

lemma cmyk_sample_byte: "cmyk_sample c k < 256"
  by (simp add: cmyk_sample_def)

lemma cmyk_sample_ends:
  "c < 256 \<Longrightarrow> cmyk_sample c 255 = 0" "c < 256 \<Longrightarrow> cmyk_sample c 0 = 255 - c" "cmyk_sample 255 k = 0"
  by (simp_all add: cmyk_sample_def)

lemma cmyk_sample_mono: "c \<le> c' \<Longrightarrow> cmyk_sample c' k \<le> cmyk_sample c k"
proof -
  assume "c \<le> c'"
  have "(255 - d) * (255 - k) div 255 < 256" for d :: nat
  proof -
    have "(255 - d) * (255 - k) \<le> 255 * 255"
      by (intro mult_le_mono) simp_all
    then have "(255 - d) * (255 - k) div 255 \<le> 255 * 255 div 255"
      by (rule div_le_mono)
    then show ?thesis
      by simp
  qed
  then show ?thesis
    using \<open>c \<le> c'\<close> unfolding cmyk_sample_def by (simp only: mod_less) (intro div_le_mono mult_le_mono; simp)
qed

lemma length_cmyk_to_rgb: "length (cmyk_to_rgb px) = 3 * (length px div 4)"
  by (induction px rule: cmyk_to_rgb.induct) auto

end
