(* ===== verification/Encode.thy ===== *)
theory Encode
  imports Byte_Order Pixels
begin

text \<open>
  The byte level of \<^verbatim>\<open>src/src/services/image/handler.rs\<close> around the codecs: the format
  of a source from its magic bytes, the search for a JPEG quality within a byte budget,
  the rewriting of the EXIF orientation tag, and the animated WebP container that is
  assembled by hand.  The encoders themselves are arguments.

  Shown: the search tries at most seven qualities, returns the best attempt of its
  trace, and meets a budget that the lowest quality meets; the rewritten EXIF block
  says "upright", differs nowhere else, and is a fixed point; the container's chunks
  read back exactly; and the brands of an \<^verbatim>\<open>ftyp\<close> box are found wherever they stand.
\<close>

section \<open>The format of a source\<close>

datatype source_format = FmtJpeg | FmtPng | FmtGif | FmtWebP | FmtAvif

definition is_brand :: "string \<Rightarrow> bool" where
  "is_brand b = (b = ''avif'' \<or> b = ''avis'')"

fun scan_brands :: "string \<Rightarrow> nat \<Rightarrow> nat \<Rightarrow> nat \<Rightarrow> bool" where
  "scan_brands bytes scan_end offset 0 = False"
| "scan_brands bytes scan_end offset (Suc left) =
     (if offset + 4 \<le> scan_end
      then is_brand (take 4 (drop offset bytes)) \<or> scan_brands bytes scan_end (offset + 4) left
      else False)"

text \<open>The loop advances by four and stops at the end of the box, so its length is fuel enough.\<close>

definition is_avif :: "string \<Rightarrow> bool" where
  "is_avif bytes =
     (if length bytes < 12 \<or> take 4 (drop 4 bytes) \<noteq> ''ftyp'' then False
      else
        (let box_size = be_val (take 4 bytes);
             scan_end = min box_size (length bytes)
         in if is_brand (take 4 (drop 8 bytes)) then True else scan_brands bytes scan_end 16 (length bytes)))"

definition detect_format_from_bytes :: "string \<Rightarrow> source_format option" where
  "detect_format_from_bytes bytes =
     (if length bytes < 12 then None
      else if map byte (take 3 bytes) = [0xFF, 0xD8, 0xFF] then Some FmtJpeg
      else if map byte (take 4 bytes) = [0x89, 0x50, 0x4E, 0x47] then Some FmtPng
      else if take 4 bytes = ''GIF8'' then Some FmtGif
      else if take 4 bytes = ''RIFF'' \<and> take 4 (drop 8 bytes) = ''WEBP'' then Some FmtWebP
      else if is_avif bytes then Some FmtAvif
      else None)"

definition estimate_output_size :: "nat \<times> nat \<Rightarrow> source_format \<Rightarrow> nat" where
  "estimate_output_size dims format =
     (let pixels = unwrap_or (checked_mul (fst dims) (snd dims)) (2 ^ 64 - 1) in
      case format of
        FmtJpeg \<Rightarrow> pixels div 2
      | FmtPng \<Rightarrow> unwrap_or (checked_mul pixels 4) (2 ^ 64 - 1)
      | FmtWebP \<Rightarrow> pixels div 3
      | _ \<Rightarrow> unwrap_or (checked_mul pixels 3) (2 ^ 64 - 1))"

section \<open>A JPEG within a byte budget\<close>

text \<open>The result and, in order, the qualities at which the encoder was called.\<close>

type_synonym attempt = "(any_error, string) result \<times> nat list"

definition max_bytes_search_attempts :: nat where
  "max_bytes_search_attempts = 6"

fun quality_search :: "nat \<Rightarrow> nat \<Rightarrow> (nat \<Rightarrow> (any_error, string) result) \<Rightarrow> nat \<Rightarrow> nat \<Rightarrow> string \<Rightarrow> attempt" where
  "quality_search 0 max_bytes encode_at low high best = (Inr best, [])"
| "quality_search (Suc attempts) max_bytes encode_at low high best =
     (if low > high then (Inr best, [])
      else
        (let mid = low + (high - low) div 2;
             (r, tried) =
               (case encode_at mid of
                  Inl e \<Rightarrow> (Inl e, [])
                | Inr candidate \<Rightarrow>
                    if length candidate \<le> max_bytes
                    then (if mid = 255 then (Inr candidate, [])
                          else quality_search attempts max_bytes encode_at (mid + 1) high candidate)
                    else
                      (let best = (if length best > max_bytes \<and> length candidate < length best then candidate else best)
                       in if mid = 0 then (Inr best, [])
                          else quality_search attempts max_bytes encode_at low (mid - 1) best))
         in (r, mid # tried)))"

definition encode_with_max_bytes :: "nat \<Rightarrow> nat \<Rightarrow> (nat \<Rightarrow> (any_error, string) result) \<Rightarrow> attempt" where
  "encode_with_max_bytes max_bytes initial_quality encode_at =
     (case encode_at initial_quality of
        Inl e \<Rightarrow> (Inl e, [initial_quality])
      | Inr first \<Rightarrow>
          if length first \<le> max_bytes \<or> initial_quality \<le> 1 then (Inr first, [initial_quality])
          else
            (case quality_search max_bytes_search_attempts max_bytes encode_at 1 (initial_quality - 1) first of
               (r, tried) \<Rightarrow> (r, initial_quality # tried)))"

section \<open>The EXIF orientation\<close>

text \<open>\<^verbatim>\<open>read_u16\<close> and \<^verbatim>\<open>read_u32\<close>, on bytes of that length.\<close>

definition read_uint_in :: "bool \<Rightarrow> string \<Rightarrow> nat" where
  "read_uint_in little_endian b = (if little_endian then le_val b else be_val b)"

fun patch_orientation :: "bool \<Rightarrow> string \<Rightarrow> nat \<Rightarrow> nat \<Rightarrow> string option" where
  "patch_orientation little_endian exif entry_start 0 = None"
| "patch_orientation little_endian exif entry_start (Suc left) =
     do {
       tag \<leftarrow> get_range exif entry_start (entry_start + 2);
       if read_uint_in little_endian tag \<noteq> 0x0112
       then patch_orientation little_endian exif (entry_start + 12) left
       else do {
         field_type \<leftarrow> get_range exif (entry_start + 2) (entry_start + 4);
         count \<leftarrow> get_range exif (entry_start + 4) (entry_start + 8);
         if read_uint_in little_endian field_type \<noteq> 3 \<or> read_uint_in little_endian count \<noteq> 1 then None
         else
           (let value_start = entry_start + 8;
                normal_bytes = (if little_endian then to_le 2 1 else to_be 2 1)
            in Some (take value_start exif @ normal_bytes @ drop (value_start + 2) exif))
       }
     }"

definition neutralize_exif_orientation :: "string \<Rightarrow> string option" where
  "neutralize_exif_orientation exif =
     do {
       order \<leftarrow> get_range exif 0 2;
       little_endian \<leftarrow> (if order = ''II'' then Some True else if order = ''MM'' then Some False else None);
       magic \<leftarrow> get_range exif 2 4;
       if read_uint_in little_endian magic \<noteq> 42 then None
       else do {
         offset \<leftarrow> get_range exif 4 8;
         let ifd0_offset = read_uint_in little_endian offset;
         entries_start \<leftarrow> checked_add ifd0_offset 2;
         counted \<leftarrow> get_range exif ifd0_offset entries_start;
         let entry_count = read_uint_in little_endian counted;
         entries_len \<leftarrow> checked_mul entry_count 12;
         entries_end \<leftarrow> checked_add entries_start entries_len;
         if entries_end > length exif then None
         else patch_orientation little_endian exif entries_start entry_count
       }
     }"

section \<open>Animated WebP\<close>

definition write_riff_chunk :: "string \<Rightarrow> string \<Rightarrow> string" where
  "write_riff_chunk fourcc payload =
     fourcc @ to_le 4 (length payload) @ payload @ (if length payload mod 2 = 1 then [char_of (0 :: nat)] else [])"

text \<open>A frame: its pixels and its delay as a fraction of a millisecond.\<close>

record frame =
  fr_buffer :: "rgba raster"
  fr_delay :: "nat \<times> nat"

definition delay_ms :: "frame \<Rightarrow> nat" where
  "delay_ms frame = (case fr_delay frame of (numer, denom) \<Rightarrow> if denom = 0 then 0 else numer div denom)"

text \<open>The low three bytes, little-endian.\<close>

definition u24 :: "nat \<Rightarrow> string" where
  "u24 v = take 3 (to_le 4 v)"

definition minus_1_in_24_bits :: "nat \<Rightarrow> string \<Rightarrow> (any_error, nat) result" where
  "minus_1_in_24_bits side msg = (if side \<ge> 1 \<and> side - 1 < 2 ^ 24 then Inr (side - 1) else Inl (plain_error msg))"

definition anmf_payload :: "nat \<Rightarrow> nat \<Rightarrow> nat \<Rightarrow> string \<Rightarrow> string" where
  "anmf_payload width_minus_1 height_minus_1 duration_ms inner =
     u24 0 @ u24 0 @ u24 width_minus_1 @ u24 height_minus_1 @ u24 (min duration_ms (2 ^ 24 - 1))
     @ [char_of (2 :: nat)] @ inner"

fun anmf_chunks ::
  "(rgba raster \<Rightarrow> (any_error, string) result) \<Rightarrow> nat \<Rightarrow> nat \<Rightarrow> nat \<Rightarrow> nat \<Rightarrow> (rgba raster \<times> nat) list
     \<Rightarrow> (any_error, string list) result" where
  "anmf_chunks encode width height width_minus_1 height_minus_1 [] = Inr []"
| "anmf_chunks encode width height width_minus_1 height_minus_1 ((buffer, duration_ms) # rest) =
     (if ra_width buffer \<noteq> width \<or> ra_height buffer \<noteq> height
      then Inl (plain_error (''animated WebP: every frame must share the first frame'' @ [CHR 0x27] @ ''s dimensions''))
      else
        bindr (map_err (with_context ''image-webp: failed to encode animation frame'') (encode buffer)) (\<lambda>frame_webp.
        bindr (ok_or (plain_error ''image-webp: encoded frame shorter than the RIFF/WEBP header'')
                 (get_from frame_webp 12)) (\<lambda>inner.
        bindr (anmf_chunks encode width height width_minus_1 height_minus_1 rest) (\<lambda>chunks.
          Inr (write_riff_chunk ''ANMF'' (anmf_payload width_minus_1 height_minus_1 duration_ms inner) # chunks)))))"

definition vp8x_payload :: "nat \<Rightarrow> nat \<Rightarrow> string" where
  "vp8x_payload width_minus_1 height_minus_1 =
     [char_of (0x12 :: nat)] @ replicate 3 (char_of (0 :: nat)) @ u24 width_minus_1 @ u24 height_minus_1"

definition anim_payload :: string where
  "anim_payload = replicate 4 (char_of (0 :: nat)) @ to_le 2 0"

definition encode_animated_webp ::
  "(rgba raster \<Rightarrow> (any_error, string) result) \<Rightarrow> frame list \<Rightarrow> (any_error, string \<times> string) result" where
  "encode_animated_webp encode frames =
     (case map fr_buffer frames of
        [] \<Rightarrow> Inl (plain_error ''cannot encode an animated WebP with zero frames'')
      | first # _ \<Rightarrow>
          bindr (minus_1_in_24_bits (ra_width first) (''animated WebP: canvas width out of the container'' @ [CHR 0x27] @ ''s 24-bit range'')) (\<lambda>width_minus_1.
          bindr (minus_1_in_24_bits (ra_height first) (''animated WebP: canvas height out of the container'' @ [CHR 0x27] @ ''s 24-bit range'')) (\<lambda>height_minus_1.
          bindr (anmf_chunks encode (ra_width first) (ra_height first) width_minus_1 height_minus_1
                   (zip (map fr_buffer frames) (map delay_ms frames))) (\<lambda>chunks.
            let payload = ''WEBP'' @ write_riff_chunk ''VP8X'' (vp8x_payload width_minus_1 height_minus_1)
                  @ write_riff_chunk ''ANIM'' anim_payload @ concat chunks
            in Inr (''RIFF'' @ to_le 4 (length payload) @ payload, ''image/webp'')))))"

section \<open>Brands\<close>

lemma scan_brands_iff:
  "scan_brands bytes e offset n \<longleftrightarrow> (\<exists>k<n. offset + 4 * k + 4 \<le> e \<and> is_brand (take 4 (drop (offset + 4 * k) bytes)))"
proof (induction n arbitrary: offset)
  case (Suc n)
  have "(\<exists>k<Suc n. offset + 4 * k + 4 \<le> e \<and> is_brand (take 4 (drop (offset + 4 * k) bytes)))
      \<longleftrightarrow> offset + 4 \<le> e \<and> is_brand (take 4 (drop offset bytes))
        \<or> (\<exists>k<n. offset + 4 + 4 * k + 4 \<le> e \<and> is_brand (take 4 (drop (offset + 4 + 4 * k) bytes)))"
    by (subst Ex_less_Suc2) (simp add: ac_simps)
  then show ?case
    using Suc by auto
qed simp

lemma is_avif_exact:
  "is_avif bytes \<longleftrightarrow> 12 \<le> length bytes \<and> take 4 (drop 4 bytes) = ''ftyp''
     \<and> (is_brand (take 4 (drop 8 bytes))
        \<or> (\<exists>k. 16 + 4 * k + 4 \<le> min (be_val (take 4 bytes)) (length bytes) \<and> is_brand (take 4 (drop (16 + 4 * k) bytes))))"
proof -
  have "k < length bytes" if "16 + 4 * k + 4 \<le> min (be_val (take 4 bytes)) (length bytes)" for k
    using that by simp
  then have "scan_brands bytes (min (be_val (take 4 bytes)) (length bytes)) 16 (length bytes)
      \<longleftrightarrow> (\<exists>k. 16 + 4 * k + 4 \<le> min (be_val (take 4 bytes)) (length bytes) \<and> is_brand (take 4 (drop (16 + 4 * k) bytes)))"
    unfolding scan_brands_iff by blast
  then show ?thesis
    by (auto simp: is_avif_def Let_def)
qed

section \<open>The search for a quality\<close>

text \<open>The attempt that a trace of qualities is to return: the best that fits, or else the smallest.\<close>

definition best_attempt :: "nat \<Rightarrow> (nat \<Rightarrow> string) \<Rightarrow> nat set \<Rightarrow> nat \<Rightarrow> bool" where
  "best_attempt max_bytes out tried k \<longleftrightarrow> k \<in> tried
     \<and> (if \<exists>j\<in>tried. length (out j) \<le> max_bytes
        then length (out k) \<le> max_bytes \<and> (\<forall>j\<in>tried. length (out j) \<le> max_bytes \<longrightarrow> j \<le> k)
        else \<forall>j\<in>tried. length (out k) \<le> length (out j))"

lemma best_attempt_fit:
  assumes "best_attempt m out T k" "length (out k) \<le> m \<longrightarrow> k < mid" "length (out mid) \<le> m"
  shows "best_attempt m out (insert mid T) mid"
proof -
  have "j \<le> mid" if "j \<in> T" "length (out j) \<le> m" for j
    using assms that by (fastforce simp: best_attempt_def split: if_splits)
  then show ?thesis
    using assms(3) by (auto simp: best_attempt_def)
qed

lemma best_attempt_miss:
  assumes "best_attempt m out T k" "\<not> length (out mid) \<le> m"
  shows "best_attempt m out (insert mid T) (if length (out k) > m \<and> length (out mid) < length (out k) then mid else k)"
  using assms by (auto simp: best_attempt_def split: if_splits)

lemma quality_search_step:
  assumes "quality_search (Suc n) m (\<lambda>q. Inr (out q)) low high (out k) = (r, ts)" "1 \<le> low" "low \<le> high" "high < 255"
  obtains mid ts' where "mid = low + (high - low) div 2" "low \<le> mid" "mid \<le> high" "ts = mid # ts'"
    "length (out mid) \<le> m \<Longrightarrow> quality_search n m (\<lambda>q. Inr (out q)) (mid + 1) high (out mid) = (r, ts')"
    "\<not> length (out mid) \<le> m \<Longrightarrow> quality_search n m (\<lambda>q. Inr (out q)) low (mid - 1)
       (out (if length (out k) > m \<and> length (out mid) < length (out k) then mid else k)) = (r, ts')"
proof -
  define mid where "mid = low + (high - low) div 2"
  have "low \<le> mid" "mid \<le> high" "mid \<noteq> 255" "mid \<noteq> 0"
    using assms(2-4) by (auto simp: mid_def)
  moreover from this obtain ts' where "ts = mid # ts'"
      "length (out mid) \<le> m \<Longrightarrow> quality_search n m (\<lambda>q. Inr (out q)) (mid + 1) high (out mid) = (r, ts')"
      "\<not> length (out mid) \<le> m \<Longrightarrow> quality_search n m (\<lambda>q. Inr (out q)) low (mid - 1)
       (out (if length (out k) > m \<and> length (out mid) < length (out k) then mid else k)) = (r, ts')"
    using assms(1,3) by (cases ts) (auto simp: mid_def [symmetric] Let_def split: prod.splits if_splits)
  ultimately show thesis
    using that mid_def by blast
qed

lemma quality_search_best:
  assumes "quality_search n m (\<lambda>q. Inr (out q)) low high (out k) = (r, ts)" "1 \<le> low" "high < 255"
    and "best_attempt m out T k" "length (out k) \<le> m \<longrightarrow> k < low"
  shows "(\<exists>k'. r = Inr (out k') \<and> best_attempt m out (T \<union> set ts) k')
    \<and> length ts \<le> n \<and> distinct ts \<and> set ts \<subseteq> {low..high}"
  using assms
proof (induction n arbitrary: low high k T r ts)
  case (Suc n)
  show ?case
  proof (cases "low \<le> high")
    case False
    then show ?thesis
      using Suc.prems by auto
  next
    case True
    from quality_search_step [OF Suc.prems(1,2) True Suc.prems(3)]
    obtain mid ts' where mid: "low \<le> mid" "mid \<le> high" "ts = mid # ts'"
      and hit: "length (out mid) \<le> m \<Longrightarrow> quality_search n m (\<lambda>q. Inr (out q)) (mid + 1) high (out mid) = (r, ts')"
      and miss: "\<not> length (out mid) \<le> m \<Longrightarrow> quality_search n m (\<lambda>q. Inr (out q)) low (mid - 1)
       (out (if length (out k) > m \<and> length (out mid) < length (out k) then mid else k)) = (r, ts')"
      by metis
    have un: "insert mid T \<union> set ts' = T \<union> set ts"
      using mid(3) by auto
    show ?thesis
    proof (cases "length (out mid) \<le> m")
      case fits: True
      have "best_attempt m out (insert mid T) mid"
        using Suc.prems(4,5) mid(1) fits by (intro best_attempt_fit [where k = k]) auto
      from Suc.IH [OF hit [OF fits] _ Suc.prems(3) this] mid show ?thesis
        unfolding un by fastforce
    next
      case over: False
      let ?k = "if length (out k) > m \<and> length (out mid) < length (out k) then mid else k"
      have b: "best_attempt m out (insert mid T) ?k"
        using Suc.prems(4) over by (rule best_attempt_miss)
      have "length (out ?k) \<le> m \<longrightarrow> ?k < low" "mid - 1 < 255"
        using Suc.prems(3,5) over mid(2) by auto
      from Suc.IH [OF miss [OF over] Suc.prems(2) this(2) b this(1)] mid Suc.prems(2) show ?thesis
        unfolding un by fastforce
    qed
  qed
qed auto

text \<open>The search runs into its lower end before it gives up, if the range is short enough.\<close>

lemma quality_search_reaches_low:
  assumes "quality_search n m (\<lambda>q. Inr (out q)) low high (out k) = (r, ts)" "1 \<le> low" "low \<le> high" "high < 255"
    and "high + 1 - low \<le> 2 ^ (n + 1) - 2" "\<forall>j\<in>set ts. \<not> length (out j) \<le> m"
  shows "low \<in> set ts"
  using assms
proof (induction n arbitrary: high k r ts)
  case (Suc n)
  from quality_search_step [OF Suc.prems(1-4)]
  obtain mid ts' where mid: "mid = low + (high - low) div 2" "low \<le> mid" "mid \<le> high" "ts = mid # ts'"
    and miss: "\<not> length (out mid) \<le> m \<Longrightarrow> quality_search n m (\<lambda>q. Inr (out q)) low (mid - 1)
       (out (if length (out k) > m \<and> length (out mid) < length (out k) then mid else k)) = (r, ts')"
    by metis
  show ?case
  proof (cases "mid = low")
    case False
    have "mid - 1 + 1 - low \<le> 2 ^ (n + 1) - 2"
      using Suc.prems(3,5) mid(1,2) False by (simp add: mid(1))
    moreover have "\<not> length (out mid) \<le> m" "\<forall>j\<in>set ts'. \<not> length (out j) \<le> m" "low \<le> mid - 1" "mid - 1 < 255"
      using Suc.prems(4,6) mid False by auto
    ultimately have "low \<in> set ts'"
      using Suc.IH [OF miss Suc.prems(2)] by blast
    then show ?thesis
      using mid(4) by simp
  qed (simp add: mid(4))
qed simp

text \<open>When sizes grow with quality, six halvings decide a range of sixty-three qualities.\<close>

lemma quality_search_optimal:
  assumes "quality_search n m (\<lambda>q. Inr (out q)) low high (out k) = (r, ts)" "1 \<le> low" "high < 255"
    and "high + 1 - low \<le> 2 ^ n - 1" "\<And>i j. i \<le> j \<Longrightarrow> length (out i) \<le> length (out j)"
    and "low \<le> q" "q \<le> high" "length (out q) \<le> m"
  shows "\<exists>j\<in>set ts. q \<le> j \<and> length (out j) \<le> m"
  using assms
proof (induction n arbitrary: low high k r ts)
  case (Suc n)
  have "low \<le> high"
    using Suc.prems(6,7) by simp
  from quality_search_step [OF Suc.prems(1,2) this Suc.prems(3)]
  obtain mid ts' where mid: "mid = low + (high - low) div 2" "low \<le> mid" "mid \<le> high" "ts = mid # ts'"
    and hit: "length (out mid) \<le> m \<Longrightarrow> quality_search n m (\<lambda>q. Inr (out q)) (mid + 1) high (out mid) = (r, ts')"
    and miss: "\<not> length (out mid) \<le> m \<Longrightarrow> quality_search n m (\<lambda>q. Inr (out q)) low (mid - 1)
       (out (if length (out k) > m \<and> length (out mid) < length (out k) then mid else k)) = (r, ts')"
    by metis
  show ?case
  proof (cases "length (out mid) \<le> m")
    case fits: True
    show ?thesis
    proof (cases "q \<le> mid")
      case False
      moreover have "high + 1 - (mid + 1) \<le> 2 ^ n - 1"
      proof -
        have up: "d - d div 2 \<le> p - 1" if "d + 1 \<le> 2 * p - 1" for d p :: nat
          using that by presburger
        have "high - low + 1 \<le> 2 * 2 ^ n - 1"
          using Suc.prems(4,6,7) by simp
        from up [OF this] show ?thesis
          using mid(1) by simp
      qed
      ultimately show ?thesis
        using Suc.IH [OF hit [OF fits] _ Suc.prems(3) _ Suc.prems(5) _ Suc.prems(7,8)] mid(4) by auto
    qed (use fits mid(4) in auto)
  next
    case over: False
    then have "q < mid"
      using Suc.prems(5) [of mid q] Suc.prems(8) by (meson le_trans not_le)
    moreover have "mid - 1 + 1 - low \<le> 2 ^ n - 1"
    proof -
      have down: "d div 2 \<le> p - 1" if "d + 1 \<le> 2 * p - 1" for d p :: nat
        using that by presburger
      have "high - low + 1 \<le> 2 * 2 ^ n - 1"
        using Suc.prems(4,6,7) by simp
      from down [OF this] show ?thesis
        using mid(1) Suc.prems(2) by simp
    qed
    moreover have "mid - 1 < 255"
      using Suc.prems(3) mid(3) by simp
    ultimately show ?thesis
      using Suc.IH [OF miss [OF over] Suc.prems(2) _ _ Suc.prems(5,6) _ Suc.prems(8)] mid(4) by auto
  qed
qed simp

text \<open>
  C37. The byte budget of a JPEG.  With a total encoder, the search calls it with at most
  seven qualities, the requested one first, all of them distinct and between 1 and the
  request; what it returns is one of these attempts: of those within the budget the one
  of highest quality, or the smallest of all when none is.  A budget that quality 1 meets
  is met for every request up to 127, which covers every quality that the options admit,
  whatever the sizes in between; and when sizes grow with quality, a request up to 64
  gets the highest quality that fits.
\<close>
theorem max_bytes_best_effort:
  fixes out :: "nat \<Rightarrow> string" and m q :: nat
  assumes "1 \<le> q" "q < 256" "encode_with_max_bytes m q (\<lambda>k. Inr (out k)) = (r, tried)"
  shows "length tried \<le> 7 \<and> hd tried = q \<and> distinct tried \<and> set tried \<subseteq> {1..q}
    \<and> (\<exists>k. r = Inr (out k) \<and> best_attempt m out (set tried) k
         \<and> (q \<le> 127 \<and> length (out 1) \<le> m \<longrightarrow> length (out k) \<le> m)
         \<and> (q \<le> 64 \<and> (\<forall>i j. i \<le> j \<longrightarrow> length (out i) \<le> length (out j))
            \<longrightarrow> (\<forall>j\<in>{1..q}. length (out j) \<le> m \<longrightarrow> j \<le> k)))"
proof (cases "length (out q) \<le> m \<or> q \<le> 1")
  case True
  then have "r = Inr (out q)" "tried = [q]"
    using assms(3) by (auto simp: encode_with_max_bytes_def)
  moreover have "best_attempt m out {q} q"
    by (simp add: best_attempt_def)
  ultimately show ?thesis
    using True assms(1) by (auto intro!: exI [of _ q])
next
  case False
  obtain ts where ts: "quality_search 6 m (\<lambda>k. Inr (out k)) 1 (q - 1) (out q) = (r, ts)" "tried = q # ts"
    using assms(3) False by (auto simp: encode_with_max_bytes_def max_bytes_search_attempts_def split: prod.splits)
  have q: "q - 1 < 255" "1 \<le> q - 1"
    using assms(1,2) False by auto
  have "best_attempt m out {q} q" "length (out q) \<le> m \<longrightarrow> q < 1"
    using False by (auto simp: best_attempt_def)
  from quality_search_best [OF ts(1) _ q(1) this]
  obtain k where k: "r = Inr (out k)" "best_attempt m out (set tried) k"
    and s: "length ts \<le> 6" "distinct ts" "set ts \<subseteq> {1..q - 1}"
    unfolding ts(2) by auto
  have low: "length (out k) \<le> m" if "q \<le> 127" "length (out 1) \<le> m"
  proof (rule ccontr)
    assume "\<not> length (out k) \<le> m"
    then have none: "\<forall>j\<in>set tried. \<not> length (out j) \<le> m"
      using k(2) by (auto simp: best_attempt_def split: if_splits)
    then have "1 \<in> set ts"
      using that(1) q by (intro quality_search_reaches_low [OF ts(1)]) (auto simp: ts(2))
    then show False
      using none that(2) by (auto simp: ts(2))
  qed
  have opt: "j \<le> k" if "q \<le> 64" "\<forall>i j. i \<le> j \<longrightarrow> length (out i) \<le> length (out j)" "j \<in> {1..q}" "length (out j) \<le> m" for j
  proof -
    note fit = that(4)
    have "j \<noteq> q"
      using False that(4) by auto
    then have "1 \<le> j" "j \<le> q - 1" "q - 1 + 1 - 1 \<le> 2 ^ 6 - 1" "\<And>i j. i \<le> j \<Longrightarrow> length (out i) \<le> length (out j)"
      using that q by auto
    then obtain i where "i \<in> set ts" "j \<le> i" "length (out i) \<le> m"
      using quality_search_optimal [OF ts(1) order_refl q(1), of j] fit by blast
    then show ?thesis
      using k(2) by (fastforce simp: best_attempt_def ts(2) split: if_splits)
  qed
  have "q \<notin> set ts"
    using s(3) assms(1) by auto
  moreover have "set tried \<subseteq> {1..q}"
    using subsetD [OF s(3)] assms(1) by (fastforce simp: ts(2))
  ultimately have "length tried \<le> 7 \<and> hd tried = q \<and> distinct tried \<and> set tried \<subseteq> {1..q}"
    using s(1,2) by (simp add: ts(2))
  then show ?thesis
    using k low opt by blast
qed

theorem max_bytes_best_effort_witness:
  "\<exists>r tried k. encode_with_max_bytes 30 60 (\<lambda>k. Inr (replicate k CHR ''x'')) = (r, tried)
     \<and> r = Inr (replicate k CHR ''x'') \<and> k = 30"
proof -
  obtain r tried where e: "encode_with_max_bytes 30 60 (\<lambda>k. Inr (replicate k CHR ''x'')) = (r, tried)"
    by fastforce
  then obtain k where k: "r = Inr (replicate k CHR ''x'')" "k \<le> 30" "30 \<le> k"
    using max_bytes_best_effort [of 60 30 "\<lambda>k. replicate k CHR ''x''" r tried] by auto
  then have "k = 30"
    by simp
  then show ?thesis
    using e k(1) by blast
qed

lemma encode_with_max_bytes_error:
  "encode_with_max_bytes m q enc = (Inl e, tried) \<Longrightarrow> enc (last tried) = Inl e"
proof -
  have s: "quality_search n m enc low high best = (Inl e, ts) \<Longrightarrow> ts \<noteq> [] \<and> enc (last ts) = Inl e" for n low high best ts
    by (induction n m enc low high best arbitrary: ts rule: quality_search.induct)
      (auto simp: Let_def split: if_splits prod.splits sum.splits)
  show "encode_with_max_bytes m q enc = (Inl e, tried) \<Longrightarrow> enc (last tried) = Inl e"
    using s by (fastforce simp: encode_with_max_bytes_def split: if_splits prod.splits sum.splits)
qed

section \<open>What an EXIF block says\<close>

definition field :: "string \<Rightarrow> nat \<Rightarrow> nat \<Rightarrow> string" where
  "field s a k = take k (drop a s)"

text \<open>IFD0 of a TIFF block, after TIFF 6.0: its byte order, where its entries start, how many they are.\<close>

definition exif_ifd0 :: "string \<Rightarrow> bool \<Rightarrow> nat \<Rightarrow> nat \<Rightarrow> bool" where
  "exif_ifd0 exif le start n \<longleftrightarrow> 8 \<le> length exif \<and> field exif 0 2 = (if le then ''II'' else ''MM'')
     \<and> read_uint_in le (field exif 2 2) = 42 \<and> start = read_uint_in le (field exif 4 4) + 2
     \<and> n = read_uint_in le (field exif (start - 2) 2) \<and> start + 12 * n \<le> length exif"

text \<open>The first orientation entry, and that its value is one short, stored at the given place.\<close>

definition orientation_at :: "string \<Rightarrow> bool \<Rightarrow> nat \<Rightarrow> bool" where
  "orientation_at exif le v \<longleftrightarrow> (\<exists>start n. exif_ifd0 exif le start n
     \<and> (\<exists>i<n. v = start + 12 * i + 8 \<and> read_uint_in le (field exif (start + 12 * i) 2) = 0x0112
          \<and> (\<forall>j<i. read_uint_in le (field exif (start + 12 * j) 2) \<noteq> 0x0112)
          \<and> read_uint_in le (field exif (start + 12 * i + 2) 2) = 3 \<and> read_uint_in le (field exif (start + 12 * i + 4) 4) = 1))"

definition upright :: "bool \<Rightarrow> string \<Rightarrow> nat \<Rightarrow> string" where
  "upright le exif v = take v exif @ (if le then to_le 2 1 else to_be 2 1) @ drop (v + 2) exif"

lemma get_range_field: "b = a + k \<Longrightarrow> b \<le> length s \<Longrightarrow> get_range s a b = Some (field s a k)"
  by (simp add: get_range_def field_def)

lemma patch_orientation_iff:
  assumes "s + 12 * n \<le> length exif"
  shows "patch_orientation le exif s n = Some p \<longleftrightarrow>
    (\<exists>i<n. read_uint_in le (field exif (s + 12 * i) 2) = 0x0112 \<and> (\<forall>j<i. read_uint_in le (field exif (s + 12 * j) 2) \<noteq> 0x0112)
       \<and> read_uint_in le (field exif (s + 12 * i + 2) 2) = 3 \<and> read_uint_in le (field exif (s + 12 * i + 4) 4) = 1
       \<and> p = upright le exif (s + 12 * i + 8))"
  using assms
proof (induction n arbitrary: s)
  case (Suc n)
  have g: "get_range exif s (s + 2) = Some (field exif s 2)" "get_range exif (s + 2) (s + 4) = Some (field exif (s + 2) 2)"
      "get_range exif (s + 4) (s + 8) = Some (field exif (s + 4) 4)"
    using Suc.prems by (intro get_range_field; simp)+
  have step: "patch_orientation le exif s (Suc n) =
      (if read_uint_in le (field exif s 2) \<noteq> 0x0112 then patch_orientation le exif (s + 12) n
       else if read_uint_in le (field exif (s + 2) 2) \<noteq> 3 \<or> read_uint_in le (field exif (s + 4) 4) \<noteq> 1 then None
       else Some (upright le exif (s + 8)))"
    by (simp only: patch_orientation.simps g Option.bind.simps upright_def Let_def add.assoc)
  show ?case
  proof (cases "read_uint_in le (field exif s 2) = 0x0112")
    case True
    then have "patch_orientation le exif s (Suc n) = Some p \<longleftrightarrow>
        read_uint_in le (field exif (s + 2) 2) = 3 \<and> read_uint_in le (field exif (s + 4) 4) = 1 \<and> p = upright le exif (s + 8)"
      unfolding step by auto
    also have "\<dots> \<longleftrightarrow> (\<exists>i<Suc n. read_uint_in le (field exif (s + 12 * i) 2) = 0x0112
       \<and> (\<forall>j<i. read_uint_in le (field exif (s + 12 * j) 2) \<noteq> 0x0112)
       \<and> read_uint_in le (field exif (s + 12 * i + 2) 2) = 3 \<and> read_uint_in le (field exif (s + 12 * i + 4) 4) = 1
       \<and> p = upright le exif (s + 12 * i + 8))"
    proof -
      have "i = 0" if "\<forall>j<i. read_uint_in le (field exif (s + 12 * j) 2) \<noteq> 0x0112" for i
        using that True by (cases i) auto
      then show ?thesis
        using True by (intro iffI) (force, metis add_0_right mult_0_right)
    qed
    finally show ?thesis .
  next
    case False
    then have "patch_orientation le exif s (Suc n) = patch_orientation le exif (s + 12) n"
      unfolding step by simp
    moreover have "s + 12 + 12 * n \<le> length exif"
      using Suc.prems by simp
    moreover have "s + 12 + 12 * i = s + 12 * Suc i" for i
      by simp
    ultimately show ?thesis
      using False by (simp only: Suc.IH) (subst Ex_less_Suc2, simp add: All_less_Suc2)
  qed
qed simp

lemma read_uint_in_bound: "length b = k \<Longrightarrow> read_uint_in le b < 256 ^ k"
  using be_val_bound [of b] be_val_bound [of "rev b"] by (auto simp: read_uint_in_def le_val_def)

lemma length_field: "a + k \<le> length s \<Longrightarrow> length (field s a k) = k"
  by (simp add: field_def)

lemma neutralize_iff:
  "neutralize_exif_orientation exif = Some p \<longleftrightarrow>
     (\<exists>le start n. exif_ifd0 exif le start n \<and> patch_orientation le exif start n = Some p)"
proof (cases "8 \<le> length exif")
  case False
  then have "neutralize_exif_orientation exif = None"
    by (cases "2 \<le> length exif"; cases "4 \<le> length exif")
      (auto simp: neutralize_exif_orientation_def get_range_def Let_def split: bind_splits if_splits)
  then show ?thesis
    using False by (auto simp: exif_ifd0_def)
next
  case True
  have g: "get_range exif 0 2 = Some (field exif 0 2)" "get_range exif 2 4 = Some (field exif 2 2)"
      "get_range exif 4 8 = Some (field exif 4 4)"
    using True by (intro get_range_field; simp)+
  define walk where "walk = (\<lambda>le. if read_uint_in le (field exif 2 2) \<noteq> 42 then None else do {
      entries_start \<leftarrow> checked_add (read_uint_in le (field exif 4 4)) 2;
      counted \<leftarrow> get_range exif (read_uint_in le (field exif 4 4)) entries_start;
      entries_len \<leftarrow> checked_mul (read_uint_in le counted) 12;
      entries_end \<leftarrow> checked_add entries_start entries_len;
      if entries_end > length exif then None else patch_orientation le exif entries_start (read_uint_in le counted) })"
  have "neutralize_exif_orientation exif =
      (if field exif 0 2 = ''II'' then walk True else if field exif 0 2 = ''MM'' then walk False else None)"
    by (simp add: neutralize_exif_orientation_def g walk_def Let_def)
  moreover have "walk le = Some p \<longleftrightarrow> (\<exists>start n. read_uint_in le (field exif 2 2) = 42 \<and> start = read_uint_in le (field exif 4 4) + 2
     \<and> n = read_uint_in le (field exif (start - 2) 2) \<and> start + 12 * n \<le> length exif \<and> patch_orientation le exif start n = Some p)" for le
  proof -
    define off where "off = read_uint_in le (field exif 4 4)"
    have "length (field exif 4 4) = 4"
      using True by (intro length_field) simp
    from read_uint_in_bound [OF this, of le] have off: "off < 2 ^ 32"
      by (simp add: off_def)
    show ?thesis
    proof (cases "off + 2 \<le> length exif")
      case in_file: True
      then have c: "get_range exif off (off + 2) = Some (field exif off 2)" "length (field exif off 2) = 2"
        by (simp_all add: get_range_field length_field)
      from read_uint_in_bound [OF c(2), of le] have "read_uint_in le (field exif off 2) < 65536"
        by simp
      then have "checked_mul (read_uint_in le (field exif off 2)) 12 = Some (read_uint_in le (field exif off 2) * 12)"
          "checked_add (off + 2) (read_uint_in le (field exif off 2) * 12) = Some (off + 2 + read_uint_in le (field exif off 2) * 12)"
        using off by (simp_all only: checked_mul_def checked_add_def) (simp_all split: if_splits)
      moreover have "checked_add off 2 = Some (off + 2)"
        using off by (simp add: checked_add_def)
      ultimately show ?thesis
        unfolding walk_def off_def [symmetric] by (simp add: c(1) not_less mult.commute del: add_2_eq_Suc')
    next
      case out: False
      then have "get_range exif off (off + 2) = None"
        by (simp add: get_range_def)
      moreover have "checked_add off 2 = Some (off + 2)"
        using off by (simp add: checked_add_def)
      ultimately show ?thesis
        unfolding walk_def off_def [symmetric] using out by auto
    qed
  qed
  ultimately show ?thesis
    using True by (auto simp: exif_ifd0_def)
qed

lemma neutralize_orientation_at:
  "neutralize_exif_orientation exif = Some p \<longleftrightarrow> (\<exists>le v. orientation_at exif le v \<and> p = upright le exif v)"
proof -
  have "exif_ifd0 exif le start n \<and> patch_orientation le exif start n = Some p \<longleftrightarrow> exif_ifd0 exif le start n \<and>
    (\<exists>i<n. read_uint_in le (field exif (start + 12 * i) 2) = 0x0112 \<and> (\<forall>j<i. read_uint_in le (field exif (start + 12 * j) 2) \<noteq> 0x0112)
       \<and> read_uint_in le (field exif (start + 12 * i + 2) 2) = 3 \<and> read_uint_in le (field exif (start + 12 * i + 4) 4) = 1
       \<and> p = upright le exif (start + 12 * i + 8))" for le start n
    by (rule conj_cong [OF refl], rule patch_orientation_iff) (unfold exif_ifd0_def, blast)
  then show ?thesis
    unfolding neutralize_iff orientation_at_def by (simp only:) blast
qed

lemma length_upright: "v + 2 \<le> length exif \<Longrightarrow> length (upright le exif v) = length exif"
  by (simp add: upright_def)

lemma field_upright:
  assumes "v + 2 \<le> length exif" "a + k \<le> v"
  shows "field (upright le exif v) a k = field exif a k"
  using assms by (simp add: field_def upright_def min_def) (auto simp: drop_take min_def)

lemma field_upright_value:
  assumes "v + 2 \<le> length exif"
  shows "read_uint_in le (field (upright le exif v) v 2) = 1"
proof -
  have "field (upright le exif v) v 2 = (if le then to_le 2 1 else to_be 2 1)"
    using assms by (auto simp: field_def upright_def)
  then show ?thesis
    by (simp add: read_uint_in_def)
qed

lemma nth_upright:
  assumes "v + 2 \<le> length exif" "k \<noteq> v" "k \<noteq> v + 1" "k < length exif"
  shows "upright le exif v ! k = exif ! k"
proof (cases "k < v")
  case False
  then obtain d where "k = v + 2 + d"
    using assms(2,3) by (metis add.assoc le_add_diff_inverse less_2_cases nat_less_le not_less add_2_eq_Suc' Suc_eq_plus1 less_Suc_eq linorder_not_le le_Suc_ex)
  then show ?thesis
    using assms by (simp add: upright_def nth_append)
qed (use assms in \<open>simp add: upright_def nth_append\<close>)

lemma upright_twice: "v + 2 \<le> length exif \<Longrightarrow> upright le (upright le exif v) v = upright le exif v"
  by (simp add: upright_def)

lemma orientation_at_bound: "orientation_at exif le v \<Longrightarrow> v + 2 \<le> length exif"
  by (auto simp: orientation_at_def exif_ifd0_def)

lemma exif_ifd0_upright:
  assumes "exif_ifd0 exif le start n" "v + 2 \<le> length exif" "start \<le> v" "8 \<le> v"
  shows "exif_ifd0 (upright le exif v) le start n"
proof -
  have f: "field (upright le exif v) 0 2 = field exif 0 2" "field (upright le exif v) 2 2 = field exif 2 2"
      "field (upright le exif v) 4 4 = field exif 4 4" "field (upright le exif v) (start - 2) 2 = field exif (start - 2) 2"
    using assms by (intro field_upright; auto simp: exif_ifd0_def)+
  then show ?thesis
    using assms(1) unfolding exif_ifd0_def f length_upright [OF assms(2)] by blast
qed

lemma orientation_at_upright:
  assumes "orientation_at exif le v"
  shows "orientation_at (upright le exif v) le v"
proof -
  obtain start n i where o: "exif_ifd0 exif le start n" "i < n" "v = start + 12 * i + 8"
      "read_uint_in le (field exif (start + 12 * i) 2) = 0x0112" "\<forall>j<i. read_uint_in le (field exif (start + 12 * j) 2) \<noteq> 0x0112"
      "read_uint_in le (field exif (start + 12 * i + 2) 2) = 3" "read_uint_in le (field exif (start + 12 * i + 4) 4) = 1"
    using assms unfolding orientation_at_def by blast
  note v = orientation_at_bound [OF assms]
  have "exif_ifd0 (upright le exif v) le start n"
    using o(1,3) v by (intro exif_ifd0_upright) simp_all
  moreover have "field (upright le exif v) (start + 12 * j) 2 = field exif (start + 12 * j) 2" if "j \<le> i" for j
    using v o(3) that by (intro field_upright) simp_all
  moreover have "field (upright le exif v) (start + 12 * i + 2) 2 = field exif (start + 12 * i + 2) 2"
      "field (upright le exif v) (start + 12 * i + 4) 4 = field exif (start + 12 * i + 4) 4"
    using v o(3) by (intro field_upright; simp)+
  ultimately show ?thesis
    unfolding orientation_at_def using o(2-7) by (intro exI [of _ start] exI [of _ n] conjI exI [of _ i]) simp_all
qed

lemma orientation_at_unique:
  assumes "orientation_at exif le v" "orientation_at exif le' v'"
  shows "le = le'" "v = v'"
proof -
  obtain start n i where o: "exif_ifd0 exif le start n" "v = start + 12 * i + 8"
      "read_uint_in le (field exif (start + 12 * i) 2) = 0x0112" "\<forall>j<i. read_uint_in le (field exif (start + 12 * j) 2) \<noteq> 0x0112"
    using assms(1) unfolding orientation_at_def by blast
  obtain start' n' i' where o': "exif_ifd0 exif le' start' n'" "v' = start' + 12 * i' + 8"
      "read_uint_in le' (field exif (start' + 12 * i') 2) = 0x0112" "\<forall>j<i'. read_uint_in le' (field exif (start' + 12 * j) 2) \<noteq> 0x0112"
    using assms(2) unfolding orientation_at_def by blast
  show le: "le = le'"
    using o(1) o'(1) by (auto simp: exif_ifd0_def split: if_splits)
  have "start = start'"
    using o(1) o'(1) by (simp add: exif_ifd0_def le)
  moreover have "i = i'"
    using o(3,4) o'(3,4) unfolding le calculation by (metis nat_neq_iff)
  ultimately show "v = v'"
    by (simp add: o(2) o'(2))
qed

text \<open>
  C38. Rewriting the EXIF orientation.  The rewriting succeeds exactly when IFD0 of the
  block, in either byte order, has a first orientation entry that holds one short; the
  result then has the same length, still has its orientation entry there, that entry
  says 1 (upright), no other byte differs, and rewriting again changes nothing.
  Otherwise nothing is returned, and the caller drops the block: no block with a stale
  orientation is ever forwarded.
\<close>
theorem exif_orientation_neutralized:
  "((\<exists>p. neutralize_exif_orientation exif = Some p) \<longleftrightarrow> (\<exists>le v. orientation_at exif le v))
   \<and> (\<forall>p. neutralize_exif_orientation exif = Some p \<longrightarrow>
        (\<exists>le v. orientation_at exif le v \<and> orientation_at p le v \<and> read_uint_in le (field p v 2) = 1
           \<and> length p = length exif \<and> (\<forall>k<length exif. k \<noteq> v \<and> k \<noteq> v + 1 \<longrightarrow> p ! k = exif ! k))
        \<and> neutralize_exif_orientation p = Some p)"
proof (intro conjI allI impI)
  show "(\<exists>p. neutralize_exif_orientation exif = Some p) \<longleftrightarrow> (\<exists>le v. orientation_at exif le v)"
    unfolding neutralize_orientation_at by blast
  fix p assume "neutralize_exif_orientation exif = Some p"
  then obtain le v where o: "orientation_at exif le v" "p = upright le exif v"
    unfolding neutralize_orientation_at by blast
  note v = orientation_at_bound [OF o(1)]
  show "\<exists>le v. orientation_at exif le v \<and> orientation_at p le v \<and> read_uint_in le (field p v 2) = 1
           \<and> length p = length exif \<and> (\<forall>k<length exif. k \<noteq> v \<and> k \<noteq> v + 1 \<longrightarrow> p ! k = exif ! k)"
    using o orientation_at_upright [OF o(1)] field_upright_value [OF v] length_upright [OF v] nth_upright [OF v] by metis
  show "neutralize_exif_orientation p = Some p"
    unfolding neutralize_orientation_at o(2) using orientation_at_upright [OF o(1)] upright_twice [OF v] by metis
qed

text \<open>A little-endian block with one entry, turned by 90 degrees.\<close>

definition turned_exif :: string where
  "turned_exif = ''II'' @ to_le 2 42 @ to_le 4 8 @ to_le 2 1 @ to_le 2 0x0112 @ to_le 2 3 @ to_le 4 1 @ to_le 4 6"

theorem exif_orientation_neutralized_witness:
  "\<exists>p. neutralize_exif_orientation turned_exif = Some p \<and> length p = length turned_exif \<and> neutralize_exif_orientation p = Some p"
proof -
  have "neutralize_exif_orientation turned_exif \<noteq> None"
    by code_simp
  then show ?thesis
    using exif_orientation_neutralized [of turned_exif] by auto
qed

section \<open>Chunks read back\<close>

text \<open>A reader of RIFF chunks, after the RIFF specification: each is padded to an even length.\<close>

function riff_chunks :: "string \<Rightarrow> (string \<times> string) list option" where
  "riff_chunks s =
     (if s = [] then Some []
      else if length s < 8 then None
      else
        (let n = le_val (take 4 (drop 4 s)); total = 8 + n + n mod 2 in
         if length s < total then None
         else map_option (\<lambda>cs. (take 4 s, take n (drop 8 s)) # cs) (riff_chunks (drop total s))))"
  by pat_completeness auto
termination
  by (relation "measure length") (auto simp: Let_def)

declare riff_chunks.simps [simp del]

lemma riff_chunks_Nil [simp]: "riff_chunks [] = Some []"
  by (simp add: riff_chunks.simps)

lemma riff_chunks_write:
  assumes "length fourcc = 4" "length payload < 2 ^ 32"
  shows "riff_chunks (write_riff_chunk fourcc payload @ rest) = map_option (Cons (fourcc, payload)) (riff_chunks rest)"
proof -
  let ?pad = "if length payload mod 2 = 1 then [char_of (0 :: nat)] else []"
  define S where "S = write_riff_chunk fourcc payload @ rest"
  have pad: "length ?pad = length payload mod 2"
    by (cases "even (length payload)") (simp_all add: even_iff_mod_2_eq_zero odd_iff_mod_2_eq_one)
  have S: "S = fourcc @ to_le 4 (length payload) @ payload @ ?pad @ rest"
    by (simp add: S_def write_riff_chunk_def)
  have n: "le_val (take 4 (drop 4 S)) = length payload"
    unfolding S using assms by simp
  have l: "length S = 8 + length payload + length payload mod 2 + length rest"
    unfolding S using assms(1) by (simp add: pad)
  have d: "drop (8 + length payload + length payload mod 2) S = rest"
    unfolding S using assms(1) pad by simp
  have p: "take (length payload) (drop 8 S) = payload" "take 4 S = fourcc"
    unfolding S using assms(1) by simp_all
  have "S \<noteq> []" "\<not> length S < 8"
    using l by auto
  then show ?thesis
    unfolding S_def [symmetric] riff_chunks.simps [of S] by (simp add: n d p l Let_def)
qed

lemma riff_chunks_writes:
  assumes "\<forall>(f, p) \<in> set cs. length f = 4 \<and> length p < 2 ^ 32"
  shows "riff_chunks (concat (map (\<lambda>(f, p). write_riff_chunk f p) cs)) = Some cs"
  using assms by (induction cs) (auto simp: riff_chunks_write)

lemma even_write_riff_chunk: "length f = 4 \<Longrightarrow> even (length (write_riff_chunk f p))"
  by (auto simp: write_riff_chunk_def)

lemma drop_to_be: "drop 1 (to_be (Suc k) v) = to_be k v"
proof (induction k arbitrary: v)
  case (Suc k)
  then have "drop 1 (to_be (Suc k) (v div 256)) = to_be k (v div 256)"
    by simp
  moreover have "to_be (Suc k) (v div 256) \<noteq> []"
    by simp
  ultimately show ?case
    by (metis Suc_leI drop_append length_greater_0_conv list.size(3) append_Nil2 diff_is_0_eq drop0 to_be.simps(2) One_nat_def)
qed simp

lemma u24_value: "v < 2 ^ 24 \<Longrightarrow> le_val (u24 v) = v"
proof -
  assume v: "v < 2 ^ 24"
  have "u24 v = rev (drop 1 (to_be 4 v))"
    by (simp add: u24_def to_le_def take_rev)
  also have "drop 1 (to_be 4 v) = to_be 3 v"
    using drop_to_be [of 3 v] by simp
  finally show ?thesis
    using v by (simp add: le_val_def)
qed

lemma length_u24 [simp]: "length (u24 v) = 3"
  by (simp add: u24_def)

text \<open>What a frame header says: the size of the canvas, the duration, and "do not blend, do not dispose".\<close>

lemma anmf_payload_fields:
  assumes "w < 2 ^ 24" "h < 2 ^ 24"
  shows "le_val (take 3 (drop 6 (anmf_payload w h ms inner))) = w" "le_val (take 3 (drop 9 (anmf_payload w h ms inner))) = h"
    and "le_val (take 3 (drop 12 (anmf_payload w h ms inner))) = min ms (2 ^ 24 - 1)"
    and "byte (anmf_payload w h ms inner ! 15) = 2" "drop 16 (anmf_payload w h ms inner) = inner"
  using assms by (simp_all add: anmf_payload_def u24_value nth_append)

lemma anmf_chunks_spec:
  assumes "anmf_chunks encode W H w h fs = Inr cs"
  shows "length cs = length fs \<and> (\<forall>i<length fs. ra_width (fst (fs ! i)) = W \<and> ra_height (fst (fs ! i)) = H
    \<and> (\<exists>webp. encode (fst (fs ! i)) = Inr webp \<and> 12 \<le> length webp
        \<and> cs ! i = write_riff_chunk ''ANMF'' (anmf_payload w h (snd (fs ! i)) (drop 12 webp))))"
  using assms
proof (induction fs arbitrary: cs)
  case (Cons f fs)
  obtain buffer ms where f: "f = (buffer, ms)"
    by fastforce
  obtain webp cs' where c: "ra_width buffer = W" "ra_height buffer = H" "encode buffer = Inr webp" "12 \<le> length webp"
      "anmf_chunks encode W H w h fs = Inr cs'" "cs = write_riff_chunk ''ANMF'' (anmf_payload w h ms (drop 12 webp)) # cs'"
    using Cons.prems by (auto simp: f get_from_def bindr_Inr_iff map_err_Inr_iff split: if_splits)
  from Cons.IH [OF c(5)] show ?case
    using c by (auto simp: f All_less_Suc2)
qed simp

lemma minus_1_in_24_bits_Inr_iff: "minus_1_in_24_bits side msg = Inr v \<longleftrightarrow> 1 \<le> side \<and> side - 1 < 2 ^ 24 \<and> v = side - 1"
  by (auto simp: minus_1_in_24_bits_def)

text \<open>
  C39. The animated WebP container.  When frames are encoded, the output is a RIFF file
  whose size field is right and whose chunks, read back after the specification, are the
  VP8X header, the ANIM header, and one ANMF for each frame in order: with the size of
  the canvas, the frame's delay (at most 24 bits of milliseconds), the flags of a full,
  non-blending frame, and exactly the bitstream of the encoder's output for its pixels.
  Every frame has the first one's size, and the file is recognised as WebP.
\<close>
theorem animated_webp_reads_back:
  assumes "encode_animated_webp encode frames = Inr (out, content_type)" "length out < 2 ^ 32"
  shows "content_type = ''image/webp'' \<and> detect_format_from_bytes out = Some FmtWebP
    \<and> take 4 out = ''RIFF'' \<and> le_val (take 4 (drop 4 out)) = length out - 8 \<and> even (length out)
    \<and> (\<exists>W H webps. length webps = length frames \<and> 1 \<le> W \<and> W \<le> 2 ^ 24 \<and> 1 \<le> H \<and> H \<le> 2 ^ 24
        \<and> (\<forall>i<length frames. dimensions (fr_buffer (frames ! i)) = (W, H)
              \<and> encode (fr_buffer (frames ! i)) = Inr (webps ! i) \<and> 12 \<le> length (webps ! i))
        \<and> riff_chunks (drop 12 out) = Some ((''VP8X'', vp8x_payload (W - 1) (H - 1)) # (''ANIM'', anim_payload)
            # map (\<lambda>i. (''ANMF'', anmf_payload (W - 1) (H - 1) (delay_ms (frames ! i)) (drop 12 (webps ! i)))) [0..<length frames]))"
proof -
  define fs where "fs = zip (map fr_buffer frames) (map delay_ms frames)"
  have fs: "length fs = length frames" "i < length frames \<Longrightarrow> fs ! i = (fr_buffer (frames ! i), delay_ms (frames ! i))" for i
    by (simp_all add: fs_def)
  obtain W H cs body where e: "1 \<le> W" "W - 1 < 2 ^ 24" "1 \<le> H" "H - 1 < 2 ^ 24" "anmf_chunks encode W H (W - 1) (H - 1) fs = Inr cs"
      "content_type = ''image/webp''"
    and out0: "out = ''RIFF'' @ to_le 4 (length body) @ body"
    and body0: "body = ''WEBP'' @ write_riff_chunk ''VP8X'' (vp8x_payload (W - 1) (H - 1))
       @ write_riff_chunk ''ANIM'' anim_payload @ concat cs"
  proof -
    obtain first rest where first: "map fr_buffer frames = first # rest"
      using assms(1) by (cases "map fr_buffer frames") (simp_all add: encode_animated_webp_def)
    note enc = assms(1) [unfolded encode_animated_webp_def fs_def [symmetric], unfolded first list.case bindr_Inr_iff Let_def]
    show thesis
      using enc that [of "ra_width first" "ra_height first", OF _ _ _ _ _ _ _ refl] unfolding minus_1_in_24_bits_Inr_iff by blast
  qed
  have "length body = length out - 8"
    unfolding out0 by simp
  then have out: "out = ''RIFF'' @ to_le 4 (length out - 8) @ ''WEBP'' @ write_riff_chunk ''VP8X'' (vp8x_payload (W - 1) (H - 1))
       @ write_riff_chunk ''ANIM'' anim_payload @ concat cs"
    using out0 body0 by (simp only:)
  note spec = anmf_chunks_spec [OF e(5)]
  have "\<exists>webp. encode (fr_buffer (frames ! i)) = Inr webp \<and> 12 \<le> length webp
      \<and> cs ! i = write_riff_chunk ''ANMF'' (anmf_payload (W - 1) (H - 1) (delay_ms (frames ! i)) (drop 12 webp))"
    if "i < length frames" for i
    using spec that fs by simp
  then obtain g where g: "\<forall>i<length frames. encode (fr_buffer (frames ! i)) = Inr (g i) \<and> 12 \<le> length (g i)
      \<and> cs ! i = write_riff_chunk ''ANMF'' (anmf_payload (W - 1) (H - 1) (delay_ms (frames ! i)) (drop 12 (g i)))"
    by metis
  define webps where "webps = map g [0..<length frames]"
  define all where "all = (''VP8X'', vp8x_payload (W - 1) (H - 1)) # (''ANIM'', anim_payload)
            # map (\<lambda>i. (''ANMF'', anmf_payload (W - 1) (H - 1) (delay_ms (frames ! i)) (drop 12 (webps ! i)))) [0..<length frames]"
  have cs: "cs = map (\<lambda>(f, p). write_riff_chunk f p)
      (map (\<lambda>i. (''ANMF'', anmf_payload (W - 1) (H - 1) (delay_ms (frames ! i)) (drop 12 (webps ! i)))) [0..<length frames])"
    using g spec fs(1) by (auto simp: webps_def intro!: nth_equalityI)
  have body: "drop 12 out = concat (map (\<lambda>(f, p). write_riff_chunk f p) all)"
    by (subst out) (simp add: all_def cs)
  have small: "length p < 2 ^ 32" if "(f, p) \<in> set all" for f p
  proof -
    have "length (write_riff_chunk f p) \<le> length (concat (map (\<lambda>(f, p). write_riff_chunk f p) all))"
      using that by (induction all) auto
    then show ?thesis
      using assms(2) unfolding body [symmetric] by (simp add: write_riff_chunk_def)
  qed
  have "riff_chunks (drop 12 out) = Some all"
    unfolding body using small by (intro riff_chunks_writes) (auto simp: all_def)
  moreover have "even (length (drop 12 out))"
  proof -
    have ev: "even (length (concat (map (\<lambda>(f, p). write_riff_chunk f p) xs)))" if "\<forall>(f, p) \<in> set xs. length f = 4" for xs
      using that even_write_riff_chunk by (induction xs) auto
    show ?thesis
      unfolding body by (intro ev) (auto simp: all_def)
  qed
  moreover have len: "12 \<le> length out"
    by (subst out) simp
  ultimately have r: "riff_chunks (drop 12 out) = Some all" "even (length out)"
    by simp_all
  have t: "take 4 out = ''RIFF''" "take 4 (drop 8 out) = ''WEBP''" "le_val (take 4 (drop 4 out)) = length out - 8"
    using assms(2) by (subst out, simp)+
  have "map byte (take 3 out) = [82, 73, 70]"
    by (subst out) simp
  then have "detect_format_from_bytes out = Some FmtWebP"
    using t(1,2) len by (simp add: detect_format_from_bytes_def)
  moreover have "\<forall>i<length frames. dimensions (fr_buffer (frames ! i)) = (W, H)
              \<and> encode (fr_buffer (frames ! i)) = Inr (webps ! i) \<and> 12 \<le> length (webps ! i)"
    using g spec fs by (simp add: dimensions_def webps_def)
  moreover have "length webps = length frames" "W \<le> 2 ^ 24" "H \<le> 2 ^ 24"
    using e by (simp_all add: webps_def)
  ultimately show ?thesis
    using r t e(1,3,6) unfolding all_def by blast
qed

text \<open>Two frames of a codec that writes an empty bitstream.\<close>

definition demo_frame_encoder :: "rgba raster \<Rightarrow> (any_error, string) result" where
  "demo_frame_encoder img = Inr (''RIFF'' @ to_le 4 12 @ ''WEBP'' @ write_riff_chunk ''VP8L'' [])"

definition demo_frames :: "frame list" where
  "demo_frames = [\<lparr> fr_buffer = plain_raster 2 3 (1, 2, 3, 255), fr_delay = (40, 1) \<rparr>,
     \<lparr> fr_buffer = plain_raster 2 3 (4, 5, 6, 255), fr_delay = (100, 3) \<rparr>]"

theorem animated_webp_reads_back_witness:
  "\<exists>out ct cs. encode_animated_webp demo_frame_encoder demo_frames = Inr (out, ct)
     \<and> riff_chunks (drop 12 out) = Some cs \<and> map fst cs = [''VP8X'', ''ANIM'', ''ANMF'', ''ANMF'']"
proof -
  have "case encode_animated_webp demo_frame_encoder demo_frames of Inr (out, ct) \<Rightarrow> length out < 2 ^ 32 | Inl e \<Rightarrow> False"
    by (simp add: encode_animated_webp_def demo_frames_def demo_frame_encoder_def plain_raster_def minus_1_in_24_bits_def
        get_from_def write_riff_chunk_def anmf_payload_def vp8x_payload_def anim_payload_def Let_def)
  then obtain out ct where o: "encode_animated_webp demo_frame_encoder demo_frames = Inr (out, ct)" "length out < 2 ^ 32"
    by (auto split: sum.splits)
  have "length demo_frames = 2" "[0..<2] = [0, 1 :: nat]"
    by (simp_all add: demo_frames_def upt_rec)
  then show ?thesis
    using o(1) animated_webp_reads_back [OF o] by auto
qed

end
