(* ===== verification/Avif_Meta.thy ===== *)
theory Avif_Meta
  imports Byte_Order
begin

text \<open>
  The reader of AVIF metadata (\<^verbatim>\<open>src/src/services/image/avif_meta.rs\<close>): ISOBMFF
  boxes, the orientation that the \<^verbatim>\<open>irot\<close> and \<^verbatim>\<open>imir\<close> properties of the primary
  item compose to, and the EXIF item.  A closure that a Rust function calls on
  every box becomes a function on the state it captures, threaded through
  \<^verbatim>\<open>walk_boxes\<close> together with the shared budget.

  Shown: the composed orientation moves every point of the plane as the listed
  properties do one after the other; what the reader returns as EXIF is at most a
  mebibyte, starts with a TIFF marker and comes from the file; a container written
  by the layout of the two standards is read back exactly; and the reader's work
  on one \<^verbatim>\<open>iloc\<close> box is not bounded by the three caps alone.
\<close>

section \<open>Bounds\<close>

definition max_nesting_depth :: nat where
  "max_nesting_depth = 8"

definition max_boxes_visited :: nat where
  "max_boxes_visited = 4096"

definition max_exif_len :: nat where
  "max_exif_len = 1024 * 1024"

section \<open>The checked cursor\<close>

record cursor =
  cu_data :: string
  cu_pos :: nat

definition cursor_new :: "string \<Rightarrow> cursor" where
  "cursor_new data = \<lparr> cu_data = data, cu_pos = 0 \<rparr>"

definition remainder :: "cursor \<Rightarrow> string" where
  "remainder c = unwrap_or (get_from (cu_data c) (cu_pos c)) []"

definition read_bytes :: "nat \<Rightarrow> cursor \<Rightarrow> (string \<times> cursor) option" where
  "read_bytes n c =
     do {
       stop \<leftarrow> checked_add (cu_pos c) n;
       slice \<leftarrow> get_range (cu_data c) (cu_pos c) stop;
       Some (slice, c\<lparr>cu_pos := stop\<rparr>)
     }"

definition skip :: "nat \<Rightarrow> cursor \<Rightarrow> cursor option" where
  "skip n c = map_option snd (read_bytes n c)"

definition read_u8 :: "cursor \<Rightarrow> (nat \<times> cursor) option" where
  "read_u8 c = map_option (map_prod be_val id) (read_bytes 1 c)"

definition read_u16 :: "cursor \<Rightarrow> (nat \<times> cursor) option" where
  "read_u16 c = map_option (map_prod be_val id) (read_bytes 2 c)"

definition read_u32 :: "cursor \<Rightarrow> (nat \<times> cursor) option" where
  "read_u32 c = map_option (map_prod be_val id) (read_bytes 4 c)"

definition read_u64 :: "cursor \<Rightarrow> (nat \<times> cursor) option" where
  "read_u64 c = map_option (map_prod be_val id) (read_bytes 8 c)"

definition read_uint :: "nat \<Rightarrow> cursor \<Rightarrow> (nat \<times> cursor) option" where
  "read_uint width c =
     (if width = 0 then Some (0, c)
      else if width > 8 then None
      else map_option (map_prod be_val id) (read_bytes width c))"

section \<open>Boxes\<close>

definition read_box_header :: "string \<Rightarrow> (string \<times> nat \<times> nat) option" where
  "read_box_header data =
     do {
       (size32, c) \<leftarrow> read_u32 (cursor_new data);
       (box_type, c) \<leftarrow> read_bytes 4 c;
       (header_len, total_size) \<leftarrow>
         (if size32 = 1 then map_option (\<lambda>(largesize, _). (16, largesize)) (read_u64 c)
          else if size32 = 0 then Some (8, length data)
          else Some (8, size32));
       (if total_size < header_len \<or> total_size > length data then None
        else Some (box_type, header_len, total_size))
     }"

text \<open>The loop of \<^verbatim>\<open>walk_boxes\<close>; each round spends one of the budget.\<close>

fun walk_loop :: "(string \<Rightarrow> string \<Rightarrow> 's \<Rightarrow> 's) \<Rightarrow> nat \<Rightarrow> string \<Rightarrow> 's \<Rightarrow> 's \<times> nat" where
  "walk_loop visit 0 rest s = (s, 0)"
| "walk_loop visit (Suc budget) rest s =
     (if rest = [] then (s, Suc budget)
      else case read_box_header rest of
        None \<Rightarrow> (s, Suc budget)
      | Some (box_type, header_len, total_size) \<Rightarrow>
          (case get_range rest header_len total_size of
             None \<Rightarrow> (s, budget)
           | Some content \<Rightarrow>
               (case get_from rest total_size of
                  None \<Rightarrow> (visit box_type content s, budget)
                | Some next \<Rightarrow> walk_loop visit budget next (visit box_type content s))))"

definition walk_boxes :: "string \<Rightarrow> nat \<Rightarrow> nat \<Rightarrow> (string \<Rightarrow> string \<Rightarrow> 's \<Rightarrow> 's) \<Rightarrow> 's \<Rightarrow> 's \<times> nat" where
  "walk_boxes data depth budget visit s =
     (if depth > max_nesting_depth then (s, budget) else walk_loop visit budget data s)"

text \<open>\<^verbatim>\<open>x if found.is_none() => found = Some(x)\<close>: the first box of a type wins.\<close>

definition keep_first :: "'a option \<Rightarrow> 'a \<Rightarrow> 'a option" where
  "keep_first found x = (if found = None then Some x else found)"

definition find_first_box :: "string \<Rightarrow> nat \<Rightarrow> nat \<Rightarrow> string \<Rightarrow> string option \<times> nat" where
  "find_first_box data depth budget target =
     walk_boxes data depth budget
       (\<lambda>box_type content found. if box_type = target then keep_first found content else found) None"

section \<open>Orientation\<close>

text \<open>The eight variants of \<^verbatim>\<open>image::metadata::Orientation\<close>.\<close>

datatype orientation =
    NoTransforms | Rotate90 | Rotate180 | Rotate270
  | FlipHorizontal | FlipVertical | Rotate90FlipH | Rotate270FlipH

datatype transform_property = PropRotate nat | PropMirror nat

datatype transform = Rotation nat | Reflection nat

fun then_transform :: "transform \<Rightarrow> transform \<Rightarrow> transform" where
  "then_transform (Rotation a) (Rotation b) = Rotation ((a + b) mod 4)"
| "then_transform (Rotation a) (Reflection c) = Reflection ((c + 4 - a mod 4) mod 4)"
| "then_transform (Reflection c) (Rotation b) = Reflection ((c + b) mod 4)"
| "then_transform (Reflection c1) (Reflection c2) = Rotation ((c2 + 4 - c1 mod 4) mod 4)"

fun into_orientation :: "transform \<Rightarrow> orientation" where
  "into_orientation (Rotation n) =
     (if n = 0 then NoTransforms else if n = 1 then Rotate270 else if n = 2 then Rotate180
      else if n = 3 then Rotate90 else NoTransforms)"
| "into_orientation (Reflection n) =
     (if n = 0 then FlipVertical else if n = 1 then Rotate270FlipH else if n = 2 then FlipHorizontal
      else if n = 3 then Rotate90FlipH else NoTransforms)"

definition parse_primary_item_id :: "string \<Rightarrow> nat option" where
  "parse_primary_item_id pitm_content =
     do {
       (version, c) \<leftarrow> read_u8 (cursor_new pitm_content);
       c \<leftarrow> skip 3 c;
       (if version = 0 then map_option fst (read_u16 c) else map_option fst (read_u32 c))
     }"

definition push_property :: "string \<Rightarrow> string \<Rightarrow> nat \<Rightarrow> (nat \<times> transform_property) list \<Rightarrow> (nat \<times> transform_property) list" where
  "push_property box_type content index properties =
     (case content of
        [] \<Rightarrow> properties
      | b # _ \<Rightarrow>
          if box_type = ''irot'' then properties @ [(index, PropRotate (byte b mod 4))]
          else if box_type = ''imir'' then properties @ [(index, PropMirror (byte b mod 2))]
          else properties)"

fun collect_loop ::
  "nat \<Rightarrow> string \<Rightarrow> nat \<Rightarrow> (nat \<times> transform_property) list \<Rightarrow> (nat \<times> transform_property) list \<times> nat" where
  "collect_loop 0 rest index properties = (properties, 0)"
| "collect_loop (Suc budget) rest index properties =
     (if rest = [] then (properties, Suc budget)
      else case read_box_header rest of
        None \<Rightarrow> (properties, Suc budget)
      | Some (box_type, header_len, total_size) \<Rightarrow>
          if index + 1 \<ge> 2 ^ 32 then (properties, budget)
          else
            (case get_range rest header_len total_size of
               None \<Rightarrow> (properties, budget)
             | Some content \<Rightarrow>
                 (case get_from rest total_size of
                    None \<Rightarrow> (push_property box_type content (index + 1) properties, budget)
                  | Some next \<Rightarrow>
                      collect_loop budget next (index + 1) (push_property box_type content (index + 1) properties))))"

definition collect_properties :: "string \<Rightarrow> nat \<Rightarrow> nat \<Rightarrow> (nat \<times> transform_property) list \<times> nat" where
  "collect_properties ipco_content depth budget =
     (if depth > max_nesting_depth then ([], budget) else collect_loop budget ipco_content 0 [])"

definition read_index :: "bool \<Rightarrow> cursor \<Rightarrow> (nat \<times> cursor) option" where
  "read_index large_index c =
     (if large_index then map_option (map_prod (\<lambda>v. v mod 2 ^ 15) id) (read_u16 c)
      else map_option (map_prod (\<lambda>v. v mod 2 ^ 7) id) (read_u8 c))"

fun read_indices :: "bool \<Rightarrow> nat \<Rightarrow> cursor \<Rightarrow> (nat list \<times> cursor) option" where
  "read_indices large_index 0 c = Some ([], c)"
| "read_indices large_index (Suc n) c =
     do {
       (index, c) \<leftarrow> read_index large_index c;
       (indices, c) \<leftarrow> read_indices large_index n c;
       Some (index # indices, c)
     }"

text \<open>
  The loop over the entries.  An entry of another item is read to its end like the
  matching one, only its indices are dropped.
\<close>

fun associations_loop :: "bool \<Rightarrow> bool \<Rightarrow> nat \<Rightarrow> nat \<Rightarrow> cursor \<Rightarrow> nat list option" where
  "associations_loop wide_item_id large_index target 0 c = None"
| "associations_loop wide_item_id large_index target (Suc entries) c =
     do {
       (item_id, c) \<leftarrow> (if wide_item_id then read_u32 c else read_u16 c);
       (association_count, c) \<leftarrow> read_u8 c;
       (indices, c) \<leftarrow> read_indices large_index association_count c;
       (if item_id = target then Some indices
        else associations_loop wide_item_id large_index target entries c)
     }"

definition parse_primary_item_associations :: "string \<Rightarrow> nat \<Rightarrow> nat list option" where
  "parse_primary_item_associations ipma_content target_item_id =
     do {
       (version, c) \<leftarrow> read_u8 (cursor_new ipma_content);
       (flags_bytes, c) \<leftarrow> read_bytes 3 c;
       (entry_count, c) \<leftarrow> read_u32 c;
       associations_loop (version \<ge> 1) (odd (be_val flags_bytes)) target_item_id entry_count c
     }"

definition transform_of :: "transform_property \<Rightarrow> transform" where
  "transform_of property = (case property of
       PropRotate steps \<Rightarrow> Rotation steps
     | PropMirror axis \<Rightarrow> Reflection (if axis = 0 then 2 else 0))"

definition compose_properties :: "(nat \<times> transform_property) list \<Rightarrow> nat list \<Rightarrow> transform" where
  "compose_properties properties indices =
     foldl (\<lambda>transform index. case map_of properties index of
          Some property \<Rightarrow> then_transform transform (transform_of property)
        | None \<Rightarrow> transform) (Rotation 0) indices"

definition resolve_orientation :: "string option \<Rightarrow> string option \<Rightarrow> nat \<Rightarrow> orientation option \<times> nat" where
  "resolve_orientation pitm_content iprp_content budget =
     (case Option.bind pitm_content parse_primary_item_id of
        None \<Rightarrow> (None, budget)
      | Some primary_item_id \<Rightarrow>
          (case iprp_content of
             None \<Rightarrow> (None, budget)
           | Some iprp \<Rightarrow>
               (case walk_boxes iprp 2 budget
                       (\<lambda>box_type content (ipco, ipma).
                          if box_type = ''ipco'' then (keep_first ipco content, ipma)
                          else if box_type = ''ipma'' then (ipco, keep_first ipma content)
                          else (ipco, ipma)) (None, None) of
                  ((None, _), budget) \<Rightarrow> (None, budget)
                | ((Some ipco, ipma), budget) \<Rightarrow>
                    (case collect_properties ipco 3 budget of
                       (properties, budget) \<Rightarrow>
                         (do {
                            ipma \<leftarrow> ipma;
                            indices \<leftarrow> parse_primary_item_associations ipma primary_item_id;
                            Some (into_orientation (compose_properties properties indices))
                          }, budget)))))"

section \<open>EXIF\<close>

definition parse_infe_exif_item_id :: "string \<Rightarrow> nat option" where
  "parse_infe_exif_item_id content =
     do {
       (version, c) \<leftarrow> read_u8 (cursor_new content);
       c \<leftarrow> skip 3 c;
       (item_id, c) \<leftarrow> (if version = 2 then read_u16 c else if version = 3 then read_u32 c else None);
       c \<leftarrow> skip 2 c;
       (item_type, c) \<leftarrow> read_bytes 4 c;
       (if item_type = ''Exif'' then Some item_id else None)
     }"

definition find_exif_item_id :: "string \<Rightarrow> nat \<Rightarrow> nat \<Rightarrow> nat option \<times> nat" where
  "find_exif_item_id iinf_content depth budget =
     (case (do {
              (version, c) \<leftarrow> read_u8 (cursor_new iinf_content);
              c \<leftarrow> skip 3 c;
              (entry_count, c) \<leftarrow> (if version = 0 then read_u16 c else read_u32 c);
              Some c
            }) of
        None \<Rightarrow> (None, budget)
      | Some c \<Rightarrow>
          walk_boxes (remainder c) depth budget
            (\<lambda>box_type content found.
               if found \<noteq> None \<or> box_type \<noteq> ''infe'' then found
               else parse_infe_exif_item_id content) None)"

record iloc_entry =
  il_construction_method :: nat
  il_base_offset :: nat
  il_extents :: "(nat \<times> nat) list"

record iloc_layout =
  ly_version :: nat
  ly_offset_size :: nat
  ly_length_size :: nat
  ly_base_offset_size :: nat
  ly_index_size :: nat

fun read_extents :: "iloc_layout \<Rightarrow> nat \<Rightarrow> cursor \<Rightarrow> ((nat \<times> nat) list \<times> cursor) option" where
  "read_extents ly 0 c = Some ([], c)"
| "read_extents ly (Suc n) c =
     do {
       (_, c) \<leftarrow> (if (ly_version ly = 1 \<or> ly_version ly = 2) \<and> ly_index_size ly > 0
                 then read_uint (ly_index_size ly) c else Some (0, c));
       (extent_offset, c) \<leftarrow> read_uint (ly_offset_size ly) c;
       (extent_length, c) \<leftarrow> read_uint (ly_length_size ly) c;
       (extents, c) \<leftarrow> read_extents ly n c;
       Some ((extent_offset, extent_length) # extents, c)
     }"

definition read_iloc_item :: "iloc_layout \<Rightarrow> cursor \<Rightarrow> ((nat \<times> iloc_entry) \<times> cursor) option" where
  "read_iloc_item ly c =
     do {
       (item_id, c) \<leftarrow> (if ly_version ly < 2 then read_u16 c else read_u32 c);
       (construction_method, c) \<leftarrow>
         (if ly_version ly = 1 \<or> ly_version ly = 2 then map_option (map_prod (\<lambda>raw. raw mod 16) id) (read_u16 c)
          else Some (0, c));
       c \<leftarrow> skip 2 c;
       (base_offset, c) \<leftarrow> read_uint (ly_base_offset_size ly) c;
       (extent_count, c) \<leftarrow> read_u16 c;
       (extents, c) \<leftarrow> read_extents ly extent_count c;
       Some ((item_id, \<lparr> il_construction_method = construction_method, il_base_offset = base_offset,
                il_extents = extents \<rparr>), c)
     }"

fun iloc_loop :: "iloc_layout \<Rightarrow> nat \<Rightarrow> nat \<Rightarrow> cursor \<Rightarrow> iloc_entry option" where
  "iloc_loop ly target 0 c = None"
| "iloc_loop ly target (Suc n) c =
     do {
       ((item_id, entry), c) \<leftarrow> read_iloc_item ly c;
       (if item_id = target then Some entry else iloc_loop ly target n c)
     }"

definition find_iloc_entry :: "string \<Rightarrow> nat \<Rightarrow> iloc_entry option" where
  "find_iloc_entry iloc_content target_item_id =
     do {
       (version, c) \<leftarrow> read_u8 (cursor_new iloc_content);
       c \<leftarrow> skip 3 c;
       (sizes, c) \<leftarrow> read_u8 c;
       (sizes2, c) \<leftarrow> read_u8 c;
       (item_count, c) \<leftarrow> (if version < 2 then read_u16 c else read_u32 c);
       iloc_loop \<lparr> ly_version = version, ly_offset_size = sizes div 16, ly_length_size = sizes mod 16,
                   ly_base_offset_size = sizes2 div 16, ly_index_size = sizes2 mod 16 \<rparr>
         target_item_id item_count c
     }"

fun gather_extents :: "string \<Rightarrow> nat \<Rightarrow> string \<Rightarrow> (nat \<times> nat) list \<Rightarrow> string option" where
  "gather_extents bytes base_offset payload [] = Some payload"
| "gather_extents bytes base_offset payload ((extent_offset, extent_length) # extents) =
     do {
       start \<leftarrow> checked_add base_offset extent_offset;
       stop \<leftarrow> checked_add start extent_length;
       extent \<leftarrow> get_range bytes start stop;
       total \<leftarrow> checked_add (length payload) (length extent);
       (if total > max_exif_len then None
        else gather_extents bytes base_offset (payload @ extent) extents)
     }"

definition tiff_marker :: "string \<Rightarrow> bool" where
  "tiff_marker tiff =
     (starts_with [CHR ''I'', CHR ''I'', CHR ''*'', CHR 0x00] tiff
      \<or> starts_with [CHR ''M'', CHR ''M'', CHR 0x00, CHR ''*''] tiff)"

definition extract_exif_tiff :: "string \<Rightarrow> iloc_entry \<Rightarrow> string option" where
  "extract_exif_tiff bytes entry =
     (if il_construction_method entry \<noteq> 0 then None
      else do {
        payload \<leftarrow> gather_extents bytes (il_base_offset entry) [] (il_extents entry);
        (if length payload < 4 then None
         else do {
           tiff \<leftarrow> get_from (drop 4 payload) (be_val (take 4 payload));
           (if tiff_marker tiff then Some tiff else None)
         })
      })"

definition extract_exif_payload :: "string \<Rightarrow> string option \<Rightarrow> string option \<Rightarrow> nat \<Rightarrow> string option \<times> nat" where
  "extract_exif_payload bytes iinf_content iloc_content budget =
     (case iinf_content of
        None \<Rightarrow> (None, budget)
      | Some iinf \<Rightarrow>
          (case find_exif_item_id iinf 2 budget of
             (found, budget) \<Rightarrow>
               (do {
                  exif_item_id \<leftarrow> found;
                  iloc \<leftarrow> iloc_content;
                  entry \<leftarrow> find_iloc_entry iloc exif_item_id;
                  extract_exif_tiff bytes entry
                }, budget)))"

section \<open>The entry point\<close>

record avif_metadata =
  am_orientation :: orientation
  am_exif :: "string option"

definition avif_metadata_default :: avif_metadata where
  "avif_metadata_default = \<lparr> am_orientation = NoTransforms, am_exif = None \<rparr>"

record meta_children =
  mc_iinf :: "string option"
  mc_iloc :: "string option"
  mc_iprp :: "string option"
  mc_pitm :: "string option"

definition meta_visit :: "string \<Rightarrow> string \<Rightarrow> meta_children \<Rightarrow> meta_children" where
  "meta_visit box_type content mc =
     (if box_type = ''iinf'' then mc\<lparr>mc_iinf := keep_first (mc_iinf mc) content\<rparr>
      else if box_type = ''iloc'' then mc\<lparr>mc_iloc := keep_first (mc_iloc mc) content\<rparr>
      else if box_type = ''iprp'' then mc\<lparr>mc_iprp := keep_first (mc_iprp mc) content\<rparr>
      else if box_type = ''pitm'' then mc\<lparr>mc_pitm := keep_first (mc_pitm mc) content\<rparr>
      else mc)"

definition parse_avif_metadata :: "string \<Rightarrow> avif_metadata" where
  "parse_avif_metadata bytes =
     (case find_first_box bytes 0 max_boxes_visited ''meta'' of
        (None, _) \<Rightarrow> avif_metadata_default
      | (Some meta_content, budget) \<Rightarrow>
          (case get_from meta_content 4 of
             None \<Rightarrow> avif_metadata_default
           | Some meta_body \<Rightarrow>
               (case walk_boxes meta_body 1 budget meta_visit
                       \<lparr> mc_iinf = None, mc_iloc = None, mc_iprp = None, mc_pitm = None \<rparr> of
                  (mc, budget) \<Rightarrow>
                    (case resolve_orientation (mc_pitm mc) (mc_iprp mc) budget of
                       (orientation, budget) \<Rightarrow>
                         (case extract_exif_payload bytes (mc_iinf mc) (mc_iloc mc) budget of
                            (exif, _) \<Rightarrow>
                              \<lparr> am_orientation = unwrap_or orientation NoTransforms, am_exif = exif \<rparr>)))))"

section \<open>What an orientation does to the plane\<close>

text \<open>
  Points of the plane with the origin in the middle of the picture, the first axis
  to the right and the second one up.
\<close>

type_synonym point = "int \<times> int"

definition rot_ccw :: "point \<Rightarrow> point" where
  "rot_ccw p = (- snd p, fst p)"

definition flip_h :: "point \<Rightarrow> point" where
  "flip_h p = (- fst p, snd p)"

definition flip_v :: "point \<Rightarrow> point" where
  "flip_v p = (fst p, - snd p)"

definition rot_cw :: "point \<Rightarrow> point" where
  "rot_cw p = (snd p, - fst p)"

fun orientation_action :: "orientation \<Rightarrow> point \<Rightarrow> point" where
  "orientation_action NoTransforms p = p"
| "orientation_action Rotate90 p = rot_cw p"
| "orientation_action Rotate180 p = rot_cw (rot_cw p)"
| "orientation_action Rotate270 p = rot_ccw p"
| "orientation_action FlipHorizontal p = flip_h p"
| "orientation_action FlipVertical p = flip_v p"
| "orientation_action Rotate90FlipH p = flip_h (rot_cw p)"
| "orientation_action Rotate270FlipH p = flip_h (rot_ccw p)"

fun property_action :: "transform_property \<Rightarrow> point \<Rightarrow> point" where
  "property_action (PropRotate steps) = rot_ccw ^^ steps"
| "property_action (PropMirror axis) = (if axis = 0 then flip_h else flip_v)"

fun transform_action :: "transform \<Rightarrow> point \<Rightarrow> point" where
  "transform_action (Rotation a) p = (rot_ccw ^^ a) p"
| "transform_action (Reflection c) p = (rot_ccw ^^ c) (flip_v p)"

fun wf_transform :: "transform \<Rightarrow> bool" where
  "wf_transform (Rotation a) = (a < 4)"
| "wf_transform (Reflection c) = (c < 4)"

fun wf_property :: "transform_property \<Rightarrow> bool" where
  "wf_property (PropRotate steps) = (steps < 4)"
| "wf_property (PropMirror axis) = (axis < 2)"

lemma less4_cases: "(n :: nat) < 4 \<longleftrightarrow> n = 0 \<or> n = 1 \<or> n = 2 \<or> n = 3"
  by auto

lemma rot_ccw_pow:
  "(rot_ccw ^^ 0) p = p" "(rot_ccw ^^ 1) p = (- snd p, fst p)" "(rot_ccw ^^ 2) p = (- fst p, - snd p)"
  "(rot_ccw ^^ 3) p = (snd p, - fst p)" "(rot_ccw ^^ Suc 0) p = (- snd p, fst p)"
  by (simp_all add: rot_ccw_def numeral_2_eq_2 numeral_3_eq_3)

lemma then_transform_action:
  "wf_transform t \<Longrightarrow> wf_transform u \<Longrightarrow>
     wf_transform (then_transform t u) \<and> transform_action (then_transform t u) p = transform_action u (transform_action t p)"
  by (cases t; cases u; cases p) (auto simp: less4_cases rot_ccw_pow flip_v_def rot_ccw_def)

lemma into_orientation_action:
  "wf_transform t \<Longrightarrow> orientation_action (into_orientation t) p = transform_action t p"
  by (cases t; cases p) (auto simp: less4_cases rot_ccw_pow flip_v_def flip_h_def rot_cw_def rot_ccw_def)

lemma transform_of_action:
  "wf_property q \<Longrightarrow> wf_transform (transform_of q) \<and> transform_action (transform_of q) p = property_action q p"
  by (cases q; cases p) (auto simp: transform_of_def less4_cases rot_ccw_pow flip_v_def flip_h_def)

definition listed_action :: "(nat \<times> transform_property) list \<Rightarrow> nat \<Rightarrow> point \<Rightarrow> point" where
  "listed_action properties index p = (case map_of properties index of Some q \<Rightarrow> property_action q p | None \<Rightarrow> p)"

lemma compose_properties_action:
  assumes "\<forall>q \<in> snd ` set properties. wf_property q"
  shows "orientation_action (into_orientation (compose_properties properties indices)) p
    = fold (listed_action properties) indices p"
proof -
  let ?f = "\<lambda>transform index. case map_of properties index of
      Some property \<Rightarrow> then_transform transform (transform_of property) | None \<Rightarrow> transform"
  have "wf_transform (foldl ?f t indices)
      \<and> transform_action (foldl ?f t indices) p = fold (listed_action properties) indices (transform_action t p)"
    if "wf_transform t" for t
    using that
  proof (induction indices arbitrary: t)
    case (Cons i indices)
    show ?case
    proof (cases "map_of properties i")
      case (Some q)
      then have "wf_property q"
        using assms map_of_SomeD by force
      then show ?thesis
        using Cons transform_of_action [of q] then_transform_action [of t "transform_of q"]
        by (simp add: Some listed_action_def)
    qed (use Cons in \<open>simp add: listed_action_def\<close>)
  qed simp
  from this [of "Rotation 0"] show ?thesis
    by (simp add: compose_properties_def into_orientation_action)
qed

lemma push_property_wf:
  "\<forall>q \<in> snd ` set properties. wf_property q \<Longrightarrow> \<forall>q \<in> snd ` set (push_property t c i properties). wf_property q"
  by (auto simp: push_property_def split: list.splits)

lemma collect_loop_wf:
  "\<forall>q \<in> snd ` set properties. wf_property q
     \<Longrightarrow> \<forall>q \<in> snd ` set (fst (collect_loop budget rest index properties)). wf_property q"
proof (induction budget rest index properties rule: collect_loop.induct)
  case (2 budget rest index properties)
  note w = push_property_wf [OF "2.prems"]
  show ?case
  proof (cases "rest = [] \<or> read_box_header rest = None")
    case False
    then show ?thesis
      using "2.IH" "2.prems" w
      by (simp split: option.splits prod.splits)
  qed (use "2.prems" in auto)
qed simp

lemma collect_properties_wf: "\<forall>q \<in> snd ` set (fst (collect_properties c d b)). wf_property q"
  using collect_loop_wf [of "[]"] by (simp add: collect_properties_def)

text \<open>
  The eight-element algebra of \<^verbatim>\<open>Transform\<close> is right: for the properties read from
  any \<^verbatim>\<open>ipco\<close> box and any list of associations, the composed \<^verbatim>\<open>Orientation\<close> moves
  every point of the plane exactly as the associated rotations and mirrors applied
  one after the other do.
\<close>

theorem composed_orientation_action:
  "orientation_action (into_orientation (compose_properties (fst (collect_properties ipco depth budget)) indices)) p
   = fold (listed_action (fst (collect_properties ipco depth budget))) indices p"
  by (rule compose_properties_action [OF collect_properties_wf])

section \<open>What the reader returns\<close>

definition file_slice :: "string \<Rightarrow> nat \<times> nat \<Rightarrow> string" where
  "file_slice bytes r = take (snd r) (drop (fst r) bytes)"

lemma gather_extents_slices:
  assumes "gather_extents bytes base payload extents = Some out" "length payload \<le> max_exif_len"
  shows "length out \<le> max_exif_len
    \<and> out = payload @ concat (map (\<lambda>(off, len). file_slice bytes (base + off, len)) extents)
    \<and> (\<forall>(off, len) \<in> set extents. base + off + len \<le> length bytes)"
  using assms
proof (induction extents arbitrary: payload)
  case (Cons x extents)
  obtain off len where x: "x = (off, len)"
    by (cases x)
  have b: "base + off + len \<le> length bytes"
    and l: "length (payload @ file_slice bytes (base + off, len)) \<le> max_exif_len"
    and g: "gather_extents bytes base (payload @ file_slice bytes (base + off, len)) extents = Some out"
    using Cons.prems(1)
    by (auto simp: x bind_eq_Some_conv checked_add_def get_range_Some_iff file_slice_def split: if_splits)
  show ?case
    using Cons.IH [OF g l] b by (auto simp: x)
qed simp

lemma extract_exif_tiff_slices:
  assumes "extract_exif_tiff bytes entry = Some tiff"
  shows "tiff_marker tiff \<and> length tiff + 4 \<le> max_exif_len
    \<and> (\<exists>slices k. tiff = drop (4 + k) (concat (map (file_slice bytes) slices))
        \<and> (\<forall>(a, n) \<in> set slices. a + n \<le> length bytes))"
proof -
  let ?slices = "map (\<lambda>(off, len). (il_base_offset entry + off, len)) (il_extents entry)"
  obtain payload where g: "gather_extents bytes (il_base_offset entry) [] (il_extents entry) = Some payload"
    and l: "4 \<le> length payload" and t: "tiff_marker tiff"
    and k: "be_val (take 4 payload) \<le> length payload - 4" "tiff = drop (be_val (take 4 payload)) (drop 4 payload)"
    using assms by (auto simp: extract_exif_tiff_def bind_eq_Some_conv get_from_def split: if_splits)
  have p: "length payload \<le> max_exif_len" "payload = concat (map (file_slice bytes) ?slices)"
    "\<forall>(a, n) \<in> set ?slices. a + n \<le> length bytes"
    using gather_extents_slices [OF g] by (auto simp: comp_def case_prod_unfold)
  have "tiff = drop (4 + be_val (take 4 payload)) (concat (map (file_slice bytes) ?slices))"
    using k(2) p(2) by (simp add: add.commute)
  moreover have "length tiff + 4 \<le> max_exif_len"
    using k(2) l p(1) by (simp add: max_exif_len_def)
  ultimately show ?thesis
    using t p(3) by blast
qed

lemma parse_avif_metadata_exif:
  "am_exif (parse_avif_metadata bytes) = Some tiff \<Longrightarrow> \<exists>entry. extract_exif_tiff bytes entry = Some tiff"
  by (auto simp: parse_avif_metadata_def avif_metadata_default_def extract_exif_payload_def bind_eq_Some_conv
      split: option.splits prod.splits)

lemma avif_exif_within_file:
  assumes "am_exif (parse_avif_metadata bytes) = Some tiff"
  shows "tiff_marker tiff \<and> length tiff + 4 \<le> max_exif_len
    \<and> (\<exists>slices k. tiff = drop (4 + k) (concat (map (file_slice bytes) slices))
        \<and> (\<forall>(a, n) \<in> set slices. a + n \<le> length bytes))"
  using parse_avif_metadata_exif [OF assms] extract_exif_tiff_slices by blast

section \<open>Containers as the standards lay them out\<close>

text \<open>
  A writer for the layouts the reader's comments cite: a box with a 32-bit size, a
  full box with version and flags, and a file of an \<^verbatim>\<open>ftyp\<close>, a \<^verbatim>\<open>meta\<close> and an
  \<^verbatim>\<open>mdat\<close> box whose item 1 is the AV1 picture and whose item 2 is the EXIF block.
\<close>

definition mk_box :: "string \<Rightarrow> string \<Rightarrow> string" where
  "mk_box box_type payload = to_be 4 (length payload + 8) @ box_type @ payload"

definition mk_full_box :: "string \<Rightarrow> nat \<Rightarrow> string \<Rightarrow> string" where
  "mk_full_box box_type version payload = mk_box box_type (to_be 1 version @ to_be 3 0 @ payload)"

fun mk_property :: "transform_property \<Rightarrow> string" where
  "mk_property (PropRotate steps) = mk_box ''irot'' (to_be 1 steps)"
| "mk_property (PropMirror axis) = mk_box ''imir'' (to_be 1 axis)"

definition mk_infe :: "nat \<Rightarrow> string \<Rightarrow> string" where
  "mk_infe item item_type = mk_full_box ''infe'' 2 (to_be 2 item @ to_be 2 0 @ item_type @ to_be 1 0)"

definition mk_location :: "nat \<Rightarrow> nat \<Rightarrow> nat \<Rightarrow> string" where
  "mk_location item off len = to_be 2 item @ to_be 2 0 @ to_be 2 1 @ to_be 4 off @ to_be 4 len"

definition mk_pitm :: string where
  "mk_pitm = mk_full_box ''pitm'' 0 (to_be 2 1)"

definition mk_iinf :: string where
  "mk_iinf = mk_full_box ''iinf'' 0 (to_be 2 2 @ mk_infe 1 ''av01'' @ mk_infe 2 ''Exif'')"

definition mk_iloc :: "nat \<Rightarrow> nat \<Rightarrow> nat \<Rightarrow> string" where
  "mk_iloc off pic_len exif_len =
     mk_full_box ''iloc'' 0 (to_be 1 68 @ to_be 1 0 @ to_be 2 2
       @ mk_location 1 off pic_len @ mk_location 2 (off + pic_len) exif_len)"

definition one_to :: "nat \<Rightarrow> nat list" where
  "one_to n = [1..<n + 1]"

definition mk_iprp :: "transform_property list \<Rightarrow> string" where
  "mk_iprp props =
     mk_box ''iprp''
       (mk_box ''ipco'' (concat (map mk_property props))
        @ mk_full_box ''ipma'' 0 (to_be 4 1 @ to_be 2 1 @ to_be 1 (length props)
            @ concat (map (to_be 1) (one_to (length props)))))"

definition mk_meta :: "transform_property list \<Rightarrow> nat \<Rightarrow> nat \<Rightarrow> nat \<Rightarrow> string" where
  "mk_meta props off pic_len exif_len =
     mk_full_box ''meta'' 0 (mk_pitm @ mk_iinf @ mk_iloc off pic_len exif_len @ mk_iprp props)"

definition mk_avif :: "string \<Rightarrow> transform_property list \<Rightarrow> string \<Rightarrow> string \<Rightarrow> string" where
  "mk_avif brands props picture tiff =
     (let ftyp = mk_box ''ftyp'' brands;
          exif = to_be 4 0 @ tiff;
          off = length ftyp + length (mk_meta props 0 0 0) + 8
      in ftyp @ mk_meta props off (length picture) (length exif) @ mk_box ''mdat'' (picture @ exif))"

section \<open>Reading what was written\<close>

text \<open>A cursor that has read \<^term>\<open>pre\<close> and has \<^term>\<open>rest\<close> before it.\<close>

definition cursor_at :: "string \<Rightarrow> string \<Rightarrow> cursor" where
  "cursor_at pre rest = \<lparr> cu_data = pre @ rest, cu_pos = length pre \<rparr>"

lemma cursor_new_at: "cursor_new data = cursor_at [] data"
  by (simp add: cursor_new_def cursor_at_def)

lemma remainder_at [simp]: "remainder (cursor_at pre rest) = rest"
  by (simp add: remainder_def cursor_at_def get_from_def)

lemma read_bytes_at [simp]:
  "length s = n \<Longrightarrow> length pre + n < 2 ^ 64
     \<Longrightarrow> read_bytes n (cursor_at pre (s @ rest)) = Some (s, cursor_at (pre @ s) rest)"
  by (simp add: read_bytes_def cursor_at_def checked_add_def get_range_def)

lemma read_uint_0 [simp]: "read_uint 0 c = Some (0, c)"
  by (simp add: read_uint_def)

lemma reads_at [simp]:
  assumes "length pre + 8 < 2 ^ 64"
  shows "v < 256 \<Longrightarrow> read_u8 (cursor_at pre (to_be (Suc 0) v @ rest)) = Some (v, cursor_at (pre @ to_be (Suc 0) v) rest)"
    and "v < 65536 \<Longrightarrow> read_u16 (cursor_at pre (to_be 2 v @ rest)) = Some (v, cursor_at (pre @ to_be 2 v) rest)"
    and "v < 4294967296 \<Longrightarrow> read_u32 (cursor_at pre (to_be 4 v @ rest)) = Some (v, cursor_at (pre @ to_be 4 v) rest)"
    and "v < 4294967296 \<Longrightarrow> read_uint 4 (cursor_at pre (to_be 4 v @ rest)) = Some (v, cursor_at (pre @ to_be 4 v) rest)"
    and "length s = n \<Longrightarrow> n \<le> 8 \<Longrightarrow> skip n (cursor_at pre (s @ rest)) = Some (cursor_at (pre @ s) rest)"
  using assms
  by (simp_all del: to_be.simps add: read_u8_def read_u16_def read_u32_def read_uint_def skip_def be_val_to_be)

lemmas reads_at_end [simp] =
  reads_at(1) [where rest = "[]", unfolded append_Nil2]
  reads_at(2) [where rest = "[]", unfolded append_Nil2]
  reads_at(3) [where rest = "[]", unfolded append_Nil2]
  reads_at(4) [where rest = "[]", unfolded append_Nil2]
  read_bytes_at [where rest = "[]", unfolded append_Nil2]

declare to_be.simps [simp del]

lemma length_mk_box [simp]: "length (mk_box t p) = length t + length p + 4"
  by (simp add: mk_box_def)

lemma mk_box_not_Nil [simp]: "mk_box t p \<noteq> []"
  by (simp flip: length_0_conv)

lemma read_box_header_mk:
  assumes "length t = 4" "length p + 8 < 2 ^ 32"
  shows "read_box_header (mk_box t p @ rest) = Some (t, 8, length p + 8)"
  using assms
  by (simp add: read_box_header_def mk_box_def cursor_new_at)

lemma walk_loop_mk:
  assumes "length t = 4" "length p + 8 < 2 ^ 32" "0 < budget"
  shows "walk_loop visit budget (mk_box t p @ rest) s = walk_loop visit (budget - 1) rest (visit t p s)"
proof (cases budget)
  case (Suc b)
  have "drop (length p + 8) (mk_box t p @ rest) = rest" "take (length p) (drop 8 (mk_box t p @ rest)) = p"
    using assms(1) by (simp_all add: mk_box_def)
  then show ?thesis
    using assms(1) by (simp add: Suc read_box_header_mk [OF assms(1,2)] get_range_def get_from_def)
qed (use assms in simp)

lemma walk_loop_Nil [simp]: "walk_loop visit budget [] s = (s, budget)"
  by (cases budget) simp_all

lemmas walk_loop_mk_end = walk_loop_mk [where rest = "[]", unfolded append_Nil2]

definition full_payload :: "nat \<Rightarrow> string \<Rightarrow> string" where
  "full_payload version payload = to_be 1 version @ to_be 3 0 @ payload"

lemma mk_full_box_eq: "mk_full_box t v p = mk_box t (full_payload v p)"
  by (simp add: mk_full_box_def full_payload_def)

lemma length_full_payload [simp]: "length (full_payload v p) = length p + 4"
  by (simp add: full_payload_def)

lemma full_payload_head:
  "v < 256 \<Longrightarrow> read_u8 (cursor_at [] (full_payload v p)) = Some (v, cursor_at (to_be 1 v) (to_be 3 0 @ p))"
  using reads_at(1) [of "[]" v "to_be 3 0 @ p"] by (simp add: full_payload_def)

lemma parse_pitm_mk: "parse_primary_item_id (full_payload 0 (to_be 2 1)) = Some 1"
  by (simp add: parse_primary_item_id_def cursor_new_at full_payload_head)

lemma parse_infe_mk:
  assumes "item < 65536" "length t = 4"
  shows "parse_infe_exif_item_id (full_payload 2 (to_be 2 item @ to_be 2 0 @ t @ to_be 1 0))
    = (if t = ''Exif'' then Some item else None)"
  using assms by (simp add: parse_infe_exif_item_id_def cursor_new_at full_payload_head)

lemma find_exif_mk:
  assumes "2 \<le> budget"
  shows "find_exif_item_id (full_payload 0 (to_be 2 2 @ mk_infe 1 ''av01'' @ mk_infe 2 ''Exif'')) 2 budget = (Some 2, budget - 2)"
proof -
  let ?p = "\<lambda>item t. full_payload 2 (to_be 2 item @ to_be 2 0 @ t @ to_be 1 0)"
  have infe: "mk_infe item t = mk_box ''infe'' (?p item t)" for item t
    by (simp add: mk_infe_def mk_full_box_eq)
  have "parse_infe_exif_item_id (?p 1 ''av01'') = None" "parse_infe_exif_item_id (?p 2 ''Exif'') = Some 2"
    using parse_infe_mk [of 1 "''av01''"] parse_infe_mk [of 2 "''Exif''"] by simp_all
  then show ?thesis
    using assms
    by (simp add: find_exif_item_id_def cursor_new_at full_payload_head walk_boxes_def max_nesting_depth_def
        infe walk_loop_mk walk_loop_mk_end del: append.simps)
qed

lemma read_extents_one:
  assumes "length pre + 16 < 2 ^ 64" "off < 2 ^ 32" "len < 2 ^ 32"
  shows "read_extents \<lparr> ly_version = 0, ly_offset_size = 4, ly_length_size = 4, ly_base_offset_size = 0, ly_index_size = 0 \<rparr>
     (Suc 0) (cursor_at pre (to_be 4 off @ to_be 4 len @ rest))
   = Some ([(off, len)], cursor_at (pre @ to_be 4 off @ to_be 4 len) rest)"
  using assms by simp

lemma read_iloc_item_mk:
  assumes "length pre + 32 < 2 ^ 64" "item < 65536" "off < 2 ^ 32" "len < 2 ^ 32"
  shows "read_iloc_item \<lparr> ly_version = 0, ly_offset_size = 4, ly_length_size = 4, ly_base_offset_size = 0, ly_index_size = 0 \<rparr>
     (cursor_at pre (mk_location item off len @ rest))
   = Some ((item, \<lparr> il_construction_method = 0, il_base_offset = 0, il_extents = [(off, len)] \<rparr>),
           cursor_at (pre @ mk_location item off len) rest)"
  using assms read_extents_one [of "pre @ to_be 2 item @ to_be 2 0 @ to_be 2 1" off len rest]
  by (simp add: read_iloc_item_def mk_location_def del: read_extents.simps)

lemma iloc_loop_2:
  "iloc_loop ly target 2 c =
     Option.bind (read_iloc_item ly c)
       (\<lambda>((item_id, entry), c). if item_id = target then Some entry else iloc_loop ly target (Suc 0) c)"
  by (simp add: numeral_2_eq_2 case_prod_unfold)

lemma find_iloc_mk:
  assumes "off + pic_len < 2 ^ 32" "len < 2 ^ 32"
  shows "find_iloc_entry (full_payload 0 (to_be 1 68 @ to_be 1 0 @ to_be 2 2
       @ mk_location 1 off pic_len @ mk_location 2 (off + pic_len) len)) 2
   = Some \<lparr> il_construction_method = 0, il_base_offset = 0, il_extents = [(off + pic_len, len)] \<rparr>"
proof -
  let ?pre = "to_be 1 0 @ to_be 3 0 @ to_be 1 68 @ to_be 1 0 @ to_be 2 2"
  note i1 = read_iloc_item_mk [of ?pre 1 off pic_len "mk_location 2 (off + pic_len) len"]
  note i2 = read_iloc_item_mk [of "?pre @ mk_location 1 off pic_len" 2 "off + pic_len" len "[]"]
  have "length (mk_location i a b) = 14" for i a b
    by (simp add: mk_location_def)
  then show ?thesis
    using assms i1 i2
    by (simp add: find_iloc_entry_def cursor_new_at full_payload_head iloc_loop_2)
qed

lemma read_indices_mk:
  assumes "\<forall>i \<in> set is. i < 128" "length pre + length is + 8 < 2 ^ 64"
  shows "read_indices False (length is) (cursor_at pre (concat (map (to_be 1) is) @ rest))
    = Some (is, cursor_at (pre @ concat (map (to_be 1) is)) rest)"
  using assms
proof (induction "is" arbitrary: pre)
  case (Cons i "is")
  have "read_indices False (length is) (cursor_at (pre @ to_be 1 i) (concat (map (to_be 1) is) @ rest))
      = Some (is, cursor_at ((pre @ to_be 1 i) @ concat (map (to_be 1) is)) rest)"
    using Cons.prems by (intro Cons.IH) simp_all
  then show ?case
    using Cons.prems by (simp add: read_index_def)
qed simp

lemma length_concat_to_be [simp]: "length (concat (map (to_be k) is)) = k * length is"
  by (induction "is") auto

lemma parse_ipma_mk:
  assumes "\<forall>i \<in> set is. i < 128" "length is < 256"
  shows "parse_primary_item_associations
     (full_payload 0 (to_be 4 1 @ to_be 2 1 @ to_be 1 (length is) @ concat (map (to_be 1) is))) 1 = Some is"
  using assms read_indices_mk [of "is" "to_be 1 0 @ to_be 3 0 @ to_be 4 1 @ to_be 2 1 @ to_be 1 (length is)" "[]"]
  by (simp add: parse_primary_item_associations_def cursor_new_at full_payload_head be_val_to_be)

lemma byte_to_be: "to_be (Suc 0) v = [char_of (v mod 256)]"
  by (simp add: to_be.simps)

lemma mk_property_box:
  assumes "wf_property q"
  shows "\<exists>t c. mk_property q = mk_box t c \<and> length t = 4 \<and> length c = 1
    \<and> (\<forall>i acc. push_property t c i acc = acc @ [(i, q)])"
  using assms
  by (cases q) (auto intro!: exI simp: push_property_def byte_to_be)

lemma collect_loop_mk:
  assumes "\<forall>q \<in> set props. wf_property q" "length props \<le> budget" "index + length props < 2 ^ 32"
  shows "collect_loop budget (concat (map mk_property props)) index acc
    = (acc @ zip [index + 1..<index + 1 + length props] props, budget - length props)"
  using assms
proof (induction props arbitrary: budget index acc)
  case Nil
  then show ?case
    by (cases budget) simp_all
next
  case (Cons q props)
  obtain b where b: "budget = Suc b"
    using Cons.prems(2) by (cases budget) auto
  obtain t c where q: "mk_property q = mk_box t c" "length t = 4" "length c = 1"
    "\<And>i acc. push_property t c i acc = acc @ [(i, q)]"
    using mk_property_box [of q] Cons.prems(1) by auto
  have "read_box_header (mk_box t c @ rest) = Some (t, 8, 9)" for rest
    using read_box_header_mk [OF q(2), of c rest] q(3) by simp
  moreover have "drop 9 (mk_box t c @ rest) = rest" "take (Suc 0) (drop 8 (mk_box t c @ rest)) = c" for rest
    using q(2,3) by (simp_all add: mk_box_def)
  ultimately have "collect_loop budget (concat (map mk_property (q # props))) index acc
      = collect_loop b (concat (map mk_property props)) (index + 1) (acc @ [(index + 1, q)])"
    using Cons.prems(3) q by (simp add: b get_range_def get_from_def)
  also have "\<dots> = (acc @ (index + 1, q) # zip [index + 2..<index + 2 + length props] props, b - length props)"
    using Cons.IH [of b "index + 1" "acc @ [(index + 1, q)]"] Cons.prems by (simp add: b)
  also have "(index + 1, q) # zip [index + 2..<index + 2 + length props] props
      = zip [index + 1..<index + 1 + length (q # props)] (q # props)"
    by (simp add: upt_conv_Cons del: upt_Suc)
  finally show ?case
    by (simp add: b)
qed

lemma one_to_simps [simp]: "length (one_to n) = n" "i \<in> set (one_to n) \<longleftrightarrow> 1 \<le> i \<and> i \<le> n"
  by (auto simp: one_to_def simp del: upt_Suc)

lemma one_to_nth: "k < n \<Longrightarrow> one_to n ! k = k + 1"
  by (simp add: one_to_def nth_upt del: upt_Suc)

lemma fold_listed:
  "fold (listed_action (zip (one_to (length props)) props)) (one_to (length props)) p = fold property_action props p"
proof -
  let ?n = "length props"
  have d: "distinct (one_to ?n)"
    by (simp add: one_to_def del: upt_Suc)
  have "map_of (zip (one_to ?n) props) i = Some (props ! (i - 1))" if "i \<in> set (one_to ?n)" for i
  proof -
    have "i - 1 < ?n"
      using that by auto
    then show ?thesis
      using that map_of_zip_nth [OF _ d, of props "i - 1"] one_to_nth [of "i - 1" ?n] by simp
  qed
  then have "fold (listed_action (zip (one_to ?n) props)) (one_to ?n) p
      = fold (\<lambda>i. property_action (props ! (i - 1))) (one_to ?n) p"
    by (intro fold_cong) (simp_all add: listed_action_def fun_eq_iff)
  also have "\<dots> = fold property_action (map (\<lambda>i. props ! (i - 1)) (one_to ?n)) p"
    by (simp add: fold_map comp_def)
  also have "map (\<lambda>i. props ! (i - 1)) (one_to ?n) = props"
    by (rule nth_equalityI) (simp_all add: one_to_nth)
  finally show ?thesis .
qed

lemma mk_lengths [simp]:
  "length (mk_infe i t) = length t + 17" "length (mk_location i a b) = 14" "length mk_pitm = 14"
  "length mk_iinf = 56" "length (mk_iloc a b c) = 44"
  by (simp_all add: mk_infe_def mk_location_def mk_pitm_def mk_iinf_def mk_iloc_def mk_full_box_eq)

lemma length_mk_property: "length (concat (map mk_property props)) = 9 * length props"
proof (induction props)
  case (Cons q props)
  then show ?case
    by (cases q) simp_all
qed simp

lemma length_mk_iprp: "length (mk_iprp props) = 10 * length props + 35"
  by (simp add: mk_iprp_def mk_full_box_eq length_mk_property)

lemma length_mk_meta: "length (mk_meta props a b c) = 10 * length props + 161"
  by (simp add: mk_meta_def mk_full_box_eq length_mk_iprp)

lemma resolve_orientation_mk:
  assumes "\<forall>q \<in> set props. wf_property q" "length props < 128" "length props + 2 \<le> budget"
    "mk_iprp props = mk_box ''iprp'' iprp"
  shows "\<exists>o'. resolve_orientation (Some (full_payload 0 (to_be 2 1))) (Some iprp) budget = (Some o', budget - (length props + 2))
    \<and> (\<forall>p. orientation_action o' p = fold property_action props p)"
proof -
  let ?n = "length props" and ?is = "one_to (length props)"
  let ?ipco = "concat (map mk_property props)"
    and ?ipma = "full_payload 0 (to_be 4 1 @ to_be 2 1 @ to_be 1 ?n @ concat (map (to_be 1) ?is))"
  let ?ps = "zip (one_to ?n) props"
  have "iprp = mk_box ''ipco'' ?ipco @ mk_box ''ipma'' ?ipma"
    using assms(4) by (simp add: mk_iprp_def mk_full_box_eq mk_box_def)
  moreover have "parse_primary_item_associations ?ipma 1 = Some ?is"
    using parse_ipma_mk [of ?is] assms(2) by simp
  moreover have "collect_properties ?ipco 3 (budget - 1 - 1) = (?ps, budget - (?n + 2))"
    using collect_loop_mk [of props "budget - 1 - 1" 0 "[]"] assms(1-3)
    by (simp add: collect_properties_def max_nesting_depth_def one_to_def del: upt_Suc)
  ultimately have "resolve_orientation (Some (full_payload 0 (to_be 2 1))) (Some iprp) budget
      = (Some (into_orientation (compose_properties ?ps ?is)), budget - (?n + 2))"
    using assms(2,3)
    by (simp add: resolve_orientation_def parse_pitm_mk [simplified] walk_boxes_def max_nesting_depth_def
        walk_loop_mk walk_loop_mk_end length_mk_property keep_first_def)
  moreover have "\<forall>q \<in> snd ` set ?ps. wf_property q"
    using assms(1) by (auto dest: set_zip_rightD)
  then have "orientation_action (into_orientation (compose_properties ?ps ?is)) p = fold property_action props p" for p
    using compose_properties_action [of ?ps ?is p] fold_listed [of props p] by simp
  ultimately show ?thesis
    by blast
qed

lemma extract_exif_mk:
  assumes "tiff_marker tiff" "length tiff + 4 \<le> max_exif_len" "length pre + length tiff + 4 < 2 ^ 64"
  shows "extract_exif_tiff (pre @ to_be 4 0 @ tiff)
     \<lparr> il_construction_method = 0, il_base_offset = 0, il_extents = [(length pre, length tiff + 4)] \<rparr> = Some tiff"
  using assms by (simp add: extract_exif_tiff_def checked_add_def get_range_def get_from_def be_val_to_be)

lemma meta_children_mk:
  assumes "length (mk_meta props a b c) < 2 ^ 32" "4 \<le> budget"
  shows "\<exists>iprp. mk_iprp props = mk_box ''iprp'' iprp
    \<and> walk_boxes (mk_pitm @ mk_iinf @ mk_iloc a b c @ mk_iprp props) 1 budget meta_visit
        \<lparr> mc_iinf = None, mc_iloc = None, mc_iprp = None, mc_pitm = None \<rparr>
      = (\<lparr> mc_iinf = Some (full_payload 0 (to_be 2 2 @ mk_infe 1 ''av01'' @ mk_infe 2 ''Exif'')),
           mc_iloc = Some (full_payload 0 (to_be 1 68 @ to_be 1 0 @ to_be 2 2 @ mk_location 1 a b @ mk_location 2 (a + b) c)),
           mc_iprp = Some iprp, mc_pitm = Some (full_payload 0 (to_be 2 1)) \<rparr>, budget - 4)"
proof -
  obtain iprp where i: "mk_iprp props = mk_box ''iprp'' iprp"
    by (simp add: mk_iprp_def)
  have "length iprp + 8 < 2 ^ 32"
    using assms(1) arg_cong [OF i, of length] by (simp add: length_mk_meta length_mk_iprp)
  then show ?thesis
    using assms(2)
    by (intro exI [of _ iprp])
      (simp add: i mk_pitm_def mk_iinf_def mk_iloc_def mk_full_box_eq walk_boxes_def max_nesting_depth_def
        walk_loop_mk walk_loop_mk_end meta_visit_def keep_first_def)
qed

lemma parse_avif_metadata_steps:
  assumes "find_first_box bytes 0 max_boxes_visited ''meta'' = (Some meta_content, budget)"
    "get_from meta_content 4 = Some body"
    "walk_boxes body 1 budget meta_visit \<lparr> mc_iinf = None, mc_iloc = None, mc_iprp = None, mc_pitm = None \<rparr>
      = (\<lparr> mc_iinf = iinf, mc_iloc = iloc, mc_iprp = iprp, mc_pitm = pitm \<rparr>, budget')"
    "resolve_orientation pitm iprp budget' = (orientation, budget'')"
  shows "parse_avif_metadata bytes
    = \<lparr> am_orientation = unwrap_or orientation NoTransforms, am_exif = fst (extract_exif_payload bytes iinf iloc budget'') \<rparr>"
  using assms by (simp add: parse_avif_metadata_def case_prod_unfold)

text \<open>
  C30. Round trip: a container laid out by the standards, with any list of rotations
  and mirrors attached to its primary item and any TIFF block as its EXIF item, is
  read back exactly.  The reported orientation moves every point as the listed
  properties do in order, and the EXIF block comes back byte for byte.
\<close>

theorem avif_metadata_round_trip:
  assumes "\<forall>q \<in> set props. wf_property q" "length props < 128"
    "tiff_marker tiff" "length tiff + 4 \<le> max_exif_len"
    "length (mk_avif brands props picture tiff) < 2 ^ 32"
  shows "am_exif (parse_avif_metadata (mk_avif brands props picture tiff)) = Some tiff
    \<and> (\<forall>p. orientation_action (am_orientation (parse_avif_metadata (mk_avif brands props picture tiff))) p
           = fold property_action props p)"
proof -
  let ?file = "mk_avif brands props picture tiff"
  let ?ftyp = "mk_box ''ftyp'' brands" and ?exif = "to_be 4 0 @ tiff"
  let ?off = "length ?ftyp + length (mk_meta props 0 0 0) + 8"
  let ?body = "mk_pitm @ mk_iinf @ mk_iloc ?off (length picture) (length ?exif) @ mk_iprp props"
  let ?pre = "?ftyp @ mk_meta props ?off (length picture) (length ?exif) @ to_be 4 (length (picture @ ?exif) + 8) @ ''mdat'' @ picture"
  have fileq: "?file = ?ftyp @ mk_box ''meta'' (full_payload 0 ?body) @ mk_box ''mdat'' (picture @ ?exif)"
    "?file = ?pre @ ?exif"
    by (simp_all add: mk_avif_def Let_def mk_meta_def mk_full_box_eq mk_box_def)
  have len: "length ?pre = ?off + length picture" "length ?pre + length tiff + 4 < 2 ^ 32"
    "length brands + 8 < 2 ^ 32" "length ?body + 12 < 2 ^ 32" "length (mk_meta props ?off (length picture) (length ?exif)) < 2 ^ 32"
    using assms(5) unfolding fileq(2) by (simp_all add: length_mk_meta length_mk_iprp)
  have meta: "find_first_box ?file 0 max_boxes_visited ''meta'' = (Some (full_payload 0 ?body), max_boxes_visited - 3)"
    unfolding fileq(1) using len
    by (simp add: find_first_box_def walk_boxes_def max_nesting_depth_def max_boxes_visited_def walk_loop_mk
        walk_loop_mk_end keep_first_def)
  have body: "get_from (full_payload 0 ?body) 4 = Some ?body"
    by (simp add: full_payload_def get_from_def)
  obtain iprp where i: "mk_iprp props = mk_box ''iprp'' iprp"
    and w: "walk_boxes ?body 1 (max_boxes_visited - 3) meta_visit
        \<lparr> mc_iinf = None, mc_iloc = None, mc_iprp = None, mc_pitm = None \<rparr>
      = (\<lparr> mc_iinf = Some (full_payload 0 (to_be 2 2 @ mk_infe 1 ''av01'' @ mk_infe 2 ''Exif'')),
           mc_iloc = Some (full_payload 0 (to_be 1 68 @ to_be 1 0 @ to_be 2 2 @ mk_location 1 ?off (length picture)
             @ mk_location 2 (?off + length picture) (length ?exif))),
           mc_iprp = Some iprp, mc_pitm = Some (full_payload 0 (to_be 2 1)) \<rparr>, max_boxes_visited - 3 - 4)"
    using meta_children_mk [OF len(5), of "max_boxes_visited - 3"] by (auto simp: max_boxes_visited_def)
  obtain o' where o: "resolve_orientation (Some (full_payload 0 (to_be 2 1))) (Some iprp) (max_boxes_visited - 3 - 4)
      = (Some o', max_boxes_visited - 3 - 4 - (length props + 2))"
    "\<And>p. orientation_action o' p = fold property_action props p"
    using resolve_orientation_mk [OF assms(1,2) _ i, of "max_boxes_visited - 3 - 4"] assms(2)
    by (auto simp: max_boxes_visited_def)
  have e: "extract_exif_tiff ?file \<lparr> il_construction_method = 0, il_base_offset = 0,
      il_extents = [(?off + length picture, length ?exif)] \<rparr> = Some tiff"
    unfolding fileq(2) using extract_exif_mk [OF assms(3,4), of ?pre] len(1,2) by (simp add: ac_simps)
  have "?off + length picture < 2 ^ 32" "length ?exif < 2 ^ 32"
    using len(1,2) by simp_all
  note find_iloc = find_iloc_mk [OF this]
  have "fst (extract_exif_payload ?file
      (Some (full_payload 0 (to_be 2 2 @ mk_infe 1 ''av01'' @ mk_infe 2 ''Exif'')))
      (Some (full_payload 0 (to_be 1 68 @ to_be 1 0 @ to_be 2 2 @ mk_location 1 ?off (length picture)
         @ mk_location 2 (?off + length picture) (length ?exif))))
      (max_boxes_visited - 3 - 4 - (length props + 2))) = Some tiff"
    using find_exif_mk [of "max_boxes_visited - 3 - 4 - (length props + 2)"] e assms(2) find_iloc
    by (simp add: extract_exif_payload_def max_boxes_visited_def del: length_append)
  then show ?thesis
    using o(2) unfolding parse_avif_metadata_steps [OF meta body w o(1)] by simp
qed

definition demo_tiff :: string where
  "demo_tiff = [CHR ''I'', CHR ''I'', CHR ''*'', CHR 0x00] @ ''body''"

theorem avif_metadata_round_trip_witness:
  "am_exif (parse_avif_metadata (mk_avif ''avif'' [PropRotate 1, PropMirror 0] ''picture'' demo_tiff)) = Some demo_tiff
   \<and> orientation_action (am_orientation
       (parse_avif_metadata (mk_avif ''avif'' [PropRotate 1, PropMirror 0] ''picture'' demo_tiff))) (2, 1) = (1, 2)"
proof -
  have "tiff_marker demo_tiff"
    by (simp add: tiff_marker_def demo_tiff_def starts_with_iff)
  moreover have "length demo_tiff = 8"
    by (simp add: demo_tiff_def)
  moreover have "length (mk_avif ''avif'' [PropRotate 1, PropMirror 0] ''picture'' demo_tiff) < 2 ^ 32"
    by (simp add: mk_avif_def Let_def length_mk_meta demo_tiff_def)
  ultimately show ?thesis
    using avif_metadata_round_trip [of "[PropRotate 1, PropMirror 0]" demo_tiff "''avif''" "''picture''"]
    by (simp add: max_exif_len_def rot_ccw_def flip_h_def)
qed

text \<open>
  The module comment says that the three caps bound the work.  An extent whose
  offset and length fields have width zero takes no bytes, so one entry of six bytes
  makes the reader push 65535 extents.
\<close>

lemma read_extents_no_bytes:
  "read_extents \<lparr> ly_version = 0, ly_offset_size = 0, ly_length_size = 0, ly_base_offset_size = 0, ly_index_size = 0 \<rparr> n c
   = Some (replicate n (0, 0), c)"
  by (induction n) simp_all

definition mk_hollow_iloc :: "nat \<Rightarrow> string" where
  "mk_hollow_iloc item = full_payload 0 (to_be 1 0 @ to_be 1 0 @ to_be 2 1 @ to_be 2 item @ to_be 2 0 @ to_be 2 65535)"

lemma iloc_work_unbounded_by_length:
  assumes "item < 65536"
  shows "length (mk_hollow_iloc item) = 14
    \<and> find_iloc_entry (mk_hollow_iloc item) item
        = Some \<lparr> il_construction_method = 0, il_base_offset = 0, il_extents = replicate 65535 (0, 0) \<rparr>"
  using assms
  by (simp add: mk_hollow_iloc_def find_iloc_entry_def cursor_new_at full_payload_head read_iloc_item_def
      read_extents_no_bytes del: replicate.simps)
end
