(* ===== verification/Image_Ops.thy ===== *)
theory Image_Ops
  imports Encode Avif_Meta
begin

text \<open>
  The operations of \<^verbatim>\<open>src/src/services/image/handler.rs\<close> on whole pictures: trimming and
  cropping, the calls of the resampler, rotation and flips, extending and padding, the
  filters, and the watermark.  A picture (\<^verbatim>\<open>DynamicImage\<close>) and what the \<^verbatim>\<open>image\<close> and
  \<^verbatim>\<open>fast_image_resize\<close> crates do with it are arguments; \<^verbatim>\<open>image_lib_sizes\<close> states what
  their documentation says of sizes and alpha channels, and nothing else is used of them.

  Shown: the size of every result, in particular that the resize step makes exactly the
  size that \<^verbatim>\<open>effective_resize_target\<close> predicts before the decode.
\<close>

section \<open>The image crates\<close>

datatype filter_type = Nearest | Triangle | CatmullRom | Gaussian | Lanczos3

datatype resize_alg = AlgNearest | AlgBilinear | AlgCatmullRom | AlgGaussian | AlgLanczos3

record 'img image_lib =
  il_dimensions :: "'img \<Rightarrow> nat \<times> nat"
  il_has_alpha :: "'img \<Rightarrow> bool"
  il_to_rgba8 :: "'img \<Rightarrow> rgba raster"
  il_to_rgb8 :: "'img \<Rightarrow> rgb raster"
  il_of_rgba8 :: "rgba raster \<Rightarrow> 'img"
  il_of_rgb8 :: "rgb raster \<Rightarrow> 'img"
  il_crop_imm :: "'img \<Rightarrow> rect \<Rightarrow> 'img"
  il_rotate90 :: "'img \<Rightarrow> 'img"
  il_rotate180 :: "'img \<Rightarrow> 'img"
  il_rotate270 :: "'img \<Rightarrow> 'img"
  il_fliph :: "'img \<Rightarrow> 'img"
  il_flipv :: "'img \<Rightarrow> 'img"
  il_grayscale :: "'img \<Rightarrow> 'img"
  il_blur :: "'img \<Rightarrow> rfloat \<Rightarrow> 'img"
  il_apply_orientation :: "'img \<Rightarrow> orientation \<Rightarrow> 'img"
  il_overlay_rgba :: "rgba raster \<Rightarrow> rgba raster \<Rightarrow> int \<Rightarrow> int \<Rightarrow> rgba raster"
  il_overlay_rgb :: "rgb raster \<Rightarrow> rgb raster \<Rightarrow> int \<Rightarrow> int \<Rightarrow> rgb raster"
  il_resample :: "'img \<Rightarrow> nat \<Rightarrow> nat \<Rightarrow> resize_alg \<Rightarrow> (string, 'img) result"
  il_load_from_memory :: "string \<Rightarrow> (any_error, 'img) result"
  il_sin_cos :: "rfloat \<Rightarrow> rfloat \<times> rfloat"

definition swaps_axes :: "orientation \<Rightarrow> bool" where
  "swaps_axes orientation = (orientation \<in> {Rotate90, Rotate270, Rotate90FlipH, Rotate270FlipH})"

text \<open>
  Their documentation, as far as sizes and alpha go.  \<^verbatim>\<open>crop_imm\<close> clips the rectangle to
  the picture; the resampler fills the picture it is given.
\<close>

definition image_lib_sizes :: "'img image_lib \<Rightarrow> bool" where
  "image_lib_sizes il \<longleftrightarrow>
     (\<forall>r. il_dimensions il (il_of_rgba8 il r) = dimensions r \<and> il_has_alpha il (il_of_rgba8 il r))
   \<and> (\<forall>r. il_dimensions il (il_of_rgb8 il r) = dimensions r \<and> \<not> il_has_alpha il (il_of_rgb8 il r))
   \<and> (\<forall>i. dimensions (il_to_rgba8 il i) = il_dimensions il i \<and> dimensions (il_to_rgb8 il i) = il_dimensions il i)
   \<and> (\<forall>i x y w h. il_dimensions il (il_crop_imm il i ((x, y), (w, h)))
        = (min w (fst (il_dimensions il i) - x), min h (snd (il_dimensions il i) - y)))
   \<and> (\<forall>i. il_dimensions il (il_rotate90 il i) = prod.swap (il_dimensions il i)
        \<and> il_dimensions il (il_rotate180 il i) = il_dimensions il i
        \<and> il_dimensions il (il_rotate270 il i) = prod.swap (il_dimensions il i))
   \<and> (\<forall>i. il_dimensions il (il_fliph il i) = il_dimensions il i \<and> il_dimensions il (il_flipv il i) = il_dimensions il i
        \<and> il_dimensions il (il_grayscale il i) = il_dimensions il i)
   \<and> (\<forall>i s. il_dimensions il (il_blur il i s) = il_dimensions il i)
   \<and> (\<forall>i p. il_dimensions il (il_apply_orientation il i p) = swap_if (swaps_axes p) (il_dimensions il i))
   \<and> (\<forall>c p x y. dimensions (il_overlay_rgba il c p x y) = dimensions c)
   \<and> (\<forall>c p x y. dimensions (il_overlay_rgb il c p x y) = dimensions c)
   \<and> (\<forall>i w h alg j. il_resample il i w h alg = Inr j \<longrightarrow> il_dimensions il j = (w, h))"

section \<open>Trimming and cropping\<close>

definition apply_trim :: "'img image_lib \<Rightarrow> 'img \<Rightarrow> trim_options \<Rightarrow> 'img" where
  "apply_trim il img trim_options =
     (let rgba = il_to_rgba8 il img in
      case trim_rect trim_options (ra_pixel rgba) (dimensions rgba) of
        None \<Rightarrow> img
      | Some r \<Rightarrow> il_crop_imm il img r)"

definition apply_crop :: "'img image_lib \<Rightarrow> 'img \<Rightarrow> crop \<Rightarrow> 'img" where
  "apply_crop il img crop = il_crop_imm il img (crop_rect crop (il_dimensions il img))"

section \<open>Resampling\<close>

fun fir_resize_alg :: "filter_type \<Rightarrow> resize_alg" where
  "fir_resize_alg Nearest = AlgNearest"
| "fir_resize_alg Triangle = AlgBilinear"
| "fir_resize_alg CatmullRom = AlgCatmullRom"
| "fir_resize_alg Gaussian = AlgGaussian"
| "fir_resize_alg Lanczos3 = AlgLanczos3"

definition fir_resize_exact :: "'img image_lib \<Rightarrow> 'img \<Rightarrow> nat \<Rightarrow> nat \<Rightarrow> filter_type \<Rightarrow> (any_error, 'img) result" where
  "fir_resize_exact il img nwidth nheight flt =
     (let nwidth = max nwidth 1; nheight = max nheight 1 in
      if (nwidth, nheight) = il_dimensions il img then Inr img
      else map_err (\<lambda>e. plain_error (''fast_image_resize failed for '' @ show_nat nwidth @ ''x'' @ show_nat nheight @ '': '' @ e))
             (il_resample il img nwidth nheight (fir_resize_alg flt)))"

definition fir_resize :: "'img image_lib \<Rightarrow> 'img \<Rightarrow> nat \<Rightarrow> nat \<Rightarrow> filter_type \<Rightarrow> (any_error, 'img) result" where
  "fir_resize il img nwidth nheight flt =
     (if (nwidth, nheight) = il_dimensions il img then Inr img
      else
        (case resize_dimensions (fst (il_dimensions il img)) (snd (il_dimensions il img)) nwidth nheight False of
           (width2, height2) \<Rightarrow> fir_resize_exact il img width2 height2 flt))"

definition fir_resize_to_fill ::
  "'img image_lib \<Rightarrow> 'img \<Rightarrow> nat \<Rightarrow> nat \<Rightarrow> filter_type \<Rightarrow> gravity \<Rightarrow> (any_error, 'img) result" where
  "fir_resize_to_fill il img nwidth nheight flt gravity =
     (case resize_dimensions (fst (il_dimensions il img)) (snd (il_dimensions il img)) nwidth nheight True of
        (width2, height2) \<Rightarrow>
          bindr (fir_resize_exact il img width2 height2 flt) (\<lambda>intermediate.
            case il_dimensions il intermediate of (iwidth, iheight) \<Rightarrow>
              Inr (il_crop_imm il intermediate (gravity_anchor gravity iwidth iheight nwidth nheight, (nwidth, nheight)))))"

section \<open>Rotation, extending and padding\<close>

definition apply_rotate :: "'img image_lib \<Rightarrow> 'img \<Rightarrow> int \<Rightarrow> 'img" where
  "apply_rotate il img degrees =
     (let d = degrees mod 360 in
      if d = 90 then il_rotate90 il img
      else if d = 180 then il_rotate180 il img
      else if d = 270 then il_rotate270 il img
      else img)"

definition apply_flip :: "'img image_lib \<Rightarrow> 'img \<Rightarrow> bool \<Rightarrow> bool \<Rightarrow> 'img" where
  "apply_flip il img horizontal vertical =
     (let img = (if horizontal then il_fliph il img else img) in if vertical then il_flipv il img else img)"

definition embed_on_background :: "'img image_lib \<Rightarrow> 'img \<Rightarrow> nat \<Rightarrow> nat \<Rightarrow> nat \<Rightarrow> nat \<Rightarrow> rgb \<Rightarrow> 'img" where
  "embed_on_background il img new_w new_h off_x off_y background =
     (if il_has_alpha il img
      then (case background of (r, g, b) \<Rightarrow>
              il_of_rgba8 il (il_overlay_rgba il (plain_raster new_w new_h (r, g, b, 255)) (il_to_rgba8 il img) (int off_x) (int off_y)))
      else il_of_rgb8 il (il_overlay_rgb il (plain_raster new_w new_h background) (il_to_rgb8 il img) (int off_x) (int off_y)))"

definition apply_extend :: "'img image_lib \<Rightarrow> 'img \<Rightarrow> nat \<Rightarrow> nat \<Rightarrow> rgb \<Rightarrow> 'img" where
  "apply_extend il img target_w target_h background =
     (case il_dimensions il img of (w, h) \<Rightarrow>
        if w \<ge> target_w \<and> h \<ge> target_h then img
        else
          (let new_w = max w target_w; new_h = max h target_h;
               off_x = (new_w - w) div 2; off_y = (new_h - h) div 2
           in embed_on_background il img new_w new_h off_x off_y background))"

definition saturating_add32 :: "nat \<Rightarrow> nat \<Rightarrow> nat" where
  "saturating_add32 a b = min (a + b) u32_max"

definition apply_padding :: "'img image_lib \<Rightarrow> 'img \<Rightarrow> padding \<Rightarrow> rgb \<Rightarrow> 'img" where
  "apply_padding il img padding background =
     (case il_dimensions il img of (w, h) \<Rightarrow>
        let new_w = saturating_add32 (saturating_add32 w (pad_left padding)) (pad_right padding);
            new_h = saturating_add32 (saturating_add32 h (pad_top padding)) (pad_bottom padding)
        in embed_on_background il img new_w new_h (pad_left padding) (pad_top padding) background)"

section \<open>The resize step\<close>

definition resize_step ::
  "'img image_lib \<Rightarrow> 'img \<Rightarrow> nat option \<Rightarrow> nat option \<Rightarrow> filter_type \<Rightarrow> resize_query \<Rightarrow> nat \<Rightarrow> nat \<Rightarrow> (any_error, 'img) result" where
  "resize_step il img effective_width effective_height flt params src_width src_height =
     (case (effective_width, effective_height) of
        (Some w, None) \<Rightarrow> fir_resize il img w u32_max flt
      | (None, Some h) \<Rightarrow> fir_resize il img u32_max h flt
      | (Some w, Some h) \<Rightarrow>
          (case rq_resize_type params of
             Fit \<Rightarrow> fir_resize il img w h flt
           | Fill \<Rightarrow> fir_resize_to_fill il img w h flt (rq_gravity params)
           | Force \<Rightarrow> fir_resize_exact il img w h flt
           | AutoResize \<Rightarrow>
               (let src_landscape = src_width \<ge> src_height; dst_landscape = w \<ge> h in
                if src_landscape = dst_landscape then fir_resize_to_fill il img w h flt (rq_gravity params)
                else fir_resize il img w h flt))
      | (None, None) \<Rightarrow> Inr img)"

definition resize_and_filter ::
  "'img image_lib \<Rightarrow> 'img \<Rightarrow> nat option \<Rightarrow> nat option \<Rightarrow> filter_type \<Rightarrow> resize_query \<Rightarrow> nat \<Rightarrow> nat \<Rightarrow> (any_error, 'img) result" where
  "resize_and_filter il img effective_width effective_height flt params src_width src_height =
     bindr (resize_step il img effective_width effective_height flt params src_width src_height) (\<lambda>img.
       let img = apply_rotate il img (rq_rotate params);
           img = apply_flip il img (rq_flip_horizontal params) (rq_flip_vertical params);
           img = (if rq_grayscale params = Some True then il_grayscale il img else img);
           img = (case rq_blur_sigma params of
                    Some sigma \<Rightarrow> if f_lt f_zero sigma then il_blur il img sigma else img
                  | None \<Rightarrow> img)
       in Inr img)"

definition resize_filter :: "nat option \<Rightarrow> nat option \<Rightarrow> filter_type" where
  "resize_filter effective_width effective_height =
     (case (effective_width, effective_height) of
        (Some w, Some h) \<Rightarrow> if w \<le> 300 \<and> h \<le> 300 then Triangle else Lanczos3
      | _ \<Rightarrow> Lanczos3)"

section \<open>The watermark\<close>

definition build_shadow_layer :: "'img image_lib \<Rightarrow> rgba raster \<Rightarrow> rfloat \<Rightarrow> rgba raster" where
  "build_shadow_layer il watermark sigma =
     il_to_rgba8 il (il_blur il (il_of_rgba8 il (shadow_silhouette watermark)) sigma)"

definition scaled_target :: "nat \<Rightarrow> rfloat \<Rightarrow> nat" where
  "scaled_target base scale = f_as_uint (2 ^ 32) (f_max (f_round (f_mul f64_fmt (f64_of_nat base) scale)) f_one)"

definition size_watermark ::
  "'img image_lib \<Rightarrow> 'img \<Rightarrow> watermark_query \<Rightarrow> nat \<times> nat \<Rightarrow> (any_error, 'img) result" where
  "size_watermark il watermark_img wm base =
     (case (case wq_size wm of Some (w, h) \<Rightarrow> if w > 0 \<or> h > 0 then Some (w, h) else None | None \<Rightarrow> None) of
        Some (w, h) \<Rightarrow>
          (let (target_w, target_h) = (if w = 0 then (u32_max, h) else if h = 0 then (w, u32_max) else (w, h))
           in fir_resize il watermark_img target_w target_h Lanczos3)
      | None \<Rightarrow>
          if f_lt f_zero (wq_scale wm)
          then fir_resize il watermark_img (scaled_target (fst base) (wq_scale wm)) (scaled_target (snd base) (wq_scale wm)) Lanczos3
          else Inr watermark_img)"

definition apply_watermark ::
  "'img image_lib \<Rightarrow> 'img \<Rightarrow> string \<Rightarrow> watermark_query \<Rightarrow> (any_error, 'img) result" where
  "apply_watermark il base watermark_bytes wm =
     bindr (map_err (with_context ''Failed to decode watermark image'') (il_load_from_memory il watermark_bytes)) (\<lambda>watermark_img.
     case il_dimensions il base of (base_width, base_height) \<Rightarrow>
     bindr (size_watermark il watermark_img wm (base_width, base_height)) (\<lambda>watermark_img.
       let watermark_rgba = il_to_rgba8 il watermark_img;
           watermark_rgba = (if \<not> f_eq (wq_rotate wm) f_zero
             then rotate_rgba (il_sin_cos il) watermark_rgba (wq_rotate wm) else watermark_rgba);
           (x, y) = watermark_position_fn (wq_position wm) (wq_x_offset wm) (wq_y_offset wm) base_width base_height
             (ra_width watermark_rgba) (ra_height watermark_rgba);
           canvas = il_to_rgba8 il base;
           opacity = f_clamp f_zero f_one (wq_opacity wm);
           canvas = (case wq_shadow wm of
               Some sigma \<Rightarrow>
                 if f_lt f_zero sigma then composite_over canvas (build_shadow_layer il watermark_rgba sigma) x y f_one else canvas
             | None \<Rightarrow> canvas)
       in Inr (il_of_rgba8 il (composite_over canvas watermark_rgba x y opacity))))"

section \<open>Sizes\<close>

named_theorems image_sizes

lemma image_lib_sizesD [image_sizes]:
  assumes "image_lib_sizes il"
  shows "il_dimensions il (il_of_rgba8 il r) = dimensions r" "il_has_alpha il (il_of_rgba8 il r)"
    "il_dimensions il (il_of_rgb8 il c) = dimensions c" "\<not> il_has_alpha il (il_of_rgb8 il c)"
    "dimensions (il_to_rgba8 il i) = il_dimensions il i" "dimensions (il_to_rgb8 il i) = il_dimensions il i"
    "il_dimensions il (il_crop_imm il i ((x, y), (w, h))) = (min w (fst (il_dimensions il i) - x), min h (snd (il_dimensions il i) - y))"
    "il_dimensions il (il_rotate90 il i) = prod.swap (il_dimensions il i)" "il_dimensions il (il_rotate180 il i) = il_dimensions il i"
    "il_dimensions il (il_rotate270 il i) = prod.swap (il_dimensions il i)" "il_dimensions il (il_fliph il i) = il_dimensions il i"
    "il_dimensions il (il_flipv il i) = il_dimensions il i" "il_dimensions il (il_grayscale il i) = il_dimensions il i"
    "il_dimensions il (il_blur il i s) = il_dimensions il i"
    "il_dimensions il (il_apply_orientation il i p) = swap_if (swaps_axes p) (il_dimensions il i)"
    "dimensions (il_overlay_rgba il r r' u v) = dimensions r" "dimensions (il_overlay_rgb il c c' u v) = dimensions c"
    "il_resample il i w h alg = Inr j \<Longrightarrow> il_dimensions il j = (w, h)"
  using assms unfolding image_lib_sizes_def by simp_all

lemma f_max_one_pos:
  assumes "\<And>s m. x = Fin s m \<Longrightarrow> 0 \<le> m" "2 \<le> bound"
  shows "1 \<le> f_as_uint bound (f_max x f_one)"
proof -
  have one: "1 \<le> f_as_uint bound f_one"
    using assms(2) by simp
  have big: "1 \<le> f_as_uint bound (Fin False m)" if "1 \<le> m" for m
  proof -
    have "1 \<le> nat \<lfloor>m\<rfloor>"
      using that by (simp add: le_nat_iff le_floor_iff)
    then show ?thesis
      using assms(2) by simp
  qed
  show ?thesis
  proof (cases x)
    case NaN
    then show ?thesis
      using one by (simp add: f_max_def)
  next
    case (Infin s)
    then show ?thesis
      using one assms(2) by (cases s) (simp_all add: f_max_def)
  next
    case (Fin s m)
    then have "0 \<le> m"
      by (rule assms(1))
    then show ?thesis
      using one big [of m] Fin by (cases s) (simp_all add: f_max_def not_less)
  qed
qed

lemma f_mul_mag: "f_mul F a b = Fin s m \<Longrightarrow> 0 \<le> m"
  by (induction F a b rule: f_mul.induct) (auto simp: round_float_def Let_def split: if_splits)

lemma scaled_side_pos: "2 \<le> bound \<Longrightarrow> 1 \<le> f_as_uint bound (scaled_side side ratio)"
proof -
  have "0 \<le> m" if "f_round (f_mul f64_fmt (f64_of_nat side) ratio) = Fin s m" for s m
    using that f_mul_mag by (cases "f_mul f64_fmt (f64_of_nat side) ratio") fastforce+
  then show "2 \<le> bound \<Longrightarrow> 1 \<le> f_as_uint bound (scaled_side side ratio)"
    unfolding scaled_side_def by (rule f_max_one_pos)
qed

lemma resize_dimensions_pos: "resize_dimensions w h nw nh fill = (a, b) \<Longrightarrow> 1 \<le> a \<and> 1 \<le> b"
  using scaled_side_pos [of "2 ^ 64"] scaled_side_pos [of "2 ^ 32"]
  by (fastforce simp: resize_dimensions_def Let_def u32_max_def split: if_splits)

lemma resize_dimensions_same:
  assumes "0 < w" "w < 2 ^ 32" "0 < h" "h < 2 ^ 32"
  shows "resize_dimensions w h w h False = (w, h)"
proof -
  obtain a b where ab: "resize_dimensions w h w h False = (a, b)"
    by fastforce
  have r: "r64 (of_nat w / of_nat w) = 1" "r64 (of_nat h / of_nat h) = 1"
    using assms r64_pow2 [of 0] by simp_all
  have own: "scaled_floor w 1 = int w" "scaled_floor h 1 = int h"
    using scaled_floor_own [OF assms(1,2,1,2)] scaled_floor_own [OF assms(3,4,3,4)] by (simp_all only: r)
  show ?thesis
    using resize_dimensions_cases [OF assms assms(2,4) ab] assms r64_pow2 [of 0]
    by (auto simp: r own ab u32_max_def)
qed

lemma dimensions_plain [simp]: "dimensions (plain_raster w h p) = (w, h)"
  by (simp add: dimensions_def plain_raster_def)

lemma fir_resize_exact_size:
  assumes "image_lib_sizes il" "fir_resize_exact il img w h f = Inr j"
  shows "il_dimensions il j = (max w 1, max h 1)"
  using assms(2) image_lib_sizesD(18) [OF assms(1)]
  by (auto simp: fir_resize_exact_def Let_def map_err_Inr_iff split: if_splits)

lemma fir_resize_size:
  assumes "image_lib_sizes il" "fir_resize il img w h f = Inr j" "il_dimensions il img = (sw, sh)"
    and "0 < sw" "sw < 2 ^ 32" "0 < sh" "sh < 2 ^ 32"
  shows "il_dimensions il j = resize_dimensions sw sh w h False"
proof (cases "(w, h) = (sw, sh)")
  case True
  then show ?thesis
    using assms(2,3) resize_dimensions_same [OF assms(4-7)] by (auto simp: fir_resize_def)
next
  case False
  obtain a b where ab: "resize_dimensions sw sh w h False = (a, b)"
    by fastforce
  then have "fir_resize_exact il img a b f = Inr j"
    using False assms(2,3) by (auto simp: fir_resize_def)
  from fir_resize_exact_size [OF assms(1) this] show ?thesis
    using resize_dimensions_pos [OF ab] by (simp add: ab max_def)
qed

lemma fir_resize_to_fill_size:
  assumes "image_lib_sizes il" "fir_resize_to_fill il img w h f g = Inr j" "il_dimensions il img = (sw, sh)"
    and "resize_dimensions sw sh w h True = (a, b)" "a < 2 ^ 32" "b < 2 ^ 32"
  shows "il_dimensions il j = (min w a, min h b)"
proof -
  obtain k where k: "fir_resize_exact il img a b f = Inr k"
      "j = il_crop_imm il k (gravity_anchor g (fst (il_dimensions il k)) (snd (il_dimensions il k)) w h, (w, h))"
    using assms(2) by (auto simp: fir_resize_to_fill_def assms(3,4) bindr_Inr_iff case_prod_unfold)
  have d: "il_dimensions il k = (a, b)"
    using fir_resize_exact_size [OF assms(1) k(1)] resize_dimensions_pos [OF assms(4)] by (simp add: max_def)
  obtain x y where g: "gravity_anchor g a b w h = (x, y)"
    by fastforce
  show ?thesis
    using gravity_anchor_inside [OF assms(5,6) g] by (auto simp: k(2) d g image_lib_sizesD [OF assms(1)])
qed

lemma scale_axis_bounds: "1 \<le> scale_axis zoom dpr v" "scale_axis zoom dpr v < 2 ^ 32"
proof -
  have "0 \<le> m" if "f_round (f_mul f64_fmt a b) = Fin s m" for a b s m
    using that f_mul_mag by (cases "f_mul f64_fmt a b") fastforce+
  then show "1 \<le> scale_axis zoom dpr v"
    unfolding scale_axis_def by (intro f_max_one_pos) simp_all
  show "scale_axis zoom dpr v < 2 ^ 32"
    unfolding scale_axis_def by (rule f_as_uint_bound) simp
qed

lemma resize_dimensions_u32: "resize_dimensions w h nw nh fill = (a, b) \<Longrightarrow> a < 2 ^ 32 \<and> b < 2 ^ 32"
  using f_as_uint_bound [of "2 ^ 32"] by (fastforce simp: resize_dimensions_def Let_def u32_max_def split: if_splits)

definition fills :: "resize_query \<Rightarrow> nat \<Rightarrow> nat \<Rightarrow> nat \<times> nat \<Rightarrow> bool" where
  "fills params src_width src_height box \<longleftrightarrow> rq_resize_type params = Fill
     \<or> rq_resize_type params = AutoResize \<and> (src_width \<ge> src_height) = (fst box \<ge> snd box)"

lemma resize_step_size:
  assumes il: "image_lib_sizes il" and d: "il_dimensions il img = (sw, sh)" "0 < sw" "sw < 2 ^ 32" "0 < sh" "sh < 2 ^ 32"
    and j: "resize_step il img ew eh flt params sw sh = Inr j"
    and box: "es_resize_box (effective_resize_box params sw sh) = (ew, eh)"
  shows "il_dimensions il j = (case (ew, eh) of
      (Some w, Some h) \<Rightarrow> if fills params sw sh (w, h)
        then (min w (fst (effective_resize_target sw sh params)), min h (snd (effective_resize_target sw sh params)))
        else effective_resize_target sw sh params
    | _ \<Rightarrow> effective_resize_target sw sh params)"
proof -
  note fit = fir_resize_size [OF il _ d]
  have fill: "il_dimensions il k = (min w (fst (resize_dimensions sw sh w h True)), min h (snd (resize_dimensions sw sh w h True)))"
    if "fir_resize_to_fill il img w h flt g = Inr k" for w h g k
    using fir_resize_to_fill_size [OF il that d(1)] resize_dimensions_u32 by (metis prod.collapse)
  show ?thesis
    using j fit fill fir_resize_exact_size [OF il] d(1)
    by (cases ew; cases eh; cases "rq_resize_type params")
      (auto simp: resize_step_def effective_resize_target_def box fills_def Let_def split: if_splits)
qed

lemma filter_size:
  assumes il: "image_lib_sizes il" and deg: "rq_rotate params \<in> {0, 90, 180, 270}"
    and j: "resize_and_filter il img ew eh flt params sw sh = Inr j"
  shows "\<exists>k. resize_step il img ew eh flt params sw sh = Inr k
    \<and> il_dimensions il j = swap_if (rotate_swaps_axes (rq_rotate params)) (il_dimensions il k)"
proof -
  have rot: "il_dimensions il (apply_rotate il k (rq_rotate params)) = swap_if (rotate_swaps_axes (rq_rotate params)) (il_dimensions il k)" for k
    using deg by (auto simp: apply_rotate_def rotate_swaps_axes_def swap_if_def image_lib_sizesD [OF il] prod.swap_def)
  have flip: "il_dimensions il (apply_flip il k a b) = il_dimensions il k" for k a b
    by (simp add: apply_flip_def image_lib_sizesD [OF il])
  show ?thesis
    using j by (auto simp: resize_and_filter_def bindr_Inr_iff Let_def rot flip image_lib_sizesD [OF il] split: option.splits if_splits)
qed

text \<open>
  C12. The prediction behind shrink-on-load.  For a source of any size and any request, when
  the resize step succeeds its picture has exactly the size that
  \<^verbatim>\<open>effective_resize_target\<close> computes before the decode, or, where the request fills its
  box, that size cropped to the box; the right-angle rotation then swaps the axes, and
  flips and filters keep the size.  So the two computations never drift apart.
\<close>
theorem resize_prediction_exact:
  fixes params :: resize_query and sw sh :: nat
  defines "box \<equiv> es_resize_box (effective_resize_box params sw sh)"
    and "target \<equiv> effective_resize_target sw sh params"
  assumes "image_lib_sizes il" "il_dimensions il img = (sw, sh)" "0 < sw" "sw < 2 ^ 32" "0 < sh" "sh < 2 ^ 32"
    and "rq_rotate params \<in> {0, 90, 180, 270}"
    and "resize_and_filter il img (fst box) (snd box) flt params sw sh = Inr j"
  shows "il_dimensions il j = swap_if (rotate_swaps_axes (rq_rotate params))
    (case box of
       (Some w, Some h) \<Rightarrow> if fills params sw sh (w, h) then (min w (fst target), min h (snd target)) else target
     | _ \<Rightarrow> target)"
proof -
  obtain k where k: "resize_step il img (fst box) (snd box) flt params sw sh = Inr k"
      "il_dimensions il j = swap_if (rotate_swaps_axes (rq_rotate params)) (il_dimensions il k)"
    using filter_size [OF assms(3,9,10)] by blast
  have "es_resize_box (effective_resize_box params sw sh) = (fst box, snd box)"
    by (simp add: box_def)
  from resize_step_size [OF assms(3-8) k(1) this] show ?thesis
    unfolding k(2) target_def by simp
qed

section \<open>Canvases\<close>

lemma embed_size: "image_lib_sizes il \<Longrightarrow> il_dimensions il (embed_on_background il img w h x y bg) = (w, h)"
  by (auto simp: embed_on_background_def image_lib_sizesD split: prod.splits)

lemma apply_extend_size:
  "image_lib_sizes il \<Longrightarrow> il_dimensions il (apply_extend il img tw th bg)
     = (max (fst (il_dimensions il img)) tw, max (snd (il_dimensions il img)) th)"
  by (cases "il_dimensions il img") (auto simp: apply_extend_def Let_def embed_size)

text \<open>The original lies in the middle of an extended canvas, up to one pixel.\<close>

lemma extend_centred:
  fixes w target :: nat
  defines "off \<equiv> (max w target - w) div 2"
  shows "off + w \<le> max w target" "max w target - (off + w) - off \<le> 1"
  by (auto simp: off_def max_def)

lemma apply_padding_size:
  "image_lib_sizes il \<Longrightarrow> il_dimensions il img = (w, h) \<Longrightarrow>
     w + pad_left pad + pad_right pad < 2 ^ 32 \<Longrightarrow> h + pad_top pad + pad_bottom pad < 2 ^ 32 \<Longrightarrow>
     il_dimensions il (apply_padding il img pad bg) = (w + pad_left pad + pad_right pad, h + pad_top pad + pad_bottom pad)"
  by (simp add: apply_padding_def Let_def embed_size saturating_add32_def u32_max_def)

lemma apply_watermark_size:
  assumes il: "image_lib_sizes il" and "apply_watermark il img bytes wm = Inr j"
  shows "il_dimensions il j = il_dimensions il img" "il_has_alpha il j"
proof -
  obtain c w x y op where j: "j = il_of_rgba8 il (composite_over c w x y op)" "dimensions c = dimensions (il_to_rgba8 il img)"
    using assms(2)
    by (fastforce simp: apply_watermark_def bindr_Inr_iff Let_def dimensions_def case_prod_unfold split: option.splits if_splits)
  then show "il_dimensions il j = il_dimensions il img" "il_has_alpha il j"
    by (simp_all add: image_lib_sizesD [OF il]) (simp add: dimensions_def image_lib_sizesD(5) [OF il, symmetric])
qed

section \<open>A concrete library\<close>

text \<open>
  Pictures as buffers with an alpha flag, and a resampler that takes the nearest pixel
  at the same fraction: enough for every law to hold.
\<close>

definition crop_raster :: "rgba raster \<Rightarrow> rect \<Rightarrow> rgba raster" where
  "crop_raster img r = (case r of ((x, y), (w, h)) \<Rightarrow>
     \<lparr> ra_width = min w (ra_width img - x), ra_height = min h (ra_height img - y), ra_pixel = (\<lambda>i j. ra_pixel img (x + i) (y + j)) \<rparr>)"

definition sample_raster :: "rgba raster \<Rightarrow> nat \<Rightarrow> nat \<Rightarrow> rgba raster" where
  "sample_raster img w h = \<lparr> ra_width = w, ra_height = h,
     ra_pixel = (\<lambda>i j. ra_pixel img (i * ra_width img div w) (j * ra_height img div h)) \<rparr>"

definition turn_raster :: "rgba raster \<Rightarrow> rgba raster" where
  "turn_raster img = \<lparr> ra_width = ra_height img, ra_height = ra_width img,
     ra_pixel = (\<lambda>i j. ra_pixel img j (ra_height img - 1 - i)) \<rparr>"

definition mirror_raster :: "rgba raster \<Rightarrow> rgba raster" where
  "mirror_raster img = img\<lparr>ra_pixel := (\<lambda>i j. ra_pixel img (ra_width img - 1 - i) j)\<rparr>"

definition overlay_raster :: "'p raster \<Rightarrow> 'p raster \<Rightarrow> int \<Rightarrow> int \<Rightarrow> 'p raster" where
  "overlay_raster canvas p x y = canvas\<lparr>ra_pixel := (\<lambda>i j.
     if x \<le> int i \<and> int i < x + int (ra_width p) \<and> y \<le> int j \<and> int j < y + int (ra_height p)
     then ra_pixel p (nat (int i - x)) (nat (int j - y)) else ra_pixel canvas i j)\<rparr>"

definition raster_lib :: "(bool \<times> rgba raster) image_lib" where
  "raster_lib = \<lparr>
     il_dimensions = (\<lambda>(a, r). dimensions r), il_has_alpha = fst, il_to_rgba8 = snd,
     il_to_rgb8 = (\<lambda>(a, r). map_pixels (\<lambda>(x, y, z, w). (x, y, z)) r),
     il_of_rgba8 = (\<lambda>r. (True, r)), il_of_rgb8 = (\<lambda>r. (False, map_pixels (\<lambda>(x, y, z). (x, y, z, 255)) r)),
     il_crop_imm = (\<lambda>(a, r) c. (a, crop_raster r c)),
     il_rotate90 = (\<lambda>(a, r). (a, turn_raster r)), il_rotate180 = (\<lambda>(a, r). (a, turn_raster (turn_raster r))),
     il_rotate270 = (\<lambda>(a, r). (a, turn_raster (turn_raster (turn_raster r)))),
     il_fliph = (\<lambda>(a, r). (a, mirror_raster r)), il_flipv = (\<lambda>(a, r). (a, turn_raster (turn_raster (mirror_raster r)))),
     il_grayscale = id, il_blur = (\<lambda>i s. i),
     il_apply_orientation = (\<lambda>(a, r) p. (a, if swaps_axes p then turn_raster r else r)),
     il_overlay_rgba = overlay_raster, il_overlay_rgb = overlay_raster,
     il_resample = (\<lambda>(a, r) w h alg. Inr (a, sample_raster r w h)),
     il_load_from_memory = (\<lambda>bytes. Inr (True, plain_raster 1 1 (0, 0, 0, 255))),
     il_sin_cos = (\<lambda>x. (f_zero, f_one)) \<rparr>"

lemma raster_lib_sizes: "image_lib_sizes raster_lib"
  by (auto simp: image_lib_sizes_def raster_lib_def dimensions_def map_pixels_def crop_raster_def sample_raster_def
      turn_raster_def mirror_raster_def overlay_raster_def swap_if_def)

theorem resize_prediction_exact_witness:
  "\<exists>j. resize_and_filter raster_lib (False, plain_raster 200 400 (1, 2, 3, 255)) (Some 100) (Some 100) Lanczos3 thumbnail 200 400 = Inr j
     \<and> il_dimensions raster_lib j = effective_resize_target 200 400 thumbnail"
proof -
  let ?img = "(False, plain_raster 200 400 (1, 2, 3, 255)) :: bool \<times> rgba raster"
  have box: "es_resize_box (effective_resize_box thumbnail 200 400) = (Some 100, Some 100)"
    by (rule both_sides_target) (simp_all add: thumbnail_def resize_query_default_def)
  have q: "rq_resize_type thumbnail = Fit" "rq_rotate thumbnail = 0"
    by (simp_all add: thumbnail_def resize_query_default_def)
  have "\<exists>j. resize_and_filter raster_lib ?img (Some 100) (Some 100) Lanczos3 thumbnail 200 400 = Inr j"
    by (auto simp: resize_and_filter_def resize_step_def q fir_resize_def fir_resize_exact_def raster_lib_def Let_def
        split: prod.splits)
  then obtain j where j: "resize_and_filter raster_lib ?img (Some 100) (Some 100) Lanczos3 thumbnail 200 400 = Inr j"
    by blast
  have "il_dimensions raster_lib j = effective_resize_target 200 400 thumbnail"
    using resize_prediction_exact [OF raster_lib_sizes, of ?img 200 400 thumbnail Lanczos3 j] j
    by (simp add: box q fills_def raster_lib_def rotate_swaps_axes_def swap_if_def)
  then show ?thesis
    using j by blast
qed

end
