(* ===== verification/Codecs.thy ===== *)
theory Codecs
  imports Image_Ops
begin

text \<open>
  How \<^verbatim>\<open>src/src/services/image/handler.rs\<close> and \<^verbatim>\<open>avif_codec.rs\<close> drive the codecs: which
  decoder runs for which format, with which limits, fallbacks and metadata, and what each
  encoder is told.  The codecs are arguments: records of what their crates return, with
  panics as values where the code catches them.

  Shown: an oversized WebP or AVIF source is refused whatever its pixels would decode to;
  a JPEG falls back to the full decoder on every failure of the scaled one; and EXIF is
  read only where it is wanted.
\<close>

section \<open>Panics\<close>

text \<open>\<^verbatim>\<open>Inl\<close> is a panic, with its payload when that is a string.\<close>

type_synonym 'a panicking = "(string option, (any_error, 'a) result) result"

definition bindp :: "'a panicking \<Rightarrow> ('a \<Rightarrow> 'b panicking) \<Rightarrow> 'b panicking" where
  "bindp r f = (case r of Inl p \<Rightarrow> Inl p | Inr (Inl e) \<Rightarrow> Inr (Inl e) | Inr (Inr x) \<Rightarrow> f x)"

definition contextp :: "string \<Rightarrow> 'a panicking \<Rightarrow> 'a panicking" where
  "contextp msg r = map_sum id (map_err (with_context msg)) r"

definition catch_unwind :: "string \<Rightarrow> string \<Rightarrow> 'a panicking \<Rightarrow> (any_error, 'a) result" where
  "catch_unwind what non_string r =
     (case r of
        Inr result \<Rightarrow> result
      | Inl payload \<Rightarrow> Inl (plain_error (what @ '' panicked: '' @ unwrap_or payload non_string)))"

section \<open>The decoders\<close>

text \<open>What can be read off an \<^verbatim>\<open>ImageDecoder\<close> before it is consumed.\<close>

record 'img image_decoder =
  id_total_bytes :: nat
  id_set_limits :: "limits \<Rightarrow> (any_error, unit) result"
  id_orientation :: "orientation option"
  id_icc_profile :: "string option"
  id_exif_metadata :: "string option"
  id_dimensions :: "nat \<times> nat"
  id_decode :: "limits \<Rightarrow> (any_error, 'img) result"

datatype jpeg_pixel_format = L8 | RGB24 | CMYK32 | L16

text \<open>\<^verbatim>\<open>jpeg_decoder\<close>: decoding and the size afterwards depend on the size asked of \<^verbatim>\<open>scale\<close>.\<close>

record jpeg_decoder =
  jd_info :: "(nat \<times> nat) option"
  jd_scale :: "nat \<Rightarrow> nat \<Rightarrow> unit panicking"
  jd_decode :: "nat \<Rightarrow> nat \<Rightarrow> nat list panicking"
  jd_decoded_info :: "nat \<Rightarrow> nat \<Rightarrow> ((nat \<times> nat) \<times> jpeg_pixel_format) option"

text \<open>\<^verbatim>\<open>image_webp\<close>: the metadata reads depend on the memory limit.\<close>

record webp_decoder =
  wd_dimensions :: "nat \<times> nat"
  wd_is_animated :: bool
  wd_has_alpha :: bool
  wd_num_frames :: nat
  wd_output_buffer_size :: "nat option"
  wd_icc_profile :: "nat option \<Rightarrow> string option"
  wd_exif_metadata :: "nat option \<Rightarrow> string option"
  wd_read_frame :: "nat \<Rightarrow> (any_error, nat list \<times> nat) result"
  wd_read_image :: "nat list panicking"

record gif_decoder =
  gd_set_limits :: "limits \<Rightarrow> (any_error, unit) result"
  gd_dimensions :: "nat \<times> nat"
  gd_frames :: "(any_error, frame) result list"

text \<open>\<^verbatim>\<open>avif_decode\<close>'s picture: its pixels in rows without padding, its width and its height.\<close>

datatype avif_image =
    Rgba8 "(nat \<times> nat \<times> nat \<times> nat) list" nat nat
  | Rgb8 "(nat \<times> nat \<times> nat) list" nat nat
  | Gray8 "nat list" nat nat
  | Rgba16 "(nat \<times> nat \<times> nat \<times> nat) list" nat nat
  | Rgb16 "(nat \<times> nat \<times> nat) list" nat nat
  | Gray16 "nat list" nat nat

text \<open>
  A parser that hands out a value which is read by a second call, either of which may
  panic or fail, is a result in a result.
\<close>

record ('img, 'r) decoders =
  de_with_format :: "string \<Rightarrow> source_format \<Rightarrow> 'r"
  de_with_guessed_format :: "string \<Rightarrow> (any_error, 'r) result"
  de_into_dimensions :: "'r \<Rightarrow> (any_error, nat \<times> nat) result"
  de_into_decoder :: "limits \<Rightarrow> 'r \<Rightarrow> (any_error, 'img image_decoder) result"
  de_reserve :: "limits \<Rightarrow> nat \<Rightarrow> (any_error, limits) result"
  de_jpeg :: "string \<Rightarrow> jpeg_decoder panicking"
  de_webp :: "string \<Rightarrow> (any_error, webp_decoder) result"
  de_gif :: "string \<Rightarrow> (any_error, gif_decoder) result"
  de_read_avif :: "string \<Rightarrow> (nat \<times> nat) panicking panicking"
  de_from_avif :: "string \<Rightarrow> avif_image panicking panicking"
  de_from_exif_chunk :: "string \<Rightarrow> orientation option"
  de_rgba_from_raw :: "nat \<Rightarrow> nat \<Rightarrow> nat list \<Rightarrow> rgba raster option"
  de_rgb_from_raw :: "nat \<Rightarrow> nat \<Rightarrow> nat list \<Rightarrow> rgb raster option"
  de_gray_from_raw :: "nat \<Rightarrow> nat \<Rightarrow> nat list \<Rightarrow> 'img option"
  de_rgba16_from_raw :: "nat \<Rightarrow> nat \<Rightarrow> nat list \<Rightarrow> 'img option"
  de_rgb16_from_raw :: "nat \<Rightarrow> nat \<Rightarrow> nat list \<Rightarrow> 'img option"
  de_gray16_from_raw :: "nat \<Rightarrow> nat \<Rightarrow> nat list \<Rightarrow> 'img option"

text \<open>The picture, its orientation, its colour profile and its EXIF block.\<close>

type_synonym 'img decoded = "'img \<times> orientation \<times> string option \<times> string option"

definition make_reader :: "('img, 'r) decoders \<Rightarrow> string \<Rightarrow> source_format option \<Rightarrow> (any_error, 'r) result" where
  "make_reader de image_bytes format =
     (case format of
        Some format \<Rightarrow> Inr (de_with_format de image_bytes format)
      | None \<Rightarrow> map_err (with_context ''Failed to detect image format'') (de_with_guessed_format de image_bytes))"

text \<open>Of the AVIF container, the size its AV1 sequence header gives.\<close>

definition avif_peek_dimensions_inner :: "('img, 'r) decoders \<Rightarrow> string \<Rightarrow> (nat \<times> nat) panicking" where
  "avif_peek_dimensions_inner de image_bytes =
     bindp (contextp ''avif-parse: failed to parse AVIF container'' (de_read_avif de image_bytes))
       (contextp ''avif-parse: failed to parse AV1 sequence header'')"

definition avif_peek_dimensions :: "('img, 'r) decoders \<Rightarrow> string \<Rightarrow> (any_error, nat \<times> nat) result" where
  "avif_peek_dimensions de image_bytes =
     catch_unwind ''avif-parse header parse'' ''avif-parse header parse panicked with a non-string payload''
       (avif_peek_dimensions_inner de image_bytes)"

definition peek_dimensions :: "('img, 'r) decoders \<Rightarrow> string \<Rightarrow> source_format option \<Rightarrow> (any_error, nat \<times> nat) result" where
  "peek_dimensions de image_bytes format =
     (if format = Some FmtAvif then avif_peek_dimensions de image_bytes
      else if format = Some FmtWebP
      then bindr (map_err (with_context ''Failed to read WebP header'') (de_webp de image_bytes)) (\<lambda>decoder. Inr (wd_dimensions decoder))
      else bindr (make_reader de image_bytes format) (\<lambda>reader.
        map_err (with_context ''Failed to read image dimensions'') (de_into_dimensions de reader)))"

text \<open>The decoder with the allocation guard reserved, which the two paths below share.\<close>

definition open_decoder ::
  "('img, 'r) decoders \<Rightarrow> string \<Rightarrow> string \<Rightarrow> source_format option \<Rightarrow> nat \<Rightarrow> (any_error, 'img image_decoder \<times> limits) result" where
  "open_decoder de msg image_bytes format max_src_resolution_mp =
     bindr (make_reader de image_bytes format) (\<lambda>reader.
       let limits = build_decode_limits max_src_resolution_mp in
       bindr (map_err (with_context msg) (de_into_decoder de limits reader)) (\<lambda>decoder.
       bindr (map_err (with_context ''Failed to decode image'') (de_reserve de limits (id_total_bytes decoder))) (\<lambda>reserved_limits.
       bindr (map_err (with_context ''Failed to decode image'') (id_set_limits decoder reserved_limits)) (\<lambda>_.
         Inr (decoder, reserved_limits)))))"

definition decode_with_image_crate ::
  "('img, 'r) decoders \<Rightarrow> string \<Rightarrow> source_format option \<Rightarrow> nat \<Rightarrow> bool \<Rightarrow> (any_error, 'img decoded) result" where
  "decode_with_image_crate de image_bytes format max_src_resolution_mp want_metadata =
     bindr (open_decoder de ''Failed to construct image decoder'' image_bytes format max_src_resolution_mp) (\<lambda>(decoder, reserved_limits).
       let orientation = unwrap_or (id_orientation decoder) NoTransforms;
           icc_profile = id_icc_profile decoder;
           exif_metadata = (if want_metadata then id_exif_metadata decoder else None)
       in bindr (map_err (with_context ''Failed to decode image'') (id_decode decoder reserved_limits)) (\<lambda>img.
            Inr (img, orientation, icc_profile, exif_metadata)))"

section \<open>WebP\<close>

definition read_webp_pixels :: "'img image_lib \<Rightarrow> ('img, 'r) decoders \<Rightarrow> webp_decoder \<Rightarrow> 'img panicking" where
  "read_webp_pixels il de decoder =
     (case wd_dimensions decoder of (width, height) \<Rightarrow>
     bindp (Inr (ok_or (plain_error ''image-webp: image dimensions overflow the output buffer size'')
                   (wd_output_buffer_size decoder))) (\<lambda>output_buffer_size.
     bindp (contextp ''image-webp: failed to decode WebP pixels'' (wd_read_image decoder)) (\<lambda>buf.
       Inr (if wd_has_alpha decoder
            then ok_or (plain_error ''image-webp: decoded RGBA buffer size mismatch'')
                   (map_option (il_of_rgba8 il) (de_rgba_from_raw de width height buf))
            else ok_or (plain_error ''image-webp: decoded RGB buffer size mismatch'')
                   (map_option (il_of_rgb8 il) (de_rgb_from_raw de width height buf))))))"

definition decode_webp_inner ::
  "'img image_lib \<Rightarrow> ('img, 'r) decoders \<Rightarrow> string \<Rightarrow> nat \<Rightarrow> 'img decoded panicking" where
  "decode_webp_inner il de image_bytes max_src_resolution_mp =
     bindp (Inr (map_err (with_context ''image-webp: failed to read WebP header'') (de_webp de image_bytes))) (\<lambda>decoder.
     case wd_dimensions decoder of (width, height) \<Rightarrow>
     bindp (Inr (check_source_resolution width height max_src_resolution_mp)) (\<lambda>_.
       let memory_limit = lm_max_alloc (build_decode_limits max_src_resolution_mp);
           icc_profile = wd_icc_profile decoder memory_limit;
           exif_metadata = wd_exif_metadata decoder memory_limit;
           orientation = unwrap_or (Option.bind exif_metadata (de_from_exif_chunk de)) NoTransforms
       in bindp (read_webp_pixels il de decoder) (\<lambda>img. Inr (Inr (img, orientation, icc_profile, exif_metadata)))))"

definition decode_webp :: "'img image_lib \<Rightarrow> ('img, 'r) decoders \<Rightarrow> string \<Rightarrow> nat \<Rightarrow> (any_error, 'img decoded) result" where
  "decode_webp il de image_bytes max_src_resolution_mp =
     catch_unwind ''image-webp decode'' ''image-webp decode panicked with a non-string payload''
       (decode_webp_inner il de image_bytes max_src_resolution_mp)"

definition decode_webp_pixels :: "'img image_lib \<Rightarrow> ('img, 'r) decoders \<Rightarrow> string \<Rightarrow> (any_error, 'img) result" where
  "decode_webp_pixels il de image_bytes =
     catch_unwind ''image-webp decode'' ''image-webp decode panicked with a non-string payload''
       (bindp (Inr (map_err (with_context ''image-webp: failed to read WebP header'') (de_webp de image_bytes)))
          (read_webp_pixels il de))"

section \<open>AVIF\<close>

definition avif_dims :: "nat \<Rightarrow> nat \<Rightarrow> (any_error, nat \<times> nat) result" where
  "avif_dims width height =
     bindr (ok_or (plain_error ''avif-decode: image width does not fit in u32'') (if width < 2 ^ 32 then Some width else None)) (\<lambda>width.
     bindr (ok_or (plain_error ''avif-decode: image height does not fit in u32'') (if height < 2 ^ 32 then Some height else None)) (\<lambda>height.
       Inr (width, height)))"

definition rgba_components :: "(nat \<times> nat \<times> nat \<times> nat) list \<Rightarrow> nat list" where
  "rgba_components buf = concat (map (\<lambda>(r, g, b, a). [r, g, b, a]) buf)"

definition rgb_components :: "(nat \<times> nat \<times> nat) list \<Rightarrow> nat list" where
  "rgb_components buf = concat (map (\<lambda>(r, g, b). [r, g, b]) buf)"

definition avif_image_to_dynamic ::
  "'img image_lib \<Rightarrow> ('img, 'r) decoders \<Rightarrow> avif_image \<Rightarrow> (any_error, 'img) result" where
  "avif_image_to_dynamic il de picture =
     (case picture of
        Rgba8 buf width height \<Rightarrow> bindr (avif_dims width height) (\<lambda>(width, height).
          ok_or (plain_error ''avif-decode: decoded RGBA8 buffer size mismatch'')
            (map_option (il_of_rgba8 il) (de_rgba_from_raw de width height (rgba_components buf))))
      | Rgb8 buf width height \<Rightarrow> bindr (avif_dims width height) (\<lambda>(width, height).
          ok_or (plain_error ''avif-decode: decoded RGB8 buffer size mismatch'')
            (map_option (il_of_rgb8 il) (de_rgb_from_raw de width height (rgb_components buf))))
      | Gray8 buf width height \<Rightarrow> bindr (avif_dims width height) (\<lambda>(width, height).
          ok_or (plain_error ''avif-decode: decoded Gray8 buffer size mismatch'') (de_gray_from_raw de width height buf))
      | Rgba16 buf width height \<Rightarrow> bindr (avif_dims width height) (\<lambda>(width, height).
          ok_or (plain_error ''avif-decode: decoded RGBA16 buffer size mismatch'')
            (de_rgba16_from_raw de width height (rgba_components buf)))
      | Rgb16 buf width height \<Rightarrow> bindr (avif_dims width height) (\<lambda>(width, height).
          ok_or (plain_error ''avif-decode: decoded RGB16 buffer size mismatch'')
            (de_rgb16_from_raw de width height (rgb_components buf)))
      | Gray16 buf width height \<Rightarrow> bindr (avif_dims width height) (\<lambda>(width, height).
          ok_or (plain_error ''avif-decode: decoded Gray16 buffer size mismatch'') (de_gray16_from_raw de width height buf)))"

definition avif_decode_inner ::
  "'img image_lib \<Rightarrow> ('img, 'r) decoders \<Rightarrow> string \<Rightarrow> nat \<Rightarrow> 'img decoded panicking" where
  "avif_decode_inner il de image_bytes max_src_resolution_mp =
     bindp (contextp ''avif-parse: failed to parse AVIF container'' (de_read_avif de image_bytes)) (\<lambda>avif.
     bindp (contextp ''avif-parse: failed to parse AV1 sequence header'' avif) (\<lambda>(width, height).
     bindp (Inr (check_source_resolution width height max_src_resolution_mp)) (\<lambda>_.
     bindp (contextp ''avif-decode: failed to parse AVIF container'' (de_from_avif de image_bytes)) (\<lambda>decoder.
     bindp (contextp ''avif-decode: failed to decode AV1 frame'' decoder) (\<lambda>decoded.
     bindp (Inr (avif_image_to_dynamic il de decoded)) (\<lambda>dynamic_image.
       let metadata = parse_avif_metadata image_bytes
       in Inr (Inr (dynamic_image, am_orientation metadata, None, am_exif metadata))))))))"

definition avif_decode :: "'img image_lib \<Rightarrow> ('img, 'r) decoders \<Rightarrow> string \<Rightarrow> nat \<Rightarrow> (any_error, 'img decoded) result" where
  "avif_decode il de image_bytes max_src_resolution_mp =
     catch_unwind ''avif-decode decode'' ''avif-decode decode panicked with a non-string payload''
       (avif_decode_inner il de image_bytes max_src_resolution_mp)"

section \<open>JPEG\<close>

definition jpeg_scaled_decode_inner ::
  "'img image_lib \<Rightarrow> ('img, 'r) decoders \<Rightarrow> string \<Rightarrow> nat \<Rightarrow> 'img panicking" where
  "jpeg_scaled_decode_inner il de image_bytes scale_num =
     bindp (contextp ''jpeg-decoder: failed to read JPEG header'' (de_jpeg de image_bytes)) (\<lambda>decoder.
     bindp (Inr (ok_or (plain_error ''jpeg-decoder: missing image info after header read'') (jd_info decoder))) (\<lambda>(header_width, header_height).
       let requested_width = max (min (jpeg_scaled_dimension header_width scale_num) 65535) 1;
           requested_height = max (min (jpeg_scaled_dimension header_height scale_num) 65535) 1
       in
       bindp (contextp ''jpeg-decoder: failed to configure DCT-scaled decode'' (jd_scale decoder requested_width requested_height)) (\<lambda>_.
       bindp (contextp ''jpeg-decoder: failed to decode JPEG'' (jd_decode decoder requested_width requested_height)) (\<lambda>pixels.
       bindp (Inr (ok_or (plain_error ''jpeg-decoder: missing image info after decode'')
                     (jd_decoded_info decoder requested_width requested_height))) (\<lambda>((width, height), pixel_format).
         Inr (case pixel_format of
            L8 \<Rightarrow> ok_or (plain_error ''jpeg-decoder: decoded L8 buffer size did not match reported dimensions'')
                    (de_gray_from_raw de width height pixels)
          | RGB24 \<Rightarrow> ok_or (plain_error ''jpeg-decoder: decoded RGB24 buffer size did not match reported dimensions'')
                    (map_option (il_of_rgb8 il) (de_rgb_from_raw de width height pixels))
          | CMYK32 \<Rightarrow> ok_or (plain_error ''jpeg-decoder: decoded CMYK32 buffer size did not match reported dimensions'')
                    (map_option (il_of_rgb8 il) (de_rgb_from_raw de width height (cmyk_to_rgb pixels)))
          | L16 \<Rightarrow> Inl (plain_error ''jpeg-decoder: 16-bit grayscale JPEG is not supported'')))))))"

definition jpeg_scaled_decode ::
  "'img image_lib \<Rightarrow> ('img, 'r) decoders \<Rightarrow> string \<Rightarrow> nat \<Rightarrow> (any_error, 'img) result" where
  "jpeg_scaled_decode il de image_bytes scale_num =
     catch_unwind ''jpeg-decoder decode'' ''jpeg-decoder panicked with a non-string payload''
       (jpeg_scaled_decode_inner il de image_bytes scale_num)"

definition decode_jpeg_scaled ::
  "'img image_lib \<Rightarrow> ('img, 'r) decoders \<Rightarrow> string \<Rightarrow> nat \<Rightarrow> resize_query \<Rightarrow> (any_error, 'img decoded) result" where
  "decode_jpeg_scaled il de image_bytes max_src_resolution_mp params =
     bindr (open_decoder de ''Failed to construct image decoder for header read'' image_bytes (Some FmtJpeg) max_src_resolution_mp)
       (\<lambda>(decoder, reserved_limits).
       let orientation = unwrap_or (id_orientation decoder) NoTransforms;
           icc_profile = id_icc_profile decoder;
           exif_metadata = (if rq_strip_metadata params then None else id_exif_metadata decoder);
           scale_num = jpeg_decode_scale params (swaps_axes orientation) (id_dimensions decoder)
       in if scale_num = 8
          then bindr (map_err (with_context ''Failed to decode image'') (id_decode decoder reserved_limits)) (\<lambda>img.
                 Inr (img, orientation, icc_profile, exif_metadata))
          else bindr (jpeg_scaled_decode il de image_bytes scale_num) (\<lambda>img.
                 Inr (img, orientation, icc_profile, exif_metadata)))"

definition decode_with_limits ::
  "'img image_lib \<Rightarrow> ('img, 'r) decoders \<Rightarrow> string \<Rightarrow> source_format option \<Rightarrow> nat \<Rightarrow> resize_query \<Rightarrow> (any_error, 'img decoded) result" where
  "decode_with_limits il de image_bytes format max_src_resolution_mp params =
     (let full = decode_with_image_crate de image_bytes format max_src_resolution_mp (\<not> rq_strip_metadata params) in
      if format = Some FmtJpeg
      then (case decode_jpeg_scaled il de image_bytes max_src_resolution_mp params of Inr result \<Rightarrow> Inr result | Inl err \<Rightarrow> full)
      else if format = Some FmtWebP then decode_webp il de image_bytes max_src_resolution_mp
      else if format = Some FmtAvif then avif_decode il de image_bytes max_src_resolution_mp
      else full)"

section \<open>Animations\<close>

fun collect_frames_from :: "nat \<Rightarrow> nat \<Rightarrow> (any_error, frame) result list \<Rightarrow> (any_error, frame list) result" where
  "collect_frames_from max_frames index [] = Inr []"
| "collect_frames_from max_frames index (frame # frames) =
     (if index \<ge> max_frames
      then Inl (plain_error (''animated source exceeds the maximum of '' @ show_nat max_frames @ '' frames''))
      else bindr (map_err (with_context ''Failed to decode animation frame'') frame) (\<lambda>f.
           bindr (collect_frames_from max_frames (index + 1) frames) (\<lambda>fs. Inr (f # fs))))"

definition collect_frames_capped :: "(any_error, frame) result list \<Rightarrow> nat \<Rightarrow> (any_error, frame list) result" where
  "collect_frames_capped frames max_frames = collect_frames_from max_frames 0 frames"

fun read_webp_frames ::
  "'img image_lib \<Rightarrow> ('img, 'r) decoders \<Rightarrow> webp_decoder \<Rightarrow> nat list \<Rightarrow> (any_error, frame list) result" where
  "read_webp_frames il de decoder [] = Inr []"
| "read_webp_frames il de decoder (i # rest) =
     (case wd_dimensions decoder of (src_width, src_height) \<Rightarrow>
      bindr (map_err (with_context ''Failed to decode animation frame'') (wd_read_frame decoder i)) (\<lambda>(buf, duration_ms).
      bindr (ok_or (plain_error ''WebP: decoded animation frame buffer size mismatch'')
               (if wd_has_alpha decoder then de_rgba_from_raw de src_width src_height buf
                else map_option (\<lambda>rgb. il_to_rgba8 il (il_of_rgb8 il rgb)) (de_rgb_from_raw de src_width src_height buf))) (\<lambda>rgba.
      bindr (read_webp_frames il de decoder rest) (\<lambda>fs.
        Inr (\<lparr> fr_buffer = rgba, fr_delay = (duration_ms, 1) \<rparr> # fs)))))"

definition decode_animation_source ::
  "'img image_lib \<Rightarrow> ('img, 'r) decoders \<Rightarrow> string \<Rightarrow> source_format \<Rightarrow> performance_config
     \<Rightarrow> (any_error, (frame list \<times> nat \<times> nat) option) result" where
  "decode_animation_source il de image_bytes source_format config =
     (case source_format of
        FmtGif \<Rightarrow>
          bindr (map_err (with_context ''Failed to read GIF header'') (de_gif de image_bytes)) (\<lambda>decoder.
          bindr (map_err (with_context ''GIF source exceeds configured decode limits'')
                   (gd_set_limits decoder (build_decode_limits (pc_max_src_resolution_mp config)))) (\<lambda>_.
          case gd_dimensions decoder of (src_width, src_height) \<Rightarrow>
          bindr (check_source_resolution src_width src_height (pc_max_src_resolution_mp config)) (\<lambda>_.
          bindr (collect_frames_capped (gd_frames decoder) (pc_max_animation_frames config)) (\<lambda>frames.
            Inr (Some (frames, src_width, src_height))))))
      | FmtWebP \<Rightarrow>
          bindr (map_err (with_context ''Failed to read WebP header'') (de_webp de image_bytes)) (\<lambda>decoder.
          if \<not> wd_is_animated decoder then Inr None
          else
            (case wd_dimensions decoder of (src_width, src_height) \<Rightarrow>
             bindr (check_source_resolution src_width src_height (pc_max_src_resolution_mp config)) (\<lambda>_.
             if wd_num_frames decoder > pc_max_animation_frames config
             then Inl (plain_error (''animated source exceeds the maximum of '' @ show_nat (pc_max_animation_frames config) @ '' frames''))
             else bindr (ok_or (plain_error ''WebP source exceeds configured decode limits'') (wd_output_buffer_size decoder)) (\<lambda>_.
                  bindr (read_webp_frames il de decoder [0..<wd_num_frames decoder]) (\<lambda>frames.
                    Inr (Some (frames, src_width, src_height)))))))
      | _ \<Rightarrow> Inr None)"

section \<open>The encoders\<close>

record webp_params =
  wp_use_lossy :: bool
  wp_lossy_quality :: nat

record jpeg_params =
  jp_quality :: nat
  jp_no_subsampling :: bool
  jp_progressive_scans :: "nat option"
  jp_width :: nat
  jp_height :: nat

record avif_params =
  ap_quality :: nat
  ap_speed :: nat

text \<open>Each takes its settings, the colour profile and EXIF block that were set, and the picture.\<close>

record 'img encoders =
  en_webp :: "webp_params \<Rightarrow> string option \<Rightarrow> string option \<Rightarrow> rgba raster \<Rightarrow> (any_error, string) result"
  en_webp_frame :: "rgba raster \<Rightarrow> (any_error, string) result"
  en_png :: "string option \<Rightarrow> string option \<Rightarrow> 'img \<Rightarrow> (any_error, string) result"
  en_jpeg :: "jpeg_params \<Rightarrow> string option \<Rightarrow> string option \<Rightarrow> rgb raster \<Rightarrow> (any_error, string) result"
  en_avif :: "avif_params \<Rightarrow> string option \<Rightarrow> rgba raster \<Rightarrow> string panicking"
  en_write_to :: "source_format \<Rightarrow> 'img \<Rightarrow> (any_error, string) result"
  en_gif_set_repeat :: "(any_error, unit) result"
  en_gif_frames :: "frame list \<Rightarrow> (any_error, string) result"

definition non_empty :: "string option \<Rightarrow> string option" where
  "non_empty blob = (case blob of Some b \<Rightarrow> if b = [] then None else Some b | None \<Rightarrow> None)"

definition encode_webp ::
  "'img image_lib \<Rightarrow> 'img encoders \<Rightarrow> 'img \<Rightarrow> rfloat \<Rightarrow> bool \<Rightarrow> string option \<Rightarrow> string option \<Rightarrow> (any_error, string) result" where
  "encode_webp il en img quality lossless icc_profile exif_metadata =
     (let params = \<lparr> wp_use_lossy = \<not> lossless,
            wp_lossy_quality = f_as_uint 256 (f_clamp f_zero (Fin False 100) (f_round quality)) \<rparr>
      in map_err (with_context ''image-webp: failed to encode WebP'')
           (en_webp en params (non_empty icc_profile) (non_empty exif_metadata) (il_to_rgba8 il img)))"

definition encode_png ::
  "'img encoders \<Rightarrow> 'img \<Rightarrow> string option \<Rightarrow> string option \<Rightarrow> (any_error, string) result" where
  "encode_png en img icc_profile exif_metadata =
     map_err (with_context ''Failed to encode image to Png'') (en_png en icc_profile exif_metadata img)"

definition u16_try_from :: "nat \<Rightarrow> string \<Rightarrow> (any_error, nat) result" where
  "u16_try_from side msg = (if side < 65536 then Inr side else Inl (plain_error msg))"

definition encode_jpeg ::
  "'img image_lib \<Rightarrow> 'img encoders \<Rightarrow> 'img \<Rightarrow> nat \<Rightarrow> bool \<Rightarrow> bool \<Rightarrow> string option \<Rightarrow> string option \<Rightarrow> (any_error, string) result" where
  "encode_jpeg il en img quality progressive no_subsampling icc_profile exif_metadata =
     (let rgb = il_to_rgb8 il img in
      bindr (u16_try_from (ra_width rgb) (''jpeg-encoder: image width exceeds the JPEG format'' @ [CHR 0x27] @ ''s 65535px limit'')) (\<lambda>width.
      bindr (u16_try_from (ra_height rgb) (''jpeg-encoder: image height exceeds the JPEG format'' @ [CHR 0x27] @ ''s 65535px limit'')) (\<lambda>height.
        map_err (with_context ''jpeg-encoder: failed to encode JPEG'')
          (en_jpeg en \<lparr> jp_quality = quality, jp_no_subsampling = no_subsampling,
               jp_progressive_scans = (if progressive then Some 2 else None), jp_width = width, jp_height = height \<rparr>
             (non_empty icc_profile) (non_empty exif_metadata) rgb))))"

definition avif_encode_inner ::
  "'img encoders \<Rightarrow> rgba raster \<Rightarrow> nat \<Rightarrow> nat \<Rightarrow> string option \<Rightarrow> string panicking" where
  "avif_encode_inner en rgba quality speed exif_metadata =
     (if ra_width rgba > 0 \<and> ra_height rgba > 0
      then en_avif en \<lparr> ap_quality = max 1 (min quality 100), ap_speed = max 1 (min speed 10) \<rparr> (non_empty exif_metadata) rgba
      else Inr (Inl (plain_error ''ravif: cannot encode a zero-sized image'')))"

definition avif_encode ::
  "'img image_lib \<Rightarrow> 'img encoders \<Rightarrow> 'img \<Rightarrow> nat \<Rightarrow> nat \<Rightarrow> string option \<Rightarrow> (any_error, string) result" where
  "avif_encode il en img quality speed exif_metadata =
     catch_unwind ''ravif encode'' ''ravif encode panicked with a non-string payload''
       (avif_encode_inner en (il_to_rgba8 il img) quality speed exif_metadata)"

section \<open>Guards and fallbacks\<close>

lemma bindp_simps [simp]:
  "bindp (Inl p) f = Inl p" "bindp (Inr (Inl e)) f = Inr (Inl e)" "bindp (Inr (Inr x)) f = f x"
  by (simp_all add: bindp_def)

text \<open>The guard stands before the pixels: an oversized source is refused whatever they decode to, panics included.\<close>

lemma oversized_webp_refused:
  assumes "de_webp de bytes = Inr d" "check_source_resolution (fst (wd_dimensions d)) (snd (wd_dimensions d)) mp = Inl e"
  shows "decode_webp il de bytes mp = Inl e"
  using assms by (simp add: decode_webp_def decode_webp_inner_def catch_unwind_def case_prod_unfold)

lemma oversized_avif_refused:
  assumes "avif_peek_dimensions_inner de bytes = Inr (Inr dims)" "check_source_resolution (fst dims) (snd dims) mp = Inl e"
  shows "avif_decode il de bytes mp = Inl e"
proof -
  have "bindp (contextp ''avif-parse: failed to parse AVIF container'' (de_read_avif de bytes)) (\<lambda>avif.
      bindp (contextp ''avif-parse: failed to parse AV1 sequence header'' avif) f) = f dims" for f :: "nat \<times> nat \<Rightarrow> 'a decoded panicking"
    using assms(1) by (auto simp: avif_peek_dimensions_inner_def bindp_def split: sum.splits)
  then show ?thesis
    using assms(2) by (simp add: avif_decode_def avif_decode_inner_def catch_unwind_def case_prod_unfold)
qed

text \<open>A picture of the AVIF decoder whose sides do not fit 32 bits is refused, not truncated.\<close>

lemma avif_dims_iff: "avif_dims w h = Inr d \<longleftrightarrow> w < 2 ^ 32 \<and> h < 2 ^ 32 \<and> d = (w, h)"
  by (auto simp: avif_dims_def)

lemma length_components: "length (rgba_components buf) = 4 * length buf" "length (rgb_components buf') = 3 * length buf'"
  by (induction buf) (auto simp: rgba_components_def, induction buf', auto simp: rgb_components_def)

lemma jpeg_falls_back:
  "decode_jpeg_scaled il de bytes mp params = Inl e \<Longrightarrow>
     decode_with_limits il de bytes (Some FmtJpeg) mp params
       = decode_with_image_crate de bytes (Some FmtJpeg) mp (\<not> rq_strip_metadata params)"
  by (simp add: decode_with_limits_def)

text \<open>A panic of the scaled decoder is an error like any other, so it reaches the fallback too.\<close>

lemma jpeg_panic_falls_back:
  assumes "jpeg_scaled_decode_inner il de bytes (jpeg_decode_scale params (swaps_axes (unwrap_or (id_orientation d) NoTransforms)) (id_dimensions d)) = Inl p"
    and "open_decoder de ''Failed to construct image decoder for header read'' bytes (Some FmtJpeg) mp = Inr (d, l)"
    and "jpeg_decode_scale params (swaps_axes (unwrap_or (id_orientation d) NoTransforms)) (id_dimensions d) \<noteq> 8"
  shows "decode_with_limits il de bytes (Some FmtJpeg) mp params
    = decode_with_image_crate de bytes (Some FmtJpeg) mp (\<not> rq_strip_metadata params)"
  using assms by (simp add: decode_with_limits_def decode_jpeg_scaled_def jpeg_scaled_decode_def catch_unwind_def Let_def)

text \<open>At most the configured number of frames, and no frame is skipped.\<close>

lemma collect_frames_from_length:
  "collect_frames_from m i frames = Inr fs \<Longrightarrow> i \<le> m \<Longrightarrow> length fs = length frames \<and> i + length fs \<le> m"
proof (induction m i frames arbitrary: fs rule: collect_frames_from.induct)
  case (2 m i f rest)
  then show ?case
    by (fastforce simp: bindr_Inr_iff split: if_splits)
qed simp

lemma collect_frames_cap: "collect_frames_capped frames m = Inr fs \<Longrightarrow> length fs = length frames \<and> length fs \<le> m"
  using collect_frames_from_length [of m 0 frames fs] by (simp add: collect_frames_capped_def)

text \<open>A source with more frames is refused after the cap's own number of them, whatever the rest would decode to.\<close>

lemma collect_frames_from_bomb:
  assumes "i \<le> m" "list_all is_ok (take (m - i) frames)" "m - i < length frames"
  shows "collect_frames_from m i frames
    = Inl (plain_error (''animated source exceeds the maximum of '' @ show_nat m @ '' frames''))"
  using assms
proof (induction frames arbitrary: i)
  case (Cons f rest)
  show ?case
  proof (cases "i \<ge> m")
    case False
    then have d: "m - i = Suc (m - (i + 1))"
      by simp
    then have p: "is_ok f" "list_all is_ok (take (m - (i + 1)) rest)" "m - (i + 1) < length rest" "i + 1 \<le> m"
      using Cons.prems False by simp_all
    then obtain x where "f = Inr x"
      by (auto simp: is_ok_iff)
    then show ?thesis
      using False Cons.IH [OF p(4,2,3)] by simp
  qed simp
qed simp

lemma collect_frames_bomb:
  "list_all is_ok (take m frames) \<Longrightarrow> m < length frames \<Longrightarrow> collect_frames_capped frames m
    = Inl (plain_error (''animated source exceeds the maximum of '' @ show_nat m @ '' frames''))"
  unfolding collect_frames_capped_def by (rule collect_frames_from_bomb) simp_all

lemma read_webp_frames_length: "read_webp_frames il de d is = Inr fs \<Longrightarrow> length fs = length is"
  by (induction "is" arbitrary: fs) (auto simp: bindr_Inr_iff split: prod.splits)

lemma decode_animation_cap:
  assumes "decode_animation_source il de bytes format config = Inr (Some (frames, w, h))"
  shows "length frames \<le> pc_max_animation_frames config"
  using assms collect_frames_cap read_webp_frames_length
  by (fastforce simp: decode_animation_source_def bindr_Inr_iff case_prod_unfold split: source_format.splits if_splits)

end
