(* ===== verification/Source_Guard.thy ===== *)
theory Source_Guard
  imports Errors "HOL-Library.Word"
begin

unbundle bit_operations_syntax

text \<open>
  The guard of the source fetcher (\<^verbatim>\<open>src/src/services/image/source_guard.rs\<close>): schemes,
  the allowlist, the blocked address ranges, the many spellings of an IPv4 literal
  and the resolution of a host to one checked address.

  Addresses are machine words.  The address grammar and its printed form are those
  of the Rust standard library (\<^verbatim>\<open>core::net\<close>).  The \<^verbatim>\<open>url\<close> crate is not part of the
  repository: a parsed URL is a record of what the code reads from it, and parsing is
  an argument.  So is the DNS lookup.
\<close>

section \<open>Addresses\<close>

datatype ip_addr = V4 "32 word" | V6 "128 word"

record sock_addr =
  sa_ip :: ip_addr
  sa_port :: nat

definition octets :: "32 word \<Rightarrow> nat list" where
  "octets ip = map (\<lambda>k. unat (drop_bit k ip) mod 256) [24, 16, 8, 0]"

definition segments :: "128 word \<Rightarrow> nat list" where
  "segments ip = map (\<lambda>k. unat (drop_bit k ip) mod 65536) [112, 96, 80, 64, 48, 32, 16, 0]"

fun show_hex :: "nat \<Rightarrow> string" where
  "show_hex n = (if n < 16 then [hex_char n] else show_hex (n div 16) @ [hex_char (n mod 16)])"

declare show_hex.simps [simp del]

definition show_ipv4 :: "32 word \<Rightarrow> string" where
  "show_ipv4 ip = join_with ''.'' (map show_nat (octets ip))"

definition to_ipv4_mapped :: "128 word \<Rightarrow> 32 word option" where
  "to_ipv4_mapped ip = (if drop_bit 32 ip = 0xFFFF then Some (ucast ip) else None)"

text \<open>The first longest run of zero segments, as its start and length.\<close>

fun zero_run :: "nat \<Rightarrow> nat \<times> nat \<Rightarrow> nat \<times> nat \<Rightarrow> nat list \<Rightarrow> nat \<times> nat" where
  "zero_run i cur best [] = best"
| "zero_run i cur best (s # ss) =
     (if s = 0
      then (let cur' = (if snd cur = 0 then i else fst cur, snd cur + 1)
            in zero_run (i + 1) cur' (if snd cur' > snd best then cur' else best) ss)
      else zero_run (i + 1) (0, 0) best ss)"

definition show_ipv6 :: "128 word \<Rightarrow> string" where
  "show_ipv6 ip =
     (case to_ipv4_mapped ip of
        Some v4 \<Rightarrow> ''::ffff:'' @ show_ipv4 v4
      | None \<Rightarrow>
          (let segs = segments ip; (start, len) = zero_run 0 (0, 0) (0, 0) segs;
               hexes = (\<lambda>ss. join_with '':'' (map show_hex ss))
           in if len > 1 then hexes (take start segs) @ ''::'' @ hexes (drop (start + len) segs)
              else hexes segs))"

definition show_ip :: "ip_addr \<Rightarrow> string" where
  "show_ip a = (case a of V4 ip \<Rightarrow> show_ipv4 ip | V6 ip \<Rightarrow> show_ipv6 ip)"

section \<open>Rejections\<close>

datatype source_rejected =
    UnsupportedScheme string
  | NotAllowlisted string
  | BlockedIpLiteral string ip_addr
  | BlockedResolvedAddress string ip_addr
  | NoAddressesResolved string

definition display_rejected :: "source_rejected \<Rightarrow> string" where
  "display_rejected r = (case r of
       UnsupportedScheme scheme \<Rightarrow>
         ''Unsupported source URL scheme '' @ [CHR 0x27] @ scheme @ [CHR 0x27] @ '' (only http/https are allowed)''
     | NotAllowlisted url \<Rightarrow>
         ''Source URL '' @ [CHR 0x27] @ url @ [CHR 0x27] @ '' is not in the configured ALLOWED_SOURCES allowlist''
     | BlockedIpLiteral host addr \<Rightarrow>
         ''Source host '' @ [CHR 0x27] @ host @ [CHR 0x27] @ '' is a blocked IP literal ('' @ show_ip addr @ '')''
     | BlockedResolvedAddress host addr \<Rightarrow>
         ''Source host '' @ [CHR 0x27] @ host @ [CHR 0x27] @ '' resolves to a blocked address ('' @ show_ip addr @ '')''
     | NoAddressesResolved host \<Rightarrow>
         ''DNS resolution for host '' @ [CHR 0x27] @ host @ [CHR 0x27] @ '' returned no addresses'')"

definition rejected :: "source_rejected \<Rightarrow> any_error" where
  "rejected r = \<lparr> err_kind = SourceRejected, err_msg = display_rejected r \<rparr>"

section \<open>Schemes and the allowlist\<close>

record url =
  u_scheme :: string
  u_host :: "string option"
  u_port_or_default :: "nat option"
  u_path :: string
  u_text :: string

definition validate_scheme :: "url \<Rightarrow> (any_error, unit) result" where
  "validate_scheme u =
     (if u_scheme u = ''http'' \<or> u_scheme u = ''https'' then Inr ()
      else Inl (rejected (UnsupportedScheme (u_scheme u))))"

definition matches_allowed_prefix :: "(string \<Rightarrow> url option) \<Rightarrow> url \<Rightarrow> string \<Rightarrow> bool" where
  "matches_allowed_prefix parse u pre =
     (case parse pre of
        None \<Rightarrow> False
      | Some p \<Rightarrow>
          u_scheme u = u_scheme p \<and> u_host u \<noteq> None \<and> u_host u = u_host p
          \<and> u_port_or_default u = u_port_or_default p \<and> starts_with (u_path p) (u_path u))"

definition is_allowed_source :: "(string \<Rightarrow> url option) \<Rightarrow> url \<Rightarrow> string list \<Rightarrow> bool" where
  "is_allowed_source parse u allowed = list_ex (matches_allowed_prefix parse u) allowed"

section \<open>Blocked ranges\<close>

definition in_net :: "'a::len word \<Rightarrow> nat \<Rightarrow> 'a word \<Rightarrow> bool" where
  "in_net net len ip = (drop_bit (LENGTH('a) - len) ip = drop_bit (LENGTH('a) - len) net)"

definition v4 :: "nat \<Rightarrow> nat \<Rightarrow> nat \<Rightarrow> nat \<Rightarrow> 32 word" where
  "v4 a b c d = of_nat (a * 2 ^ 24 + b * 2 ^ 16 + c * 2 ^ 8 + d)"

definition cgnat_v4 :: "32 word \<Rightarrow> bool" where
  "cgnat_v4 = in_net (v4 100 64 0 0) 10"

definition link_local_v6 :: "128 word \<Rightarrow> bool" where
  "link_local_v6 = in_net (push_bit 112 0xFE80) 10"

definition unique_local_v6 :: "128 word \<Rightarrow> bool" where
  "unique_local_v6 = in_net (push_bit 112 0xFC00) 7"

definition is_private_v4 :: "32 word \<Rightarrow> bool" where
  "is_private_v4 ip = (in_net (v4 10 0 0 0) 8 ip \<or> in_net (v4 172 16 0 0) 12 ip \<or> in_net (v4 192 168 0 0) 16 ip)"

definition is_blocked_ipv4 :: "32 word \<Rightarrow> bool \<Rightarrow> bool \<Rightarrow> bool \<Rightarrow> bool" where
  "is_blocked_ipv4 ip allow_loopback allow_link_local allow_private =
     ((\<not> allow_loopback \<and> in_net (v4 127 0 0 0) 8 ip)
      \<or> (\<not> allow_link_local \<and> in_net (v4 169 254 0 0) 16 ip)
      \<or> (\<not> allow_private \<and> is_private_v4 ip)
      \<or> ip = 0
      \<or> ip = v4 255 255 255 255
      \<or> (\<not> allow_private \<and> cgnat_v4 ip))"

definition is_blocked_ipv6 :: "128 word \<Rightarrow> bool \<Rightarrow> bool \<Rightarrow> bool \<Rightarrow> bool" where
  "is_blocked_ipv6 ip allow_loopback allow_link_local allow_private =
     (case to_ipv4_mapped ip of
        Some mapped \<Rightarrow> is_blocked_ipv4 mapped allow_loopback allow_link_local allow_private
      | None \<Rightarrow>
          (\<not> allow_loopback \<and> ip = 1)
          \<or> ip = 0
          \<or> (\<not> allow_link_local \<and> link_local_v6 ip)
          \<or> (\<not> allow_private \<and> unique_local_v6 ip))"

definition is_blocked_ip_with_policy :: "ip_addr \<Rightarrow> bool \<Rightarrow> bool \<Rightarrow> bool \<Rightarrow> bool" where
  "is_blocked_ip_with_policy ip allow_loopback allow_link_local allow_private =
     (case ip of
        V4 a \<Rightarrow> is_blocked_ipv4 a allow_loopback allow_link_local allow_private
      | V6 a \<Rightarrow> is_blocked_ipv6 a allow_loopback allow_link_local allow_private)"

definition is_blocked_ip :: "ip_addr \<Rightarrow> bool" where
  "is_blocked_ip ip = is_blocked_ip_with_policy ip False False False"

section \<open>Literals\<close>

text \<open>A parser consumes a prefix or leaves the input alone (\<^verbatim>\<open>read_atomically\<close>).\<close>

type_synonym 'a reader = "string \<Rightarrow> ('a \<times> string) option"

fun take_digits :: "(char \<Rightarrow> nat option) \<Rightarrow> string \<Rightarrow> nat list \<times> string" where
  "take_digits dig [] = ([], [])"
| "take_digits dig (c # cs) =
     (case dig c of
        Some d \<Rightarrow> (let (ds, r) = take_digits dig cs in (d # ds, r))
      | None \<Rightarrow> ([], c # cs))"

definition read_number :: "nat \<Rightarrow> (char \<Rightarrow> nat option) \<Rightarrow> nat \<Rightarrow> nat \<Rightarrow> bool \<Rightarrow> nat reader" where
  "read_number radix dig max_digits bound allow_zero_prefix s =
     (let (ds, r) = take_digits dig s; n = foldl (\<lambda>a d. a * radix + d) 0 ds in
      if ds = [] \<or> length ds > max_digits \<or> n \<ge> bound then None
      else if \<not> allow_zero_prefix \<and> hd ds = 0 \<and> length ds > 1 then None
      else Some (n, r))"

definition read_char :: "char \<Rightarrow> unit reader" where
  "read_char c s = (case s of x # xs \<Rightarrow> if x = c then Some ((), xs) else None | [] \<Rightarrow> None)"

definition read_separator :: "char \<Rightarrow> bool \<Rightarrow> 'a reader \<Rightarrow> 'a reader" where
  "read_separator sep first inner s =
     (if first then inner s else Option.bind (read_char sep s) (\<lambda>(_, r). inner r))"

definition read_octet :: "nat reader" where
  "read_octet = read_number 10 to_digit10 3 256 False"

definition read_ipv4_addr :: "nat reader" where
  "read_ipv4_addr s =
     Option.bind (read_octet s) (\<lambda>(a, r1).
     Option.bind (read_separator CHR ''.'' False read_octet r1) (\<lambda>(b, r2).
     Option.bind (read_separator CHR ''.'' False read_octet r2) (\<lambda>(c, r3).
     Option.bind (read_separator CHR ''.'' False read_octet r3) (\<lambda>(d, r4).
       Some (a * 2 ^ 24 + b * 2 ^ 16 + c * 2 ^ 8 + d, r4)))))"

text \<open>The groups read, whether they end in an embedded IPv4 address, and the rest.\<close>

fun read_groups :: "nat \<Rightarrow> bool \<Rightarrow> string \<Rightarrow> nat list \<times> bool \<times> string" where
  "read_groups 0 first s = ([], False, s)"
| "read_groups (Suc n) first s =
     (case (if n > 0 then read_separator CHR '':'' first read_ipv4_addr s else None) of
        Some (a, r) \<Rightarrow> ([a div 65536, a mod 65536], True, r)
      | None \<Rightarrow>
          (case read_separator CHR '':'' first (read_number 16 to_digit16 4 65536 True) s of
             Some (g, r) \<Rightarrow> (let (gs, is_v4, r') = read_groups n False r in (g # gs, is_v4, r'))
           | None \<Rightarrow> ([], False, s)))"

definition of_segments :: "nat list \<Rightarrow> 128 word" where
  "of_segments segs = of_nat (foldl (\<lambda>a g. a * 65536 + g) 0 segs)"

definition read_ipv6_addr :: "(128 word) reader" where
  "read_ipv6_addr s =
     (let (head, head_v4, r) = read_groups 8 True s in
      if length head = 8 then Some (of_segments head, r)
      else if head_v4 then None
      else
        Option.bind (read_char CHR '':'' r) (\<lambda>(_, r1).
        Option.bind (read_char CHR '':'' r1) (\<lambda>(_, r2).
          let (tail, _, r3) = read_groups (8 - (length head + 1)) True r2
          in Some (of_segments (head @ replicate (8 - length head - length tail) 0 @ tail), r3))))"

definition parse_ip_addr :: "string \<Rightarrow> ip_addr option" where
  "parse_ip_addr s =
     (case (case read_ipv4_addr s of
              Some (a, r) \<Rightarrow> Some (V4 (of_nat a), r)
            | None \<Rightarrow> map_option (map_prod V6 id) (read_ipv6_addr s)) of
        Some (ip, []) \<Rightarrow> Some ip
      | _ \<Rightarrow> None)"

definition to_digit8 :: "char \<Rightarrow> nat option" where
  "to_digit8 c = (case to_digit10 c of Some d \<Rightarrow> if d < 8 then Some d else None | None \<Rightarrow> None)"

definition parse_flexible_u64 :: "string \<Rightarrow> nat option" where
  "parse_flexible_u64 part =
     (if part = [] then None
      else case (case strip_prefix ''0x'' part of Some h \<Rightarrow> Some h | None \<Rightarrow> strip_prefix ''0X'' part) of
        Some hex \<Rightarrow> parse_unsigned 16 to_digit16 (2 ^ 64) hex
      | None \<Rightarrow>
          if length part > 1 \<and> starts_with ''0'' part \<and> list_all is_ascii_digit part
          then parse_unsigned 8 to_digit8 (2 ^ 64) part
          else parse_u64 part)"

definition parse_ipv4_literal :: "string \<Rightarrow> (32 word) option" where
  "parse_ipv4_literal host =
     (let parts = split_on CHR ''.'' host in
      if parts = [] \<or> length parts > 4 then None
      else Option.bind (those (map parse_flexible_u64 parts)) (\<lambda>nums.
        Option.bind
          (case nums of
             [a] \<Rightarrow> Some a
           | [a, b] \<Rightarrow> if a > 0xFF \<or> b > 0x00FFFFFF then None else Some (push_bit 24 a OR b)
           | [a, b, c] \<Rightarrow>
               if a > 0xFF \<or> b > 0xFF \<or> c > 0xFFFF then None
               else Some (push_bit 24 a OR push_bit 16 b OR c)
           | [a, b, c, d] \<Rightarrow>
               if list_ex (\<lambda>n. n > 0xFF) [a, b, c, d] then None
               else Some (push_bit 24 a OR push_bit 16 b OR push_bit 8 c OR d)
           | _ \<Rightarrow> None)
          (\<lambda>value. if value < 2 ^ 32 then Some (of_nat value) else None)))"

definition parse_ip_literal :: "string \<Rightarrow> ip_addr option" where
  "parse_ip_literal host =
     (case parse_ip_addr host of Some ip \<Rightarrow> Some ip | None \<Rightarrow> map_option V4 (parse_ipv4_literal host))"

section \<open>Resolution\<close>

text \<open>\<^term>\<open>lookup\<close> is \<^verbatim>\<open>tokio::net::lookup_host\<close>, with a failure as \<^term>\<open>None\<close>.\<close>

definition first_blocked :: "bool \<Rightarrow> bool \<Rightarrow> bool \<Rightarrow> sock_addr list \<Rightarrow> sock_addr option" where
  "first_blocked allow_loopback allow_link_local allow_private addrs =
     List.find (\<lambda>a. is_blocked_ip_with_policy (sa_ip a) allow_loopback allow_link_local allow_private) addrs"

definition resolve_validated_addr ::
  "(string \<Rightarrow> nat \<Rightarrow> sock_addr list option) \<Rightarrow> string \<Rightarrow> nat \<Rightarrow> bool \<Rightarrow> bool \<Rightarrow> bool \<Rightarrow> (any_error, sock_addr) result" where
  "resolve_validated_addr lookup host port allow_loopback allow_link_local allow_private =
     (case parse_ip_literal host of
        Some ip \<Rightarrow>
          if is_blocked_ip_with_policy ip allow_loopback allow_link_local allow_private
          then Inl (rejected (BlockedIpLiteral host ip))
          else Inr \<lparr> sa_ip = ip, sa_port = port \<rparr>
      | None \<Rightarrow>
          (case lookup host port of
             None \<Rightarrow> Inl (plain_error (''DNS resolution failed for host '' @ [CHR 0x27] @ host @ [CHR 0x27]))
           | Some [] \<Rightarrow> Inl (rejected (NoAddressesResolved host))
           | Some addrs \<Rightarrow>
               (case first_blocked allow_loopback allow_link_local allow_private addrs of
                  Some a \<Rightarrow> Inl (rejected (BlockedResolvedAddress host (sa_ip a)))
                | None \<Rightarrow> Inr (hd addrs))))"

section \<open>The ranges as intervals\<close>

lemma in_net_iff:
  "in_net net len (ip :: 'a::len word) \<longleftrightarrow> unat ip div 2 ^ (LENGTH('a) - len) = unat net div 2 ^ (LENGTH('a) - len)"
  unfolding in_net_def word_unat_eq_iff unat_drop_bit_eq by (simp only: drop_bit_eq_div)

lemma div_eq_interval: "0 < k \<Longrightarrow> n div k = q \<longleftrightarrow> q * k \<le> n \<and> n < (q + 1) * k" for n k q :: nat
  by (metis Suc_eq_plus1 div_less_iff_less_mult less_Suc_eq_le less_eq_div_iff_mult_less_eq nle_le)

lemma unat_v4:
  assumes "a < 256" "b < 256" "c < 256" "d < 256"
  shows "unat (v4 a b c d) = a * 2 ^ 24 + b * 2 ^ 16 + c * 2 ^ 8 + d"
  using assms unfolding v4_def unat_of_nat by (simp add: take_bit_eq_mod)

definition dotted :: "nat \<Rightarrow> nat \<Rightarrow> nat \<Rightarrow> nat \<Rightarrow> nat" where
  "dotted a b c d = a * 2 ^ 24 + b * 2 ^ 16 + c * 2 ^ 8 + d"

definition within :: "nat \<Rightarrow> nat \<times> nat \<Rightarrow> bool" where
  "within n r = (fst r \<le> n \<and> n \<le> snd r)"

definition blocked_v4_ranges :: "bool \<Rightarrow> bool \<Rightarrow> bool \<Rightarrow> (nat \<times> nat) list" where
  "blocked_v4_ranges allow_loopback allow_link_local allow_private =
     [(dotted 0 0 0 0, dotted 0 0 0 0), (dotted 255 255 255 255, dotted 255 255 255 255)]
     @ (if allow_loopback then [] else [(dotted 127 0 0 0, dotted 127 255 255 255)])
     @ (if allow_link_local then [] else [(dotted 169 254 0 0, dotted 169 254 255 255)])
     @ (if allow_private then []
        else [(dotted 10 0 0 0, dotted 10 255 255 255), (dotted 172 16 0 0, dotted 172 31 255 255),
              (dotted 192 168 0 0, dotted 192 168 255 255), (dotted 100 64 0 0, dotted 100 127 255 255)])"

definition blocked_v6_ranges :: "bool \<Rightarrow> bool \<Rightarrow> bool \<Rightarrow> (nat \<times> nat) list" where
  "blocked_v6_ranges allow_loopback allow_link_local allow_private =
     [(0, 0)]
     @ (if allow_loopback then [] else [(1, 1)])
     @ (if allow_link_local then [] else [(0xFE80 * 2 ^ 112, 0xFEC0 * 2 ^ 112 - 1)])
     @ (if allow_private then [] else [(0xFC00 * 2 ^ 112, 0xFE00 * 2 ^ 112 - 1)])
     @ map (\<lambda>(lo, hi). (0xFFFF * 2 ^ 32 + lo, 0xFFFF * 2 ^ 32 + hi))
         (blocked_v4_ranges allow_loopback allow_link_local allow_private)"

lemma blocked_ipv4_ranges:
  "is_blocked_ipv4 ip al ll ap \<longleftrightarrow> list_ex (within (unat ip)) (blocked_v4_ranges al ll ap)"
proof -
  have net: "in_net (v4 127 0 0 0) 8 ip \<longleftrightarrow> within (unat ip) (dotted 127 0 0 0, dotted 127 255 255 255)"
    "in_net (v4 169 254 0 0) 16 ip \<longleftrightarrow> within (unat ip) (dotted 169 254 0 0, dotted 169 254 255 255)"
    "in_net (v4 10 0 0 0) 8 ip \<longleftrightarrow> within (unat ip) (dotted 10 0 0 0, dotted 10 255 255 255)"
    "in_net (v4 172 16 0 0) 12 ip \<longleftrightarrow> within (unat ip) (dotted 172 16 0 0, dotted 172 31 255 255)"
    "in_net (v4 192 168 0 0) 16 ip \<longleftrightarrow> within (unat ip) (dotted 192 168 0 0, dotted 192 168 255 255)"
    "in_net (v4 100 64 0 0) 10 ip \<longleftrightarrow> within (unat ip) (dotted 100 64 0 0, dotted 100 127 255 255)"
    by (simp_all add: in_net_iff unat_v4 div_eq_interval within_def dotted_def less_eq_Suc_le)
  have one: "ip = 0 \<longleftrightarrow> within (unat ip) (dotted 0 0 0 0, dotted 0 0 0 0)"
    "ip = v4 255 255 255 255 \<longleftrightarrow> within (unat ip) (dotted 255 255 255 255, dotted 255 255 255 255)"
    by (auto simp: word_unat_eq_iff unat_v4 within_def dotted_def)
  show ?thesis
    unfolding is_blocked_ipv4_def is_private_v4_def cgnat_v4_def net one blocked_v4_ranges_def
    by (auto simp: list_ex_iff)
qed

lemma v4_range_bound: "r \<in> set (blocked_v4_ranges al ll ap) \<Longrightarrow> snd r < 2 ^ 32"
  by (auto simp: blocked_v4_ranges_def dotted_def split: if_splits)

lemma div_mod_unique: "r < k \<Longrightarrow> n = q * k + r \<longleftrightarrow> n div k = q \<and> n mod k = r" for n k q r :: nat
  by (metis add.right_neutral div_less div_mult_mod_eq div_mult_self3 less_zeroE mod_less mod_mult_self3)

lemma to_ipv4_mapped_iff:
  "to_ipv4_mapped ip = Some a \<longleftrightarrow> unat ip = 0xFFFF * 2 ^ 32 + unat a"
proof -
  have m: "drop_bit 32 ip = 0xFFFF \<longleftrightarrow> unat ip div 2 ^ 32 = 0xFFFF"
    unfolding word_unat_eq_iff unat_drop_bit_eq by (simp add: drop_bit_eq_div)
  have u: "(ucast ip = a) \<longleftrightarrow> unat ip mod 2 ^ 32 = unat a"
    unfolding word_unat_eq_iff unsigned_ucast_eq by (simp add: take_bit_eq_mod unsigned_take_bit_eq flip: unsigned_take_bit_eq)
  have a: "unat a < 2 ^ 32"
    using unsigned_less [of a] by simp
  show ?thesis
    using m u unfolding to_ipv4_mapped_def div_mod_unique [OF a] by auto
qed

lemma within_shift:
  "list_ex (within (c + n)) (map (\<lambda>(lo, hi). (c + lo, c + hi)) rs) \<longleftrightarrow> list_ex (within n) rs"
  by (induction rs) (auto simp: within_def)

lemma blocked_ipv6_ranges:
  "is_blocked_ipv6 ip al ll ap \<longleftrightarrow> list_ex (within (unat ip)) (blocked_v6_ranges al ll ap)"
proof (cases "to_ipv4_mapped ip")
  case (Some a)
  then have ip: "unat ip = 0xFFFF * 2 ^ 32 + unat a"
    by (simp add: to_ipv4_mapped_iff)
  have "unat a < 2 ^ 32"
    using unsigned_less [of a] by simp
  then have "\<not> within (unat ip) r" if "r \<in> {(0, 0), (1, 1), (0xFE80 * 2 ^ 112, 0xFEC0 * 2 ^ 112 - 1), (0xFC00 * 2 ^ 112, 0xFE00 * 2 ^ 112 - 1)}" for r
    using that by (auto simp: within_def ip)
  then show ?thesis
    using Some unfolding is_blocked_ipv6_def blocked_v6_ranges_def ip
    by (simp add: blocked_ipv4_ranges within_shift)
next
  case None
  have out: "\<not> within (unat ip) (0xFFFF * 2 ^ 32 + lo, 0xFFFF * 2 ^ 32 + hi)"
    if "(lo, hi) \<in> set (blocked_v4_ranges al ll ap)" for lo hi
  proof
    assume w: "within (unat ip) (0xFFFF * 2 ^ 32 + lo, 0xFFFF * 2 ^ 32 + hi)"
    define n where "n = unat ip - 0xFFFF * 2 ^ 32"
    have "n < 2 ^ 32" "unat ip = 0xFFFF * 2 ^ 32 + n"
      using w v4_range_bound [OF that] by (auto simp: within_def n_def)
    then have "to_ipv4_mapped ip = Some (of_nat n)"
      unfolding to_ipv4_mapped_iff by (simp add: unat_of_nat take_bit_eq_mod)
    with None show False
      by simp
  qed
  have net: "link_local_v6 ip \<longleftrightarrow> within (unat ip) (0xFE80 * 2 ^ 112, 0xFEC0 * 2 ^ 112 - 1)"
    "unique_local_v6 ip \<longleftrightarrow> within (unat ip) (0xFC00 * 2 ^ 112, 0xFE00 * 2 ^ 112 - 1)"
    "ip = 1 \<longleftrightarrow> within (unat ip) (1, 1)" "ip = 0 \<longleftrightarrow> within (unat ip) (0, 0)"
    by (auto simp: link_local_v6_def unique_local_v6_def in_net_iff div_eq_interval within_def word_unat_eq_iff)
  show ?thesis
    using None out unfolding is_blocked_ipv6_def net blocked_v6_ranges_def
    by (auto simp: list_ex_iff)
qed

text \<open>The address as a number, with the ranges that apply to its family.\<close>

definition address_number :: "ip_addr \<Rightarrow> nat" where
  "address_number ip = (case ip of V4 a \<Rightarrow> unat a | V6 a \<Rightarrow> unat a)"

definition blocked_ranges :: "ip_addr \<Rightarrow> bool \<Rightarrow> bool \<Rightarrow> bool \<Rightarrow> (nat \<times> nat) list" where
  "blocked_ranges ip = (case ip of V4 _ \<Rightarrow> blocked_v4_ranges | V6 _ \<Rightarrow> blocked_v6_ranges)"

text \<open>
  C13. The guard blocks exactly the published ranges.  An address is refused just when
  its number lies in one of the intervals: loopback and link-local unless their flags
  allow them, the RFC 1918, CGNAT and unique-local ranges unless private addresses are
  allowed for this hop, the unspecified and broadcast addresses always, and for IPv6
  also every IPv4-mapped form of a blocked IPv4 address.
\<close>
theorem blocked_ranges_exact:
  "is_blocked_ip_with_policy ip allow_loopback allow_link_local allow_private =
     list_ex (within (address_number ip)) (blocked_ranges ip allow_loopback allow_link_local allow_private)"
  by (cases ip)
    (simp_all add: is_blocked_ip_with_policy_def address_number_def blocked_ranges_def
      blocked_ipv4_ranges blocked_ipv6_ranges)

section \<open>Every spelling of an IPv4 literal\<close>

lemma or_push_bit: "b < 2 ^ n \<Longrightarrow> push_bit n a OR b = a * 2 ^ n + b" for a b n :: nat
proof -
  assume b: "b < 2 ^ n"
  have "\<not> bit b k" if "n \<le> k" for k
    using b that bit_take_bit_iff [of n b k] by (simp add: take_bit_nat_eq_self)
  then have "push_bit n a AND b = 0"
    by (auto simp: bit_eq_iff bit_simps)
  then show ?thesis
    by (simp add: disjunctive_add_eq_or flip: push_bit_eq_mult)
qed

lemma take_digits_append: "take_digits dig s = (ds, r) \<Longrightarrow> \<exists>w. s = w @ r \<and> map dig w = map Some ds"
proof (induction s arbitrary: ds)
  case (Cons c cs)
  show ?case
  proof (cases "dig c")
    case (Some d)
    obtain es where es: "take_digits dig cs = (es, r)" "ds = d # es"
      using Cons.prems Some by (auto split: prod.splits)
    obtain w where "cs = w @ r" "map dig w = map Some es"
      using Cons.IH [OF es(1)] by blast
    then show ?thesis
      using Some es(2) by (intro exI [of _ "c # w"]) simp
  qed (use Cons.prems in auto)
qed simp

lemma digits_value_map:
  "map dig w = map Some ds \<Longrightarrow> digits_value radix dig acc w = Some (foldl (\<lambda>a d. a * radix + d) acc ds)"
proof (induction w arbitrary: ds acc)
  case (Cons c w)
  then show ?case by (cases ds) auto
qed simp

text \<open>What an octet of a dotted address looks like: it reads back as the same decimal number.\<close>

lemma read_octet_word:
  assumes "read_octet s = Some (n, r)"
  shows "\<exists>w. s = w @ r \<and> w \<noteq> [] \<and> n < 256 \<and> list_all is_ascii_digit w \<and> parse_flexible_u64 w = Some n"
proof -
  obtain ds r' where td: "take_digits to_digit10 s = (ds, r')"
    by fastforce
  have n: "ds \<noteq> []" "r' = r" "n = foldl (\<lambda>a d. a * 10 + d) 0 ds" "n < 256" "hd ds = 0 \<longrightarrow> length ds \<le> 1"
    using assms td by (auto simp: read_octet_def read_number_def Let_def split: if_splits)
  obtain w where w: "s = w @ r" "map to_digit10 w = map Some ds"
    using take_digits_append [OF td] n(2) by blast
  have dig: "list_all is_ascii_digit w"
    unfolding list_all_iff
  proof
    fix c assume "c \<in> set w"
    then have "to_digit10 c \<in> set (map Some ds)"
      using w(2) by (metis image_eqI list.set_map)
    then show "is_ascii_digit c"
      by (auto simp: to_digit10_def split: if_splits)
  qed
  obtain c cs d es where cd: "w = c # cs" "ds = d # es" "to_digit10 c = Some d" "length cs = length es"
    using n(1) w(2) map_eq_imp_length_eq [OF w(2)] by (cases w; cases ds) auto
  have c: "is_ascii_digit c"
    using dig cd(1) by simp
  have val: "digits_value 10 to_digit10 0 w = Some n"
    using digits_value_map [OF w(2)] n(3) by simp
  have "parse_u64 w = Some n"
    using val c cd(1) n(4) by (auto simp: parse_u64_def parse_unsigned_def Let_def)
  moreover have "strip_prefix ''0x'' w = None" "strip_prefix ''0X'' w = None"
    using dig cd(1) by (cases cs; auto simp: is_ascii_digit_def)+
  moreover have "\<not> (length w > 1 \<and> starts_with ''0'' w)"
    using n(5) cd by (auto simp: starts_with_def to_digit10_def split: if_splits)
  ultimately have "parse_flexible_u64 w = Some n"
    using cd(1) by (auto simp: parse_flexible_u64_def)
  then show ?thesis
    using w(1) cd(1) n(4) dig by blast
qed

lemma read_dot_octet:
  "read_separator CHR ''.'' False read_octet s = Some (n, r) \<Longrightarrow> \<exists>t. s = CHR ''.'' # t \<and> read_octet t = Some (n, r)"
  by (cases s) (auto simp: read_separator_def read_char_def split: if_splits)

lemma digits_no_dot: "list_all is_ascii_digit w \<Longrightarrow> CHR ''.'' \<notin> set w"
  by (auto simp: list_all_iff)

lemma read_ipv4_literal:
  assumes "read_ipv4_addr s = Some (a, [])"
  shows "parse_ipv4_literal s = Some (of_nat a)"
proof -
  obtain a1 r1 a2 r2 a3 r3 a4 where rs: "read_octet s = Some (a1, r1)"
      "read_separator CHR ''.'' False read_octet r1 = Some (a2, r2)"
      "read_separator CHR ''.'' False read_octet r2 = Some (a3, r3)"
      "read_separator CHR ''.'' False read_octet r3 = Some (a4, [])"
      "a = a1 * 2 ^ 24 + a2 * 2 ^ 16 + a3 * 2 ^ 8 + a4"
    using assms by (auto simp: read_ipv4_addr_def bind_eq_Some_conv)
  obtain t1 t2 t3 where t: "r1 = CHR ''.'' # t1" "read_octet t1 = Some (a2, r2)" "r2 = CHR ''.'' # t2"
      "read_octet t2 = Some (a3, r3)" "r3 = CHR ''.'' # t3" "read_octet t3 = Some (a4, [])"
    using rs(2-4) [THEN read_dot_octet] by metis
  obtain w1 where w1: "s = w1 @ r1" "list_all is_ascii_digit w1" "parse_flexible_u64 w1 = Some a1" "a1 < 256"
    using read_octet_word [OF rs(1)] by metis
  obtain w2 where w2: "t1 = w2 @ r2" "list_all is_ascii_digit w2" "parse_flexible_u64 w2 = Some a2" "a2 < 256"
    using read_octet_word [OF t(2)] by metis
  obtain w3 where w3: "t2 = w3 @ r3" "list_all is_ascii_digit w3" "parse_flexible_u64 w3 = Some a3" "a3 < 256"
    using read_octet_word [OF t(4)] by metis
  obtain w4 where w4: "t3 = w4" "list_all is_ascii_digit w4" "parse_flexible_u64 w4 = Some a4" "a4 < 256"
    using read_octet_word [OF t(6)] by (metis append.right_neutral)
  have sp: "split_on CHR ''.'' s = [w1, w2, w3, w4]"
    using w1(1,2) w2(1,2) w3(1,2) w4(1,2) t by (simp add: split_on_append split_on_no_delim digits_no_dot)
  have "push_bit 24 a1 OR push_bit 16 a2 OR push_bit 8 a3 OR a4 = a"
    using w1(4) w2(4) w3(4) w4(4) rs(5) or_push_bit [of a4 8 a3] or_push_bit [of "a3 * 256 + a4" 16 a2]
      or_push_bit [of "a2 * 65536 + (a3 * 256 + a4)" 24 a1]
    by (simp add: or.assoc)
  then show ?thesis
    using w1(3,4) w2(3,4) w3(3,4) w4(3,4) rs(5) by (simp add: parse_ipv4_literal_def sp)
qed

lemma read_separator_missing: "c \<notin> set t \<Longrightarrow> read_separator c False f t = None"
  by (cases t) (auto simp: read_separator_def read_char_def)

lemma read_ipv6_needs_colon:
  assumes "CHR '':'' \<notin> set s" "read_ipv4_addr s = None"
  shows "read_ipv6_addr s = None"
proof -
  have stop: "read_groups n False t = ([], False, t)" if "CHR '':'' \<notin> set t" for n t
    using that by (cases n) (simp_all add: read_separator_missing)
  have no: "read_char CHR '':'' t = None" if "CHR '':'' \<notin> set t" for t
    using that by (cases t) (auto simp: read_char_def)
  have groups: "read_groups 8 True s =
      (case read_number 16 to_digit16 4 65536 True s of
         Some (g, r) \<Rightarrow> (let (gs, is_v4, r') = read_groups 7 False r in (g # gs, is_v4, r'))
       | None \<Rightarrow> ([], False, s))"
    using read_groups.simps(2) [of 7 True s] assms(2) by (simp add: read_separator_def)
  show ?thesis
  proof (cases "read_number 16 to_digit16 4 65536 True s")
    case None
    then show ?thesis
      using no [OF assms(1)] by (simp add: read_ipv6_addr_def groups)
  next
    case (Some gr)
    obtain g r where gr: "gr = (g, r)"
      by fastforce
    have "CHR '':'' \<notin> set r"
      using Some gr assms(1) take_digits_append [of to_digit16 s]
      by (fastforce simp: read_number_def Let_def split: prod.splits if_splits)
    then show ?thesis
      using Some gr by (simp add: read_ipv6_addr_def groups stop no)
  qed
qed

lemma parse_ip_literal_v4:
  assumes "CHR '':'' \<notin> set s" "parse_ipv4_literal s = Some a"
  shows "parse_ip_literal s = Some (V4 a)"
proof (cases "read_ipv4_addr s")
  case None
  then show ?thesis
    using assms by (simp add: parse_ip_literal_def parse_ip_addr_def read_ipv6_needs_colon)
next
  case (Some nr)
  obtain n r where nr: "nr = (n, r)"
    by fastforce
  show ?thesis
  proof (cases r)
    case Nil
    then show ?thesis
      using Some nr assms(2) read_ipv4_literal [of s n] by (simp add: parse_ip_literal_def parse_ip_addr_def)
  next
    case (Cons c cs)
    then show ?thesis
      using Some nr assms(2) by (simp add: parse_ip_literal_def parse_ip_addr_def)
  qed
qed

text \<open>The ways to write one number of a numeric host.\<close>

fun show_oct :: "nat \<Rightarrow> string" where
  "show_oct n = (if n < 8 then [digit_char n] else show_oct (n div 8) @ [digit_char (n mod 8)])"

declare show_oct.simps [simp del]

definition spells :: "nat \<Rightarrow> string \<Rightarrow> bool" where
  "spells n s \<longleftrightarrow> s \<in> {show_nat n, ''0x'' @ show_hex n, ''0X'' @ show_hex n, CHR ''0'' # show_oct n}"

text \<open>The numbers of the one- to four-part forms of an address.\<close>

definition literal_parts :: "nat \<Rightarrow> nat \<Rightarrow> nat list" where
  "literal_parts v k =
     (if k = 1 then [v]
      else if k = 2 then [v div 2 ^ 24, v mod 2 ^ 24]
      else if k = 3 then [v div 2 ^ 24, v div 2 ^ 16 mod 256, v mod 2 ^ 16]
      else [v div 2 ^ 24, v div 2 ^ 16 mod 256, v div 2 ^ 8 mod 256, v mod 256])"

lemma to_digit8_digit_char: "d < 8 \<Longrightarrow> to_digit8 (digit_char d) = Some d"
  by (simp add: to_digit8_def)

lemma digits_value_show_oct: "digits_value 8 to_digit8 0 (show_oct n) = Some n"
proof (induction n rule: show_oct.induct)
  case (1 n)
  then show ?case
    by (cases "n < 8") (simp_all add: show_oct.simps [of n] digits_value_append to_digit8_digit_char)
qed

lemma digits_value_show_hex: "digits_value 16 to_digit16 0 (show_hex n) = Some n"
proof (induction n rule: show_hex.induct)
  case (1 n)
  then show ?case
    by (cases "n < 16") (simp_all add: show_hex.simps [of n] digits_value_append)
qed

lemma show_oct_digits: "list_all is_ascii_digit (show_oct n)"
proof (induction n rule: show_oct.induct)
  case (1 n)
  then show ?case
    by (cases "n < 8") (simp_all add: show_oct.simps [of n])
qed

lemma show_hex_digits: "list_all (\<lambda>c. to_digit16 c \<noteq> None) (show_hex n)"
proof (induction n rule: show_hex.induct)
  case (1 n)
  then show ?case
    by (cases "n < 16") (simp_all add: show_hex.simps [of n])
qed

lemma show_not_Nil: "show_oct n \<noteq> []" "show_hex n \<noteq> []"
  by (simp_all add: show_oct.simps [of n] show_hex.simps [of n])

lemma show_nat_leading_zero: "show_nat n = CHR ''0'' # cs \<Longrightarrow> cs = []"
proof (induction n arbitrary: cs rule: show_nat.induct)
  case (1 n)
  show ?case
  proof (cases "n < 10")
    case True
    then show ?thesis
      using "1.prems" by (simp add: show_nat.simps [of n])
  next
    case False
    then obtain ds where ds: "show_nat (n div 10) = CHR ''0'' # ds"
      using "1.prems" by (cases "show_nat (n div 10)") (auto simp: show_nat.simps [of n])
    then have "show_nat (n div 10) = ''0''"
      using "1.IH" False by auto
    then have "n div 10 = 0"
      using digits_value_show_nat [of "n div 10"] by (simp add: to_digit10_def is_ascii_digit_def)
    then show ?thesis
      using False by simp
  qed
qed

lemma parse_flexible_spells:
  assumes "spells n s" "n < 2 ^ 64"
  shows "parse_flexible_u64 s = Some n"
proof -
  consider "s = show_nat n" | "s = ''0x'' @ show_hex n \<or> s = ''0X'' @ show_hex n" | "s = CHR ''0'' # show_oct n"
    using assms(1) by (auto simp: spells_def)
  then show ?thesis
  proof cases
    case 1
    then obtain c cs where s: "s = c # cs"
      by (metis neq_Nil_conv show_nat_not_Nil)
    have d: "list_all is_ascii_digit s"
      using 1 show_nat_digits by (auto simp: list_all_iff)
    then have x: "strip_prefix ''0x'' s = None" "strip_prefix ''0X'' s = None"
      using s by (cases cs; auto simp: is_ascii_digit_def)+
    have "\<not> (length s > 1 \<and> starts_with ''0'' s)"
      using show_nat_leading_zero [of n cs] unfolding 1 [symmetric] s by (auto simp: starts_with_def split: if_splits)
    then have "parse_flexible_u64 s = parse_u64 s"
      using s x by (auto simp: parse_flexible_u64_def)
    then show ?thesis
      using 1 parse_u_show(4) [OF assms(2)] by simp
  next
    case 2
    have "hd (show_hex n) \<noteq> CHR ''+''"
      using show_hex_digits [of n] show_not_Nil(2) [of n]
      by (cases "show_hex n") (auto simp: to_digit16_def)
    then have "parse_unsigned 16 to_digit16 (2 ^ 64) (show_hex n) = Some n"
      using show_not_Nil(2) [of n] digits_value_show_hex [of n] assms(2)
      by (cases "show_hex n") (simp_all add: parse_unsigned_def Let_def)
    then show ?thesis
      using 2 by (auto simp: parse_flexible_u64_def)
  next
    case 3
    have x: "strip_prefix ''0x'' s = None" "strip_prefix ''0X'' s = None"
      using 3 show_oct_digits [of n] by (cases "show_oct n"; auto simp: is_ascii_digit_def)+
    have "parse_unsigned 8 to_digit8 (2 ^ 64) s = Some n"
      using 3 digits_value_show_oct [of n] assms(2)
      by (simp add: parse_unsigned_def Let_def to_digit8_def to_digit10_def is_ascii_digit_def)
    moreover have "length s > 1 \<and> starts_with ''0'' s \<and> list_all is_ascii_digit s"
      using 3 show_oct_digits [of n] show_not_Nil(1) [of n] by (auto simp: starts_with_def is_ascii_digit_def)
    ultimately show ?thesis
      using 3 x by (auto simp: parse_flexible_u64_def)
  qed
qed

lemma spells_chars:
  assumes "spells n s" "c \<in> set s"
  shows "c \<noteq> CHR ''.'' \<and> c \<noteq> CHR '':''"
proof -
  have "is_ascii_digit c \<or> to_digit16 c \<noteq> None \<or> c \<in> {CHR ''x'', CHR ''X'', CHR ''0''}"
    using assms show_nat_digits [of c n] show_oct_digits [of n] show_hex_digits [of n]
    by (auto simp: spells_def list_all_iff)
  then show ?thesis
    by (auto simp: is_ascii_digit_def to_digit16_def)
qed

lemma those_map_spells:
  "list_all2 spells ns ss \<Longrightarrow> (\<And>n. n \<in> set ns \<Longrightarrow> n < 2 ^ 64) \<Longrightarrow> those (map parse_flexible_u64 ss) = Some ns"
  by (induction rule: list_all2_induct) (auto simp: parse_flexible_spells)

lemma literal_value:
  fixes v :: nat
  shows "v = v div 2 ^ 24 * 2 ^ 24 + v mod 2 ^ 24"
    and "v = v div 2 ^ 24 * 2 ^ 24 + (v div 2 ^ 16 mod 256 * 2 ^ 16 + v mod 2 ^ 16)"
    and "v = v div 2 ^ 24 * 2 ^ 24 + (v div 2 ^ 16 mod 256 * 2 ^ 16 + (v div 2 ^ 8 mod 256 * 2 ^ 8 + v mod 256))"
proof -
  have e: "v = v div 2 ^ 8 * 2 ^ 8 + v mod 256" "v div 2 ^ 8 = v div 2 ^ 16 * 2 ^ 8 + v div 2 ^ 8 mod 256"
    "v div 2 ^ 16 = v div 2 ^ 24 * 2 ^ 8 + v div 2 ^ 16 mod 256"
    using div_mult_mod_eq [of v 256] div_mult_mod_eq [of "v div 256" 256] div_mult_mod_eq [of "v div 65536" 256]
    by (simp_all add: div_mult2_eq [symmetric])
  have m: "v mod 2 ^ 16 = v - v div 2 ^ 16 * 2 ^ 16"
    by (simp add: minus_div_mult_eq_mod)
  show "v = v div 2 ^ 24 * 2 ^ 24 + v mod 2 ^ 24"
    by simp
  show "v = v div 2 ^ 24 * 2 ^ 24 + (v div 2 ^ 16 mod 256 * 2 ^ 16 + v mod 2 ^ 16)"
  proof -
    have "v = v div 65536 * 65536 + v mod 65536" "v div 65536 = v div 16777216 * 256 + v div 65536 mod 256"
      using e(3) by simp_all
    then have "v = v div 16777216 * 16777216 + (v div 65536 mod 256 * 65536 + v mod 65536)"
      by linarith
    then show ?thesis
      by simp
  qed
  show "v = v div 2 ^ 24 * 2 ^ 24 + (v div 2 ^ 16 mod 256 * 2 ^ 16 + (v div 2 ^ 8 mod 256 * 2 ^ 8 + v mod 256))"
  proof -
    have "v = v div 256 * 256 + v mod 256" "v div 256 = v div 65536 * 256 + v div 256 mod 256"
      "v div 65536 = v div 16777216 * 256 + v div 65536 mod 256"
      using e(2,3) by simp_all
    then have "v = v div 16777216 * 16777216 + (v div 65536 mod 256 * 65536 + (v div 256 mod 256 * 256 + v mod 256))"
      by linarith
    then show ?thesis
      by simp
  qed
qed

lemma parse_ipv4_literal_spelled:
  assumes "v < 2 ^ 32" "1 \<le> k" "k \<le> 4" "list_all2 spells (literal_parts v k) ss"
  shows "parse_ipv4_literal (join_with ''.'' ss) = Some (of_nat v)"
proof -
  have len: "length ss = length (literal_parts v k)"
    using assms(4) by (simp add: list_all2_lengthD)
  have ne: "ss \<noteq> []" "length ss \<le> 4"
    using len by (auto simp: literal_parts_def split: if_splits)
  have sp: "split_on CHR ''.'' (join_with ''.'' ss) = ss"
  proof (rule split_join [OF ne(1)])
    fix w assume "w \<in> set ss"
    then obtain n where "spells n w"
      using assms(4) by (auto simp: list_all2_conv_all_nth in_set_conv_nth)
    then show "CHR ''.'' \<notin> set w"
      using spells_chars by blast
  qed
  have small: "n < 2 ^ 64" if "n \<in> set (literal_parts v k)" for n
  proof -
    have "n \<le> v \<or> n < 2 ^ 24"
      using that by (auto simp: literal_parts_def div_le_dividend intro: less_trans split: if_splits)
    then show ?thesis
      using assms(1) by auto
  qed
  have parsed: "those (map parse_flexible_u64 ss) = Some (literal_parts v k)"
    by (rule those_map_spells [OF assms(4) small])
  have hi: "v div 2 ^ 24 < 256"
    using assms(1) by (simp add: less_mult_imp_div_less)
  have ors: "push_bit 24 (v div 2 ^ 24) OR v mod 2 ^ 24 = v"
    "push_bit 24 (v div 2 ^ 24) OR push_bit 16 (v div 2 ^ 16 mod 256) OR v mod 2 ^ 16 = v"
    "push_bit 24 (v div 2 ^ 24) OR push_bit 16 (v div 2 ^ 16 mod 256) OR push_bit 8 (v div 2 ^ 8 mod 256) OR v mod 256 = v"
  proof -
    have b: "v div 2 ^ 8 mod 256 * 2 ^ 8 + v mod 256 < 2 ^ 16" "v div 2 ^ 16 mod 256 * 2 ^ 16 + n < 2 ^ 24" if "n < 2 ^ 16" for n
      using that by (auto simp: less_mult_imp_div_less)
    show "push_bit 24 (v div 2 ^ 24) OR v mod 2 ^ 24 = v"
      using or_push_bit [of "v mod 2 ^ 24" 24 "v div 2 ^ 24"] literal_value(1) [of v] by simp
    show "push_bit 24 (v div 2 ^ 24) OR push_bit 16 (v div 2 ^ 16 mod 256) OR v mod 2 ^ 16 = v"
      using or_push_bit [of "v mod 2 ^ 16" 16 "v div 2 ^ 16 mod 256"] b(2) [of "v mod 2 ^ 16"]
        or_push_bit [of "v div 2 ^ 16 mod 256 * 2 ^ 16 + v mod 2 ^ 16" 24 "v div 2 ^ 24"] literal_value(2) [of v]
      by (simp add: or.assoc)
    show "push_bit 24 (v div 2 ^ 24) OR push_bit 16 (v div 2 ^ 16 mod 256) OR push_bit 8 (v div 2 ^ 8 mod 256) OR v mod 256 = v"
      using or_push_bit [of "v mod 256" 8 "v div 2 ^ 8 mod 256"] b(1) [of 0]
        or_push_bit [of "v div 2 ^ 8 mod 256 * 2 ^ 8 + v mod 256" 16 "v div 2 ^ 16 mod 256"]
        b(2) [of "v div 2 ^ 8 mod 256 * 2 ^ 8 + v mod 256"] literal_value(3) [of v]
        or_push_bit [of "v div 2 ^ 16 mod 256 * 2 ^ 16 + (v div 2 ^ 8 mod 256 * 2 ^ 8 + v mod 256)" 24 "v div 2 ^ 24"]
      by (simp add: or.assoc)
  qed
  have parts: "split_on CHR ''.'' (join_with ''.'' ss) \<noteq> []" "\<not> length ss > 4"
    using ne by simp_all
  have mods: "\<not> v mod 2 ^ 24 > 0x00FFFFFF" "\<not> v div 2 ^ 16 mod 256 > 0xFF" "\<not> v mod 2 ^ 16 > 0xFFFF"
    "\<not> v div 2 ^ 8 mod 256 > 0xFF" "\<not> v mod 256 > 0xFF" "\<not> v div 2 ^ 24 > 0xFF"
    using hi by (simp_all add: not_less)
  consider "literal_parts v k = [v]" | "literal_parts v k = [v div 2 ^ 24, v mod 2 ^ 24]"
    | "literal_parts v k = [v div 2 ^ 24, v div 2 ^ 16 mod 256, v mod 2 ^ 16]"
    | "literal_parts v k = [v div 2 ^ 24, v div 2 ^ 16 mod 256, v div 2 ^ 8 mod 256, v mod 256]"
    unfolding literal_parts_def by metis
  then show ?thesis
  proof cases
    case 1
    then show ?thesis
      using assms(1) parsed ne unfolding parse_ipv4_literal_def sp Let_def by simp
  next
    case 2
    then show ?thesis
      using assms(1) ne unfolding parse_ipv4_literal_def sp Let_def parsed
      by (simp only: 2 bind.bind_lunit list.case mods ors if_False) simp
  next
    case 3
    then show ?thesis
      using assms(1) ne unfolding parse_ipv4_literal_def sp Let_def parsed
      by (simp only: 3 bind.bind_lunit list.case mods ors if_False) simp
  next
    case 4
    then show ?thesis
      using assms(1) ne unfolding parse_ipv4_literal_def sp Let_def parsed
      by (simp only: 4 bind.bind_lunit list.case mods ors if_False list.pred_inject list_ex_iff list.set) (use mods in auto)
  qed
qed

lemma join_with_set: "c \<in> set (join_with sep ws) \<Longrightarrow> c \<in> set sep \<or> (\<exists>w \<in> set ws. c \<in> set w)"
proof (induction ws)
  case (Cons w ws)
  then show ?case
    by (cases ws) auto
qed simp

text \<open>
  No spelling of an IPv4 address slips past the ranges.  Write an address as one,
  two, three or four numbers, each of them in decimal, in octal with a leading zero or
  in hexadecimal: the resolver recognises the literal without asking DNS, checks the
  address it denotes, and either refuses it by name or returns exactly that address
  with the requested port.
\<close>
theorem spelled_literal_checked:
  assumes "v < 2 ^ 32" "1 \<le> k" "k \<le> 4" "list_all2 spells (literal_parts v k) ss"
  shows "resolve_validated_addr lookup (join_with ''.'' ss) port al ll ap =
     (if is_blocked_ip_with_policy (V4 (of_nat v)) al ll ap
      then Inl (rejected (BlockedIpLiteral (join_with ''.'' ss) (V4 (of_nat v))))
      else Inr \<lparr> sa_ip = V4 (of_nat v), sa_port = port \<rparr>)"
proof -
  have "CHR '':'' \<notin> set (join_with ''.'' ss)"
  proof
    assume "CHR '':'' \<in> set (join_with ''.'' ss)"
    then obtain w where "w \<in> set ss" "CHR '':'' \<in> set w"
      using join_with_set by fastforce
    moreover then obtain n where "spells n w"
      using assms(4) by (auto simp: list_all2_conv_all_nth in_set_conv_nth)
    ultimately show False
      using spells_chars by blast
  qed
  then have "parse_ip_literal (join_with ''.'' ss) = Some (V4 (of_nat v))"
    using parse_ip_literal_v4 parse_ipv4_literal_spelled [OF assms] by blast
  then show ?thesis
    by (simp add: resolve_validated_addr_def)
qed

lemma spells_loopback: "list_all2 spells (literal_parts 2130706433 2) [''0x7f'', ''01'']"
proof -
  have "show_hex 127 = ''7f''" "show_oct 1 = ''1''"
    by code_simp+
  then show ?thesis
    by (simp add: literal_parts_def spells_def)
qed

theorem spelled_literal_checked_witness:
  "resolve_validated_addr (\<lambda>_ _. None) ''0x7f.01'' 80 False False True =
     Inl (rejected (BlockedIpLiteral ''0x7f.01'' (V4 2130706433)))"
proof -
  have "is_blocked_ip_with_policy (V4 2130706433) False False True"
    by (simp add: is_blocked_ip_with_policy_def blocked_ipv4_ranges blocked_v4_ranges_def within_def dotted_def)
  then show ?thesis
    using spelled_literal_checked [of 2130706433 2 "[''0x7f'', ''01'']" "\<lambda>_ _. None" 80 False False True] spells_loopback
    by simp
qed

section \<open>What resolution can return\<close>

text \<open>
  An accepted host is pinned to an address that passes the ranges: the literal itself,
  or the first answer of a lookup none of whose answers is blocked.
\<close>

lemma resolve_validated_addr_Inr:
  assumes "resolve_validated_addr lookup host port al ll ap = Inr a"
  shows "\<not> is_blocked_ip_with_policy (sa_ip a) al ll ap"
    and "parse_ip_literal host = Some (sa_ip a) \<and> sa_port a = port
         \<or> (\<exists>rest. lookup host port = Some (a # rest)
              \<and> (\<forall>b \<in> set rest. \<not> is_blocked_ip_with_policy (sa_ip b) al ll ap))"
proof -
  have none: "\<forall>b \<in> set bs. \<not> is_blocked_ip_with_policy (sa_ip b) al ll ap"
    if "first_blocked al ll ap bs = None" for bs
    using that by (simp add: first_blocked_def find_None_iff)
  show "\<not> is_blocked_ip_with_policy (sa_ip a) al ll ap"
    using assms none by (fastforce simp: resolve_validated_addr_def split: option.splits list.splits if_splits)
  show "parse_ip_literal host = Some (sa_ip a) \<and> sa_port a = port
         \<or> (\<exists>rest. lookup host port = Some (a # rest)
              \<and> (\<forall>b \<in> set rest. \<not> is_blocked_ip_with_policy (sa_ip b) al ll ap))"
    using assms none by (fastforce simp: resolve_validated_addr_def split: option.splits list.splits if_splits)
qed

lemma resolve_validated_addr_Inl:
  "resolve_validated_addr lookup host port al ll ap = Inl e \<Longrightarrow>
     err_kind e = SourceRejected \<or> parse_ip_literal host = None \<and> lookup host port = None"
  by (auto simp: resolve_validated_addr_def rejected_def split: option.splits list.splits if_splits)

end
