(* ===== verification/Fetch.thy ===== *)
theory Fetch
  imports Source_Guard Performance
begin

text \<open>
  Fetching a source image (\<^verbatim>\<open>fetch_validated\<close> and \<^verbatim>\<open>download_image\<close> of
  \<^verbatim>\<open>src/src/services/image/handler.rs\<close>): every hop of a redirect chain is checked
  again and connects to the address that was checked, and the body is read under a
  running size cap.

  The outside world is a record of functions: the \<^verbatim>\<open>url\<close> crate's parsing and joining,
  DNS, and the HTTP client, which answers a request to an address and prints a status.  DNS and the server
  take the number of the hop, so that a second lookup of a name may answer
  differently.  The fetcher returns the connections it made along with its result.
  The download semaphore is never closed, so acquiring a permit only delays.
\<close>

section \<open>The outside world\<close>

record http_response =
  hr_status :: nat
  hr_location :: "string option"
  hr_content_length :: "nat option"
  hr_chunks :: "string option list"

record world =
  w_parse :: "string \<Rightarrow> url option"
  w_join :: "url \<Rightarrow> string \<Rightarrow> url option"
  w_lookup :: "nat \<Rightarrow> string \<Rightarrow> nat \<Rightarrow> sock_addr list option"
  w_builds :: "string \<Rightarrow> sock_addr \<Rightarrow> bool"
  w_send :: "nat \<Rightarrow> sock_addr \<Rightarrow> url \<Rightarrow> http_response option"
  w_show_status :: "nat \<Rightarrow> string"

record connection =
  cn_url :: url
  cn_addr :: sock_addr

text \<open>\<^verbatim>\<open>HeaderValue::to_str\<close>: visible ASCII and tabs only.\<close>

definition header_to_str :: "string \<Rightarrow> string option" where
  "header_to_str v = (if list_all (\<lambda>c. (32 \<le> byte c \<and> byte c < 127) \<or> byte c = 9) v then Some v else None)"

definition is_redirection :: "nat \<Rightarrow> bool" where
  "is_redirection status = (300 \<le> status \<and> status < 400)"

definition is_success :: "nat \<Rightarrow> bool" where
  "is_success status = (200 \<le> status \<and> status < 300)"

definition quoted :: "string \<Rightarrow> string" where
  "quoted s = [CHR 0x27] @ s @ [CHR 0x27]"

section \<open>One hop\<close>

text \<open>
  Whether the URL matched a configured allowlist, which is also what lifts the block
  on private addresses for this hop; a URL outside a configured list is refused.
\<close>

definition source_matches_allowlist :: "performance_config \<Rightarrow> world \<Rightarrow> url \<Rightarrow> (any_error, bool) result" where
  "source_matches_allowlist config w current =
     (case pc_allowed_sources config of
        Some allowed \<Rightarrow>
          if allowed \<noteq> []
          then (if \<not> is_allowed_source (w_parse w) current allowed
                then Inl (rejected (NotAllowlisted (u_text current))) else Inr True)
          else Inr False
      | None \<Rightarrow> Inr False)"

definition resolve_hop :: "performance_config \<Rightarrow> world \<Rightarrow> nat \<Rightarrow> url \<Rightarrow> (any_error, string \<times> sock_addr) result" where
  "resolve_hop config w i current =
     bindr (validate_scheme current) (\<lambda>_.
     bindr (source_matches_allowlist config w current) (\<lambda>matched.
     bindr (ok_or (plain_error (''Source URL '' @ quoted (u_text current) @ '' has no host'')) (u_host current)) (\<lambda>host.
     bindr (ok_or (plain_error (''Unable to determine port for source URL '' @ quoted (u_text current)))
             (u_port_or_default current)) (\<lambda>port.
     bindr (resolve_validated_addr (w_lookup w i) host port (pc_allow_loopback_source_addresses config)
             (pc_allow_link_local_source_addresses config) matched) (\<lambda>addr.
       Inr (host, addr))))))"

definition redirect_target :: "world \<Rightarrow> url \<Rightarrow> http_response \<Rightarrow> (any_error, url) result" where
  "redirect_target w current response =
     bindr (ok_or (plain_error (''Redirect response from '' @ quoted (u_text current) @ '' has no Location header''))
             (hr_location response)) (\<lambda>value.
     bindr (ok_or (plain_error ''Redirect Location header is not valid UTF-8'') (header_to_str value)) (\<lambda>location.
       ok_or (plain_error (''Failed to resolve redirect location '' @ quoted location)) (w_join w current location)))"

section \<open>The redirect loop\<close>

text \<open>\<^term>\<open>n\<close> attempts are left; \<^term>\<open>i\<close> counts the hops.\<close>

fun fetch_from :: "performance_config \<Rightarrow> world \<Rightarrow> nat \<Rightarrow> nat \<Rightarrow> url \<Rightarrow> (any_error, http_response) result \<times> connection list" where
  "fetch_from config w 0 i current =
     (Inl (plain_error (''Too many redirects while fetching source image (max '' @ show_nat (pc_max_redirects config) @ '')'')), [])"
| "fetch_from config w (Suc n) i current =
     (case resolve_hop config w i current of
        Inl e \<Rightarrow> (Inl e, [])
      | Inr (host, addr) \<Rightarrow>
          if \<not> w_builds w host addr then (Inl (plain_error ''Failed to build validated HTTP client''), [])
          else
            (let conn = \<lparr> cn_url = current, cn_addr = addr \<rparr> in
             case w_send w i addr current of
               None \<Rightarrow> (Inl (plain_error (''Request to source URL '' @ quoted (u_text current) @ '' failed'')), [conn])
             | Some response \<Rightarrow>
                 if is_redirection (hr_status response)
                 then (case redirect_target w current response of
                         Inl e \<Rightarrow> (Inl e, [conn])
                       | Inr target \<Rightarrow> map_prod id (Cons conn) (fetch_from config w n (i + 1) target))
                 else (Inr response, [conn])))"

definition fetch_validated :: "performance_config \<Rightarrow> world \<Rightarrow> string \<Rightarrow> (any_error, http_response) result \<times> connection list" where
  "fetch_validated config w u =
     (case w_parse w u of
        None \<Rightarrow> (Inl (plain_error ''Invalid source URL''), [])
      | Some current \<Rightarrow> fetch_from config w (pc_max_redirects config + 1) 0 current)"

section \<open>Downloading\<close>

fun stream_body :: "performance_config \<Rightarrow> string \<Rightarrow> nat \<Rightarrow> string \<Rightarrow> string option list \<Rightarrow> (any_error, string) result" where
  "stream_body config u total_len buffer [] = Inr buffer"
| "stream_body config u total_len buffer (None # chunks) = Inl (plain_error ''Error while streaming image body'')"
| "stream_body config u total_len buffer (Some chunk # chunks) =
     (let total_len = total_len + length chunk in
      if total_len > pc_max_image_size config
      then Inl (plain_error (''Image too large: exceeded '' @ show_nat (pc_max_image_size config)
             @ '' bytes while streaming from '' @ u))
      else stream_body config u total_len (buffer @ chunk) chunks)"

definition download_image :: "performance_config \<Rightarrow> world \<Rightarrow> string \<Rightarrow> (any_error, string) result \<times> connection list" where
  "download_image config w u =
     (case fetch_validated config w u of
        (Inl e, conns) \<Rightarrow> (Inl e, conns)
      | (Inr response, conns) \<Rightarrow>
          if \<not> is_success (hr_status response)
          then (Inl (plain_error (''Failed to download image from '' @ u @ '': status '' @ w_show_status w (hr_status response))), conns)
          else
            (case hr_content_length response of
               Some content_length \<Rightarrow>
                 if content_length > pc_max_image_size config
                 then (Inl (plain_error (''Image too large: '' @ show_nat content_length @ '' bytes (max: ''
                         @ show_nat (pc_max_image_size config) @ '' bytes)'')), conns)
                 else (stream_body config u 0 [] (hr_chunks response), conns)
             | None \<Rightarrow> (stream_body config u 0 [] (hr_chunks response), conns)))"

section \<open>Every connection was checked\<close>

text \<open>What the checks of a hop promise about the connection that follows them.\<close>

definition checked :: "performance_config \<Rightarrow> world \<Rightarrow> nat \<Rightarrow> connection \<Rightarrow> bool" where
  "checked config w i c \<longleftrightarrow>
     u_scheme (cn_url c) \<in> {''http'', ''https''}
     \<and> (\<forall>allowed. pc_allowed_sources config = Some allowed \<longrightarrow> allowed \<noteq> [] \<longrightarrow>
          is_allowed_source (w_parse w) (cn_url c) allowed)
     \<and> \<not> is_blocked_ip_with_policy (sa_ip (cn_addr c)) (pc_allow_loopback_source_addresses config)
          (pc_allow_link_local_source_addresses config)
          (\<exists>allowed. pc_allowed_sources config = Some allowed \<and> is_allowed_source (w_parse w) (cn_url c) allowed)
     \<and> (\<exists>host port. u_host (cn_url c) = Some host \<and> u_port_or_default (cn_url c) = Some port
          \<and> (parse_ip_literal host = Some (sa_ip (cn_addr c)) \<and> sa_port (cn_addr c) = port
             \<or> (\<exists>rest. w_lookup w i host port = Some (cn_addr c # rest))))"

lemma source_matches_allowlist_Inr:
  assumes "source_matches_allowlist config w current = Inr matched"
  shows "matched \<longleftrightarrow> (\<exists>allowed. pc_allowed_sources config = Some allowed \<and> is_allowed_source (w_parse w) current allowed)"
    and "pc_allowed_sources config = Some allowed \<Longrightarrow> allowed \<noteq> [] \<Longrightarrow> is_allowed_source (w_parse w) current allowed"
  using assms
  by (auto simp: source_matches_allowlist_def is_allowed_source_def split: option.splits if_splits)

lemma validate_scheme_Inr: "validate_scheme u = Inr r \<longleftrightarrow> u_scheme u \<in> {''http'', ''https''}"
  by (auto simp: validate_scheme_def)

lemma resolve_hop_checked:
  assumes "resolve_hop config w i current = Inr (host, addr)"
  shows "checked config w i \<lparr> cn_url = current, cn_addr = addr \<rparr>"
proof -
  obtain matched port where s: "u_scheme current \<in> {''http'', ''https''}"
      "source_matches_allowlist config w current = Inr matched"
      "u_host current = Some host" "u_port_or_default current = Some port"
      "resolve_validated_addr (w_lookup w i) host port (pc_allow_loopback_source_addresses config)
         (pc_allow_link_local_source_addresses config) matched = Inr addr"
    using assms by (auto simp: resolve_hop_def result_simps validate_scheme_Inr)
  show ?thesis
    using s source_matches_allowlist_Inr [OF s(2)] resolve_validated_addr_Inr [OF s(5)]
    by (auto simp: checked_def)
qed

lemma fetch_from_step:
  assumes "fetch_from config w (Suc n) i current = (r, conns)" "conns \<noteq> []"
  obtains addr where "hd conns = \<lparr> cn_url = current, cn_addr = addr \<rparr>" "checked config w i (hd conns)"
      "tl conns = []"
  | addr response target where "hd conns = \<lparr> cn_url = current, cn_addr = addr \<rparr>" "checked config w i (hd conns)"
      "w_send w i addr current = Some response" "redirect_target w current response = Inr target"
      "fetch_from config w n (i + 1) target = (r, tl conns)"
proof -
  obtain host addr where h: "resolve_hop config w i current = Inr (host, addr)" "w_builds w host addr"
    using assms by (auto split: sum.splits if_splits)
  note c = resolve_hop_checked [OF h(1)]
  show thesis
  proof (cases "w_send w i addr current")
    case None
    then show thesis
      using that(1) assms h c by auto
  next
    case (Some response)
    show thesis
    proof (cases "is_redirection (hr_status response)")
      case False
      then show thesis
        using that(1) assms h c Some by auto
    next
      case True
      show thesis
      proof (cases "redirect_target w current response")
        case (Inl e)
        then show thesis
          using that(1) assms h c Some True by auto
      next
        case (Inr target)
        then show thesis
          using that(2) assms h c Some True by (cases "fetch_from config w n (i + 1) target") auto
      qed
    qed
  qed
qed

lemma fetch_from_checked:
  "fetch_from config w n i current = (r, conns) \<Longrightarrow> k < length conns \<Longrightarrow> checked config w (i + k) (conns ! k)"
proof (induction n arbitrary: i current conns k)
  case (Suc n)
  from Suc.prems(2) have ne: "conns \<noteq> []" by auto
  from fetch_from_step [OF Suc.prems(1) ne] show ?case
  proof cases
    case (1 addr)
    then show ?thesis
      using Suc.prems(2) ne by (cases conns; cases k) auto
  next
    case (2 addr response target)
    then show ?thesis
      using Suc.prems(2) ne Suc.IH [OF 2(5), of "k - 1"] by (cases conns; cases k) auto
  qed
qed simp

lemma fetch_from_length: "fetch_from config w n i current = (r, conns) \<Longrightarrow> length conns \<le> n"
proof (induction n arbitrary: i current conns)
  case (Suc n)
  show ?case
  proof (cases "conns = []")
    case False
    from fetch_from_step [OF Suc.prems False] show ?thesis
      using Suc.IH False by cases (cases conns; fastforce)+
  qed simp
qed simp

lemma fetch_from_first:
  assumes "fetch_from config w n i current = (r, conns)" "conns \<noteq> []"
  shows "cn_url (hd conns) = current"
proof (cases n)
  case (Suc m)
  show ?thesis
    using assms(1) unfolding Suc by (rule fetch_from_step [OF _ assms(2)]) simp_all
qed (use assms in simp)

text \<open>Consecutive connections are linked by the redirect the first of them answered.\<close>

definition linked :: "world \<Rightarrow> nat \<Rightarrow> connection \<Rightarrow> connection \<Rightarrow> bool" where
  "linked w i c d \<longleftrightarrow>
     (\<exists>response. w_send w i (cn_addr c) (cn_url c) = Some response
        \<and> redirect_target w (cn_url c) response = Inr (cn_url d))"

lemma fetch_from_linked:
  "fetch_from config w n i current = (r, conns) \<Longrightarrow> Suc k < length conns \<Longrightarrow> linked w (i + k) (conns ! k) (conns ! Suc k)"
proof (induction n arbitrary: i current conns k)
  case (Suc n)
  from Suc.prems(2) have ne: "conns \<noteq> []" by auto
  from fetch_from_step [OF Suc.prems(1) ne] show ?case
  proof cases
    case (1 addr)
    then show ?thesis
      using Suc.prems(2) ne by (cases conns) auto
  next
    case (2 addr response target)
    obtain d ds where d: "tl conns = d # ds"
      using Suc.prems(2) by (cases conns; cases "tl conns") auto
    have "cn_url d = target"
      using fetch_from_first [OF 2(5)] d by simp
    then show ?thesis
      using 2 d ne Suc.prems(2) Suc.IH [OF 2(5), of "k - 1"]
      by (cases conns; cases k) (auto simp: linked_def)
  qed
qed simp

lemma fetch_validated_conns:
  assumes "fetch_validated config w u = (r, conns)"
  shows "length conns \<le> pc_max_redirects config + 1"
    and "k < length conns \<Longrightarrow> checked config w k (conns ! k)"
    and "Suc k < length conns \<Longrightarrow> linked w k (conns ! k) (conns ! Suc k)"
    and "conns \<noteq> [] \<Longrightarrow> w_parse w u = Some (cn_url (hd conns))"
proof -
  have "conns = [] \<or> (\<exists>current. w_parse w u = Some current
      \<and> fetch_from config w (pc_max_redirects config + 1) 0 current = (r, conns))"
    using assms by (auto simp: fetch_validated_def split: option.splits)
  then consider "conns = []"
    | current where "w_parse w u = Some current" "fetch_from config w (pc_max_redirects config + 1) 0 current = (r, conns)"
    by metis
  note cases = this
  show "length conns \<le> pc_max_redirects config + 1"
    using cases by cases (simp, rule fetch_from_length)
  show "checked config w k (conns ! k)" if "k < length conns"
    using cases
  proof cases
    case 2
    then show ?thesis
      using fetch_from_checked [OF 2(2) that] by simp
  qed (use that in simp)
  show "linked w k (conns ! k) (conns ! Suc k)" if "Suc k < length conns"
    using cases
  proof cases
    case 2
    then show ?thesis
      using fetch_from_linked [OF 2(2) that] by simp
  qed (use that in simp)
  show "w_parse w u = Some (cn_url (hd conns))" if "conns \<noteq> []"
    using cases
  proof cases
    case 2
    then show ?thesis
      using fetch_from_first [OF 2(2) that] by simp
  qed (use that in simp)
qed

lemma download_image_conns: "snd (download_image config w u) = snd (fetch_validated config w u)"
  by (cases "fetch_validated config w u")
    (auto simp: download_image_def split: sum.splits option.splits)

text \<open>
  C2. The fetcher only ever connects where it may.  Whatever DNS and the servers
  answer, a download makes at most one connection more than the configured number of
  redirects; the first goes to the requested URL and each later one to the location the
  previous response named; and every single one, redirect targets included, has an
  http or https scheme, lies in the allowlist if there is one, and goes to an address
  that was resolved for its own host at its own hop and is not blocked there, private
  addresses being open only to a URL that itself matches the allowlist.
\<close>
theorem fetch_connections_checked:
  assumes "download_image config w u = (r, conns)"
  shows "length conns \<le> pc_max_redirects config + 1
     \<and> (conns \<noteq> [] \<longrightarrow> w_parse w u = Some (cn_url (hd conns)))
     \<and> (\<forall>k < length conns. checked config w k (conns ! k))
     \<and> (\<forall>k. Suc k < length conns \<longrightarrow> linked w k (conns ! k) (conns ! Suc k))"
proof -
  obtain r' where "fetch_validated config w u = (r', conns)"
    using assms download_image_conns [of config w u] by (cases "fetch_validated config w u") simp
  from fetch_validated_conns [OF this] show ?thesis
    by simp
qed

text \<open>A server whose redirect points at the metadata address of a cloud provider.\<close>

definition demo_url :: "string \<Rightarrow> url" where
  "demo_url host = \<lparr> u_scheme = ''http'', u_host = Some host, u_port_or_default = Some 80, u_path = ''/'',
     u_text = ''http://'' @ host @ ''/'' \<rparr>"

definition demo_world :: world where
  "demo_world =
     \<lparr> w_parse = (\<lambda>s. map_option (\<lambda>t. demo_url (butlast t)) (strip_prefix ''http://'' s)),
       w_join = (\<lambda>_ s. map_option (\<lambda>t. demo_url (butlast t)) (strip_prefix ''http://'' s)),
       w_lookup = (\<lambda>i host port. if host = ''cdn'' then Some [\<lparr> sa_ip = V4 (v4 93 184 216 34), sa_port = port \<rparr>] else None),
       w_builds = (\<lambda>_ _. True),
       w_send = (\<lambda>i addr u. if u_path u = ''/'' \<and> i = 0
           then Some \<lparr> hr_status = 302, hr_location = Some ''http://169.254.169.254/'', hr_content_length = None, hr_chunks = [] \<rparr>
           else None),
       w_show_status = show_nat \<rparr>"

definition demo_conn :: connection where
  "demo_conn = \<lparr> cn_url = demo_url ''cdn'', cn_addr = \<lparr> sa_ip = V4 (v4 93 184 216 34), sa_port = 80 \<rparr> \<rparr>"

lemma demo_download:
  "download_image (default_config 4) demo_world ''http://cdn/'' =
     (Inl (rejected (BlockedIpLiteral ''169.254.169.254'' (V4 (v4 169 254 169 254)))), [demo_conn])"
  by code_simp

theorem fetch_connections_checked_witness:
  "checked (default_config 4) demo_world 0 demo_conn \<and> w_parse demo_world ''http://cdn/'' = Some (cn_url demo_conn)"
  using fetch_connections_checked [OF demo_download] by simp

section \<open>The size cap\<close>

lemma stream_body_Inr:
  "stream_body config u n buffer chunks = Inr bytes \<longleftrightarrow>
     (\<exists>parts. chunks = map Some parts \<and> bytes = buffer @ concat parts
        \<and> (parts = [] \<or> n + length (concat parts) \<le> pc_max_image_size config))"
proof (induction chunks arbitrary: n buffer)
  case (Cons c chunks)
  show ?case
  proof (cases c)
    case (Some chunk)
    have "(\<exists>parts. c # chunks = map Some parts \<and> P parts) \<longleftrightarrow> (\<exists>parts. chunks = map Some parts \<and> P (chunk # parts))"
      for P
      using Some by (auto simp: Cons_eq_map_conv)
    then show ?thesis
      using Some Cons.IH [of "n + length chunk" "buffer @ chunk"] by (auto simp: Let_def)
  qed (auto simp: Cons_eq_map_conv)
qed auto

text \<open>
  C14. A download is the whole body of a successful response that fits the cap, and
  nothing else.  The call returns bytes exactly when the fetch ended in a 2xx response
  whose announced length, if any, and whose actual length are both within
  \<^verbatim>\<open>max_image_size\<close> and whose body arrived without an error, and the bytes are then the
  concatenation of its chunks, so no answer of a server makes the result larger than
  the cap.
\<close>
theorem download_image_exact:
  "download_image config w u = (Inr bytes, conns) \<longleftrightarrow>
     (\<exists>response parts. fetch_validated config w u = (Inr response, conns) \<and> is_success (hr_status response)
        \<and> hr_chunks response = map Some parts \<and> bytes = concat parts \<and> length bytes \<le> pc_max_image_size config
        \<and> (case hr_content_length response of None \<Rightarrow> True | Some n \<Rightarrow> n \<le> pc_max_image_size config))"
proof (cases "fetch_validated config w u")
  case (Pair r cs)
  show ?thesis
  proof (cases r)
    case (Inr response)
    have "stream_body config u 0 [] (hr_chunks response) = Inr bytes \<longleftrightarrow>
        (\<exists>parts. hr_chunks response = map Some parts \<and> bytes = concat parts \<and> length bytes \<le> pc_max_image_size config)"
      by (auto simp: stream_body_Inr)
    then show ?thesis
      using Pair Inr by (cases "hr_content_length response") (auto simp: download_image_def)
  qed (simp add: Pair download_image_def)
qed

section \<open>Two edges of the guard\<close>

text \<open>
  The path of an allowlist entry is a text prefix, without regard to segments; and the
  \<^verbatim>\<open>url\<close> crate's bracketed form of an IPv6 host is not recognised as a literal, so such a
  host goes to DNS.
\<close>

lemma allowlist_path_is_text_prefix:
  assumes "w_parse w entry = Some p" "u_host p \<noteq> None"
  shows "is_allowed_source (w_parse w) (p\<lparr>u_path := u_path p @ ''-private/x''\<rparr>) [entry]"
  using assms by (simp add: is_allowed_source_def matches_allowed_prefix_def starts_with_iff)

lemma bracketed_ipv6_is_no_literal: "parse_ip_literal ''[::1]'' = None"
  by code_simp

end
