(* ===== verification/Float_Display.thy ===== *)
theory Float_Display
  imports Float_Model
begin

text \<open>
  \<^verbatim>\<open>Display\<close> of \<^verbatim>\<open>f32\<close> and \<^verbatim>\<open>f64\<close> as the standard library prints them without a
  precision: the shortest decimal that reads back as the value, the closest such
  decimal when there are several, written positionally.  The main fact is the
  round trip with \<^verbatim>\<open>FromStr\<close>, which makes the printed form injective; the cache key
  rests on it.
\<close>

section \<open>The shortest decimal\<close>

text \<open>
  For a positive magnitude \<^verbatim>\<open>m\<close> and a number of digits \<^verbatim>\<open>n\<close>, the two \<^verbatim>\<open>n\<close>-digit
  decimals around \<^verbatim>\<open>m\<close> are the candidates; among those that read back as \<^verbatim>\<open>m\<close> the
  closer one is taken, the upper one on a tie.
\<close>

definition pick_digits :: "float_format \<Rightarrow> rat \<Rightarrow> int \<Rightarrow> nat \<Rightarrow> nat option" where
  "pick_digits F m k n =
     (let x = m * 10 powi (int n - k);
          lo = nat \<lfloor>x\<rfloor>;
          ok = (\<lambda>d. round_mag F (of_nat d * 10 powi (k - int n)) = m)
      in if ok lo \<and> ok (lo + 1) then Some (if 1 \<le> 2 * (x - of_nat lo) then lo + 1 else lo)
         else if ok lo then Some lo
         else if ok (lo + 1) then Some (lo + 1)
         else None)"

fun shortest_from :: "float_format \<Rightarrow> rat \<Rightarrow> int \<Rightarrow> nat \<Rightarrow> nat \<Rightarrow> nat \<times> int" where
  "shortest_from F m k n 0 = (0, 0)"
| "shortest_from F m k n (Suc left) =
     (case pick_digits F m k n of
        Some d \<Rightarrow> (d, k - int n)
      | None \<Rightarrow> shortest_from F m k (Suc n) left)"

text \<open>Seventeen digits are enough for \<^verbatim>\<open>f64\<close> and nine for \<^verbatim>\<open>f32\<close>.\<close>

definition max_digits :: "float_format \<Rightarrow> nat" where
  "max_digits F = (if prec F \<le> 24 then 9 else 17)"

definition shortest :: "float_format \<Rightarrow> rat \<Rightarrow> nat \<times> int" where
  "shortest F m = shortest_from F m (flog 10 m + 1) 1 (max_digits F)"

fun strip_zeros :: "nat \<Rightarrow> nat \<Rightarrow> nat \<times> nat" where
  "strip_zeros d 0 = (d, 0)"
| "strip_zeros d (Suc f) = (if d mod 10 = 0 then strip_zeros (d div 10) f else (d, Suc f))"

definition show_decimal :: "nat \<Rightarrow> int \<Rightarrow> string" where
  "show_decimal d e =
     (if 0 \<le> e then show_nat d @ replicate (nat e) CHR ''0''
      else (let (d', f) = strip_zeros d (nat (- e)); s = show_nat d'
            in if f = 0 then s
               else if f < length s then take (length s - f) s @ ''.'' @ drop (length s - f) s
               else ''0.'' @ replicate (f - length s) CHR ''0'' @ s))"

definition show_mag :: "float_format \<Rightarrow> rat \<Rightarrow> string" where
  "show_mag F m = (if m = 0 then ''0'' else case shortest F m of (d, e) \<Rightarrow> show_decimal d e)"

fun show_float :: "float_format \<Rightarrow> rfloat \<Rightarrow> string" where
  "show_float F NaN = ''NaN''"
| "show_float F (Infin s) = (if s then ''-inf'' else ''inf'')"
| "show_float F (Fin s m) = (if s then ''-'' else '''') @ show_mag F m"

abbreviation show_f32 :: "rfloat \<Rightarrow> string" where
  "show_f32 \<equiv> show_float f32_fmt"

abbreviation show_f64 :: "rfloat \<Rightarrow> string" where
  "show_f64 \<equiv> show_float f64_fmt"

section \<open>A nearby decimal reads back\<close>

lemma representable_multiple:
  assumes "representable F m" "0 < m"
  obtains N :: int where "m = of_int N * pow2 (ulp_exp F m)" "N + 1 \<le> 2 ^ prec F" "0 < N"
proof -
  let ?e = "ulp_exp F m" and ?N = "rhe (m / pow2 (ulp_exp F m))"
  have m: "m = of_int ?N * pow2 ?e"
    using assms by (simp add: representable_def round_mag_def)
  have "flog2 m + 1 \<le> int (prec F) + ?e"
    by (simp add: ulp_exp_def)
  then have "m < pow2 (int (prec F) + ?e)"
    using flog2_bounds(2) [OF assms(2)] by (meson less_le_trans pow2_mono)
  then have "of_int ?N * pow2 ?e < of_int (2 ^ prec F) * pow2 ?e"
    using m by (simp add: pow2_add)
  then have "(of_int ?N :: rat) < of_int (2 ^ prec F)"
    by (simp only: mult_less_cancel_right_pos [OF pow2_pos])
  then have "?N < 2 ^ prec F"
    by (simp only: of_int_less_iff)
  moreover have "0 < ?N"
  proof -
    have "0 < of_int ?N * pow2 ?e"
      using m assms(2) by simp
    then have "0 < (of_int ?N :: rat)"
      by (rule zero_less_mult_pos2) simp
    then show ?thesis
      by simp
  qed
  ultimately show ?thesis
    using that m by simp
qed

lemma abs_diff_scaled:
  assumes "m = of_int N * pow2 e"
  shows "\<bar>y / pow2 e - of_int N\<bar> = \<bar>y - m\<bar> / pow2 e"
proof -
  have "y / pow2 e - of_int N = (y - m) / pow2 e"
    by (simp add: assms diff_divide_distrib)
  then show ?thesis
    by (simp add: abs_divide)
qed

text \<open>Between a multiple of the last place and the next there is nothing.\<close>

lemma representable_gap:
  assumes "m = of_int N * pow2 e" "e \<le> k" "pow2 k \<le> m" "m < pow2 k + pow2 e"
  shows "m = pow2 k"
proof -
  have k: "pow2 k = of_int (2 ^ nat (k - e)) * pow2 e"
  proof -
    have "pow2 k = pow2 (k - e) * pow2 e"
      by (simp add: pow2_add [symmetric])
    then show ?thesis
      using pow2_int [of "k - e"] assms(2) by simp
  qed
  have "of_int N * pow2 e < of_int (2 ^ nat (k - e) + 1) * pow2 e"
    using assms(1,4) k by (simp add: algebra_simps)
  then have "(of_int N :: rat) < of_int (2 ^ nat (k - e) + 1)"
    by (simp only: mult_less_cancel_right_pos [OF pow2_pos])
  then have "N \<le> 2 ^ nat (k - e)"
    by (simp only: of_int_less_iff zle_add1_eq_le)
  moreover have "of_int (2 ^ nat (k - e)) * pow2 e \<le> of_int N * pow2 e"
    using assms(1,3) k by simp
  then have "(of_int (2 ^ nat (k - e)) :: rat) \<le> of_int N"
    by (rule mult_right_le_imp_le) simp
  then have "2 ^ nat (k - e) \<le> N"
    by (simp only: of_int_le_iff)
  ultimately show ?thesis
    using assms(1) k by simp
qed

lemma round_near:
  assumes rep: "representable F m" and m0: "0 < m" and p: "0 < prec F"
    and near: "\<bar>y - m\<bar> < m * pow2 (- int (prec F) - 1)"
  shows "round_mag F y = m"
proof -
  let ?e = "ulp_exp F m" and ?e' = "ulp_exp F y"
  obtain N where N: "m = of_int N * pow2 ?e" "N + 1 \<le> 2 ^ prec F" "0 < N"
    using representable_multiple [OF rep m0] .
  have Nr: "of_int N + 1 \<le> (2 ^ prec F :: rat)"
  proof -
    have "(of_int (N + 1) :: rat) \<le> of_int (2 ^ prec F)"
      using N(2) by (simp only: of_int_le_iff)
    then show ?thesis
      by simp
  qed
  have top: "m + pow2 ?e \<le> pow2 (int (prec F) + ?e)"
  proof -
    have "(of_int N + 1) * pow2 ?e \<le> 2 ^ prec F * pow2 ?e"
      using Nr by (rule mult_right_mono) simp
    then show ?thesis
      using N(1) by (simp add: pow2_add algebra_simps)
  qed
  have half: "\<bar>y - m\<bar> < pow2 (?e - 1)"
  proof -
    have "m * pow2 (- int (prec F) - 1) \<le> pow2 (int (prec F) + ?e) * pow2 (- int (prec F) - 1)"
      using top by (intro mult_right_mono) (auto intro: order_trans [OF _ top])
    also have "\<dots> = pow2 (?e - 1)"
      by (simp add: pow2_add [symmetric])
    finally show ?thesis
      using near by linarith
  qed
  have y0: "0 < y"
  proof -
    have "pow2 (- int (prec F) - 1) \<le> pow2 0"
      by (rule pow2_mono) simp
    then have "m * pow2 (- int (prec F) - 1) \<le> m * 1"
      using m0 by (intro mult_left_mono) auto
    then show ?thesis
      using near by linarith
  qed
  consider "?e' = ?e" | "?e < ?e'" | "?e' < ?e"
    by linarith
  then show ?thesis
  proof cases
    case 1
    have "\<bar>y / pow2 ?e - of_int N\<bar> = \<bar>y - m\<bar> / pow2 ?e"
      by (rule abs_diff_scaled [OF N(1)])
    also have "\<dots> < 1 / 2"
      using half by (simp add: pow2_diff field_simps)
    finally have "rhe (y / pow2 ?e) = N"
      by (rule rhe_unique)
    then show ?thesis
      using y0 1 N(1) by (simp add: round_mag_def)
  next
    case 2
    then have "int (prec F) + ?e \<le> flog2 y"
      by (auto simp: ulp_exp_def max_def split: if_splits)
    then have "m + pow2 ?e \<le> y"
      using top flog2_bounds(1) [OF y0] pow2_mono [of "int (prec F) + ?e" "flog2 y"] by linarith
    moreover have "pow2 (?e - 1) \<le> pow2 ?e"
      by (rule pow2_mono) simp
    ultimately have False
      using half by linarith
    then show ?thesis ..
  next
    case 3
    let ?K = "flog2 m"
    have e: "?e = ?K - int (prec F) + 1" "qmin F \<le> ?e - 1" and "flog2 y < ?K"
      using 3 by (auto simp: ulp_exp_def max_def split: if_splits)
    then have yK: "y < pow2 ?K"
      using flog2_bounds(2) [OF y0] pow2_mono [of "flog2 y + 1" ?K] by linarith
    have "pow2 (?e - 1) \<le> pow2 ?e"
      by (rule pow2_mono) simp
    then have "m < pow2 ?K + pow2 ?e"
      using half yK by linarith
    then have m: "m = pow2 ?K"
      using representable_gap [OF N(1), of ?K] flog2_bounds(1) [OF m0] e(1) p by simp
    have near': "\<bar>y - m\<bar> < pow2 (?e - 1) / 2"
    proof -
      have "pow2 ?K * pow2 (- int (prec F) - 1) = pow2 (?e - 1 - 1)"
        by (simp add: pow2_add [symmetric] e(1) algebra_simps)
      then show ?thesis
        using near m by (simp add: pow2_diff)
    qed
    have "pow2 (?e - 1) \<le> pow2 (?K - 1)"
      using e(1) p by (intro pow2_mono) simp
    moreover have "pow2 (?K - 1) = m / 2"
      using m by (simp add: pow2_diff)
    ultimately have "pow2 (?K - 1) \<le> y"
      using near' m0 by linarith
    then have "flog2 y = ?K - 1"
      using yK by (intro flog2_unique) simp_all
    then have e': "?e' = ?e - 1"
      using e by (simp add: ulp_exp_def)
    have m2: "m = of_int (2 * N) * pow2 (?e - 1)"
      using N(1) by (simp add: pow2_diff)
    have "\<bar>y / pow2 (?e - 1) - of_int (2 * N)\<bar> = \<bar>y - m\<bar> / pow2 (?e - 1)"
      by (rule abs_diff_scaled [OF m2])
    also have "\<dots> < 1 / 2"
      using near' by (simp add: field_simps)
    finally have "rhe (y / pow2 (?e - 1)) = 2 * N"
      by (rule rhe_unique)
    then show ?thesis
      using y0 e' m2 by (simp add: round_mag_def)
  qed
qed

section \<open>The search succeeds\<close>

lemma powi10_pos [simp]: "0 < (10::rat) powi k"
  by (simp add: zero_less_power_int)

lemma pick_digits_sound:
  "pick_digits F m k n = Some d \<Longrightarrow> round_mag F (of_nat d * 10 powi (k - int n)) = m"
  by (auto simp: pick_digits_def Let_def split: if_splits)

lemma pick_digits_exists:
  assumes rep: "representable F m" and m0: "0 < m" and p: "0 < prec F"
    and k: "k = flog 10 m + 1" and n: "(2::rat) ^ prec F < 10 powi (int n - 1)"
  shows "pick_digits F m k n \<noteq> None"
proof -
  define x lo s where "x = m * 10 powi (int n - k)" and "lo = nat \<lfloor>x\<rfloor>" and "s = (10::rat) powi (k - int n)"
  have s0: "0 < s"
    by (simp add: s_def)
  have xs: "m = x * s"
    by (simp add: x_def s_def mult.assoc power_int_add [symmetric])
  have x0: "0 \<le> x"
    using m0 by (simp add: x_def)
  then have lo: "of_nat lo \<le> x" "x < of_nat lo + 1"
    by (simp_all add: lo_def floor_less_cancel)
  have "10 powi (k - 1) \<le> m"
    using flog_bounds(1) [OF m0, of 10] by (simp add: k)
  then have sm: "s * 10 powi (int n - 1) \<le> m"
    by (simp add: s_def power_int_add [symmetric])
  have "s * 2 ^ prec F < m"
    using sm mult_strict_left_mono [OF n s0] by linarith
  then have close: "s / 2 < m * pow2 (- int (prec F) - 1)"
    by (simp add: power_int_diff power_int_minus field_simps)
  have near: "round_mag F (of_nat d * s) = m" if "\<bar>of_nat d - x\<bar> \<le> 1 / 2" for d
  proof (rule round_near [OF rep m0 p])
    have "\<bar>of_nat d * s - m\<bar> = \<bar>of_nat d - x\<bar> * s"
      using s0 by (simp add: xs left_diff_distrib [symmetric] abs_mult)
    also have "\<dots> \<le> 1 / 2 * s"
      using that s0 by (intro mult_right_mono) auto
    finally show "\<bar>of_nat d * s - m\<bar> < m * pow2 (- int (prec F) - 1)"
      using close by linarith
  qed
  have "\<bar>of_nat lo - x\<bar> \<le> 1 / 2 \<or> \<bar>of_nat (lo + 1) - x\<bar> \<le> 1 / 2"
    using lo by (auto simp: abs_le_iff)
  then have "round_mag F (of_nat lo * s) = m \<or> round_mag F (of_nat (lo + 1) * s) = m"
    using near by blast
  then show ?thesis
    by (auto simp: pick_digits_def Let_def x_def lo_def s_def)
qed

lemma shortest_from_sound:
  assumes "\<exists>i < left. pick_digits F m k (n + i) \<noteq> None" "shortest_from F m k n left = (d, e)"
  shows "round_mag F (of_nat d * 10 powi e) = m"
  using assms
proof (induction left arbitrary: n)
  case (Suc left)
  show ?case
  proof (cases "pick_digits F m k n")
    case None
    obtain i where i: "i < Suc left" "pick_digits F m k (n + i) \<noteq> None"
      using Suc.prems(1) by blast
    with None obtain j where "i = Suc j"
      by (cases i) auto
    then have "\<exists>i < left. pick_digits F m k (Suc n + i) \<noteq> None"
      using i by auto
    then show ?thesis
      using Suc.IH [of "Suc n"] Suc.prems(2) None by simp
  next
    case (Some c)
    then show ?thesis
      using Suc.prems(2) pick_digits_sound [OF Some] by simp
  qed
qed simp

lemma shortest_sound:
  assumes "representable F m" "0 < m" "F = f32_fmt \<or> F = f64_fmt" "shortest F m = (d, e)"
  shows "round_mag F (of_nat d * 10 powi e) = m"
proof -
  have "pick_digits F m (flog 10 m + 1) (1 + (max_digits F - 1)) \<noteq> None"
    using assms by (intro pick_digits_exists) (auto simp: max_digits_def)
  moreover have "max_digits F - 1 < max_digits F"
    using assms(3) by (auto simp: max_digits_def)
  ultimately show ?thesis
    using assms(4) unfolding shortest_def by (intro shortest_from_sound) blast+
qed

section \<open>Printing and reading back\<close>

lemma strip_zeros_value:
  "strip_zeros d f = (d', f') \<Longrightarrow> of_nat d * 10 powi (- int f) = (of_nat d' * 10 powi (- int f') :: rat)"
proof (induction d f rule: strip_zeros.induct)
  case (2 d f)
  show ?case
  proof (cases "d mod 10 = 0")
    case True
    then have "(of_nat d :: rat) = of_nat (d div 10) * 10"
      by (metis add.right_neutral div_mult_mod_eq of_nat_mult of_nat_numeral)
    then have "(of_nat d :: rat) * 10 powi (- int (Suc f)) = of_nat (d div 10) * 10 powi (- int f)"
      by (simp add: power_int_diff power_int_minus field_simps)
    then show ?thesis
      using 2 True by simp
  next
    case False
    then show ?thesis
      using 2 by simp
  qed
qed simp

lemma digits_value_zeros:
  "digits_value 10 to_digit10 a (replicate n CHR ''0'') = Some (a * 10 ^ n)"
  by (induction n arbitrary: a) (auto simp: to_digit10_def is_ascii_digit_def)

lemma digits_value_zeros_append:
  "digits_value 10 to_digit10 0 (replicate n CHR ''0'' @ s) = digits_value 10 to_digit10 0 s"
  using digits_value_zeros [of 0 n] by (simp add: digits_value_append)

lemma zero_is_digit [simp]: "is_ascii_digit CHR ''0''"
  by (simp add: is_ascii_digit_def)

lemma parse_decimal_digits:
  assumes "s \<noteq> []" "list_all is_ascii_digit s" "digits_value 10 to_digit10 0 s = Some n"
  shows "parse_decimal s = Some (of_nat n)"
proof -
  have tw: "takeWhile is_ascii_digit s = s" "dropWhile is_ascii_digit s = []"
    using assms(2) by (simp_all add: list_all_iff takeWhile_eq_all_conv dropWhile_eq_Nil_conv)
  show ?thesis
    using assms(1,3) by (simp add: parse_decimal_def tw)
qed

lemma parse_decimal_point:
  assumes "a \<noteq> []" "list_all is_ascii_digit a" "list_all is_ascii_digit b"
    "digits_value 10 to_digit10 0 (a @ b) = Some n"
  shows "parse_decimal (a @ CHR ''.'' # b) = Some (of_nat n * 10 powi (- int (length b)))"
proof -
  have tw: "takeWhile is_ascii_digit (a @ CHR ''.'' # b) = a" "dropWhile is_ascii_digit (a @ CHR ''.'' # b) = CHR ''.'' # b"
    using assms(2) by (simp_all add: list_all_iff takeWhile_tail dropWhile_append3)
  have tw': "takeWhile is_ascii_digit b = b" "dropWhile is_ascii_digit b = []"
    using assms(3) by (simp_all add: list_all_iff takeWhile_eq_all_conv dropWhile_eq_Nil_conv)
  show ?thesis
    using assms(1,4) by (simp add: parse_decimal_def tw tw')
qed

lemma show_nat_all_digits: "list_all is_ascii_digit (show_nat n)"
  by (simp add: list_all_iff show_nat_digits)

lemma show_decimal_fraction:
  assumes "s = show_nat d" "0 < f"
  shows "parse_decimal (if f < length s then take (length s - f) s @ ''.'' @ drop (length s - f) s
           else ''0.'' @ replicate (f - length s) CHR ''0'' @ s) = Some (of_nat d * 10 powi (- int f))"
proof (cases "f < length s")
  case True
  have "list_all is_ascii_digit (take k s)" "list_all is_ascii_digit (drop k s)" for k
    using show_nat_all_digits [of d] by (auto simp: assms(1) list_all_iff dest: in_set_takeD in_set_dropD)
  then have "parse_decimal (take (length s - f) s @ CHR ''.'' # drop (length s - f) s)
      = Some (of_nat d * 10 powi (- int (length (drop (length s - f) s))))"
    using True by (intro parse_decimal_point) (auto simp: assms(1) digits_value_show_nat)
  then show ?thesis
    using True by simp
next
  case False
  have "parse_decimal (''0'' @ CHR ''.'' # (replicate (f - length s) CHR ''0'' @ s))
      = Some (of_nat d * 10 powi (- int (length (replicate (f - length s) CHR ''0'' @ s))))"
  proof (rule parse_decimal_point)
    show "digits_value 10 to_digit10 0 (''0'' @ replicate (f - length s) CHR ''0'' @ s) = Some d"
      using digits_value_zeros_append [of "Suc (f - length s)" s] by (simp add: assms(1) digits_value_show_nat)
  qed (use show_nat_all_digits [of d] in \<open>auto simp: assms(1) list_all_iff\<close>)
  then show ?thesis
    using False by simp
qed

lemma parse_show_decimal: "parse_decimal (show_decimal d e) = Some (of_nat d * 10 powi e)"
proof (cases "0 \<le> e")
  case True
  have "parse_decimal (show_nat d @ replicate (nat e) CHR ''0'') = Some (of_nat (d * 10 ^ nat e))"
    using show_nat_all_digits [of d]
    by (intro parse_decimal_digits)
      (auto simp: list_all_iff digits_value_append digits_value_show_nat digits_value_zeros)
  then show ?thesis
    using True by (simp add: show_decimal_def power_int_def)
next
  case False
  obtain d' f where df: "strip_zeros d (nat (- e)) = (d', f)"
    by (cases "strip_zeros d (nat (- e))")
  have v: "of_nat d * 10 powi e = (of_nat d' * 10 powi (- int f) :: rat)"
    using strip_zeros_value [OF df] False by simp
  show ?thesis
  proof (cases "f = 0")
    case True
    then show ?thesis
      using False v df parse_decimal_digits [of "show_nat d'" d'] show_nat_all_digits [of d']
      by (simp add: show_decimal_def digits_value_show_nat)
  next
    case f: False
    then show ?thesis
      using False v df show_decimal_fraction [OF refl, of f d'] by (simp add: show_decimal_def Let_def)
  qed
qed

lemma show_decimal_first: "\<exists>c cs. show_decimal d e = c # cs \<and> is_ascii_digit c"
proof -
  have h: "\<exists>c cs. show_nat n @ r = c # cs \<and> is_ascii_digit c" for n r
    using hd_show_nat_digit [of n] by (cases "show_nat n") auto
  have t: "\<exists>c cs. take k (show_nat n) @ r = c # cs \<and> is_ascii_digit c" if "0 < k" for n k r
    using hd_show_nat_digit [of n] that by (cases "show_nat n"; cases k) auto
  show ?thesis
    using h [of _ "[]"] h t by (auto simp: show_decimal_def Let_def split: prod.splits)
qed

lemma show_mag_reads:
  assumes "representable F m" "F = f32_fmt \<or> F = f64_fmt"
  shows "\<exists>x. parse_decimal (show_mag F m) = Some x \<and> round_mag F x = m"
proof (cases "m = 0")
  case True
  then show ?thesis
    by (simp add: show_mag_def parse_decimal_def to_digit10_def)
next
  case False
  then have "0 < m"
    using assms(1) by (simp add: representable_def)
  obtain d e where de: "shortest F m = (d, e)"
    by (cases "shortest F m")
  then show ?thesis
    using shortest_sound [OF assms(1) \<open>0 < m\<close> assms(2) de] False
    by (simp add: show_mag_def parse_show_decimal)
qed

lemma show_mag_first: "\<exists>c cs. show_mag F m = c # cs \<and> is_ascii_digit c"
  using show_decimal_first by (auto simp: show_mag_def split: prod.splits)

lemma special_words:
  "parse_decimal ''NaN'' = None" "parse_decimal ''inf'' = None" "parse_decimal ''None'' = None"
  "to_ascii_lowercase ''NaN'' = ''nan''" "to_ascii_lowercase ''inf'' = ''inf''" "to_ascii_lowercase ''None'' = ''none''"
  by code_simp+

text \<open>Reading back a printed float gives the float.\<close>

lemma parse_show_float:
  assumes "wf_float F x" "F = f32_fmt \<or> F = f64_fmt"
  shows "parse_float_fmt F (show_float F x) = Some x"
proof (cases x)
  case NaN
  then show ?thesis
    by (simp add: parse_float_fmt_def special_words)
next
  case (Infin s)
  then show ?thesis
    by (simp add: parse_float_fmt_def special_words)
next
  case (Fin s m)
  have rep: "representable F m"
    using assms(1) Fin by simp
  obtain y where y: "parse_decimal (show_mag F m) = Some y" "round_mag F y = m"
    using show_mag_reads [OF rep assms(2)] by blast
  obtain c cs where c: "show_mag F m = c # cs" "is_ascii_digit c"
    using show_mag_first by blast
  have "c \<noteq> CHR ''-''" "c \<noteq> CHR ''+''"
    using c(2) by auto
  moreover have "round_float F s y = Fin s m" for s
    using y(2) rep by (simp add: round_float_def representable_def)
  ultimately show ?thesis
    using y c Fin by (simp add: parse_float_fmt_def)
qed

lemma show_float_inj:
  assumes "wf_float F x" "wf_float F y" "F = f32_fmt \<or> F = f64_fmt"
  shows "show_float F x = show_float F y \<longleftrightarrow> x = y"
proof
  assume "show_float F x = show_float F y"
  then have "Some x = Some y"
    using parse_show_float [OF assms(1,3)] parse_show_float [OF assms(2,3)] by (simp only:)
  then show "x = y"
    by simp
qed simp

lemma show_f32_inj: "wf_float f32_fmt x \<Longrightarrow> wf_float f32_fmt y \<Longrightarrow> show_f32 x = show_f32 y \<longleftrightarrow> x = y"
  by (rule show_float_inj) simp_all

lemma show_f64_inj: "wf_float f64_fmt x \<Longrightarrow> wf_float f64_fmt y \<Longrightarrow> show_f64 x = show_f64 y \<longleftrightarrow> x = y"
  by (rule show_float_inj) simp_all

lemma show_float_not_None:
  assumes "wf_float F x" "F = f32_fmt \<or> F = f64_fmt"
  shows "show_float F x \<noteq> ''None''"
proof
  assume "show_float F x = ''None''"
  then have "parse_float_fmt F ''None'' = Some x"
    using parse_show_float [OF assms] by (simp only:)
  then show False
    by (simp add: parse_float_fmt_def special_words)
qed

text \<open>The characters a printed float may have: none of them is a colon.\<close>

lemma show_decimal_chars: "c \<in> set (show_decimal d e) \<Longrightarrow> is_ascii_digit c \<or> c = CHR ''.''"
  by (auto simp: show_decimal_def Let_def split: if_splits prod.splits
      dest: show_nat_digits in_set_takeD in_set_dropD)

lemma show_float_no_colon: "CHR '':'' \<notin> set (show_float F x)"
proof -
  have "CHR '':'' \<notin> set (show_decimal d e)" for d e
    using show_decimal_chars [of "CHR '':''" d e] by auto
  then show ?thesis
    by (cases x) (auto simp: show_mag_def split: prod.splits)
qed

end
