(* ===== verification/Options.thy ===== *)
theory Options
  imports Params
begin

text \<open>
  The processing-option grammar of \<^verbatim>\<open>src/src/modules/url/options.rs\<close>.

  \<^verbatim>\<open>ProcessingOptions::parse\<close> folds over the path segments; each \<^verbatim>\<open>match\<close> arm of
  its loop is one definition \<^verbatim>\<open>opt_<code>\<close> here, and the loop state is the options
  record together with \<^verbatim>\<open>crop_raw\<close>, which is resolved only after the loop.  The
  base64url decoder of the \<^verbatim>\<open>base64\<close> crate is the parameter \<^verbatim>\<open>b64\<close>.
\<close>

section \<open>Errors and the options record\<close>

datatype url_parse_error =
    Malformed string
  | UnknownOption string
  | InvalidOptionValue (iov_option: string) (iov_reason: message)
  | EmptySource
  | InvalidSource message
  | OptionNotAllowed string
  | UnknownPreset string

record processing_options =
  po_width :: "nat option"
  po_height :: "nat option"
  po_resize_type :: resize_type
  po_blur_sigma :: "rfloat option"
  po_grayscale :: "bool option"
  po_enlarge :: "bool option"
  po_quality :: "nat option"
  po_jpeg_quality :: "nat option"
  po_webp_quality :: "nat option"
  po_webp_lossless :: "bool option"
  po_jpeg_progressive :: "bool option"
  po_jpeg_no_subsampling :: "bool option"
  po_max_bytes :: "nat option"
  po_background :: "rgb option"
  po_autorotate :: "bool option"
  po_strip_metadata :: "bool option"
  po_crop :: "crop option"
  po_gravity :: gravity
  po_rotate :: int
  po_flip_horizontal :: bool
  po_flip_vertical :: bool
  po_trim :: "trim_options option"
  po_extend :: "bool option"
  po_padding :: "padding option"
  po_zoom_x :: rfloat
  po_zoom_y :: rfloat
  po_dpr :: rfloat
  po_min_width :: "nat option"
  po_min_height :: "nat option"
  po_watermark_opacity :: "rfloat option"
  po_watermark_position :: watermark_position
  po_watermark_x_offset :: rfloat
  po_watermark_y_offset :: rfloat
  po_watermark_scale :: rfloat
  po_watermark_url :: "string option"
  po_watermark_size :: "(nat \<times> nat) option"
  po_watermark_rotate :: rfloat
  po_watermark_shadow :: "rfloat option"

definition processing_options_default :: processing_options where
  "processing_options_default = \<lparr>
     po_width = None, po_height = None, po_resize_type = Fit, po_blur_sigma = None,
     po_grayscale = None, po_enlarge = None, po_quality = None, po_jpeg_quality = None,
     po_webp_quality = None, po_webp_lossless = None, po_jpeg_progressive = None,
     po_jpeg_no_subsampling = None, po_max_bytes = None, po_background = None,
     po_autorotate = None, po_strip_metadata = None, po_crop = None, po_gravity = Center,
     po_rotate = 0, po_flip_horizontal = False, po_flip_vertical = False, po_trim = None,
     po_extend = None, po_padding = None, po_zoom_x = f_one, po_zoom_y = f_one, po_dpr = f_one,
     po_min_width = None, po_min_height = None, po_watermark_opacity = None,
     po_watermark_position = WmCenter, po_watermark_x_offset = f_zero,
     po_watermark_y_offset = f_zero, po_watermark_scale = f_zero, po_watermark_url = None,
     po_watermark_size = None, po_watermark_rotate = f_zero, po_watermark_shadow = None \<rparr>"

type_synonym 'a parsed = "(url_parse_error, 'a) result"

section \<open>Argument parsers\<close>

definition looks_like_option :: "string \<Rightarrow> bool" where
  "looks_like_option segment = (CHR '':'' \<in> set segment)"

definition require_args :: "nat \<Rightarrow> string list \<Rightarrow> string \<Rightarrow> string list parsed" where
  "require_args n args segment =
     (if length args = n then Inr args
      else Inl (InvalidOptionValue segment (Msg ''expected exactly N argument(s)'' [ANat n])))"

text \<open>\<^verbatim>\<open>args.get(i).filter(|s| !s.is_empty())\<close>\<close>

definition arg_at :: "string list \<Rightarrow> nat \<Rightarrow> string option" where
  "arg_at args i = (if i < length args \<and> args ! i \<noteq> [] then Some (args ! i) else None)"

definition parse_dimension :: "string \<Rightarrow> string \<Rightarrow> nat option parsed" where
  "parse_dimension raw segment =
     bindr (ok_or (InvalidOptionValue segment (Msg ''not a valid unsigned integer'' [AStr raw])) (parse_u32 raw))
       (\<lambda>value. Inr (if value = 0 then None else Some value))"

definition parse_dimension_allow_zero :: "string \<Rightarrow> string \<Rightarrow> nat parsed" where
  "parse_dimension_allow_zero raw segment =
     ok_or (InvalidOptionValue segment (Msg ''not a valid unsigned integer'' [AStr raw])) (parse_u32 raw)"

definition parse_bounded :: "string \<Rightarrow> string \<Rightarrow> nat \<Rightarrow> nat \<Rightarrow> nat parsed" where
  "parse_bounded raw segment lo hi =
     bindr (ok_or (InvalidOptionValue segment (Msg ''not a valid integer in range'' [AStr raw, ANat lo, ANat hi])) (parse_u8 raw))
       (\<lambda>value. if value < lo \<or> value > hi
                then Inl (InvalidOptionValue segment (Msg ''out of range'' [ANat value, ANat lo, ANat hi]))
                else Inr value)"

definition parse_float :: "string \<Rightarrow> string \<Rightarrow> rfloat parsed" where
  "parse_float raw segment =
     ok_or (InvalidOptionValue segment (Msg ''not a valid number'' [AStr raw])) (parse_f32 raw)"

definition parse_resize_type :: "string \<Rightarrow> string \<Rightarrow> resize_type parsed" where
  "parse_resize_type raw segment =
     map_err (\<lambda>reason. InvalidOptionValue segment reason) (resize_type_from_str raw)"

definition parse_bool :: "string \<Rightarrow> string \<Rightarrow> bool parsed" where
  "parse_bool raw segment =
     (if raw = ''true'' \<or> raw = ''1'' then Inr True
      else if raw = ''false'' \<or> raw = ''0'' then Inr False
      else Inl (InvalidOptionValue segment (Msg ''not a valid boolean'' [AStr raw])))"

definition parse_watermark_position :: "string \<Rightarrow> string \<Rightarrow> watermark_position parsed" where
  "parse_watermark_position raw segment =
     (if raw = ''ce'' then Inr WmCenter
      else if raw = ''no'' then Inr WmNorth
      else if raw = ''so'' then Inr WmSouth
      else if raw = ''ea'' then Inr WmEast
      else if raw = ''we'' then Inr WmWest
      else if raw = ''noea'' then Inr WmNorthEast
      else if raw = ''nowe'' then Inr WmNorthWest
      else if raw = ''soea'' then Inr WmSouthEast
      else if raw = ''sowe'' then Inr WmSouthWest
      else Inl (InvalidOptionValue segment (Msg ''not a supported watermark position'' [AStr raw])))"

definition hex_invalid :: "string \<Rightarrow> string \<Rightarrow> url_parse_error" where
  "hex_invalid hex segment = InvalidOptionValue segment (Msg ''not a valid hex colour'' [AStr hex])"

text \<open>
  The 3-digit branch doubles each digit (\<^verbatim>\<open>digit * 16 + digit\<close> in \<^verbatim>\<open>u8\<close>), the
  6-digit branch slices byte pairs; the guard in front makes both ASCII.
\<close>

definition hex_expand :: "string \<Rightarrow> string \<Rightarrow> char \<Rightarrow> nat parsed" where
  "hex_expand hex segment c =
     bindr (ok_or (hex_invalid hex segment) (to_digit16 c)) (\<lambda>digit. Inr (digit * 16 + digit))"

definition hex_channel :: "string \<Rightarrow> string \<Rightarrow> nat \<Rightarrow> nat parsed" where
  "hex_channel hex segment i =
     ok_or (hex_invalid hex segment) (parse_u8_hex (take 2 (drop i hex)))"

definition parse_hex_color :: "string \<Rightarrow> string \<Rightarrow> rgb parsed" where
  "parse_hex_color hex segment =
     (if \<not> list_all is_ascii_hexdigit hex then Inl (hex_invalid hex segment)
      else if length hex = 3 then
        bindr (hex_expand hex segment (hex ! 0)) (\<lambda>r.
        bindr (hex_expand hex segment (hex ! 1)) (\<lambda>g.
        bindr (hex_expand hex segment (hex ! 2)) (\<lambda>b. Inr (r, g, b))))
      else if length hex = 6 then
        bindr (hex_channel hex segment 0) (\<lambda>r.
        bindr (hex_channel hex segment 2) (\<lambda>g.
        bindr (hex_channel hex segment 4) (\<lambda>b. Inr (r, g, b))))
      else Inl (hex_invalid hex segment))"

definition parse_background :: "string list \<Rightarrow> string \<Rightarrow> rgb parsed" where
  "parse_background args segment =
     (case args of
        [r, g, b] \<Rightarrow>
          bindr (parse_bounded r segment 0 255) (\<lambda>r'.
          bindr (parse_bounded g segment 0 255) (\<lambda>g'.
          bindr (parse_bounded b segment 0 255) (\<lambda>b'. Inr (r', g', b'))))
      | [hex] \<Rightarrow> parse_hex_color hex segment
      | _ \<Rightarrow> Inl (InvalidOptionValue segment (Msg ''expected either 3 arguments or 1 argument'' [])))"

definition parse_crop_dimension :: "string \<Rightarrow> string \<Rightarrow> crop_dimension parsed" where
  "parse_crop_dimension raw segment =
     bindr (ok_or (InvalidOptionValue segment (Msg ''not a valid number'' [AStr raw])) (parse_f64 raw))
       (\<lambda>value.
          if \<not> is_finite value \<or> f_lt value f_zero
          then Inl (InvalidOptionValue segment (Msg ''must be a non-negative, finite number'' [AFloat value]))
          else Inr (if f_eq value f_zero then Full
                    else if f_lt value f_one then Relative value
                    else Absolute (f_as_uint (2 ^ 32) (f_round value))))"

definition parse_gravity :: "string list \<Rightarrow> string \<Rightarrow> gravity parsed" where
  "parse_gravity tokens segment =
     (if tokens = [''ce''] then Inr Center
      else if tokens = [''no''] then Inr North
      else if tokens = [''so''] then Inr South
      else if tokens = [''ea''] then Inr East
      else if tokens = [''we''] then Inr West
      else if tokens = [''noea''] then Inr NorthEast
      else if tokens = [''nowe''] then Inr NorthWest
      else if tokens = [''soea''] then Inr SouthEast
      else if tokens = [''sowe''] then Inr SouthWest
      else if length tokens = 3 \<and> tokens ! 0 = ''fp'' then
        bindr (ok_or (InvalidOptionValue segment (Msg ''not a valid focus-point x'' [AStr (tokens ! 1)])) (parse_f64 (tokens ! 1))) (\<lambda>x.
        bindr (ok_or (InvalidOptionValue segment (Msg ''not a valid focus-point y'' [AStr (tokens ! 2)])) (parse_f64 (tokens ! 2))) (\<lambda>y.
          if \<not> (f_le f_zero x \<and> f_le x f_one) \<or> \<not> (f_le f_zero y \<and> f_le y f_one)
          then Inl (InvalidOptionValue segment (Msg ''focus point must be within [0, 1]'' [AFloat x, AFloat y]))
          else Inr (FocusPoint x y)))
      else if tokens = [] then Inl (InvalidOptionValue segment (Msg ''expected a gravity type'' []))
      else Inl (InvalidOptionValue segment (Msg ''unsupported gravity type'' [AStr (tokens ! 0)])))"

text \<open>\<^verbatim>\<open>i32 % 90\<close> is zero exactly when the angle is a multiple of 90; \<^verbatim>\<open>rem_euclid\<close> is \<^verbatim>\<open>mod\<close>.\<close>

definition parse_rotate_angle :: "string \<Rightarrow> string \<Rightarrow> int parsed" where
  "parse_rotate_angle raw segment =
     bindr (ok_or (InvalidOptionValue segment (Msg ''not a valid integer'' [AStr raw])) (parse_i32 raw))
       (\<lambda>angle. if angle mod 90 \<noteq> 0
                then Inl (InvalidOptionValue segment (Msg ''not a multiple of 90'' [AInt angle]))
                else Inr (angle mod 360))"

definition parse_positive_nonzero_float :: "string \<Rightarrow> string \<Rightarrow> rfloat parsed" where
  "parse_positive_nonzero_float raw segment =
     bindr (parse_float raw segment)
       (\<lambda>value. if f_lt f_zero value then Inr value
                else Inl (InvalidOptionValue segment (Msg ''not a positive number'' [AFloat value])))"

definition parse_zoom :: "string list \<Rightarrow> string \<Rightarrow> (rfloat \<times> rfloat) parsed" where
  "parse_zoom args segment =
     (case args of
        [zoom] \<Rightarrow> bindr (parse_positive_nonzero_float zoom segment) (\<lambda>z. Inr (z, z))
      | [zoom_x, zoom_y] \<Rightarrow>
          bindr (parse_positive_nonzero_float zoom_x segment) (\<lambda>x.
          bindr (parse_positive_nonzero_float zoom_y segment) (\<lambda>y. Inr (x, y)))
      | _ \<Rightarrow> Inl (InvalidOptionValue segment (Msg ''expected 1 argument (zoom) or 2 arguments'' [])))"

definition parse_non_negative_int :: "string \<Rightarrow> string \<Rightarrow> nat parsed" where
  "parse_non_negative_int raw segment =
     ok_or (InvalidOptionValue segment (Msg ''not a valid non-negative integer'' [AStr raw])) (parse_u32 raw)"

definition padding_slot :: "string option \<Rightarrow> string \<Rightarrow> nat option parsed" where
  "padding_slot v segment =
     (case v of
        Some s \<Rightarrow> bindr (parse_non_negative_int s segment) (\<lambda>n. Inr (Some n))
      | None \<Rightarrow> Inr None)"

definition parse_padding :: "string list \<Rightarrow> string \<Rightarrow> padding parsed" where
  "parse_padding args segment =
     (if args = [] \<or> length args > 4
      then Inl (InvalidOptionValue segment (Msg ''expected 1 to 4 arguments (top:right:bottom:left)'' []))
      else
        bindr (padding_slot (arg_at args 0) segment) (\<lambda>t.
        bindr (ok_or (InvalidOptionValue segment (Msg ''at least the top argument must be set'' [])) t) (\<lambda>top.
        bindr (padding_slot (arg_at args 1) segment) (\<lambda>r. let right = unwrap_or r top in
        bindr (padding_slot (arg_at args 2) segment) (\<lambda>b. let bottom = unwrap_or b top in
        bindr (padding_slot (arg_at args 3) segment) (\<lambda>l. let left = unwrap_or l right in
          Inr \<lparr> pad_top = top, pad_right = right, pad_bottom = bottom, pad_left = left \<rparr>))))))"

definition opt_bool_arg :: "string option \<Rightarrow> bool \<Rightarrow> string \<Rightarrow> bool parsed" where
  "opt_bool_arg v d segment = (case v of Some s \<Rightarrow> parse_bool s segment | None \<Rightarrow> Inr d)"

definition parse_trim :: "string list \<Rightarrow> string \<Rightarrow> trim_options parsed" where
  "parse_trim args segment =
     (if args = [] \<or> length args > 4
      then Inl (InvalidOptionValue segment (Msg ''expected 1 to 4 arguments (threshold:color:equal_hor:equal_ver)'' []))
      else if args ! 0 = []
      then Inl (InvalidOptionValue segment (Msg ''threshold is required'' []))
      else
        bindr (parse_float (args ! 0) segment) (\<lambda>threshold.
          if f_lt threshold f_zero
          then Inl (InvalidOptionValue segment (Msg ''not a non-negative number'' [AFloat threshold]))
          else
            bindr (case arg_at args 1 of
                     Some hex \<Rightarrow> bindr (parse_hex_color hex segment) (\<lambda>c. Inr (Some c))
                   | None \<Rightarrow> Inr None) (\<lambda>color.
            bindr (opt_bool_arg (arg_at args 2) False segment) (\<lambda>equal_hor.
            bindr (opt_bool_arg (arg_at args 3) False segment) (\<lambda>equal_ver.
              Inr \<lparr> trim_threshold = threshold, trim_color = color,
                    trim_equal_hor = equal_hor, trim_equal_ver = equal_ver \<rparr>)))))"

section \<open>The arms of the option loop\<close>

definition opt_rs :: "string \<Rightarrow> string list \<Rightarrow> processing_options \<Rightarrow> processing_options parsed" where
  "opt_rs segment args opts =
     bindr (require_args 3 args segment) (\<lambda>a.
     bindr (parse_resize_type (a ! 0) segment) (\<lambda>kind.
     bindr (parse_dimension (a ! 1) segment) (\<lambda>width.
     bindr (parse_dimension (a ! 2) segment) (\<lambda>height.
       Inr (opts\<lparr>po_resize_type := kind, po_width := width, po_height := height\<rparr>)))))"

definition opt_q :: "string \<Rightarrow> string list \<Rightarrow> processing_options \<Rightarrow> processing_options parsed" where
  "opt_q segment args opts =
     bindr (require_args 1 args segment) (\<lambda>a.
     bindr (parse_bounded (a ! 0) segment 0 100) (\<lambda>q. Inr (opts\<lparr>po_quality := Some q\<rparr>)))"

text \<open>\<^verbatim>\<open>args.chunks(2)\<close>\<close>

fun chunks2 :: "'a list \<Rightarrow> ('a \<times> 'a) list" where
  "chunks2 (x # y # zs) = (x, y) # chunks2 zs"
| "chunks2 _ = []"

definition opt_fq_pair :: "string \<Rightarrow> processing_options \<Rightarrow> string \<times> string \<Rightarrow> processing_options parsed" where
  "opt_fq_pair segment opts pair =
     bindr (parse_bounded (snd pair) segment 0 100) (\<lambda>quality.
       if fst pair = ''jpg'' \<or> fst pair = ''jpeg'' then Inr (opts\<lparr>po_jpeg_quality := Some quality\<rparr>)
       else if fst pair = ''webp'' then Inr (opts\<lparr>po_webp_quality := Some quality\<rparr>)
       else if fst pair = ''png''
       then Inl (InvalidOptionValue segment (Msg ''png has no adjustable quality'' []))
       else Inl (InvalidOptionValue segment (Msg ''unsupported format'' [AStr (fst pair)])))"

definition opt_fq :: "string \<Rightarrow> string list \<Rightarrow> processing_options \<Rightarrow> processing_options parsed" where
  "opt_fq segment args opts =
     (if args = [] \<or> length args mod 2 \<noteq> 0
      then Inl (InvalidOptionValue segment (Msg ''expected one or more format:quality pairs'' []))
      else foldr_res (opt_fq_pair segment) opts (chunks2 args))"

definition opt_webpo :: "string \<Rightarrow> string list \<Rightarrow> processing_options \<Rightarrow> processing_options parsed" where
  "opt_webpo segment args opts =
     bindr (require_args 1 args segment) (\<lambda>a.
       if a ! 0 = ''lossy'' then Inr (opts\<lparr>po_webp_lossless := Some False\<rparr>)
       else if a ! 0 = ''lossless'' then Inr (opts\<lparr>po_webp_lossless := Some True\<rparr>)
       else Inl (InvalidOptionValue segment (Msg ''not a supported webp compression mode'' [AStr (a ! 0)])))"

definition opt_jpgo :: "string \<Rightarrow> string list \<Rightarrow> processing_options \<Rightarrow> processing_options parsed" where
  "opt_jpgo segment args opts =
     (if args = [] \<or> length args > 2
      then Inl (InvalidOptionValue segment (Msg ''expected 1 or 2 arguments: progressive[:no_subsample]'' []))
      else
        bindr (case arg_at args 0 of
                 Some progressive \<Rightarrow>
                   bindr (parse_bool progressive segment) (\<lambda>b. Inr (opts\<lparr>po_jpeg_progressive := Some b\<rparr>))
               | None \<Rightarrow> Inr opts) (\<lambda>opts1.
          case arg_at args 1 of
            Some no_subsample \<Rightarrow>
              bindr (parse_bool no_subsample segment) (\<lambda>b. Inr (opts1\<lparr>po_jpeg_no_subsampling := Some b\<rparr>))
          | None \<Rightarrow> Inr opts1))"

definition opt_mb :: "string \<Rightarrow> string list \<Rightarrow> processing_options \<Rightarrow> processing_options parsed" where
  "opt_mb segment args opts =
     bindr (require_args 1 args segment) (\<lambda>a.
     bindr (ok_or (InvalidOptionValue segment (Msg ''not a valid unsigned integer'' [AStr (a ! 0)])) (parse_u64 (a ! 0))) (\<lambda>bytes.
       Inr (opts\<lparr>po_max_bytes := (if bytes = 0 then None else Some bytes)\<rparr>)))"

definition opt_bl :: "string \<Rightarrow> string list \<Rightarrow> processing_options \<Rightarrow> processing_options parsed" where
  "opt_bl segment args opts =
     bindr (require_args 1 args segment) (\<lambda>a.
     bindr (parse_float (a ! 0) segment) (\<lambda>v. Inr (opts\<lparr>po_blur_sigma := Some v\<rparr>)))"

definition opt_g :: "string \<Rightarrow> string list \<Rightarrow> processing_options \<Rightarrow> processing_options parsed" where
  "opt_g segment args opts =
     bindr (require_args 1 args segment) (\<lambda>a.
     bindr (parse_bool (a ! 0) segment) (\<lambda>v. Inr (opts\<lparr>po_grayscale := Some v\<rparr>)))"

definition opt_el :: "string \<Rightarrow> string list \<Rightarrow> processing_options \<Rightarrow> processing_options parsed" where
  "opt_el segment args opts =
     bindr (require_args 1 args segment) (\<lambda>a.
     bindr (parse_bool (a ! 0) segment) (\<lambda>v. Inr (opts\<lparr>po_enlarge := Some v\<rparr>)))"

definition opt_bg :: "string \<Rightarrow> string list \<Rightarrow> processing_options \<Rightarrow> processing_options parsed" where
  "opt_bg segment args opts =
     bindr (parse_background args segment) (\<lambda>v. Inr (opts\<lparr>po_background := Some v\<rparr>))"

definition opt_ar :: "string \<Rightarrow> string list \<Rightarrow> processing_options \<Rightarrow> processing_options parsed" where
  "opt_ar segment args opts =
     bindr (require_args 1 args segment) (\<lambda>a.
     bindr (parse_bool (a ! 0) segment) (\<lambda>v. Inr (opts\<lparr>po_autorotate := Some v\<rparr>)))"

definition opt_sm :: "string \<Rightarrow> string list \<Rightarrow> processing_options \<Rightarrow> processing_options parsed" where
  "opt_sm segment args opts =
     bindr (require_args 1 args segment) (\<lambda>a.
     bindr (parse_bool (a ! 0) segment) (\<lambda>v. Inr (opts\<lparr>po_strip_metadata := Some v\<rparr>)))"

type_synonym crop_raw = "(crop_dimension \<times> crop_dimension \<times> gravity option) option"

definition opt_c :: "string \<Rightarrow> string list \<Rightarrow> crop_raw parsed" where
  "opt_c segment args =
     (if length args < 2
      then Inl (InvalidOptionValue segment (Msg ''expected at least 2 arguments'' []))
      else
        bindr (parse_crop_dimension (args ! 0) segment) (\<lambda>width.
        bindr (parse_crop_dimension (args ! 1) segment) (\<lambda>height.
        bindr (if length args > 2
               then bindr (parse_gravity (drop 2 args) segment) (\<lambda>g. Inr (Some g))
               else Inr None) (\<lambda>gravity.
          Inr (Some (width, height, gravity))))))"

definition opt_gr :: "string \<Rightarrow> string list \<Rightarrow> processing_options \<Rightarrow> processing_options parsed" where
  "opt_gr segment args opts =
     (if args = []
      then Inl (InvalidOptionValue segment (Msg ''expected at least 1 argument (gravity type)'' []))
      else bindr (parse_gravity args segment) (\<lambda>g. Inr (opts\<lparr>po_gravity := g\<rparr>)))"

definition opt_rot :: "string \<Rightarrow> string list \<Rightarrow> processing_options \<Rightarrow> processing_options parsed" where
  "opt_rot segment args opts =
     bindr (require_args 1 args segment) (\<lambda>a.
     bindr (parse_rotate_angle (a ! 0) segment) (\<lambda>v. Inr (opts\<lparr>po_rotate := v\<rparr>)))"

definition opt_fl :: "string \<Rightarrow> string list \<Rightarrow> processing_options \<Rightarrow> processing_options parsed" where
  "opt_fl segment args opts =
     (if length args > 2
      then Inl (InvalidOptionValue segment (Msg ''expected at most 2 arguments (horizontal:vertical)'' []))
      else
        bindr (opt_bool_arg (arg_at args 0) (po_flip_horizontal opts) segment) (\<lambda>h.
        bindr (opt_bool_arg (arg_at args 1) (po_flip_vertical opts) segment) (\<lambda>v.
          Inr (opts\<lparr>po_flip_horizontal := h, po_flip_vertical := v\<rparr>))))"

definition opt_t :: "string \<Rightarrow> string list \<Rightarrow> processing_options \<Rightarrow> processing_options parsed" where
  "opt_t segment args opts =
     bindr (parse_trim args segment) (\<lambda>v. Inr (opts\<lparr>po_trim := Some v\<rparr>))"

definition opt_ex :: "string \<Rightarrow> string list \<Rightarrow> processing_options \<Rightarrow> processing_options parsed" where
  "opt_ex segment args opts =
     bindr (require_args 1 args segment) (\<lambda>a.
     bindr (parse_bool (a ! 0) segment) (\<lambda>v. Inr (opts\<lparr>po_extend := Some v\<rparr>)))"

definition opt_pd :: "string \<Rightarrow> string list \<Rightarrow> processing_options \<Rightarrow> processing_options parsed" where
  "opt_pd segment args opts =
     bindr (parse_padding args segment) (\<lambda>v. Inr (opts\<lparr>po_padding := Some v\<rparr>))"

definition opt_z :: "string \<Rightarrow> string list \<Rightarrow> processing_options \<Rightarrow> processing_options parsed" where
  "opt_z segment args opts =
     bindr (parse_zoom args segment) (\<lambda>(x, y). Inr (opts\<lparr>po_zoom_x := x, po_zoom_y := y\<rparr>))"

definition opt_dpr :: "string \<Rightarrow> string list \<Rightarrow> processing_options \<Rightarrow> processing_options parsed" where
  "opt_dpr segment args opts =
     bindr (require_args 1 args segment) (\<lambda>a.
     bindr (parse_positive_nonzero_float (a ! 0) segment) (\<lambda>v. Inr (opts\<lparr>po_dpr := v\<rparr>)))"

definition opt_mw :: "string \<Rightarrow> string list \<Rightarrow> processing_options \<Rightarrow> processing_options parsed" where
  "opt_mw segment args opts =
     bindr (require_args 1 args segment) (\<lambda>a.
     bindr (parse_dimension (a ! 0) segment) (\<lambda>v. Inr (opts\<lparr>po_min_width := v\<rparr>)))"

definition opt_mh :: "string \<Rightarrow> string list \<Rightarrow> processing_options \<Rightarrow> processing_options parsed" where
  "opt_mh segment args opts =
     bindr (require_args 1 args segment) (\<lambda>a.
     bindr (parse_dimension (a ! 0) segment) (\<lambda>v. Inr (opts\<lparr>po_min_height := v\<rparr>)))"

text \<open>The shared shape of \<^verbatim>\<open>wm\<close>'s optional slots: a blank slot keeps the field.\<close>

definition opt_float_arg :: "string option \<Rightarrow> rfloat \<Rightarrow> string \<Rightarrow> rfloat parsed" where
  "opt_float_arg v d segment = (case v of Some s \<Rightarrow> parse_float s segment | None \<Rightarrow> Inr d)"

definition parse_watermark :: "string list \<Rightarrow> string \<Rightarrow> processing_options \<Rightarrow> processing_options parsed" where
  "parse_watermark args segment opts =
     (if args = [] \<or> length args > 5
      then Inl (InvalidOptionValue segment (Msg ''expected 1 to 5 arguments'' []))
      else
        bindr (parse_float (args ! 0) segment) (\<lambda>opacity.
        bindr (case arg_at args 1 of
                 Some p \<Rightarrow> parse_watermark_position p segment
               | None \<Rightarrow> Inr (po_watermark_position opts)) (\<lambda>position.
        bindr (opt_float_arg (arg_at args 2) (po_watermark_x_offset opts) segment) (\<lambda>x_offset.
        bindr (opt_float_arg (arg_at args 3) (po_watermark_y_offset opts) segment) (\<lambda>y_offset.
        bindr (opt_float_arg (arg_at args 4) (po_watermark_scale opts) segment) (\<lambda>scale.
          Inr (opts\<lparr>po_watermark_opacity := Some opacity, po_watermark_position := position,
                    po_watermark_x_offset := x_offset, po_watermark_y_offset := y_offset,
                    po_watermark_scale := scale\<rparr>)))))))"

definition opt_wmu :: "(string \<Rightarrow> string option) \<Rightarrow> string \<Rightarrow> string list \<Rightarrow> processing_options \<Rightarrow> processing_options parsed" where
  "opt_wmu b64 segment args opts =
     bindr (require_args 1 args segment) (\<lambda>a.
     bindr (ok_or (InvalidOptionValue segment (Msg ''invalid base64url watermark URL'' [])) (b64 (a ! 0))) (\<lambda>decoded.
     bindr (ok_or (InvalidOptionValue segment (Msg ''watermark URL is not valid UTF-8'' [])) (from_utf8 decoded)) (\<lambda>url.
       Inr (opts\<lparr>po_watermark_url := Some url\<rparr>))))"

definition opt_wms :: "string \<Rightarrow> string list \<Rightarrow> processing_options \<Rightarrow> processing_options parsed" where
  "opt_wms segment args opts =
     bindr (require_args 2 args segment) (\<lambda>a.
     bindr (parse_dimension_allow_zero (a ! 0) segment) (\<lambda>width.
     bindr (parse_dimension_allow_zero (a ! 1) segment) (\<lambda>height.
       Inr (opts\<lparr>po_watermark_size := Some (width, height)\<rparr>))))"

definition opt_wmr :: "string \<Rightarrow> string list \<Rightarrow> processing_options \<Rightarrow> processing_options parsed" where
  "opt_wmr segment args opts =
     bindr (require_args 1 args segment) (\<lambda>a.
     bindr (parse_float (a ! 0) segment) (\<lambda>v. Inr (opts\<lparr>po_watermark_rotate := v\<rparr>)))"

definition opt_wmsh :: "string \<Rightarrow> string list \<Rightarrow> processing_options \<Rightarrow> processing_options parsed" where
  "opt_wmsh segment args opts =
     bindr (require_args 1 args segment) (\<lambda>a.
     bindr (parse_float (a ! 0) segment) (\<lambda>v. Inr (opts\<lparr>po_watermark_shadow := Some v\<rparr>)))"

section \<open>The loop\<close>

text \<open>Every arm but \<^verbatim>\<open>c\<close> updates the record; the table is in the order of the \<^verbatim>\<open>match\<close>.\<close>

definition option_table ::
  "(string \<Rightarrow> string option) \<Rightarrow> (string \<times> (string \<Rightarrow> string list \<Rightarrow> processing_options \<Rightarrow> processing_options parsed)) list" where
  "option_table b64 =
     [(''rs'', opt_rs), (''q'', opt_q), (''fq'', opt_fq), (''webpo'', opt_webpo), (''jpgo'', opt_jpgo),
      (''mb'', opt_mb), (''bl'', opt_bl), (''g'', opt_g), (''el'', opt_el), (''bg'', opt_bg),
      (''ar'', opt_ar), (''sm'', opt_sm), (''gr'', opt_gr), (''rot'', opt_rot), (''fl'', opt_fl),
      (''t'', opt_t), (''ex'', opt_ex), (''pd'', opt_pd), (''z'', opt_z), (''dpr'', opt_dpr),
      (''mw'', opt_mw), (''mh'', opt_mh), (''wm'', (\<lambda>segment args. parse_watermark args segment)),
      (''wmu'', opt_wmu b64), (''wms'', opt_wms), (''wmr'', opt_wmr), (''wmsh'', opt_wmsh)]"

type_synonym loop_state = "processing_options \<times> crop_raw"

definition parse_segment :: "(string \<Rightarrow> string option) \<Rightarrow> loop_state \<Rightarrow> string \<Rightarrow> loop_state parsed" where
  "parse_segment b64 st segment =
     (let parts = split_on CHR '':'' segment; code = hd parts; args = tl parts
      in if code = ''c''
         then bindr (opt_c segment args) (\<lambda>raw. Inr (fst st, raw))
         else (case map_of (option_table b64) code of
                 Some arm \<Rightarrow> bindr (arm segment args (fst st)) (\<lambda>opts. Inr (opts, snd st))
               | None \<Rightarrow> Inl (UnknownOption code)))"

definition resolve_crop :: "loop_state \<Rightarrow> processing_options" where
  "resolve_crop st =
     (fst st)\<lparr>po_crop := map_option (\<lambda>(w, h, g).
        \<lparr> crop_width = w, crop_height = h, crop_gravity = unwrap_or g (po_gravity (fst st)) \<rparr>) (snd st)\<rparr>"

definition parse_options :: "(string \<Rightarrow> string option) \<Rightarrow> string list \<Rightarrow> processing_options parsed" where
  "parse_options b64 segments =
     bindr (foldr_res (parse_segment b64) (processing_options_default, None) segments)
       (\<lambda>st. Inr (resolve_crop st))"

section \<open>Well-formed options\<close>

text \<open>
  The ranges the Rust types and the parsers' guards promise for every value the
  rest of the pipeline reads.
\<close>

definition wf_dim :: "nat option \<Rightarrow> bool" where
  "wf_dim d = (case d of None \<Rightarrow> True | Some n \<Rightarrow> 0 < n \<and> n < 2 ^ 32)"

definition wf_quality :: "nat option \<Rightarrow> bool" where
  "wf_quality q = (case q of None \<Rightarrow> True | Some n \<Rightarrow> n \<le> 100)"

definition wf_rgb :: "rgb \<Rightarrow> bool" where
  "wf_rgb c = (case c of (r, g, b) \<Rightarrow> r < 256 \<and> g < 256 \<and> b < 256)"

definition wf_gravity :: "gravity \<Rightarrow> bool" where
  "wf_gravity g = (case g of
       FocusPoint x y \<Rightarrow> wf_float f64_fmt x \<and> wf_float f64_fmt y
         \<and> f_le f_zero x \<and> f_le x f_one \<and> f_le f_zero y \<and> f_le y f_one
     | _ \<Rightarrow> True)"

definition wf_crop_dimension :: "crop_dimension \<Rightarrow> bool" where
  "wf_crop_dimension d = (case d of
       Full \<Rightarrow> True
     | Absolute n \<Rightarrow> 0 < n \<and> n < 2 ^ 32
     | Relative v \<Rightarrow> wf_float f64_fmt v \<and> is_finite v \<and> f_lt f_zero v \<and> f_lt v f_one)"

definition wf_crop :: "crop \<Rightarrow> bool" where
  "wf_crop c = (wf_crop_dimension (crop_width c) \<and> wf_crop_dimension (crop_height c) \<and> wf_gravity (crop_gravity c))"

definition wf_padding :: "padding \<Rightarrow> bool" where
  "wf_padding p = (pad_top p < 2 ^ 32 \<and> pad_right p < 2 ^ 32 \<and> pad_bottom p < 2 ^ 32 \<and> pad_left p < 2 ^ 32)"

definition wf_trim :: "trim_options \<Rightarrow> bool" where
  "wf_trim t = (wf_float f32_fmt (trim_threshold t) \<and> \<not> f_lt (trim_threshold t) f_zero
     \<and> pred_option wf_rgb (trim_color t))"

definition wf_scale :: "rfloat \<Rightarrow> bool" where
  "wf_scale z = (wf_float f32_fmt z \<and> f_lt f_zero z)"

definition wf_watermark_fields :: "processing_options \<Rightarrow> bool" where
  "wf_watermark_fields p =
     (pred_option (wf_float f32_fmt) (po_watermark_opacity p) \<and> wf_float f32_fmt (po_watermark_x_offset p)
      \<and> wf_float f32_fmt (po_watermark_y_offset p) \<and> wf_float f32_fmt (po_watermark_scale p)
      \<and> pred_option (\<lambda>(w, h). w < 2 ^ 32 \<and> h < 2 ^ 32) (po_watermark_size p)
      \<and> wf_float f32_fmt (po_watermark_rotate p) \<and> pred_option (wf_float f32_fmt) (po_watermark_shadow p))"

definition wf_options :: "processing_options \<Rightarrow> bool" where
  "wf_options p =
     (wf_dim (po_width p) \<and> wf_dim (po_height p) \<and> wf_dim (po_min_width p) \<and> wf_dim (po_min_height p)
      \<and> wf_quality (po_quality p) \<and> wf_quality (po_jpeg_quality p) \<and> wf_quality (po_webp_quality p)
      \<and> pred_option (\<lambda>n. 0 < n \<and> n < 2 ^ 64) (po_max_bytes p)
      \<and> pred_option (wf_float f32_fmt) (po_blur_sigma p)
      \<and> pred_option wf_rgb (po_background p) \<and> pred_option wf_crop (po_crop p) \<and> wf_gravity (po_gravity p)
      \<and> po_rotate p \<in> {0, 90, 180, 270}
      \<and> pred_option wf_trim (po_trim p) \<and> pred_option wf_padding (po_padding p)
      \<and> wf_scale (po_zoom_x p) \<and> wf_scale (po_zoom_y p) \<and> wf_scale (po_dpr p)
      \<and> wf_watermark_fields p)"

definition wf_crop_raw :: "crop_raw \<Rightarrow> bool" where
  "wf_crop_raw c = pred_option (\<lambda>(w, h, g). wf_crop_dimension w \<and> wf_crop_dimension h \<and> pred_option wf_gravity g) c"

named_theorems arg_wf \<open>what a successful argument parser promises of its value\<close>

lemma parse_dimension_wf [arg_wf]: "parse_dimension raw seg = Inr d \<Longrightarrow> wf_dim d"
  by (auto simp: parse_dimension_def wf_dim_def result_simps dest: parse_u_bound)

lemma parse_dimension_allow_zero_wf [arg_wf]: "parse_dimension_allow_zero raw seg = Inr d \<Longrightarrow> d < 2 ^ 32"
  by (auto simp: parse_dimension_allow_zero_def result_simps dest: parse_u_bound)

lemma parse_bounded_wf [arg_wf]: "parse_bounded raw seg lo hi = Inr q \<Longrightarrow> lo \<le> q \<and> q \<le> hi"
  by (auto simp: parse_bounded_def result_simps split: if_splits)

lemma parse_float_wf [arg_wf]: "parse_float raw seg = Inr x \<Longrightarrow> wf_float f32_fmt x"
  by (auto simp: parse_float_def result_simps dest: parse_f32_wf)

lemma parse_positive_wf [arg_wf]: "parse_positive_nonzero_float raw seg = Inr x \<Longrightarrow> wf_scale x"
  by (auto simp: parse_positive_nonzero_float_def wf_scale_def result_simps split: if_splits dest: parse_float_wf)

lemma hex_expand_wf: "hex_expand hex seg c = Inr n \<Longrightarrow> n < 256"
  by (auto simp: hex_expand_def result_simps dest!: to_digit16_bound)

lemma hex_channel_wf: "hex_channel hex seg i = Inr n \<Longrightarrow> n < 256"
  by (auto simp: hex_channel_def result_simps dest: parse_u_bound)

lemma parse_hex_color_wf [arg_wf]: "parse_hex_color hex seg = Inr c \<Longrightarrow> wf_rgb c"
  by (auto simp: parse_hex_color_def wf_rgb_def result_simps split: if_splits
      dest: hex_expand_wf hex_channel_wf)

lemma parse_background_wf [arg_wf]: "parse_background args seg = Inr c \<Longrightarrow> wf_rgb c"
  by (auto simp: parse_background_def wf_rgb_def result_simps split: list.splits
      dest!: parse_bounded_wf dest: parse_hex_color_wf [unfolded wf_rgb_def])

lemma parse_gravity_wf [arg_wf]: "parse_gravity tokens seg = Inr g \<Longrightarrow> wf_gravity g"
  by (auto simp: parse_gravity_def wf_gravity_def result_simps split: if_splits dest: parse_f64_wf)

lemma round_ge_one:
  assumes "1 \<le> m"
  shows "0 < f_as_uint (2 ^ 32) (f_round (Fin False m))"
proof -
  have "1 \<le> \<lfloor>m + 1 / 2\<rfloor>"
    using assms by linarith
  then show ?thesis
    by simp
qed

lemma parse_crop_dimension_wf [arg_wf]: "parse_crop_dimension raw seg = Inr d \<Longrightarrow> wf_crop_dimension d"
proof -
  assume a: "parse_crop_dimension raw seg = Inr d"
  then obtain v where v: "parse_f64 raw = Some v" "is_finite v" "\<not> f_lt v f_zero"
    and d: "d = (if f_eq v f_zero then Full else if f_lt v f_one then Relative v
                 else Absolute (f_as_uint (2 ^ 32) (f_round v)))"
    by (auto simp: parse_crop_dimension_def result_simps split: if_splits)
  obtain s m where sm: "v = Fin s m"
    using v(2) by (cases v) auto
  have "0 \<le> m"
    using parse_f64_wf [OF v(1)] by (simp add: sm representable_def)
  have "f_as_uint (2 ^ 32) (f_round v) < 2 ^ 32"
    by (rule f_as_uint_bound) simp
  moreover have "\<not> f_lt v f_one \<Longrightarrow> 0 < f_as_uint (2 ^ 32) (f_round v)"
    using v(3) \<open>0 \<le> m\<close> round_ge_one [of m] by (cases s) (auto simp: sm)
  ultimately show ?thesis
    using v(3) parse_f64_wf [OF v(1)] by (auto simp: d wf_crop_dimension_def f_eq_def sm)
qed

lemma parse_rotate_angle_wf [arg_wf]: "parse_rotate_angle raw seg = Inr a \<Longrightarrow> a \<in> {0, 90, 180, 270}"
proof -
  assume "parse_rotate_angle raw seg = Inr a"
  then obtain i where "90 dvd i" "a = i mod 360"
    by (auto simp: parse_rotate_angle_def result_simps split: if_splits)
  then obtain k where "a = (90 * k) mod (90 * 4)"
    by (auto simp: dvd_def)
  then have "a = 90 * (k mod 4)"
    by (simp add: mult_mod_right)
  moreover have "k mod 4 \<in> {0, 1, 2, 3}"
    by (auto simp: insert_iff)
  ultimately show ?thesis
    by auto
qed

lemma padding_slot_wf: "padding_slot v seg = Inr d \<Longrightarrow> pred_option (\<lambda>n. n < 2 ^ 32) d"
  by (auto simp: padding_slot_def parse_non_negative_int_def result_simps split: option.splits
      dest: parse_u_bound)

lemma unwrap_or_wf: "pred_option P m \<Longrightarrow> P d \<Longrightarrow> P (unwrap_or m d)"
  by (cases m) (auto simp: unwrap_or_def)

lemma parse_padding_wf [arg_wf]: "parse_padding args seg = Inr p \<Longrightarrow> wf_padding p"
  by (auto simp: parse_padding_def wf_padding_def Let_def result_simps split: if_splits
      dest!: padding_slot_wf intro!: unwrap_or_wf [where P = "\<lambda>n. n < 4294967296"])

lemma parse_trim_wf [arg_wf]: "parse_trim args seg = Inr t \<Longrightarrow> wf_trim t"
  by (auto simp: parse_trim_def wf_trim_def result_simps split: if_splits option.splits
      dest: parse_float_wf parse_hex_color_wf)

lemma parse_zoom_wf [arg_wf]: "parse_zoom args seg = Inr (x, y) \<Longrightarrow> wf_scale x \<and> wf_scale y"
  by (auto simp: parse_zoom_def result_simps split: list.splits dest: parse_positive_wf)

lemma opt_float_arg_wf [arg_wf]:
  "opt_float_arg v d seg = Inr x \<Longrightarrow> wf_float f32_fmt d \<Longrightarrow> wf_float f32_fmt x"
  by (auto simp: opt_float_arg_def split: option.splits dest: parse_float_wf)

section \<open>Every arm keeps the options well-formed\<close>

lemmas simple_arm_defs =
  opt_rs_def opt_q_def opt_webpo_def opt_mb_def opt_bl_def opt_g_def opt_el_def opt_bg_def
  opt_ar_def opt_sm_def opt_gr_def opt_rot_def opt_t_def opt_ex_def opt_pd_def opt_z_def opt_dpr_def
  opt_mw_def opt_mh_def opt_wmu_def opt_wms_def opt_wmr_def opt_wmsh_def

named_theorems wf_upd \<open>which field updates keep the options well-formed\<close>

lemma wf_upd_free [wf_upd]:
  "wf_options p \<Longrightarrow> wf_options (p\<lparr>po_resize_type := x0\<rparr>)"
  "wf_options p \<Longrightarrow> wf_options (p\<lparr>po_grayscale := x1\<rparr>)"
  "wf_options p \<Longrightarrow> wf_options (p\<lparr>po_enlarge := x2\<rparr>)"
  "wf_options p \<Longrightarrow> wf_options (p\<lparr>po_webp_lossless := x3\<rparr>)"
  "wf_options p \<Longrightarrow> wf_options (p\<lparr>po_jpeg_progressive := x4\<rparr>)"
  "wf_options p \<Longrightarrow> wf_options (p\<lparr>po_jpeg_no_subsampling := x5\<rparr>)"
  "wf_options p \<Longrightarrow> wf_options (p\<lparr>po_autorotate := x6\<rparr>)"
  "wf_options p \<Longrightarrow> wf_options (p\<lparr>po_strip_metadata := x7\<rparr>)"
  "wf_options p \<Longrightarrow> wf_options (p\<lparr>po_flip_horizontal := x8\<rparr>)"
  "wf_options p \<Longrightarrow> wf_options (p\<lparr>po_flip_vertical := x9\<rparr>)"
  "wf_options p \<Longrightarrow> wf_options (p\<lparr>po_extend := x10\<rparr>)"
  "wf_options p \<Longrightarrow> wf_options (p\<lparr>po_watermark_position := x11\<rparr>)"
  "wf_options p \<Longrightarrow> wf_options (p\<lparr>po_watermark_url := x12\<rparr>)"
  by (simp_all add: wf_options_def wf_watermark_fields_def)

lemma wf_upd_cond [wf_upd]:
  "wf_options p \<Longrightarrow> wf_dim y0 \<Longrightarrow> wf_options (p\<lparr>po_width := y0\<rparr>)"
  "wf_options p \<Longrightarrow> wf_dim y1 \<Longrightarrow> wf_options (p\<lparr>po_height := y1\<rparr>)"
  "wf_options p \<Longrightarrow> wf_dim y2 \<Longrightarrow> wf_options (p\<lparr>po_min_width := y2\<rparr>)"
  "wf_options p \<Longrightarrow> wf_dim y3 \<Longrightarrow> wf_options (p\<lparr>po_min_height := y3\<rparr>)"
  "wf_options p \<Longrightarrow> wf_quality y4 \<Longrightarrow> wf_options (p\<lparr>po_quality := y4\<rparr>)"
  "wf_options p \<Longrightarrow> wf_quality y5 \<Longrightarrow> wf_options (p\<lparr>po_jpeg_quality := y5\<rparr>)"
  "wf_options p \<Longrightarrow> wf_quality y6 \<Longrightarrow> wf_options (p\<lparr>po_webp_quality := y6\<rparr>)"
  "wf_options p \<Longrightarrow> pred_option (\<lambda>n. 0 < n \<and> n < 2 ^ 64) y7 \<Longrightarrow> wf_options (p\<lparr>po_max_bytes := y7\<rparr>)"
  "wf_options p \<Longrightarrow> pred_option (wf_float f32_fmt) y8 \<Longrightarrow> wf_options (p\<lparr>po_blur_sigma := y8\<rparr>)"
  "wf_options p \<Longrightarrow> pred_option wf_rgb y9 \<Longrightarrow> wf_options (p\<lparr>po_background := y9\<rparr>)"
  "wf_options p \<Longrightarrow> wf_gravity y10 \<Longrightarrow> wf_options (p\<lparr>po_gravity := y10\<rparr>)"
  "wf_options p \<Longrightarrow> y11 \<in> {0, 90, 180, 270} \<Longrightarrow> wf_options (p\<lparr>po_rotate := y11\<rparr>)"
  "wf_options p \<Longrightarrow> pred_option wf_trim y12 \<Longrightarrow> wf_options (p\<lparr>po_trim := y12\<rparr>)"
  "wf_options p \<Longrightarrow> pred_option wf_padding y13 \<Longrightarrow> wf_options (p\<lparr>po_padding := y13\<rparr>)"
  "wf_options p \<Longrightarrow> wf_scale y14 \<Longrightarrow> wf_options (p\<lparr>po_zoom_x := y14\<rparr>)"
  "wf_options p \<Longrightarrow> wf_scale y15 \<Longrightarrow> wf_options (p\<lparr>po_zoom_y := y15\<rparr>)"
  "wf_options p \<Longrightarrow> wf_scale y16 \<Longrightarrow> wf_options (p\<lparr>po_dpr := y16\<rparr>)"
  "wf_options p \<Longrightarrow> pred_option wf_crop y17 \<Longrightarrow> wf_options (p\<lparr>po_crop := y17\<rparr>)"
  "wf_options p \<Longrightarrow> pred_option (wf_float f32_fmt) y18 \<Longrightarrow> wf_options (p\<lparr>po_watermark_opacity := y18\<rparr>)"
  "wf_options p \<Longrightarrow> wf_float f32_fmt y19 \<Longrightarrow> wf_options (p\<lparr>po_watermark_x_offset := y19\<rparr>)"
  "wf_options p \<Longrightarrow> wf_float f32_fmt y20 \<Longrightarrow> wf_options (p\<lparr>po_watermark_y_offset := y20\<rparr>)"
  "wf_options p \<Longrightarrow> wf_float f32_fmt y21 \<Longrightarrow> wf_options (p\<lparr>po_watermark_scale := y21\<rparr>)"
  "wf_options p \<Longrightarrow> pred_option (\<lambda>(w, h). w < 2 ^ 32 \<and> h < 2 ^ 32) y22 \<Longrightarrow> wf_options (p\<lparr>po_watermark_size := y22\<rparr>)"
  "wf_options p \<Longrightarrow> wf_float f32_fmt y23 \<Longrightarrow> wf_options (p\<lparr>po_watermark_rotate := y23\<rparr>)"
  "wf_options p \<Longrightarrow> pred_option (wf_float f32_fmt) y24 \<Longrightarrow> wf_options (p\<lparr>po_watermark_shadow := y24\<rparr>)"
  by (simp_all add: wf_options_def wf_watermark_fields_def)

lemma wf_quality_Some [simp]: "wf_quality (Some n) \<longleftrightarrow> n \<le> 100"
  by (simp add: wf_quality_def)

lemma simple_arms_wf:
  assumes "wf_options p"
  shows "opt_rs seg args p = Inr p' \<Longrightarrow> wf_options p'"
    "opt_q seg args p = Inr p' \<Longrightarrow> wf_options p'"
    "opt_webpo seg args p = Inr p' \<Longrightarrow> wf_options p'"
    "opt_bl seg args p = Inr p' \<Longrightarrow> wf_options p'"
    "opt_g seg args p = Inr p' \<Longrightarrow> wf_options p'"
    "opt_el seg args p = Inr p' \<Longrightarrow> wf_options p'"
    "opt_bg seg args p = Inr p' \<Longrightarrow> wf_options p'"
    "opt_ar seg args p = Inr p' \<Longrightarrow> wf_options p'"
    "opt_sm seg args p = Inr p' \<Longrightarrow> wf_options p'"
    "opt_gr seg args p = Inr p' \<Longrightarrow> wf_options p'"
    "opt_t seg args p = Inr p' \<Longrightarrow> wf_options p'"
    "opt_ex seg args p = Inr p' \<Longrightarrow> wf_options p'"
    "opt_pd seg args p = Inr p' \<Longrightarrow> wf_options p'"
    "opt_dpr seg args p = Inr p' \<Longrightarrow> wf_options p'"
    "opt_mw seg args p = Inr p' \<Longrightarrow> wf_options p'"
    "opt_mh seg args p = Inr p' \<Longrightarrow> wf_options p'"
    "opt_wmu b64 seg args p = Inr p' \<Longrightarrow> wf_options p'"
    "opt_wmr seg args p = Inr p' \<Longrightarrow> wf_options p'"
    "opt_wmsh seg args p = Inr p' \<Longrightarrow> wf_options p'"
  using assms
  by (auto simp: simple_arm_defs result_simps intro!: wf_upd split: if_splits dest: arg_wf)

lemma complex_arms_wf:
  assumes "wf_options p"
  shows "opt_fq seg args p = Inr p' \<Longrightarrow> wf_options p'"
    "opt_mb seg args p = Inr p' \<Longrightarrow> wf_options p'"
    "opt_wms seg args p = Inr p' \<Longrightarrow> wf_options p'"
    "opt_rot seg args p = Inr p' \<Longrightarrow> wf_options p'"
    "opt_z seg args p = Inr p' \<Longrightarrow> wf_options p'"
    "opt_jpgo seg args p = Inr p' \<Longrightarrow> wf_options p'"
    "opt_fl seg args p = Inr p' \<Longrightarrow> wf_options p'"
    "parse_watermark args seg p = Inr p' \<Longrightarrow> wf_options p'"
proof -
  have fq: "opt_fq_pair seg p pr = Inr p' \<Longrightarrow> wf_options p \<Longrightarrow> wf_options p'" for p pr p'
    by (auto simp: opt_fq_pair_def result_simps intro!: wf_upd split: if_splits dest: parse_bounded_wf)
  show "opt_fq seg args p = Inr p' \<Longrightarrow> wf_options p'"
    using assms fq
    by (auto simp: opt_fq_def split: if_splits elim!: foldr_res_invariant [where P = wf_options])
  show "opt_mb seg args p = Inr p' \<Longrightarrow> wf_options p'"
    using assms by (auto simp: opt_mb_def result_simps intro!: wf_upd dest: parse_u_bound)
  show "opt_wms seg args p = Inr p' \<Longrightarrow> wf_options p'"
    using assms by (auto simp: opt_wms_def result_simps intro!: wf_upd dest!: parse_dimension_allow_zero_wf)
  show "opt_rot seg args p = Inr p' \<Longrightarrow> wf_options p'"
    using assms by (auto simp: opt_rot_def result_simps intro!: wf_upd_cond(12) dest!: parse_rotate_angle_wf)
  show "opt_z seg args p = Inr p' \<Longrightarrow> wf_options p'"
    using assms by (auto simp: opt_z_def result_simps intro!: wf_upd dest!: parse_zoom_wf)
  show "opt_jpgo seg args p = Inr p' \<Longrightarrow> wf_options p'"
    using assms by (auto simp: opt_jpgo_def result_simps intro!: wf_upd split: if_splits option.splits)
  show "opt_fl seg args p = Inr p' \<Longrightarrow> wf_options p'"
    using assms by (auto simp: opt_fl_def result_simps intro!: wf_upd split: if_splits)
  have wm: "wf_float f32_fmt (po_watermark_x_offset p)" "wf_float f32_fmt (po_watermark_y_offset p)"
    "wf_float f32_fmt (po_watermark_scale p)"
    using assms by (simp_all add: wf_options_def wf_watermark_fields_def)
  show "parse_watermark args seg p = Inr p' \<Longrightarrow> wf_options p'"
    using assms wm
    by (auto simp: parse_watermark_def result_simps intro!: wf_upd split: if_splits dest: arg_wf)
qed

lemma option_table_wf:
  "(code, arm) \<in> set (option_table b64) \<Longrightarrow> wf_options p \<Longrightarrow> arm seg args p = Inr p' \<Longrightarrow> wf_options p'"
  unfolding option_table_def
  by (auto dest: simple_arms_wf complex_arms_wf)

lemma opt_c_wf: "opt_c seg args = Inr c \<Longrightarrow> wf_crop_raw c"
  by (auto simp: opt_c_def wf_crop_raw_def result_simps split: if_splits dest!: arg_wf)

lemma parse_segment_wf:
  assumes "parse_segment b64 st seg = Inr st'" "wf_options (fst st) \<and> wf_crop_raw (snd st)"
  shows "wf_options (fst st') \<and> wf_crop_raw (snd st')"
  using assms
  by (auto simp: parse_segment_def Let_def result_simps split: if_splits option.splits
      dest: opt_c_wf intro: option_table_wf dest!: map_of_SomeD)

lemma default_wf: "wf_options processing_options_default"
  by (simp add: processing_options_default_def wf_options_def wf_watermark_fields_def wf_dim_def
      wf_quality_def wf_gravity_def wf_scale_def)

lemma resolve_crop_wf:
  assumes "wf_options (fst st)" "wf_crop_raw (snd st)"
  shows "wf_options (resolve_crop st)"
proof -
  have "wf_gravity (po_gravity (fst st))"
    using assms(1) by (simp add: wf_options_def)
  then show ?thesis
    using assms unfolding resolve_crop_def
    by (cases "snd st") (auto simp: wf_crop_raw_def wf_crop_def unwrap_or_def intro!: wf_upd split: option.splits)
qed

section \<open>Success of a segment does not depend on what came before\<close>

lemma opt_fq_pair_indep:
  "opt_fq_pair seg p pr = Inl e \<Longrightarrow> opt_fq_pair seg p' pr = Inl e"
  by (auto simp: opt_fq_pair_def result_simps split: if_splits)

lemma foldr_res_indep:
  assumes f: "\<And>s t x e. f s x = Inl e \<Longrightarrow> f t x = Inl e"
    and "foldr_res f s xs = Inl e"
  shows "foldr_res f t xs = Inl e"
  using assms(2)
proof (induction xs arbitrary: s t)
  case (Cons x xs)
  show ?case
  proof (cases "f s x")
    case (Inl a)
    then have "f t x = Inl a"
      by (rule f)
    then show ?thesis
      using Cons.prems Inl by simp
  next
    case (Inr u)
    have "f t x \<noteq> Inl a" for a
      using f [of t x a s] Inr by auto
    then obtain v where "f t x = Inr v"
      by (cases "f t x") auto
    then show ?thesis
      using Cons.prems Cons.IH Inr by auto
  qed
qed simp

lemma option_table_indep:
  assumes "(code, arm) \<in> set (option_table b64)" "arm seg args p = Inl e"
  shows "arm seg args p' = Inl e"
proof -
  have fq: "opt_fq seg args p = Inl e \<Longrightarrow> opt_fq seg args p' = Inl e"
    by (auto simp: opt_fq_def split: if_splits intro: foldr_res_indep [OF opt_fq_pair_indep])
  have wm: "parse_watermark args seg p = Inl e \<Longrightarrow> parse_watermark args seg p' = Inl e"
    by (auto simp: parse_watermark_def opt_float_arg_def result_simps split: option.splits)
  have fl: "opt_fl seg args p = Inl e \<Longrightarrow> opt_fl seg args p' = Inl e"
    by (auto simp: opt_fl_def opt_bool_arg_def result_simps split: option.splits if_splits)
  have jp: "opt_jpgo seg args p = Inl e \<Longrightarrow> opt_jpgo seg args p' = Inl e"
    by (auto simp: opt_jpgo_def result_simps split: option.splits if_splits)
  have "arm \<in> {opt_fq, opt_jpgo, opt_fl, (\<lambda>segment args. parse_watermark args segment)}
        \<or> arm \<in> {opt_rs, opt_q, opt_webpo, opt_mb, opt_bl, opt_g, opt_el, opt_bg, opt_ar, opt_sm, opt_gr,
               opt_rot, opt_t, opt_ex, opt_pd, opt_z, opt_dpr, opt_mw, opt_mh, opt_wmu b64, opt_wms,
               opt_wmr, opt_wmsh}"
    using assms(1) unfolding option_table_def by auto
  then show ?thesis
  proof
    assume "arm \<in> {opt_fq, opt_jpgo, opt_fl, (\<lambda>segment args. parse_watermark args segment)}"
    then show ?thesis
      using assms(2) fq wm fl jp by auto
  next
    assume "arm \<in> {opt_rs, opt_q, opt_webpo, opt_mb, opt_bl, opt_g, opt_el, opt_bg, opt_ar, opt_sm, opt_gr,
               opt_rot, opt_t, opt_ex, opt_pd, opt_z, opt_dpr, opt_mw, opt_mh, opt_wmu b64, opt_wms,
               opt_wmr, opt_wmsh}"
    then show ?thesis
      using assms(2) by (auto simp: simple_arm_defs result_simps split: if_splits)
  qed
qed

lemma parse_segment_indep:
  "parse_segment b64 st seg = Inl e \<longleftrightarrow> parse_segment b64 st' seg = Inl e"
proof -
  have "parse_segment b64 st seg = Inl e \<Longrightarrow> parse_segment b64 st' seg = Inl e" for st st'
    by (auto simp: parse_segment_def Let_def result_simps split: if_splits option.splits
        dest!: map_of_SomeD intro: option_table_indep)
  then show ?thesis
    by blast
qed

text \<open>The error a segment raises, wherever it stands in the list.\<close>

definition segment_error :: "(string \<Rightarrow> string option) \<Rightarrow> string \<Rightarrow> url_parse_error option" where
  "segment_error b64 seg =
     (case parse_segment b64 (processing_options_default, None) seg of Inl e \<Rightarrow> Some e | Inr _ \<Rightarrow> None)"

lemma parse_segment_error: "parse_segment b64 st seg = Inl e \<longleftrightarrow> segment_error b64 seg = Some e"
  using parse_segment_indep [of b64 st seg e "(processing_options_default, None)"]
  by (auto simp: segment_error_def split: sum.splits)

lemma parse_segment_ok: "is_ok (parse_segment b64 st seg) \<longleftrightarrow> segment_error b64 seg = None"
  using parse_segment_error [of b64 st seg] by (cases "parse_segment b64 st seg") auto

lemma fold_segments_error:
  "foldr_res (parse_segment b64) st segs = Inl e \<longleftrightarrow>
     (\<exists>pre seg post. segs = pre @ seg # post \<and> list_all (\<lambda>s. segment_error b64 s = None) pre
        \<and> segment_error b64 seg = Some e)"
proof (induction segs arbitrary: st)
  case (Cons s segs)
  show ?case (is "_ \<longleftrightarrow> ?R")
  proof (cases "parse_segment b64 st s")
    case (Inl d)
    then have d: "segment_error b64 s = Some d"
      using parse_segment_error by blast
    then have "?R \<longleftrightarrow> d = e"
      by (auto simp: Cons_eq_append_conv) (metis list.pred_inject(1))
    then show ?thesis
      using Inl by simp
  next
    case (Inr t)
    then have "segment_error b64 s = None"
      using parse_segment_ok [of b64 st s] by simp
    then have "?R \<longleftrightarrow> (\<exists>pre seg post. segs = pre @ seg # post
        \<and> list_all (\<lambda>s. segment_error b64 s = None) pre \<and> segment_error b64 seg = Some e)" (is "_ \<longleftrightarrow> ?T")
    proof (intro iffI)
      assume ?T
      then obtain pre seg post where "segs = pre @ seg # post"
        "list_all (\<lambda>s. segment_error b64 s = None) pre" "segment_error b64 seg = Some e"
        by blast
      with \<open>segment_error b64 s = None\<close> show ?R
        by (intro exI [of _ "s # pre"] exI [of _ seg] exI [of _ post]) simp
    qed (fastforce simp: Cons_eq_append_conv)
    then show ?thesis
      using Inr Cons.IH [of t] by simp
  qed
qed simp

lemma fold_segments_ok:
  "foldr_res (parse_segment b64) st segs = Inr st' \<Longrightarrow> s \<in> set segs \<Longrightarrow> segment_error b64 s = None"
proof (induction segs arbitrary: st)
  case (Cons x xs)
  then obtain t where t: "parse_segment b64 st x = Inr t" "foldr_res (parse_segment b64) t xs = Inr st'"
    by (auto simp: bindr_Inr_iff)
  show ?case
  proof (cases "s = x")
    case True
    then show ?thesis
      using t parse_segment_ok [of b64 st x] by simp
  next
    case False
    then show ?thesis
      using Cons.IH [OF t(2)] Cons.prems(2) by simp
  qed
qed simp

lemma parse_options_segments_ok:
  "parse_options b64 segs = Inr p \<Longrightarrow> s \<in> set segs \<Longrightarrow> segment_error b64 s = None"
  by (auto simp: parse_options_def bindr_Inr_iff dest: fold_segments_ok)

section \<open>Properties of the grammar\<close>

text \<open>
  C16. Every option list that parses yields options in range: dimensions are
  positive \<^verbatim>\<open>u32\<close> values, qualities at most 100, the rotation one of the four
  quarter turns, zoom and dpr positive, crop fractions strictly between 0 and 1,
  crop sizes at least one pixel, focus points inside the unit square, trim
  thresholds not negative, colours \<^verbatim>\<open>u8\<close> triples.
\<close>

theorem parse_options_wf:
  assumes "parse_options b64 segments = Inr opts"
  shows "wf_options opts"
proof -
  obtain st where st: "foldr_res (parse_segment b64) (processing_options_default, None) segments = Inr st"
    and o: "opts = resolve_crop st"
    using assms by (auto simp: parse_options_def result_simps)
  have "wf_options (fst st) \<and> wf_crop_raw (snd st)"
    using st by (rule foldr_res_invariant) (auto simp: default_wf wf_crop_raw_def dest: parse_segment_wf)
  then show ?thesis
    by (simp add: o resolve_crop_wf)
qed

lemmas eval_options =
  parse_options_def parse_segment_def option_table_def resolve_crop_def require_args_def
  parse_resize_type_def resize_type_from_str_def parse_dimension_def parse_bounded_def
  parse_u_defs parse_unsigned_def to_digit10_def is_ascii_digit_def opt_rs_def opt_q_def

theorem parse_options_wf_witness:
  "wf_options (processing_options_default\<lparr>po_resize_type := Fill, po_width := Some 300,
     po_height := Some 200, po_quality := Some 80\<rparr>)"
  by (rule parse_options_wf [of "\<lambda>_. None" "[''rs:fill:300:200'', ''q:80'']"])
    (simp add: eval_options processing_options_default_def)

text \<open>
  Parsing fails exactly on the first offending segment: the error returned
  is that segment's own error, whatever options precede or follow it, and a
  list all of whose segments are individually accepted always parses.
\<close>

theorem parse_options_first_error:
  "parse_options b64 segments = Inl e \<longleftrightarrow>
     (\<exists>pre seg post. segments = pre @ seg # post
        \<and> list_all (\<lambda>s. segment_error b64 s = None) pre
        \<and> segment_error b64 seg = Some e)"
  by (simp add: parse_options_def bindr_Inl_iff fold_segments_error)

definition rs_segment :: "resize_type \<Rightarrow> nat \<Rightarrow> nat \<Rightarrow> string" where
  "rs_segment t w h = ''rs:'' @ resize_type_display t @ '':'' @ show_nat w @ '':'' @ show_nat h"

lemma show_nat_no_colon: "CHR '':'' \<notin> set (show_nat n)"
  using show_nat_digits [of "CHR '':''" n] by auto

lemma parse_segment_rs:
  assumes "w < 2 ^ 32" "h < 2 ^ 32"
  shows "parse_segment b64 st (rs_segment t w h)
     = Inr ((fst st)\<lparr>po_resize_type := t, po_width := (if w = 0 then None else Some w),
                      po_height := (if h = 0 then None else Some h)\<rparr>, snd st)"
proof -
  have r: "CHR '':'' \<notin> set (resize_type_display t)"
    by (cases t) (auto simp: resize_type_display_def)
  have "split_on CHR '':'' (rs_segment t w h) = [''rs'', resize_type_display t, show_nat w, show_nat h]"
    using r by (simp add: rs_segment_def split_on_append split_on_no_delim show_nat_no_colon)
  then show ?thesis
    using assms
    by (simp add: parse_segment_def option_table_def opt_rs_def require_args_def parse_resize_type_def
        resize_type_round_trip parse_dimension_def parse_u_show)
qed

text \<open>
  A later segment wins: whatever options came before, a trailing
  \<^verbatim>\<open>rs:{type}:{w}:{h}\<close> decides type, width and height (zero meaning unset) and
  leaves every other option as the preceding segments set it.
\<close>

theorem parse_options_last_rs_wins:
  assumes "parse_options b64 segments = Inr opts" "w < 2 ^ 32" "h < 2 ^ 32"
  shows "parse_options b64 (segments @ [rs_segment t w h])
     = Inr (opts\<lparr>po_resize_type := t, po_width := (if w = 0 then None else Some w),
                 po_height := (if h = 0 then None else Some h)\<rparr>)"
  using assms
  by (auto simp: parse_options_def foldr_res_append parse_segment_rs [OF assms(2,3)] resolve_crop_def
      result_simps)

theorem parse_options_last_rs_wins_witness:
  "parse_options (\<lambda>_. None) [''q:80'', ''rs:fill:300:0'']
     = Inr (processing_options_default\<lparr>po_quality := Some 80, po_resize_type := Fill, po_width := Some 300\<rparr>)"
proof -
  have "parse_options (\<lambda>_. None) [''q:80''] = Inr (processing_options_default\<lparr>po_quality := Some 80\<rparr>)"
    by (simp add: eval_options processing_options_default_def)
  moreover have "show_nat 300 = ''300''" "show_nat 0 = ''0''"
    by code_simp+
  ultimately show ?thesis
    using parse_options_last_rs_wins [of "\<lambda>_. None" "[''q:80'']" _ 300 0 Fill]
    by (simp add: rs_segment_def resize_type_display_def processing_options_default_def)
qed

lemma foldr_res_swap:
  assumes "\<forall>st st'. foldr_res f st [x, y] = Inr st' \<longrightarrow> foldr_res f st [y, x] = Inr st'"
    and "is_ok (foldr_res f s (pre @ [x, y] @ post))"
  shows "foldr_res f s (pre @ [x, y] @ post) = foldr_res f s (pre @ [y, x] @ post)"
proof -
  obtain u t where u: "foldr_res f s pre = Inr u" and t: "foldr_res f u [x, y] = Inr t"
    using assms(2) by (auto simp only: foldr_res_append is_ok_iff bindr_Inr_iff)
  have "foldr_res f u [y, x] = Inr t"
    using t assms(1) by blast
  then show ?thesis
    using u t by (simp only: foldr_res_append bindr_simps)
qed

lemma parse_segment_crop:
  "parse_segment b64 st (''c:'' @ a) = bindr (opt_c (''c:'' @ a) (split_on CHR '':'' a)) (\<lambda>raw. Inr (fst st, raw))"
  by (simp add: parse_segment_def)

lemma parse_segment_gravity:
  "parse_segment b64 st (''gr:'' @ g)
     = bindr (opt_gr (''gr:'' @ g) (split_on CHR '':'' g) (fst st)) (\<lambda>opts. Inr (opts, snd st))"
  by (simp add: parse_segment_def option_table_def)

text \<open>
  \<^verbatim>\<open>c\<close> and \<^verbatim>\<open>gr\<close> commute: wherever the gravity segment stands relative to
  the crop segment, the parsed options are the same, so a crop without a gravity
  of its own always takes the request's final \<^verbatim>\<open>gr\<close> value.
\<close>

theorem crop_gravity_order_independent:
  "is_ok (parse_options b64 (pre @ [''c:'' @ a, ''gr:'' @ g] @ post))
     \<longrightarrow> parse_options b64 (pre @ [''c:'' @ a, ''gr:'' @ g] @ post)
       = parse_options b64 (pre @ [''gr:'' @ g, ''c:'' @ a] @ post)"
proof -
  have "\<forall>st st'. foldr_res (parse_segment b64) st [''c:'' @ a, ''gr:'' @ g] = Inr st'
     \<longrightarrow> foldr_res (parse_segment b64) st [''gr:'' @ g, ''c:'' @ a] = Inr st'"
    unfolding foldr_res.simps parse_segment_crop parse_segment_gravity
    by (auto simp: result_simps opt_gr_def split: if_splits)
  note swap = foldr_res_swap [of "parse_segment b64" "''c:'' @ a" "''gr:'' @ g", OF this]
  show ?thesis
  proof
    assume "is_ok (parse_options b64 (pre @ [''c:'' @ a, ''gr:'' @ g] @ post))"
    then have "is_ok (foldr_res (parse_segment b64) (processing_options_default, None)
        (pre @ [''c:'' @ a, ''gr:'' @ g] @ post))"
      unfolding parse_options_def is_ok_iff bindr_Inr_iff by blast
    note eq = swap [OF this]
    show "parse_options b64 (pre @ [''c:'' @ a, ''gr:'' @ g] @ post)
        = parse_options b64 (pre @ [''gr:'' @ g, ''c:'' @ a] @ post)"
      unfolding parse_options_def eq ..
  qed
qed

theorem crop_gravity_order_independent_witness:
  "parse_options (\<lambda>_. None) [''c:0:0'', ''gr:no''] = parse_options (\<lambda>_. None) [''gr:no'', ''c:0:0'']
   \<and> is_ok (parse_options (\<lambda>_. None) [''c:0:0'', ''gr:no''])"
proof -
  have "parse_f64 ''0'' = Some f_zero"
    by (simp add: parse_f64_def parse_float_fmt_def parse_decimal_def is_ascii_digit_def to_digit10_def
        round_float_def)
  then have "is_ok (parse_options (\<lambda>_. None) [''c:0:0'', ''gr:no''])"
    by (simp add: eval_options opt_c_def opt_gr_def parse_crop_dimension_def parse_gravity_def f_eq_def)
  then show ?thesis
    using crop_gravity_order_independent [of "\<lambda>_. None" "[]" "''0:0''" "''no''" "[]"] by simp
qed

definition css_padding :: "nat list \<Rightarrow> padding" where
  "css_padding vs =
     (case vs of
        [a] \<Rightarrow> \<lparr> pad_top = a, pad_right = a, pad_bottom = a, pad_left = a \<rparr>
      | [a, b] \<Rightarrow> \<lparr> pad_top = a, pad_right = b, pad_bottom = a, pad_left = b \<rparr>
      | [a, b, c] \<Rightarrow> \<lparr> pad_top = a, pad_right = b, pad_bottom = c, pad_left = b \<rparr>
      | (a # b # c # d # _) \<Rightarrow> \<lparr> pad_top = a, pad_right = b, pad_bottom = c, pad_left = d \<rparr>
      | [] \<Rightarrow> \<lparr> pad_top = 0, pad_right = 0, pad_bottom = 0, pad_left = 0 \<rparr>)"

lemma padding_slot_show:
  "n < 2 ^ 32 \<Longrightarrow> padding_slot (Some (show_nat n)) seg = Inr (Some n)"
  by (simp add: padding_slot_def parse_non_negative_int_def parse_u_show)

lemma padding_slot_None [simp]: "padding_slot None seg = Inr None"
  by (simp add: padding_slot_def)

text \<open>
  The \<^verbatim>\<open>pd\<close> shorthand is CSS's: one to four values give top, right, bottom
  and left with the fallbacks right to top, bottom to top, left to right.
\<close>

theorem parse_padding_css:
  assumes "vs \<noteq> []" "length vs \<le> 4" "list_all (\<lambda>v. v < 2 ^ 32) vs"
  shows "parse_padding (map show_nat vs) seg = Inr (css_padding vs)"
proof -
  consider (1) a where "vs = [a]" | (2) a b where "vs = [a, b]" | (3) a b c where "vs = [a, b, c]"
    | (4) a b c d where "vs = [a, b, c, d]"
    using assms(1,2) by (auto simp: neq_Nil_conv le_Suc_eq numeral_eq_Suc length_Suc_conv)
  then show ?thesis
    using assms(3)
    by cases (simp_all add: parse_padding_def arg_at_def padding_slot_show unwrap_or_def css_padding_def)
qed

theorem parse_padding_css_witness:
  "parse_padding [show_nat 10, show_nat 20] ''pd:10:20''
     = Inr \<lparr> pad_top = 10, pad_right = 20, pad_bottom = 10, pad_left = 20 \<rparr>"
  using parse_padding_css [of "[10, 20]" "''pd:10:20''"] by (simp add: css_padding_def)

definition hex2 :: "nat \<Rightarrow> string" where
  "hex2 n = [hex_char (n div 16), hex_char (n mod 16)]"

lemma hex_char_hexdigit: "d < 16 \<Longrightarrow> is_ascii_hexdigit (hex_char d)"
  by (simp add: is_ascii_hexdigit_def)

lemma hex_char_not_plus: "d < 16 \<Longrightarrow> hex_char d \<noteq> CHR ''+''"
  using to_digit16_hex_char [of d] by (auto simp: to_digit16_def)

lemma parse_u8_hex2: "n < 256 \<Longrightarrow> parse_u8_hex (hex2 n) = Some n"
  using hex_char_not_plus [of "n div 16"]
  by (simp add: parse_u8_hex_def parse_unsigned_def hex2_def less_mult_imp_div_less div_mod_decomp)

text \<open>
  Hex colours: six hex digits read back the channels they print, and three
  digits mean each digit doubled.
\<close>

theorem parse_hex_color_round_trip:
  assumes "r < 256" "g < 256" "b < 256" "x < 16" "y < 16" "z < 16"
  shows "parse_hex_color (hex2 r @ hex2 g @ hex2 b) seg = Inr (r, g, b)
    \<and> parse_hex_color [hex_char x, hex_char y, hex_char z] seg
      = parse_hex_color [hex_char x, hex_char x, hex_char y, hex_char y, hex_char z, hex_char z] seg"
proof -
  have six: "parse_hex_color (hex2 r @ hex2 g @ hex2 b) seg = Inr (r, g, b)"
    if a: "r < 256" "g < 256" "b < 256" for r g b
  proof -
    have "list_all is_ascii_hexdigit (hex2 r @ hex2 g @ hex2 b)"
      using a by (simp add: hex2_def hex_char_hexdigit less_mult_imp_div_less)
    then show ?thesis
      using parse_u8_hex2 [OF a(1)] parse_u8_hex2 [OF a(2)] parse_u8_hex2 [OF a(3)]
      by (simp add: parse_hex_color_def hex_channel_def hex2_def)
  qed
  have d: "hex2 (17 * d) = [hex_char d, hex_char d]" if "d < 16" for d
  proof -
    have "17 * d = d + d * 16"
      by simp
    then have "17 * d div 16 = d" "17 * d mod 16 = d"
      using that by (simp_all only: div_mult_self1 mod_mult_self1) simp_all
    then show ?thesis
      by (simp add: hex2_def)
  qed
  have "parse_hex_color [hex_char x, hex_char y, hex_char z] seg = Inr (17 * x, 17 * y, 17 * z)"
    using assms by (simp add: parse_hex_color_def hex_expand_def hex_char_hexdigit)
  then show ?thesis
    using six [OF assms(1-3)] six [of "17 * x" "17 * y" "17 * z"] assms by (simp add: d)
qed

theorem parse_hex_color_round_trip_witness:
  "parse_hex_color ''ff8000'' ''bg:ff8000'' = Inr (255, 128, 0)
   \<and> parse_hex_color ''f80'' ''bg:ff8000'' = parse_hex_color ''ff8800'' ''bg:ff8000''"
proof -
  have "hex2 255 = ''ff''" "hex2 128 = ''80''" "hex2 0 = ''00''"
    "hex_char 15 = CHR ''f''" "hex_char 8 = CHR ''8''" "hex_char 0 = CHR ''0''"
    by code_simp+
  then show ?thesis
    using parse_hex_color_round_trip [of 255 128 0 15 8 0 "''bg:ff8000''"] by simp
qed

end
