(* ===== verification/Url.thy ===== *)
theory Url
  imports Options
begin

text \<open>
  The signed-URL grammar around the options: presets and the option allowlist
  (\<^verbatim>\<open>src/src/modules/url/presets.rs\<close>), the source segment
  (\<^verbatim>\<open>src/src/modules/url/source.rs\<close>), and \<^verbatim>\<open>split\<close>, \<^verbatim>\<open>parse_with_config\<close> and
  \<^verbatim>\<open>into_resize_query\<close> (\<^verbatim>\<open>src/src/modules/url/mod.rs\<close>).  The decoders of the
  \<^verbatim>\<open>base64\<close> and \<^verbatim>\<open>urlencoding\<close> crates are the parameters \<^verbatim>\<open>b64\<close> and \<^verbatim>\<open>pct\<close>.
\<close>

section \<open>Presets and the allowlist\<close>

record preset_registry =
  pr_presets :: "string \<rightharpoonup> string list"

definition presets_empty :: preset_registry where
  "presets_empty = \<lparr> pr_presets = Map.empty \<rparr>"

definition segment_code :: "string \<Rightarrow> string" where
  "segment_code seg = hd (split_on CHR '':'' seg)"

definition preset_segments :: "string \<Rightarrow> string list" where
  "preset_segments options = filter (\<lambda>s. s \<noteq> []) (map trim (split_on CHR ''/'' options))"

definition parse_preset_entry ::
  "(string \<rightharpoonup> string list) \<Rightarrow> string \<Rightarrow> (message, string \<rightharpoonup> string list) result" where
  "parse_preset_entry presets raw_entry =
     (let entry = trim raw_entry in
      if entry = [] then Inr presets
      else (case split_once CHR ''='' entry of
        None \<Rightarrow> Inl (Msg ''preset entry is missing ='' [AStr entry])
      | Some (n, options) \<Rightarrow>
          (let name = trim n; segments = preset_segments options in
           if name = [] then Inl (Msg ''preset entry has an empty name'' [AStr entry])
           else if segments = [] then Inl (Msg ''preset has no options'' [AStr name])
           else (case find (\<lambda>seg. segment_code seg = ''pr'') segments of
             Some bad \<Rightarrow> Inl (Msg ''preset contains a pr: segment'' [AStr name, AStr bad])
           | None \<Rightarrow>
               if presets name \<noteq> None then Inl (Msg ''duplicate preset name'' [AStr name])
               else Inr (presets(name \<mapsto> segments))))))"

definition presets_parse :: "string \<Rightarrow> (message, preset_registry) result" where
  "presets_parse raw =
     bindr (foldr_res parse_preset_entry Map.empty (split_on CHR '','' raw))
       (\<lambda>presets. Inr \<lparr> pr_presets = presets \<rparr>)"

definition presets_get :: "preset_registry \<Rightarrow> string \<Rightarrow> string list option" where
  "presets_get reg name = pr_presets reg name"

definition default_preset :: "preset_registry \<Rightarrow> string list option" where
  "default_preset reg = pr_presets reg ''default''"

record allowed_options =
  ao_allowed :: "string set option"

definition allowed_unrestricted :: allowed_options where
  "allowed_unrestricted = \<lparr> ao_allowed = None \<rparr>"

definition allowed_parse :: "string \<Rightarrow> allowed_options" where
  "allowed_parse raw =
     (let codes = filter (\<lambda>s. s \<noteq> []) (map trim (split_on CHR '','' raw))
      in if codes = [] then allowed_unrestricted else \<lparr> ao_allowed = Some (set codes) \<rparr>)"

definition is_allowed :: "allowed_options \<Rightarrow> string \<Rightarrow> bool" where
  "is_allowed allowed code = (case ao_allowed allowed of None \<Rightarrow> True | Some s \<Rightarrow> code \<in> s)"

section \<open>The source segment\<close>

record source_spec =
  ss_url :: string
  ss_format :: image_format

definition known_extensions :: "string list" where
  "known_extensions = [''jpg'', ''jpeg'', ''png'', ''webp'', ''avif'', ''gif'', ''auto'']"

definition split_extension :: "string \<Rightarrow> (string \<times> image_format) parsed" where
  "split_extension s =
     (case rsplit_once CHR ''.'' s of
        None \<Rightarrow> Inl (InvalidSource (Msg ''missing required .<extension> suffix'' [AStr s]))
      | Some (base, ext) \<Rightarrow>
          if ext \<notin> set known_extensions
          then Inl (InvalidSource (Msg ''unrecognized extension'' [AStr ext]))
          else bindr (map_err InvalidSource (image_format_from_str ext)) (\<lambda>format. Inr (base, format)))"

definition parse_plain_source :: "(string \<Rightarrow> string option) \<Rightarrow> string list \<Rightarrow> source_spec parsed" where
  "parse_plain_source pct rest =
     (if rest = [] then Inl EmptySource
      else
        bindr (split_extension (join_with ''/'' rest)) (\<lambda>(raw_url, format).
        bindr (ok_or (InvalidSource (Msg ''invalid percent-encoding'' [])) (pct raw_url)) (\<lambda>url.
          if url = [] then Inl EmptySource else Inr \<lparr> ss_url = url, ss_format = format \<rparr>)))"

definition parse_base64_source :: "(string \<Rightarrow> string option) \<Rightarrow> string list \<Rightarrow> source_spec parsed" where
  "parse_base64_source b64 segments =
     (case segments of
        [segment] \<Rightarrow>
          bindr (split_extension segment) (\<lambda>(encoded, format).
          bindr (ok_or (InvalidSource (Msg ''invalid base64url source'' [])) (b64 encoded)) (\<lambda>decoded.
          bindr (ok_or (InvalidSource (Msg ''source is not valid UTF-8'' [])) (from_utf8 decoded)) (\<lambda>url.
            if url = [] then Inl EmptySource else Inr \<lparr> ss_url = url, ss_format = format \<rparr>)))
      | _ \<Rightarrow> Inl (InvalidSource (Msg ''base64-encoded source must be a single path segment'' [])))"

definition parse_source ::
  "(string \<Rightarrow> string option) \<Rightarrow> (string \<Rightarrow> string option) \<Rightarrow> string list \<Rightarrow> source_spec parsed" where
  "parse_source b64 pct segments =
     (case segments of
        [] \<Rightarrow> Inl EmptySource
      | s # rest \<Rightarrow> if s = ''plain'' then parse_plain_source pct rest else parse_base64_source b64 segments)"

section \<open>Splitting and parsing the path\<close>

record signed_request =
  sr_signature_segment :: string
  sr_signed_path :: string
  sr_remainder_segments :: "string list"

definition split_path :: "string \<Rightarrow> signed_request parsed" where
  "split_path raw_path =
     (let trimmed = (case strip_prefix ''/'' raw_path of Some t \<Rightarrow> t | None \<Rightarrow> raw_path)
      in case split_once CHR ''/'' trimmed of
           Some (sig, remainder) \<Rightarrow>
             if remainder = [] then Inl (Malformed raw_path)
             else Inr \<lparr> sr_signature_segment = sig, sr_signed_path = CHR ''/'' # remainder,
                        sr_remainder_segments = split_on CHR ''/'' remainder \<rparr>
         | None \<Rightarrow> Inl (Malformed raw_path))"

definition is_option_segment :: "string \<Rightarrow> bool" where
  "is_option_segment seg = (\<not> (seg = ''plain'' \<or> \<not> looks_like_option seg))"

text \<open>One turn of the expansion loop: the allowlist, then presets or the segment itself.\<close>

definition expand_presets :: "preset_registry \<Rightarrow> string list \<Rightarrow> string list parsed" where
  "expand_presets reg names =
     foldr_res (\<lambda>acc name. bindr (ok_or (UnknownPreset name) (presets_get reg name)) (\<lambda>segs. Inr (acc @ segs))) [] names"

definition expand_segment ::
  "preset_registry \<Rightarrow> allowed_options \<Rightarrow> string list \<Rightarrow> string \<Rightarrow> string list parsed" where
  "expand_segment reg allowed expanded seg =
     (let code = segment_code seg in
      if \<not> is_allowed allowed code then Inl (OptionNotAllowed code)
      else if code = ''pr''
      then bindr (expand_presets reg (tl (split_on CHR '':'' seg))) (\<lambda>segs. Inr (expanded @ segs))
      else Inr (expanded @ [seg]))"

record parsed_request =
  pq_options :: processing_options
  pq_source :: source_spec

definition parse_with_config ::
  "(string \<Rightarrow> string option) \<Rightarrow> (string \<Rightarrow> string option) \<Rightarrow> preset_registry \<Rightarrow> allowed_options
     \<Rightarrow> signed_request \<Rightarrow> parsed_request parsed" where
  "parse_with_config b64 pct reg allowed sr =
     (let segments = sr_remainder_segments sr;
          direct = takeWhile is_option_segment segments;
          start = (case default_preset reg of Some d \<Rightarrow> d | None \<Rightarrow> [])
      in bindr (foldr_res (expand_segment reg allowed) start direct) (\<lambda>expanded.
         bindr (parse_options b64 expanded) (\<lambda>options.
         bindr (parse_source b64 pct (dropWhile is_option_segment segments)) (\<lambda>source.
           Inr \<lparr> pq_options = options, pq_source = source \<rparr>))))"

definition parse_request ::
  "(string \<Rightarrow> string option) \<Rightarrow> (string \<Rightarrow> string option) \<Rightarrow> signed_request \<Rightarrow> parsed_request parsed" where
  "parse_request b64 pct sr = parse_with_config b64 pct presets_empty allowed_unrestricted sr"

definition watermark_of :: "processing_options \<Rightarrow> watermark_query option" where
  "watermark_of p = map_option (\<lambda>opacity.
     \<lparr> wq_opacity = opacity, wq_position = po_watermark_position p, wq_x_offset = po_watermark_x_offset p,
       wq_y_offset = po_watermark_y_offset p, wq_scale = po_watermark_scale p, wq_url = po_watermark_url p,
       wq_size = po_watermark_size p, wq_rotate = po_watermark_rotate p, wq_shadow = po_watermark_shadow p \<rparr>)
     (po_watermark_opacity p)"

definition into_resize_query :: "parsed_request \<Rightarrow> resize_query" where
  "into_resize_query r =
     (let p = pq_options r in \<lparr>
        rq_url = ss_url (pq_source r), rq_width = po_width p, rq_height = po_height p,
        rq_resize_type = po_resize_type p, rq_format = ss_format (pq_source r),
        rq_blur_sigma = po_blur_sigma p, rq_grayscale = po_grayscale p,
        rq_enlarge = unwrap_or (po_enlarge p) False, rq_quality = po_quality p,
        rq_jpeg_quality = po_jpeg_quality p, rq_webp_quality = po_webp_quality p,
        rq_webp_lossless = po_webp_lossless p, rq_jpeg_progressive = po_jpeg_progressive p,
        rq_jpeg_no_subsampling = po_jpeg_no_subsampling p, rq_max_bytes = po_max_bytes p,
        rq_background = po_background p, rq_autorotate = unwrap_or (po_autorotate p) True,
        rq_strip_metadata = unwrap_or (po_strip_metadata p) True, rq_crop = po_crop p,
        rq_gravity = po_gravity p, rq_rotate = po_rotate p, rq_flip_horizontal = po_flip_horizontal p,
        rq_flip_vertical = po_flip_vertical p, rq_trim = po_trim p,
        rq_extend = unwrap_or (po_extend p) False, rq_padding = po_padding p, rq_zoom_x = po_zoom_x p,
        rq_zoom_y = po_zoom_y p, rq_dpr = po_dpr p, rq_min_width = po_min_width p,
        rq_min_height = po_min_height p, rq_watermark = watermark_of p \<rparr>)"

section \<open>Presets never recurse\<close>

definition wf_presets :: "(string \<rightharpoonup> string list) \<Rightarrow> bool" where
  "wf_presets m \<longleftrightarrow>
     (\<forall>name segs. m name = Some segs \<longrightarrow>
        name \<noteq> [] \<and> segs \<noteq> [] \<and> (\<forall>s \<in> set segs. segment_code s \<noteq> ''pr'' \<and> CHR ''/'' \<notin> set s))"

lemma set_trim: "set (trim s) \<subseteq> set s"
proof -
  have e: "\<exists>p. s = p @ trim_end_rev s" for s
  proof (induction s rule: trim_end_rev.induct)
    case (1 s)
    show ?case
    proof (cases "strip_any (map rev ws_encodings) s")
      case None
      then show ?thesis by (simp add: trim_end_rev.simps)
    next
      case (Some t)
      then have "\<exists>p. s = p @ t" by (rule strip_any_suffix)
      with 1 Some show ?thesis
        by (metis append_assoc option.simps(5) trim_end_rev.simps)
    qed
  qed
  have "set (trim_end_rev (rev (trim_start s))) \<subseteq> set (trim_start s)"
    using e [of "rev (trim_start s)"] by (metis set_append set_rev Un_upper2)
  also have "\<dots> \<subseteq> set s"
    using trim_start_suffix [of s] by (metis set_append Un_upper2)
  finally show ?thesis
    by (simp add: trim_def)
qed

lemma preset_segments_no_slash: "s \<in> set (preset_segments opts) \<Longrightarrow> CHR ''/'' \<notin> set s"
  using set_trim set_split_on [of _ "CHR ''/''" opts] by (fastforce simp: preset_segments_def)

lemma wf_presets_upd:
  "wf_presets m \<Longrightarrow> name \<noteq> [] \<Longrightarrow> segs \<noteq> []
   \<Longrightarrow> (\<And>s. s \<in> set segs \<Longrightarrow> segment_code s \<noteq> ''pr'' \<and> CHR ''/'' \<notin> set s)
   \<Longrightarrow> wf_presets (m(name \<mapsto> segs))"
  by (simp add: wf_presets_def)

lemma parse_preset_entry_wf:
  "parse_preset_entry m e = Inr m' \<Longrightarrow> wf_presets m \<Longrightarrow> wf_presets m'"
  by (auto simp: parse_preset_entry_def Let_def find_None_iff
      intro!: wf_presets_upd dest: preset_segments_no_slash split: if_splits option.splits prod.splits)

lemma presets_parse_wf: "presets_parse raw = Inr reg \<Longrightarrow> wf_presets (pr_presets reg)"
proof -
  assume "presets_parse raw = Inr reg"
  then have "foldr_res parse_preset_entry Map.empty (split_on CHR '','' raw) = Inr (pr_presets reg)"
    by (auto simp: presets_parse_def result_simps)
  then show ?thesis
    by (rule foldr_res_invariant) (auto simp: wf_presets_def [of Map.empty] dest: parse_preset_entry_wf)
qed

section \<open>What the expansion hands to the option parser\<close>

text \<open>
  The specification of the expansion: the default preset, then each direct
  segment replaced by the presets it names or kept.
\<close>

definition expansion_of :: "preset_registry \<Rightarrow> string \<Rightarrow> string list" where
  "expansion_of reg seg =
     (if segment_code seg = ''pr''
      then concat (map (\<lambda>n. unwrap_or (presets_get reg n) []) (tl (split_on CHR '':'' seg)))
      else [seg])"

definition names_known :: "preset_registry \<Rightarrow> string \<Rightarrow> bool" where
  "names_known reg seg =
     (segment_code seg = ''pr'' \<longrightarrow> list_all (\<lambda>n. presets_get reg n \<noteq> None) (tl (split_on CHR '':'' seg)))"

lemma set_unwrap_or: "x \<in> set (unwrap_or m []) \<longleftrightarrow> (\<exists>l. m = Some l \<and> x \<in> set l)"
  by (cases m) (auto simp: unwrap_or_def)

lemma expand_presets_fold:
  "foldr_res (\<lambda>acc name. bindr (ok_or (UnknownPreset name) (presets_get reg name)) (\<lambda>segs. Inr (acc @ segs))) acc names
     = Inr out \<longleftrightarrow>
   list_all (\<lambda>n. presets_get reg n \<noteq> None) names
     \<and> out = acc @ concat (map (\<lambda>n. unwrap_or (presets_get reg n) []) names)"
  by (induction names arbitrary: acc) (auto simp: result_simps unwrap_or_def)

lemma expand_presets_Inr:
  "expand_presets reg names = Inr out \<longleftrightarrow>
     list_all (\<lambda>n. presets_get reg n \<noteq> None) names
     \<and> out = concat (map (\<lambda>n. unwrap_or (presets_get reg n) []) names)"
  by (simp add: expand_presets_def expand_presets_fold)

lemma expand_segment_Inr:
  "expand_segment reg allowed acc seg = Inr out \<longleftrightarrow>
     is_allowed allowed (segment_code seg) \<and> names_known reg seg \<and> out = acc @ expansion_of reg seg"
  by (auto simp: expand_segment_def expansion_of_def names_known_def Let_def bindr_Inr_iff expand_presets_Inr)

lemma expand_fold_Inr:
  "foldr_res (expand_segment reg allowed) acc segs = Inr out \<longleftrightarrow>
     list_all (\<lambda>s. is_allowed allowed (segment_code s) \<and> names_known reg s) segs
     \<and> out = acc @ concat (map (expansion_of reg) segs)"
  by (induction segs arbitrary: acc) (auto simp: bindr_Inr_iff expand_segment_Inr)

lemma default_preset_set:
  "wf_presets (pr_presets reg) \<Longrightarrow> presets_get reg n = Some segs \<Longrightarrow> s \<in> set segs \<Longrightarrow> segment_code s \<noteq> ''pr''"
  by (auto simp: wf_presets_def presets_get_def)

lemma expansion_no_pr:
  assumes "wf_presets (pr_presets reg)" "s \<in> set (expansion_of reg seg)"
  shows "segment_code s \<noteq> ''pr''"
  using assms by (auto simp: expansion_of_def set_unwrap_or default_preset_set split: if_splits)

text \<open>
  C18. A request is accepted under a configuration exactly when every option
  written in the URL is allowed and names only configured presets, and then it
  means: the default preset's options, followed by the URL's own segments with
  each \<^verbatim>\<open>pr\<close> replaced by the presets it names, parsed as one option list.  The
  allowlist never looks inside a preset.
\<close>

theorem parse_with_config_meaning:
  "parse_with_config b64 pct reg allowed sr = Inr r \<longleftrightarrow>
     (let direct = takeWhile is_option_segment (sr_remainder_segments sr) in
      list_all (\<lambda>s. is_allowed allowed (segment_code s) \<and> names_known reg s) direct
      \<and> parse_options b64 (unwrap_or (default_preset reg) [] @ concat (map (expansion_of reg) direct)) = Inr (pq_options r)
      \<and> parse_source b64 pct (dropWhile is_option_segment (sr_remainder_segments sr)) = Inr (pq_source r))"
  by (cases r) (auto simp: parse_with_config_def Let_def result_simps expand_fold_Inr unwrap_or_def split: option.splits)

text \<open>
  Presets loaded from \<^verbatim>\<open>PRESETS\<close> never recurse: no \<^verbatim>\<open>pr\<close> segment reaches
  the option parser, whatever presets the request names.
\<close>

theorem presets_never_recurse:
  assumes "presets_parse raw = Inr reg"
  shows "list_all (\<lambda>s. segment_code s \<noteq> ''pr'')
           (unwrap_or (default_preset reg) [] @ concat (map (expansion_of reg) segs))"
proof -
  have wf: "wf_presets (pr_presets reg)"
    using assms by (rule presets_parse_wf)
  have "segment_code s \<noteq> ''pr''" if "s \<in> set (unwrap_or (default_preset reg) [])" for s
    using that default_preset_set [OF wf, of "''default''"]
    by (auto simp: set_unwrap_or default_preset_def presets_get_def)
  then show ?thesis
    using expansion_no_pr [OF wf] by (auto simp: list_all_iff)
qed

theorem presets_never_recurse_witness:
  "list_all (\<lambda>s. segment_code s \<noteq> ''pr'') [''el:1'', ''q:80'']"
proof -
  have t: "trim ''t=q:80'' = ''t=q:80''" "trim ''default=el:1'' = ''default=el:1''" "trim ''t'' = ''t''"
    "trim ''default'' = ''default''" "trim ''q:80'' = ''q:80''" "trim ''el:1'' = ''el:1''"
    by (simp_all add: trim_graphic is_graphic_def)
  have "presets_parse ''t=q:80,default=el:1''
      = Inr \<lparr> pr_presets = [''t'' \<mapsto> [''q:80''], ''default'' \<mapsto> [''el:1'']] \<rparr>"
    by (simp add: presets_parse_def parse_preset_entry_def preset_segments_def segment_code_def t)
  from presets_never_recurse [OF this, of "[''pr:t'']"] show ?thesis
    by (simp add: default_preset_def presets_get_def expansion_of_def unwrap_or_def segment_code_def)
qed

text \<open>
  The signature segment and the signed path recompose the request path
  byte for byte (up to one optional leading slash), and the segments handed to
  the grammar are exactly the pieces of the signed path: what is verified is
  what is parsed.
\<close>

theorem split_path_exact:
  assumes "split_path raw = Inr sr"
  shows "(raw = CHR ''/'' # sr_signature_segment sr @ sr_signed_path sr
           \<or> raw = sr_signature_segment sr @ sr_signed_path sr)
    \<and> CHR ''/'' \<notin> set (sr_signature_segment sr)
    \<and> sr_signed_path sr = CHR ''/'' # join_with ''/'' (sr_remainder_segments sr)
    \<and> (\<forall>seg \<in> set (sr_remainder_segments sr). CHR ''/'' \<notin> set seg)"
proof -
  let ?t = "case strip_prefix ''/'' raw of Some t \<Rightarrow> t | None \<Rightarrow> raw"
  obtain sig rest where so: "split_once CHR ''/'' ?t = Some (sig, rest)"
    and sr: "sr = \<lparr> sr_signature_segment = sig, sr_signed_path = CHR ''/'' # rest,
                    sr_remainder_segments = split_on CHR ''/'' rest \<rparr>"
    using assms by (auto simp: split_path_def Let_def split: option.splits if_splits)
  have "raw = CHR ''/'' # ?t \<or> raw = ?t"
    by (auto simp: strip_prefix_Some_iff split: option.splits)
  then show ?thesis
    using so by (auto simp: sr split_once_Some_iff join_split dest: set_split_on)
qed

theorem split_path_exact_witness:
  "sr_signed_path \<lparr> sr_signature_segment = ''sig'', sr_signed_path = ''/q:80/aGk.jpg'',
       sr_remainder_segments = [''q:80'', ''aGk.jpg''] \<rparr> = CHR ''/'' # join_with ''/'' [''q:80'', ''aGk.jpg'']"
  using split_path_exact [of "''/sig/q:80/aGk.jpg''"] by (simp add: split_path_def)

lemma split_extension_display:
  "split_extension (base @ CHR ''.'' # image_format_display f) = Inr (base, f)"
proof -
  have "CHR ''.'' \<notin> set (image_format_display f)"
    by (cases f) (auto simp: image_format_display_def)
  then have "rsplit_once CHR ''.'' (base @ CHR ''.'' # image_format_display f) = Some (base, image_format_display f)"
    by (simp add: rsplit_once_Some_iff)
  moreover have "image_format_display f \<in> set known_extensions"
    by (cases f) (auto simp: image_format_display_def known_extensions_def)
  ultimately show ?thesis
    by (simp add: split_extension_def image_format_round_trip)
qed

definition build_path :: "(string \<Rightarrow> string) \<Rightarrow> string \<Rightarrow> string list \<Rightarrow> string \<Rightarrow> image_format \<Rightarrow> string" where
  "build_path enc sig opts url f =
     ''/'' @ sig @ ''/'' @ join_with ''/'' (opts @ [enc url @ CHR ''.'' # image_format_display f])"

lemma takeWhile_snoc:
  "list_all P xs \<Longrightarrow> \<not> P y \<Longrightarrow> takeWhile P (xs @ [y]) = xs \<and> dropWhile P (xs @ [y]) = [y]"
  by (induction xs) auto

lemma build_path_split:
  assumes "CHR ''/'' \<notin> set sig" "\<forall>s \<in> set opts. CHR ''/'' \<notin> set s" "CHR ''/'' \<notin> set (enc url)"
  shows "split_path (build_path enc sig opts url f) = Inr \<lparr> sr_signature_segment = sig,
     sr_signed_path = CHR ''/'' # join_with ''/'' (opts @ [enc url @ CHR ''.'' # image_format_display f]),
     sr_remainder_segments = opts @ [enc url @ CHR ''.'' # image_format_display f] \<rparr>"
proof -
  let ?segs = "opts @ [enc url @ CHR ''.'' # image_format_display f]"
  have "CHR ''/'' \<notin> set (image_format_display f)"
    by (cases f) (auto simp: image_format_display_def)
  then have sp: "split_on CHR ''/'' (join_with ''/'' ?segs) = ?segs"
    using assms by (intro split_join) auto
  have "length (enc url @ CHR ''.'' # image_format_display f) \<le> length (join_with ''/'' ?segs)"
    by (rule length_join_with_ge) simp
  then have "join_with ''/'' ?segs \<noteq> []"
    by auto
  moreover have "split_once CHR ''/'' (sig @ CHR ''/'' # join_with ''/'' ?segs) = Some (sig, join_with ''/'' ?segs)"
    using assms(1) by (simp add: split_once_Some_iff)
  ultimately show ?thesis
    using sp by (simp add: split_path_def build_path_def)
qed

lemma segment_error_pr: "segment_code s = ''pr'' \<Longrightarrow> segment_error b64 s = Some (UnknownOption ''pr'')"
  by (simp add: segment_error_def segment_code_def parse_segment_def option_table_def)

lemma plain_config_expansion:
  "list_all (\<lambda>s. segment_code s \<noteq> ''pr'') opts \<Longrightarrow> concat (map (expansion_of reg) opts) = opts"
  by (induction opts) (auto simp: expansion_of_def)

lemma built_path_parses:
  assumes dec: "b64 (enc url) = Some url"
    and enc: "CHR ''/'' \<notin> set (enc url)" "CHR '':'' \<notin> set (enc url)"
    and opts: "list_all (\<lambda>s. CHR '':'' \<in> set s \<and> CHR ''/'' \<notin> set s) opts"
    and parsed: "parse_options b64 opts = Inr p"
    and url: "url \<noteq> []" "from_utf8 url = Some url"
    and segs: "sr_remainder_segments sr = opts @ [enc url @ CHR ''.'' # image_format_display f]"
  shows "parse_with_config b64 pct presets_empty allowed_unrestricted sr
    = Inr \<lparr> pq_options = p, pq_source = \<lparr> ss_url = url, ss_format = f \<rparr> \<rparr>"
proof -
  let ?src = "enc url @ CHR ''.'' # image_format_display f"
  have "CHR '':'' \<notin> set (image_format_display f)"
    by (cases f) (auto simp: image_format_display_def)
  then have "\<not> is_option_segment ?src" "?src \<noteq> ''plain''"
    using enc rsplit_once_None_iff [of "CHR ''.''" ?src]
    by (auto simp: is_option_segment_def looks_like_option_def dest: arg_cong [of _ _ set])
  moreover have "list_all is_option_segment opts"
    using opts by (auto simp: list_all_iff is_option_segment_def looks_like_option_def)
  ultimately have tw: "takeWhile is_option_segment (opts @ [?src]) = opts"
    "dropWhile is_option_segment (opts @ [?src]) = [?src]" and src: "?src \<noteq> ''plain''"
    using takeWhile_snoc [of is_option_segment opts ?src] by auto
  have np: "list_all (\<lambda>s. segment_code s \<noteq> ''pr'') opts"
    using parse_options_segments_ok [OF parsed] segment_error_pr [of _ b64]
    by (fastforce simp: list_all_iff)
  then have exp: "foldr_res (expand_segment presets_empty allowed_unrestricted) [] opts = Inr opts"
    by (subst expand_fold_Inr)
      (auto simp: plain_config_expansion list_all_iff is_allowed_def allowed_unrestricted_def names_known_def)
  show ?thesis
    using src tw exp parsed dec url
    by (simp add: parse_with_config_def default_preset_def presets_empty_def segs
        parse_source_def parse_base64_source_def split_extension_display)
qed

text \<open>
  C17. Building a URL and parsing it back: for any option segments (each with a
  colon, none with a slash), any non-empty UTF-8 source and any format, the path
  made of the signature, the options and the base64url source with the format's
  extension parses to exactly those options and that source.
\<close>

theorem build_parse_round_trip:
  assumes dec: "b64 (enc url) = Some url"
    and enc: "CHR ''/'' \<notin> set (enc url)" "CHR '':'' \<notin> set (enc url)"
    and sig: "CHR ''/'' \<notin> set sig"
    and opts: "list_all (\<lambda>s. CHR '':'' \<in> set s \<and> CHR ''/'' \<notin> set s) opts"
    and parsed: "parse_options b64 opts = Inr p"
    and url: "url \<noteq> []" "from_utf8 url = Some url"
  shows "bindr (split_path (build_path enc sig opts url f)) (parse_request b64 pct)
    = Inr \<lparr> pq_options = p, pq_source = \<lparr> ss_url = url, ss_format = f \<rparr> \<rparr>"
proof -
  have "\<forall>s \<in> set opts. CHR ''/'' \<notin> set s"
    using opts by (simp add: list_all_iff)
  from build_path_split [where enc = enc and url = url and f = f, OF sig this enc(1)] show ?thesis
    using built_path_parses [where enc = enc, OF dec enc opts parsed url] by (simp add: parse_request_def)
qed

theorem build_parse_round_trip_witness:
  "bindr (split_path ''/sig/q:80/abc.webp'') (parse_request Some Some)
     = Inr \<lparr> pq_options = processing_options_default\<lparr>po_quality := Some 80\<rparr>,
             pq_source = \<lparr> ss_url = ''abc'', ss_format = Webp \<rparr> \<rparr>"
proof -
  have "parse_options Some [''q:80''] = Inr (processing_options_default\<lparr>po_quality := Some 80\<rparr>)"
    by (simp add: eval_options processing_options_default_def)
  moreover have "from_utf8 ''abc'' = Some ''abc''"
    by (simp add: from_utf8_def)
  ultimately show ?thesis
    using build_parse_round_trip [of Some id "''abc''" "''sig''" "[''q:80'']" _ Webp Some]
    by (simp add: build_path_def image_format_display_def)
qed

end
