(* ===== verification/Cache_Key.thy ===== *)
theory Cache_Key
  imports Float_Display Url
begin

text \<open>
  Cache keys (\<^verbatim>\<open>src/src/services/cache/handler.rs\<close>): the byte stream that
  \<^verbatim>\<open>generate_key\<close> feeds to SHA-256, field by field with a 32-bit length prefix, and
  the key text.  SHA-256 (crate \<^verbatim>\<open>sha2\<close>) is the parameter \<^verbatim>\<open>sha\<close>.  The theorems show
  which requests share a stream: exactly those that agree after \<^verbatim>\<open>canonical_query\<close>.
\<close>

section \<open>Text forms\<close>

definition gravity_display :: "gravity \<Rightarrow> string" where
  "gravity_display g = (case g of
       Center \<Rightarrow> ''ce'' | North \<Rightarrow> ''no'' | South \<Rightarrow> ''so'' | East \<Rightarrow> ''ea'' | West \<Rightarrow> ''we''
     | NorthEast \<Rightarrow> ''noea'' | NorthWest \<Rightarrow> ''nowe'' | SouthEast \<Rightarrow> ''soea'' | SouthWest \<Rightarrow> ''sowe''
     | FocusPoint x y \<Rightarrow> ''fp:'' @ show_f64 x @ '':'' @ show_f64 y)"

definition crop_dimension_display :: "crop_dimension \<Rightarrow> string" where
  "crop_dimension_display d = (case d of
       Full \<Rightarrow> ''full'' | Absolute v \<Rightarrow> ''abs:'' @ show_nat v | Relative v \<Rightarrow> ''rel:'' @ show_f64 v)"

text \<open>The derived \<^verbatim>\<open>Debug\<close> of the position enum prints the variant's name.\<close>

definition watermark_position_debug :: "watermark_position \<Rightarrow> string" where
  "watermark_position_debug p = (case p of
       WmCenter \<Rightarrow> ''Center'' | WmNorth \<Rightarrow> ''North'' | WmSouth \<Rightarrow> ''South'' | WmEast \<Rightarrow> ''East''
     | WmWest \<Rightarrow> ''West'' | WmNorthEast \<Rightarrow> ''NorthEast'' | WmNorthWest \<Rightarrow> ''NorthWest''
     | WmSouthEast \<Rightarrow> ''SouthEast'' | WmSouthWest \<Rightarrow> ''SouthWest'')"

section \<open>The hashed stream\<close>

definition cache_key_version :: nat where
  "cache_key_version = 11"

definition to_be_bytes32 :: "nat \<Rightarrow> string" where
  "to_be_bytes32 n = [char_of (n div 2 ^ 24 mod 256), char_of (n div 2 ^ 16 mod 256),
     char_of (n div 2 ^ 8 mod 256), char_of (n mod 256)]"

definition update_field :: "string \<Rightarrow> string" where
  "update_field bytes = to_be_bytes32 (length bytes mod 2 ^ 32) @ bytes"

definition canonical_blur_sigma :: "rfloat option \<Rightarrow> string" where
  "canonical_blur_sigma sigma = (case sigma of
       Some s \<Rightarrow> if f_lt f_zero s then show_f32 s else ''None''
     | None \<Rightarrow> ''None'')"

definition opt_field :: "('a \<Rightarrow> string) \<Rightarrow> 'a option \<Rightarrow> string" where
  "opt_field f v = (case v of Some x \<Rightarrow> f x | None \<Rightarrow> ''None'')"

definition rgb_bytes :: "rgb \<Rightarrow> string" where
  "rgb_bytes c = (case c of (r, g, b) \<Rightarrow> [char_of r, char_of g, char_of b])"

definition quality_byte :: "nat \<Rightarrow> string" where
  "quality_byte q = [char_of q]"

definition crop_fields :: "crop option \<Rightarrow> string list" where
  "crop_fields c = (case c of
       Some c \<Rightarrow> [crop_dimension_display (crop_width c), crop_dimension_display (crop_height c),
                  gravity_display (crop_gravity c)]
     | None \<Rightarrow> [''None''])"

definition trim_fields :: "trim_options option \<Rightarrow> string list" where
  "trim_fields t = (case t of
       Some t \<Rightarrow> [show_f32 (trim_threshold t), opt_field rgb_bytes (trim_color t),
                  show_bool (trim_equal_hor t), show_bool (trim_equal_ver t)]
     | None \<Rightarrow> [''None''])"

definition size_text :: "nat \<times> nat \<Rightarrow> string" where
  "size_text s = (case s of (w, h) \<Rightarrow> show_nat w @ ''x'' @ show_nat h)"

definition watermark_fields :: "watermark_query option \<Rightarrow> string list" where
  "watermark_fields w = (case w of
       Some w \<Rightarrow> [show_f32 (wq_opacity w), watermark_position_debug (wq_position w),
                  show_f32 (wq_x_offset w), show_f32 (wq_y_offset w), show_f32 (wq_scale w),
                  opt_field id (wq_url w),
                  opt_field size_text (wq_size w),
                  show_f32 (wq_rotate w), opt_field show_f32 (wq_shadow w)]
     | None \<Rightarrow> [''None''])"

definition padding_text :: "padding \<Rightarrow> string" where
  "padding_text p = show_nat (pad_top p) @ '':'' @ show_nat (pad_right p) @ '':'' @ show_nat (pad_bottom p)
     @ '':'' @ show_nat (pad_left p)"

definition key_fields :: "resize_query \<Rightarrow> string list" where
  "key_fields q =
     [rq_url q, opt_field show_nat (rq_width q), opt_field show_nat (rq_height q),
      resize_type_display (rq_resize_type q), to_ascii_lowercase (image_format_display (rq_format q)),
      canonical_blur_sigma (rq_blur_sigma q), opt_field show_bool (rq_grayscale q),
      show_bool (rq_enlarge q), opt_field quality_byte (rq_quality q),
      opt_field quality_byte (rq_jpeg_quality q), opt_field quality_byte (rq_webp_quality q),
      opt_field show_bool (rq_webp_lossless q), opt_field show_bool (rq_jpeg_progressive q),
      opt_field show_bool (rq_jpeg_no_subsampling q), opt_field show_nat (rq_max_bytes q),
      opt_field rgb_bytes (rq_background q), show_bool (rq_autorotate q), gravity_display (rq_gravity q)]
     @ crop_fields (rq_crop q)
     @ [show_int (rq_rotate q), show_bool (rq_flip_horizontal q), show_bool (rq_flip_vertical q)]
     @ trim_fields (rq_trim q)
     @ watermark_fields (rq_watermark q)
     @ [show_bool (rq_extend q), opt_field padding_text (rq_padding q),
        show_f32 (rq_zoom_x q), show_f32 (rq_zoom_y q), show_f32 (rq_dpr q),
        opt_field show_nat (rq_min_width q), opt_field show_nat (rq_min_height q),
        show_bool (rq_strip_metadata q)]"

definition key_stream :: "resize_query \<Rightarrow> string" where
  "key_stream q = char_of cache_key_version # concat (map update_field (key_fields q))"

definition hex_lower :: "string \<Rightarrow> string" where
  "hex_lower bytes = concat (map (\<lambda>c. hex2 (byte c)) bytes)"

definition generate_key :: "(string \<Rightarrow> string) \<Rightarrow> string \<Rightarrow> resize_query \<Rightarrow> string" where
  "generate_key sha minio_sub_path q =
     minio_sub_path @ hex_lower (sha (key_stream q)) @ ''.'' @ image_format_display (rq_format q)"

section \<open>Decoding the stream\<close>

lemma to_be_bytes32_inj:
  assumes "m < 2 ^ 32" "n < 2 ^ 32" "to_be_bytes32 m = to_be_bytes32 n"
  shows "m = n"
proof -
  have v: "x = (x div 2 ^ 24 mod 256) * 2 ^ 24 + (x div 2 ^ 16 mod 256) * 2 ^ 16 + (x div 2 ^ 8 mod 256) * 2 ^ 8 + x mod 256"
    if "x < 2 ^ 32" for x :: nat
  proof -
    define a b c where "a = x div 2 ^ 8" and "b = x div 2 ^ 16" and "c = x div 2 ^ 24"
    have "b = a div 256" "c = b div 256"
      by (simp_all add: a_def b_def c_def flip: div_mult2_eq)
    then have "x = a * 256 + x mod 256" "a = b * 256 + a mod 256" "b = c * 256 + b mod 256"
      using div_mult_mod_eq [of x 256] div_mult_mod_eq [of a 256] div_mult_mod_eq [of b 256] by (simp_all add: a_def)
    moreover have "c mod 256 = c"
      using that by (simp add: c_def less_mult_imp_div_less)
    ultimately show ?thesis
      unfolding a_def [symmetric] b_def [symmetric] c_def [symmetric] by (simp add: algebra_simps)
  qed
  have "of_char (char_of (a mod 256) :: char) = a mod 256" for a :: nat
    by simp
  then have "m div 2 ^ 24 mod 256 = n div 2 ^ 24 mod 256" "m div 2 ^ 16 mod 256 = n div 2 ^ 16 mod 256"
    "m div 2 ^ 8 mod 256 = n div 2 ^ 8 mod 256" "m mod 256 = n mod 256"
    using assms(3) unfolding to_be_bytes32_def list.inject by metis+
  then show ?thesis
    using v [OF assms(1)] v [OF assms(2)] by metis
qed

lemma update_field_prefix_free:
  assumes "length a < 2 ^ 32" "length b < 2 ^ 32" "update_field a @ r = update_field b @ s"
  shows "a = b \<and> r = s"
proof -
  have len4: "length (to_be_bytes32 n) = 4" for n
    by (simp add: to_be_bytes32_def)
  have eq: "to_be_bytes32 (length a) @ (a @ r) = to_be_bytes32 (length b) @ (b @ s)"
    using assms(3) unfolding update_field_def mod_less [OF assms(1)] mod_less [OF assms(2)] append_assoc .
  then have "to_be_bytes32 (length a) = to_be_bytes32 (length b) \<and> a @ r = b @ s"
    by (subst (asm) append_eq_append_conv) (simp_all add: len4)
  then show ?thesis
    using to_be_bytes32_inj [OF assms(1,2)] by simp
qed

lemma update_field_not_Nil: "update_field a \<noteq> []"
  by (simp add: update_field_def to_be_bytes32_def)

lemma fields_unique:
  "list_all (\<lambda>f. length f < 2 ^ 32) xs \<Longrightarrow> list_all (\<lambda>f. length f < 2 ^ 32) ys
   \<Longrightarrow> concat (map update_field xs) = concat (map update_field ys) \<Longrightarrow> xs = ys"
proof (induction xs arbitrary: ys)
  case Nil
  then show ?case
    by (cases ys) (auto simp: update_field_not_Nil)
next
  case (Cons x xs)
  have "ys \<noteq> []"
  proof
    assume "ys = []"
    then show False
      using Cons.prems(3) update_field_not_Nil [of x] by simp
  qed
  then obtain y ys' where ys: "ys = y # ys'"
    by (cases ys) simp_all
  have "x = y \<and> concat (map update_field xs) = concat (map update_field ys')"
    using Cons.prems by (intro update_field_prefix_free) (simp_all add: ys)
  then show ?case
    using Cons.IH [of ys'] Cons.prems by (simp add: ys)
qed

section \<open>Reading the fields back\<close>

named_theorems field_inj \<open>injectivity of the text forms on well-formed values\<close>

lemma gravity_display_inj [field_inj]:
  assumes "wf_gravity g" "wf_gravity h"
  shows "gravity_display g = gravity_display h \<longleftrightarrow> g = h"
proof
  assume eq: "gravity_display g = gravity_display h"
  show "g = h"
  proof (cases "\<exists>x y u v. g = FocusPoint x y \<and> h = FocusPoint u v")
    case True
    then obtain x y u v where gh: "g = FocusPoint x y" "h = FocusPoint u v"
      by blast
    then have "show_f64 x @ CHR '':'' # show_f64 y = show_f64 u @ CHR '':'' # show_f64 v"
      using eq by (simp add: gravity_display_def)
    then have "split_on CHR '':'' (show_f64 x @ CHR '':'' # show_f64 y) = split_on CHR '':'' (show_f64 u @ CHR '':'' # show_f64 v)"
      by (simp only:)
    then have "show_f64 x = show_f64 u" "show_f64 y = show_f64 v"
      by (simp_all add: split_on_append split_on_no_delim show_float_no_colon)
    then show ?thesis
      using assms gh by (simp add: wf_gravity_def show_f64_inj)
  next
    case False
    then show ?thesis
      using eq by (cases g; cases h) (auto simp: gravity_display_def)
  qed
qed simp

lemma crop_dimension_display_inj [field_inj]:
  "wf_crop_dimension d \<Longrightarrow> wf_crop_dimension e \<Longrightarrow> crop_dimension_display d = crop_dimension_display e \<longleftrightarrow> d = e"
  by (cases d; cases e) (auto simp: crop_dimension_display_def wf_crop_dimension_def show_f64_inj)

lemma crop_dimension_not_None: "crop_dimension_display d \<noteq> ''None''"
  by (cases d) (auto simp: crop_dimension_display_def)

lemma watermark_position_debug_inj [field_inj]:
  "watermark_position_debug p = watermark_position_debug q \<longleftrightarrow> p = q"
  by (cases p; cases q) (simp_all add: watermark_position_debug_def)

lemma char_of_inj: "m < 256 \<Longrightarrow> n < 256 \<Longrightarrow> (char_of m :: char) = char_of n \<longleftrightarrow> m = n"
  for m n :: nat
  by (metis mod_less of_char_of)

lemma rgb_bytes_inj [field_inj]: "wf_rgb c \<Longrightarrow> wf_rgb d \<Longrightarrow> rgb_bytes c = rgb_bytes d \<longleftrightarrow> c = d"
  by (auto simp: rgb_bytes_def wf_rgb_def char_of_inj split: prod.splits)

text \<open>An optional field is read back when its text is injective and never \<^verbatim>\<open>None\<close>.\<close>

lemma opt_field_inj:
  assumes "pred_option P a" "pred_option P b"
    "\<And>x y. P x \<Longrightarrow> P y \<Longrightarrow> f x = f y \<longleftrightarrow> x = y" "\<And>x. P x \<Longrightarrow> f x \<noteq> ''None''"
  shows "opt_field f a = opt_field f b \<longleftrightarrow> a = b"
  using assms by (cases a; cases b) (auto simp: opt_field_def dest: sym)

lemma show_nat_not_None: "show_nat n \<noteq> ''None''"
  using hd_show_nat_digit [of n] by auto

lemma opt_nat_inj [field_inj]: "opt_field show_nat a = opt_field show_nat b \<longleftrightarrow> a = b"
  by (rule opt_field_inj [where P = "\<lambda>_. True"]) (auto simp: pred_option_def show_nat_not_None)

lemma opt_bool_inj [field_inj]: "opt_field show_bool a = opt_field show_bool b \<longleftrightarrow> a = b"
  by (rule opt_field_inj [where P = "\<lambda>_. True"]) (auto simp: pred_option_def show_bool_def)

lemma opt_quality_inj [field_inj]:
  "wf_quality a \<Longrightarrow> wf_quality b \<Longrightarrow> opt_field quality_byte a = opt_field quality_byte b \<longleftrightarrow> a = b"
  by (rule opt_field_inj [where P = "\<lambda>n. n \<le> 100"])
    (auto simp: wf_quality_def quality_byte_def char_of_inj pred_option_def split: option.splits)

lemma opt_rgb_inj [field_inj]:
  "pred_option wf_rgb a \<Longrightarrow> pred_option wf_rgb b \<Longrightarrow> opt_field rgb_bytes a = opt_field rgb_bytes b \<longleftrightarrow> a = b"
  by (rule opt_field_inj [where P = wf_rgb]) (auto simp: wf_rgb_def rgb_bytes_def split: prod.splits)

lemma opt_f32_inj [field_inj]:
  "pred_option (wf_float f32_fmt) a \<Longrightarrow> pred_option (wf_float f32_fmt) b
   \<Longrightarrow> opt_field show_f32 a = opt_field show_f32 b \<longleftrightarrow> a = b"
  by (rule opt_field_inj [where P = "wf_float f32_fmt"]) (auto simp: show_f32_inj show_float_not_None)

lemma size_text_inj:
  "show_nat a @ CHR ''x'' # show_nat b = show_nat c @ CHR ''x'' # show_nat d \<longleftrightarrow> a = c \<and> b = d"
proof
  assume "show_nat a @ CHR ''x'' # show_nat b = show_nat c @ CHR ''x'' # show_nat d"
  then have "split_on CHR ''x'' (show_nat a @ CHR ''x'' # show_nat b) = split_on CHR ''x'' (show_nat c @ CHR ''x'' # show_nat d)"
    by (simp only:)
  moreover have "CHR ''x'' \<notin> set (show_nat n)" for n
    using show_nat_digits [of "CHR ''x''" n] by auto
  ultimately show "a = c \<and> b = d"
    by (simp add: split_on_append split_on_no_delim)
qed simp

lemma opt_size_inj [field_inj]: "opt_field size_text s = opt_field size_text t \<longleftrightarrow> s = t"
proof (rule opt_field_inj [where P = "\<lambda>_. True"])
  fix x :: "nat \<times> nat"
  show "size_text x \<noteq> ''None''"
    using hd_show_nat_digit [of "fst x"]
    by (cases x; cases "show_nat (fst x)") (auto simp: size_text_def)
qed (auto simp: pred_option_def size_text_def size_text_inj split: prod.splits)

lemma padding_text_inj: "padding_text p = padding_text q \<longleftrightarrow> p = q"
proof
  assume "padding_text p = padding_text q"
  then have "split_on CHR '':'' (padding_text p) = split_on CHR '':'' (padding_text q)"
    by (simp only:)
  then show "p = q"
    by (cases p; cases q) (simp add: padding_text_def split_on_append split_on_no_delim show_nat_no_colon)
qed simp

lemma opt_padding_inj [field_inj]: "opt_field padding_text a = opt_field padding_text b \<longleftrightarrow> a = b"
proof (rule opt_field_inj [where P = "\<lambda>_. True"])
  fix x :: padding
  show "padding_text x \<noteq> ''None''"
    using hd_show_nat_digit [of "pad_top x"] by (cases "show_nat (pad_top x)") (auto simp: padding_text_def)
qed (auto simp: pred_option_def padding_text_inj)

section \<open>Which requests share a key\<close>

text \<open>
  Two requests hash alike exactly when they agree after this normalisation: a
  blur that the pipeline treats as none, and an absent watermark URL, which is
  written as the text \<^verbatim>\<open>None\<close>.
\<close>

definition canonical_query :: "resize_query \<Rightarrow> resize_query" where
  "canonical_query q = q\<lparr>
     rq_blur_sigma := (case rq_blur_sigma q of Some s \<Rightarrow> if f_lt f_zero s then Some s else None | None \<Rightarrow> None),
     rq_watermark := map_option (\<lambda>w. w\<lparr>wq_url := Some (unwrap_or (wq_url w) ''None'')\<rparr>) (rq_watermark q)\<rparr>"

definition wf_watermark :: "watermark_query \<Rightarrow> bool" where
  "wf_watermark w \<longleftrightarrow> wf_float f32_fmt (wq_opacity w) \<and> wf_float f32_fmt (wq_x_offset w)
     \<and> wf_float f32_fmt (wq_y_offset w) \<and> wf_float f32_fmt (wq_scale w) \<and> wf_float f32_fmt (wq_rotate w)
     \<and> pred_option (wf_float f32_fmt) (wq_shadow w)"

definition wf_query :: "resize_query \<Rightarrow> bool" where
  "wf_query q \<longleftrightarrow>
     pred_option (wf_float f32_fmt) (rq_blur_sigma q)
     \<and> wf_quality (rq_quality q) \<and> wf_quality (rq_jpeg_quality q) \<and> wf_quality (rq_webp_quality q)
     \<and> pred_option wf_rgb (rq_background q) \<and> wf_gravity (rq_gravity q) \<and> pred_option wf_crop (rq_crop q)
     \<and> pred_option wf_trim (rq_trim q) \<and> pred_option wf_watermark (rq_watermark q)
     \<and> wf_float f32_fmt (rq_zoom_x q) \<and> wf_float f32_fmt (rq_zoom_y q) \<and> wf_float f32_fmt (rq_dpr q)"

lemma canonical_blur_inj:
  assumes "pred_option (wf_float f32_fmt) a" "pred_option (wf_float f32_fmt) b"
  shows "canonical_blur_sigma a = canonical_blur_sigma b \<longleftrightarrow>
     (case a of Some s \<Rightarrow> if f_lt f_zero s then Some s else None | None \<Rightarrow> None)
     = (case b of Some s \<Rightarrow> if f_lt f_zero s then Some s else None | None \<Rightarrow> None)"
proof -
  have "show_f32 x \<noteq> ''None''" "''None'' \<noteq> show_f32 x" if "wf_float f32_fmt x" for x
    using show_float_not_None [OF that] by auto
  then show ?thesis
    using assms by (cases a; cases b) (auto simp: canonical_blur_sigma_def show_f32_inj)
qed

lemma crop_fields_inj:
  assumes "pred_option wf_crop a" "pred_option wf_crop b"
  shows "crop_fields a @ r = crop_fields b @ s \<longleftrightarrow> a = b \<and> r = s"
proof -
  have "''None'' \<noteq> crop_dimension_display d" for d
    using crop_dimension_not_None [of d] by auto
  then show ?thesis
    using assms crop_dimension_not_None
    by (cases a; cases b) (auto simp: crop_fields_def wf_crop_def field_inj)
qed

lemma trim_fields_inj:
  assumes "pred_option wf_trim a" "pred_option wf_trim b"
  shows "trim_fields a @ r = trim_fields b @ s \<longleftrightarrow> a = b \<and> r = s"
proof -
  have "show_f32 x \<noteq> ''None''" "''None'' \<noteq> show_f32 x" if "wf_float f32_fmt x" for x
    using show_float_not_None [OF that] by auto
  then show ?thesis
    using assms by (cases a; cases b) (auto simp: trim_fields_def wf_trim_def field_inj show_f32_inj)
qed

lemma url_field: "opt_field id u = unwrap_or u ''None''"
  by (cases u) (simp_all add: opt_field_def unwrap_or_def)

lemma watermark_fields_inj:
  assumes "pred_option wf_watermark a" "pred_option wf_watermark b"
  shows "watermark_fields a @ r = watermark_fields b @ s \<longleftrightarrow>
     map_option (\<lambda>w. w\<lparr>wq_url := Some (unwrap_or (wq_url w) ''None'')\<rparr>) a
       = map_option (\<lambda>w. w\<lparr>wq_url := Some (unwrap_or (wq_url w) ''None'')\<rparr>) b \<and> r = s"
proof -
  have n: "show_f32 x \<noteq> ''None''" "''None'' \<noteq> show_f32 x" if "wf_float f32_fmt x" for x
    using show_float_not_None [OF that] by auto
  show ?thesis
  proof (cases a)
    case None
    then show ?thesis
      using assms n by (cases b) (auto simp: watermark_fields_def wf_watermark_def)
  next
    case (Some v)
    then show ?thesis
    proof (cases b)
      case None
      then show ?thesis
        using Some assms n by (auto simp: watermark_fields_def wf_watermark_def)
    next
      case (Some w)
      then show ?thesis
        using \<open>a = Some v\<close> assms
        by (cases v; cases w) (auto simp: watermark_fields_def wf_watermark_def field_inj show_f32_inj url_field)
    qed
  qed
qed

lemma lowercase_format: "to_ascii_lowercase (image_format_display f) = image_format_display f"
  by (cases f) (simp_all add: image_format_display_def to_ascii_lowercase_def to_ascii_lower_def)

lemma key_fields_eq_iff:
  assumes "wf_query p" "wf_query q"
  shows "key_fields p = key_fields q \<longleftrightarrow> canonical_query p = canonical_query q"
  using assms
  by (cases p; cases q)
    (auto simp: key_fields_def wf_query_def canonical_query_def field_inj show_f32_inj lowercase_format
      crop_fields_inj trim_fields_inj watermark_fields_inj canonical_blur_inj
      watermark_fields_inj [where r = "[]" and s = "[]", simplified])

text \<open>
  C8. The hashed stream is unambiguous: two well-formed requests with fields
  shorter than 4 GiB feed SHA-256 the same bytes exactly when they are the same
  request up to a disabled blur and the spelling of an absent watermark URL.  No
  choice of URL bytes can imitate another request's fields.
\<close>

theorem key_stream_injective:
  assumes "wf_query p" "wf_query q"
    "list_all (\<lambda>f. length f < 2 ^ 32) (key_fields p)" "list_all (\<lambda>f. length f < 2 ^ 32) (key_fields q)"
  shows "key_stream p = key_stream q \<longleftrightarrow> canonical_query p = canonical_query q"
proof -
  have "key_stream p = key_stream q \<longleftrightarrow> key_fields p = key_fields q"
    using fields_unique [OF assms(3,4)] by (auto simp: key_stream_def)
  then show ?thesis
    using key_fields_eq_iff [OF assms(1,2)] by simp
qed

lemma default_query_wf: "wf_query (resize_query_default\<lparr>rq_url := u, rq_width := w\<rparr>)"
  by (simp add: wf_query_def resize_query_default_def wf_quality_def wf_gravity_def)

lemma show_mag_one: "show_mag f32_fmt 1 = ''1''"
proof -
  have l: "flog 10 (1 :: rat) = 0"
    by code_simp
  have r: "round_mag f32_fmt 1 = 1"
    using representable_small_nats(3) by (simp add: representable_def)
  have "pick_digits f32_fmt 1 1 1 = Some 1"
    by (simp add: pick_digits_def r)
  then have "shortest_from f32_fmt 1 1 1 (Suc 8) = (1, 0)"
    by (simp only: shortest_from.simps option.case) simp
  then have "shortest f32_fmt 1 = (1, 0)"
    by (simp add: shortest_def l max_digits_def)
  moreover have "show_nat 1 = ''1''"
    by code_simp
  ultimately show ?thesis
    by (simp add: show_mag_def show_decimal_def)
qed

theorem key_stream_injective_witness:
  "key_stream (resize_query_default\<lparr>rq_url := ''a1'', rq_width := None\<rparr>)
     \<noteq> key_stream (resize_query_default\<lparr>rq_url := ''a'', rq_width := Some 1\<rparr>)"
proof -
  let ?p = "resize_query_default\<lparr>rq_url := ''a1'', rq_width := None\<rparr>"
  let ?q = "resize_query_default\<lparr>rq_url := ''a'', rq_width := Some 1\<rparr>"
  have "show_nat 1 = ''1''"
    by code_simp
  then have "list_all (\<lambda>f. length f < 2 ^ 32) (key_fields ?p)" "list_all (\<lambda>f. length f < 2 ^ 32) (key_fields ?q)"
    by (simp_all add: key_fields_def resize_query_default_def opt_field_def canonical_blur_sigma_def
        crop_fields_def trim_fields_def watermark_fields_def show_mag_one resize_type_display_def
        image_format_display_def gravity_display_def show_bool_def show_int_def show_nat.simps
        to_ascii_lowercase_def)
  from key_stream_injective [OF default_query_wf default_query_wf this] show ?thesis
    by (simp add: canonical_query_def resize_query_default_def)
qed


text \<open>
  The one place where the stream is not injective on accepted requests: an
  absent watermark URL is written as the text \<^verbatim>\<open>None\<close>, which is also what a
  watermark URL \<^verbatim>\<open>None\<close> writes.
\<close>

lemma watermark_url_none_collides:
  "generate_key sha prefix (q\<lparr>rq_watermark := Some (w\<lparr>wq_url := None\<rparr>)\<rparr>)
   = generate_key sha prefix (q\<lparr>rq_watermark := Some (w\<lparr>wq_url := Some ''None''\<rparr>)\<rparr>)"
  by (cases q) (simp add: generate_key_def key_stream_def key_fields_def watermark_fields_def opt_field_def)

end
