(* ===== verification/Key_Validation.thy ===== *)
theory Key_Validation
  imports Cache_Key Errors
begin

text \<open>
  Cache-key validation (\<^verbatim>\<open>src/src/services/storage/key_validation.rs\<close>): the check every
  storage operation applies first, and \<^verbatim>\<open>split_key\<close>, which the local file system
  uses to place a key on disk.  A \<^verbatim>\<open>&str\<close> is its UTF-8 bytes, so \<^verbatim>\<open>split_at\<close> checks for a
  character boundary and \<^verbatim>\<open>split_key\<close> may panic, which is its outcome \<^term>\<open>Inl ()\<close>; no valid key
  gets there.
\<close>

definition hash_len :: nat where
  "hash_len = 64"

definition allowed_extensions :: "string list" where
  "allowed_extensions = [''jpg'', ''png'', ''webp'', ''avif'', ''gif'']"

definition is_lower_hex :: "char \<Rightarrow> bool" where
  "is_lower_hex b = (is_ascii_digit b \<or> (97 \<le> byte b \<and> byte b \<le> 102))"

definition invalid_key_error :: "string \<Rightarrow> any_error" where
  "invalid_key_error key = \<lparr> err_kind = InvalidKeyError, err_msg = ''Image not found in storage: '' @ key \<rparr>"

definition validate_cache_key :: "string \<Rightarrow> string \<Rightarrow> (any_error, unit) result" where
  "validate_cache_key key prefix =
     (if list_ex (\<lambda>b. byte b < 32 \<or> byte b = 127) key then Inl (invalid_key_error key)
      else case strip_prefix prefix key of
        None \<Rightarrow> Inl (invalid_key_error key)
      | Some rest \<Rightarrow>
          (case split_once CHR ''.'' rest of
             None \<Rightarrow> Inl (invalid_key_error key)
           | Some (hash, ext) \<Rightarrow>
               if length hash \<noteq> hash_len \<or> \<not> list_all is_lower_hex hash then Inl (invalid_key_error key)
               else if ext \<notin> set allowed_extensions then Inl (invalid_key_error key)
               else Inr ()))"

text \<open>\<^verbatim>\<open>str::is_char_boundary\<close>: not before a continuation byte.\<close>

definition is_char_boundary :: "string \<Rightarrow> nat \<Rightarrow> bool" where
  "is_char_boundary s index =
     (index = 0 \<or> (if index < length s then byte (s ! index) < 128 \<or> 192 \<le> byte (s ! index) else index = length s))"

text \<open>\<^verbatim>\<open>Inl ()\<close> is the panic of \<^verbatim>\<open>split_at\<close> inside a character; the split at a dot cannot panic.\<close>

definition split_key :: "string \<Rightarrow> (unit, (string \<times> string \<times> string) option) result" where
  "split_key key =
     (case rsplit_once CHR ''.'' key of
        None \<Rightarrow> Inr None
      | Some (before_ext, ext) \<Rightarrow>
          if length before_ext < hash_len then Inr None
          else (let hash_start = length before_ext - hash_len
                in if \<not> is_char_boundary before_ext hash_start then Inl ()
                   else Inr (Some (take hash_start before_ext, drop hash_start before_ext, ext))))"

section \<open>The shape of a valid key\<close>

definition valid_key :: "string \<Rightarrow> string \<Rightarrow> bool" where
  "valid_key prefix key \<longleftrightarrow> validate_cache_key key prefix = Inr ()"

lemma hex_not_dot: "list_all is_lower_hex h \<Longrightarrow> CHR ''.'' \<notin> set h \<and> CHR ''/'' \<notin> set h"
  by (auto simp: list_all_iff is_lower_hex_def)

lemma ext_no_special: "e \<in> set allowed_extensions \<Longrightarrow> CHR ''.'' \<notin> set e \<and> CHR ''/'' \<notin> set e"
  by (auto simp: allowed_extensions_def)

lemma no_control:
  "list_ex (\<lambda>b. byte b < 32 \<or> byte b = 127) key \<longleftrightarrow> \<not> list_all (\<lambda>b. 32 \<le> byte b \<and> byte b \<noteq> 127) key"
  by (auto simp: list_ex_iff list_all_iff not_le)

lemma valid_key_iff:
  "valid_key prefix key \<longleftrightarrow>
     (\<exists>hash ext. key = prefix @ hash @ ''.'' @ ext \<and> length hash = hash_len \<and> list_all is_lower_hex hash
        \<and> ext \<in> set allowed_extensions \<and> list_all (\<lambda>b. 32 \<le> byte b \<and> byte b \<noteq> 127) key)"
proof -
  have "valid_key prefix key \<longleftrightarrow>
     list_all (\<lambda>b. 32 \<le> byte b \<and> byte b \<noteq> 127) key
     \<and> (\<exists>rest hash ext. strip_prefix prefix key = Some rest \<and> split_once CHR ''.'' rest = Some (hash, ext)
        \<and> length hash = hash_len \<and> list_all is_lower_hex hash \<and> ext \<in> set allowed_extensions)"
    by (auto simp: valid_key_def validate_cache_key_def no_control split: option.splits if_splits)
  also have "\<dots> \<longleftrightarrow> (\<exists>hash ext. key = prefix @ hash @ ''.'' @ ext \<and> length hash = hash_len \<and> list_all is_lower_hex hash
        \<and> ext \<in> set allowed_extensions \<and> list_all (\<lambda>b. 32 \<le> byte b \<and> byte b \<noteq> 127) key)"
    using hex_not_dot by (auto simp: strip_prefix_Some_iff split_once_Some_iff)
  finally show ?thesis .
qed

lemma hex_char_boundary:
  assumes "list_all is_lower_hex hash"
  shows "is_char_boundary (prefix @ hash) (length prefix)"
proof (cases hash)
  case (Cons c cs)
  then have "byte c < 128"
    using assms by (auto simp: is_lower_hex_def is_ascii_digit_def)
  then show ?thesis
    using Cons by (simp add: is_char_boundary_def)
qed (simp add: is_char_boundary_def)

lemma split_key_valid:
  assumes "key = prefix @ hash @ ''.'' @ ext" "length hash = hash_len" "list_all is_lower_hex hash" "CHR ''.'' \<notin> set ext"
  shows "split_key key = Inr (Some (prefix, hash, ext))"
proof -
  have "rsplit_once CHR ''.'' key = Some (prefix @ hash, ext)"
    using assms by (simp add: rsplit_once_Some_iff)
  then show ?thesis
    using assms(2) hex_char_boundary [OF assms(3)] by (simp add: split_key_def)
qed

text \<open>When the split panics: a continuation byte stands where the hash would begin.\<close>

lemma split_key_panics:
  "split_key key = Inl u \<longleftrightarrow>
     (\<exists>before ext. key = before @ ''.'' @ ext \<and> CHR ''.'' \<notin> set ext \<and> 64 < length before
        \<and> 128 \<le> byte (before ! (length before - 64)) \<and> byte (before ! (length before - 64)) < 192)"
proof -
  have b: "\<not> is_char_boundary before (length before - hash_len) \<longleftrightarrow>
      64 < length before \<and> 128 \<le> byte (before ! (length before - 64)) \<and> byte (before ! (length before - 64)) < 192"
    if "\<not> length before < hash_len" for before
    using that by (auto simp: is_char_boundary_def hash_len_def not_less not_le)
  have "split_key key = Inl u \<longleftrightarrow> (\<exists>before ext. rsplit_once CHR ''.'' key = Some (before, ext)
      \<and> \<not> length before < hash_len \<and> \<not> is_char_boundary before (length before - hash_len))"
    by (auto simp: split_key_def Let_def split: option.splits if_splits)
  also have "\<dots> \<longleftrightarrow> (\<exists>before ext. rsplit_once CHR ''.'' key = Some (before, ext) \<and> 64 < length before
      \<and> 128 \<le> byte (before ! (length before - 64)) \<and> byte (before ! (length before - 64)) < 192)"
    using b by (metis hash_len_def less_imp_not_less)
  finally show ?thesis
    by (simp add: rsplit_once_Some_iff)
qed

text \<open>
  C22. Validation is exact: a key passes exactly when it is the configured prefix,
  64 lower-case hex digits, a dot and one of the five output extensions, with no
  control characters.  Past the prefix there is then no slash and no second dot,
  and \<^verbatim>\<open>split_key\<close> recovers the three parts.
\<close>

theorem validate_cache_key_exact:
  "(validate_cache_key key prefix = Inr () \<longleftrightarrow>
     (\<exists>hash ext. key = prefix @ hash @ ''.'' @ ext \<and> length hash = 64 \<and> list_all is_lower_hex hash
        \<and> ext \<in> {''jpg'', ''png'', ''webp'', ''avif'', ''gif''}
        \<and> CHR ''/'' \<notin> set (hash @ ext) \<and> CHR ''.'' \<notin> set (hash @ ext)
        \<and> split_key key = Inr (Some (prefix, hash, ext))
        \<and> list_all (\<lambda>b. 32 \<le> byte b \<and> byte b \<noteq> 127) key))
   \<and> (validate_cache_key key prefix = Inr () \<or> validate_cache_key key prefix = Inl (invalid_key_error key))"
proof
  show "validate_cache_key key prefix = Inr () \<longleftrightarrow>
     (\<exists>hash ext. key = prefix @ hash @ ''.'' @ ext \<and> length hash = 64 \<and> list_all is_lower_hex hash
        \<and> ext \<in> {''jpg'', ''png'', ''webp'', ''avif'', ''gif''}
        \<and> CHR ''/'' \<notin> set (hash @ ext) \<and> CHR ''.'' \<notin> set (hash @ ext)
        \<and> split_key key = Inr (Some (prefix, hash, ext))
        \<and> list_all (\<lambda>b. 32 \<le> byte b \<and> byte b \<noteq> 127) key)" (is "?L \<longleftrightarrow> ?R")
  proof
    assume ?L
    then obtain hash ext where h: "key = prefix @ hash @ ''.'' @ ext" "length hash = hash_len"
      "list_all is_lower_hex hash" "ext \<in> set allowed_extensions"
      "list_all (\<lambda>b. 32 \<le> byte b \<and> byte b \<noteq> 127) key"
      using valid_key_iff [of prefix key] by (auto simp: valid_key_def)
    have "split_key key = Inr (Some (prefix, hash, ext))"
      using split_key_valid [OF h(1-3)] ext_no_special [OF h(4)] by blast
    then show ?R
      using h hex_not_dot [OF h(3)] ext_no_special [OF h(4)]
      by (intro exI [of _ hash] exI [of _ ext]) (auto simp: hash_len_def allowed_extensions_def)
  next
    assume ?R
    then show ?L
      using valid_key_iff [of prefix key] by (auto simp: valid_key_def hash_len_def allowed_extensions_def)
  qed
  show "validate_cache_key key prefix = Inr () \<or> validate_cache_key key prefix = Inl (invalid_key_error key)"
    by (auto simp: validate_cache_key_def split: option.splits)
qed

lemma hex_lower_hex: "list_all is_lower_hex (hex_lower bs)"
proof -
  have "is_lower_hex (hex_char d)" if "d < 16" for d
    using that by (simp add: is_lower_hex_def hex_char_def is_ascii_digit_def)
  then show ?thesis
    by (auto simp: hex_lower_def hex2_def list_all_iff less_mult_imp_div_less)
qed

lemma length_hex_lower: "length (hex_lower bs) = 2 * length bs"
  by (induction bs) (auto simp: hex_lower_def hex2_def)

lemma generate_key_checked:
  assumes "length (sha (key_stream q)) = 32" "list_all (\<lambda>b. 32 \<le> byte b \<and> byte b \<noteq> 127) prefix"
  shows "validate_cache_key (generate_key sha prefix q) prefix
    = (if rq_format q = AutoFormat then Inl (invalid_key_error (generate_key sha prefix q)) else Inr ())"
proof -
  let ?h = "hex_lower (sha (key_stream q))" and ?e = "image_format_display (rq_format q)"
  have h: "length ?h = hash_len" "list_all is_lower_hex ?h"
    using assms(1) by (simp_all add: length_hex_lower hash_len_def hex_lower_hex)
  have key: "generate_key sha prefix q = prefix @ ?h @ ''.'' @ ?e"
    by (simp add: generate_key_def)
  have so: "split_once CHR ''.'' (?h @ ''.'' @ ?e) = Some (?h, ?e)"
    using hex_not_dot [OF h(2)] by (simp add: split_once_Some_iff)
  have "list_all (\<lambda>b. 32 \<le> byte b \<and> byte b \<noteq> 127) ?e"
    by (cases "rq_format q") (simp_all add: image_format_display_def)
  moreover have "list_all (\<lambda>b. 32 \<le> byte b \<and> byte b \<noteq> 127) ?h"
    using h(2) by (auto simp: list_all_iff is_lower_hex_def is_ascii_digit_def)
  ultimately have "\<not> list_ex (\<lambda>b. byte b < 32 \<or> byte b = 127) (prefix @ ?h @ ''.'' @ ?e)"
    using assms(2) by (simp add: no_control)
  then show ?thesis
    using h so unfolding key validate_cache_key_def
    by (cases "rq_format q") (auto simp: image_format_display_def allowed_extensions_def)
qed

text \<open>
  Every key the cache service generates is valid under the same prefix:
  for a concrete (negotiated) format, a 32-byte digest and a prefix without
  control characters.  A key for the unresolved format \<^verbatim>\<open>auto\<close> is never valid.
\<close>

theorem generated_keys_valid:
  assumes "length (sha (key_stream q)) = 32" "list_all (\<lambda>b. 32 \<le> byte b \<and> byte b \<noteq> 127) prefix"
  shows "validate_cache_key (generate_key sha prefix q) prefix
    = (if rq_format q = AutoFormat then Inl (invalid_key_error (generate_key sha prefix q)) else Inr ())"
  using assms by (rule generate_key_checked)

theorem generated_keys_valid_witness:
  "validate_cache_key (generate_key (\<lambda>_. replicate 32 CHR ''a'') ''img/'' resize_query_default) ''img/'' = Inr ()"
  using generated_keys_valid [of "\<lambda>_. replicate 32 CHR ''a''" resize_query_default "''img/''"]
  by (simp add: resize_query_default_def)

end
