(* ===== verification/Storage.thy ===== *)
theory Storage
  imports Key_Validation
begin

text \<open>
  The storage layer: the \<^verbatim>\<open>StorageBackend\<close> trait (\<^verbatim>\<open>src/src/services/storage/core.rs\<close>), the
  in-memory backend (\<^verbatim>\<open>src/src/services/storage/in_memory_handler.rs\<close>) and
  \<^verbatim>\<open>StorageService\<close> (\<^verbatim>\<open>src/src/services/storage/handler.rs\<close>).

  Time is a number of nanoseconds.  The trait is a record of operations on a
  backend's state, as the \<^verbatim>\<open>dyn StorageBackend\<close> the service holds, and its
  documented contract is the locale \<^verbatim>\<open>storage_backend\<close>; the in-memory backend
  interprets it here and the local file system in its own theory.
\<close>

section \<open>The trait and its contract\<close>

type_synonym 'a io = "(any_error, 'a) result"

record 's backend =
  be_upload :: "nat \<Rightarrow> string \<Rightarrow> string \<Rightarrow> string \<Rightarrow> nat option \<Rightarrow> 's \<Rightarrow> unit io \<times> 's"
  be_check :: "nat \<Rightarrow> string \<Rightarrow> 's \<Rightarrow> bool io \<times> 's"
  be_get :: "nat \<Rightarrow> string \<Rightarrow> 's \<Rightarrow> string io \<times> 's"
  be_delete :: "nat \<Rightarrow> string \<Rightarrow> 's \<Rightarrow> unit io \<times> 's"

text \<open>The default method \<^verbatim>\<open>upload_image\<close>: an upload that never expires.\<close>

definition be_upload_image ::
  "'s backend \<Rightarrow> nat \<Rightarrow> string \<Rightarrow> string \<Rightarrow> string \<Rightarrow> 's \<Rightarrow> unit io \<times> 's" where
  "be_upload_image b now key content_type data s = be_upload b now key content_type data None s"

text \<open>The last instant \<^verbatim>\<open>checked_add\<close> can represent: \<^verbatim>\<open>i64\<close> seconds.\<close>

definition time_limit :: nat where
  "time_limit = 2 ^ 63 * 10 ^ 9"

definition checked_add_time :: "nat \<Rightarrow> nat \<Rightarrow> nat option" where
  "checked_add_time now ttl = (if now + ttl < time_limit then Some (now + ttl) else None)"

definition says_not_found :: "any_error \<Rightarrow> bool" where
  "says_not_found e = contains_str ''not found'' (to_ascii_lowercase (err_msg e))"

text \<open>
  What the trait's documentation promises, in terms of what a reader sees at a
  time: \<^verbatim>\<open>view t s k\<close> is the live data under \<^verbatim>\<open>k\<close>.  A reader may see an entry vanish
  up to one second early, because a backend may keep expiry in whole seconds,
  but never later than its time to live.  A backend may be unable to record some
  expiry, far in the future: \<^verbatim>\<open>expirable now ttl\<close> says it can.
\<close>

locale storage_backend =
  fixes b :: "'s backend"
    and invar :: "'s \<Rightarrow> bool"
    and valid :: "string \<Rightarrow> bool"
    and view :: "nat \<Rightarrow> 's \<Rightarrow> string \<Rightarrow> string option"
    and expirable :: "nat \<Rightarrow> nat option \<Rightarrow> bool"
  assumes expirable_None: "expirable now None"
    and invar_upload: "invar s \<Longrightarrow> valid k \<Longrightarrow> invar (snd (be_upload b now k ct d ttl s))"
    and invar_check: "invar s \<Longrightarrow> valid k \<Longrightarrow> invar (snd (be_check b now k s))"
    and invar_get: "invar s \<Longrightarrow> valid k \<Longrightarrow> invar (snd (be_get b now k s))"
    and invar_delete: "invar s \<Longrightarrow> valid k \<Longrightarrow> invar (snd (be_delete b now k s))"
    and upload_ok: "invar s \<Longrightarrow> valid k \<Longrightarrow> expirable now ttl \<Longrightarrow> fst (be_upload b now k ct d ttl s) = Inr ()"
    and upload_same: "invar s \<Longrightarrow> valid k \<Longrightarrow> expirable now ttl \<Longrightarrow> (case ttl of None \<Rightarrow> True | Some l \<Rightarrow> t + 10 ^ 9 \<le> now + l)
        \<Longrightarrow> t < time_limit \<Longrightarrow> view t (snd (be_upload b now k ct d ttl s)) k = Some d"
    and upload_expired: "invar s \<Longrightarrow> valid k \<Longrightarrow> expirable now (Some l) \<Longrightarrow> now + l \<le> t \<Longrightarrow> t < time_limit
        \<Longrightarrow> view t (snd (be_upload b now k ct d (Some l) s)) k = None"
    and upload_other: "invar s \<Longrightarrow> valid k \<Longrightarrow> valid k' \<Longrightarrow> k' \<noteq> k
        \<Longrightarrow> view t (snd (be_upload b now k ct d ttl s)) k' = view t s k'"
    and check_result: "invar s \<Longrightarrow> valid k \<Longrightarrow> fst (be_check b now k s) = Inr (view now s k \<noteq> None)"
    and check_view: "invar s \<Longrightarrow> valid k \<Longrightarrow> valid k' \<Longrightarrow> now \<le> t
        \<Longrightarrow> view t (snd (be_check b now k s)) k' = view t s k'"
    and get_hit: "invar s \<Longrightarrow> valid k \<Longrightarrow> view now s k = Some d \<Longrightarrow> fst (be_get b now k s) = Inr d"
    and get_miss: "invar s \<Longrightarrow> valid k \<Longrightarrow> view now s k = None
        \<Longrightarrow> \<exists>e. fst (be_get b now k s) = Inl e \<and> says_not_found e"
    and get_view: "invar s \<Longrightarrow> valid k \<Longrightarrow> valid k' \<Longrightarrow> now \<le> t
        \<Longrightarrow> view t (snd (be_get b now k s)) k' = view t s k'"
    and delete_ok: "invar s \<Longrightarrow> valid k \<Longrightarrow> fst (be_delete b now k s) = Inr ()"
    and delete_view: "invar s \<Longrightarrow> valid k \<Longrightarrow> valid k'
        \<Longrightarrow> view t (snd (be_delete b now k s)) k' = (if k' = k then None else view t s k')"
    and view_antimono: "invar s \<Longrightarrow> valid k \<Longrightarrow> t \<le> t' \<Longrightarrow> view t' s k \<noteq> None \<Longrightarrow> view t' s k = view t s k"
begin

lemma get_after_upload:
  "invar s \<Longrightarrow> valid k \<Longrightarrow> expirable now ttl \<Longrightarrow> (case ttl of None \<Rightarrow> True | Some l \<Rightarrow> t + 10 ^ 9 \<le> now + l) \<Longrightarrow> t < time_limit
   \<Longrightarrow> fst (be_get b t k (snd (be_upload b now k ct d ttl s))) = Inr d"
  by (rule get_hit) (auto intro: invar_upload upload_same)

lemma check_after_upload:
  "invar s \<Longrightarrow> valid k \<Longrightarrow> expirable now ttl \<Longrightarrow> (case ttl of None \<Rightarrow> True | Some l \<Rightarrow> t + 10 ^ 9 \<le> now + l) \<Longrightarrow> t < time_limit
   \<Longrightarrow> fst (be_check b t k (snd (be_upload b now k ct d ttl s))) = Inr True"
  using upload_same [of s k now ttl t ct d] by (simp add: check_result invar_upload)

lemma expired_is_missing:
  assumes "invar s" "valid k" "expirable now (Some l)" "now + l \<le> t" "t < time_limit"
  shows "fst (be_check b t k (snd (be_upload b now k ct d (Some l) s))) = Inr False
     \<and> (\<exists>e. fst (be_get b t k (snd (be_upload b now k ct d (Some l) s))) = Inl e \<and> says_not_found e)"
  using assms upload_expired [OF assms, of ct d]
  by (simp add: check_result invar_upload get_miss)

lemma delete_idempotent:
  "invar s \<Longrightarrow> valid k \<Longrightarrow> fst (be_delete b t k (snd (be_delete b now k s))) = Inr ()"
  by (simp add: delete_ok invar_delete)

lemma delete_removes:
  assumes "invar s" "valid k"
  shows "fst (be_check b t k (snd (be_delete b now k s))) = Inr False"
  using assms by (simp add: check_result invar_delete delete_view)

end

section \<open>The in-memory backend\<close>

type_synonym memory_entry = "string \<times> string \<times> nat option"
type_synonym memory = "string \<rightharpoonup> memory_entry"

definition mem_live :: "nat \<Rightarrow> memory_entry \<Rightarrow> bool" where
  "mem_live now e = (case e of (_, _, Some expires_at) \<Rightarrow> \<not> (now \<ge> expires_at) | (_, _, None) \<Rightarrow> True)"

definition mem_upload :: "nat \<Rightarrow> string \<Rightarrow> string \<Rightarrow> string \<Rightarrow> nat option \<Rightarrow> memory \<Rightarrow> unit io \<times> memory" where
  "mem_upload now key content_type data ttl s =
     (let expires_at = Option.bind ttl (checked_add_time now)
      in (Inr (), s(key \<mapsto> (content_type, data, expires_at))))"

definition mem_check :: "nat \<Rightarrow> string \<Rightarrow> memory \<Rightarrow> bool io \<times> memory" where
  "mem_check now key s =
     ((case s key of
         Some e \<Rightarrow> if \<not> mem_live now e then Inr False else Inr True
       | None \<Rightarrow> Inr False), s)"

definition mem_get :: "nat \<Rightarrow> string \<Rightarrow> memory \<Rightarrow> string io \<times> memory" where
  "mem_get now key s =
     ((case s key of
         Some e \<Rightarrow> if \<not> mem_live now e
                   then Inl (plain_error (''Image not found in memory storage: '' @ key @ '' (expired)''))
                   else Inr (fst (snd e))
       | None \<Rightarrow> Inl (plain_error (''Image not found in memory storage: '' @ key))), s)"

definition mem_delete :: "nat \<Rightarrow> string \<Rightarrow> memory \<Rightarrow> unit io \<times> memory" where
  "mem_delete now key s = (Inr (), s(key := None))"

definition memory_backend :: "memory backend" where
  "memory_backend = \<lparr> be_upload = mem_upload, be_check = mem_check, be_get = mem_get, be_delete = mem_delete \<rparr>"

definition mem_view :: "nat \<Rightarrow> memory \<Rightarrow> string \<Rightarrow> string option" where
  "mem_view now s key = (case s key of Some e \<Rightarrow> if mem_live now e then Some (fst (snd e)) else None | None \<Rightarrow> None)"

lemma lower_append: "to_ascii_lowercase (a @ c) = to_ascii_lowercase a @ to_ascii_lowercase c"
  by (simp add: to_ascii_lowercase_def)

lemma says_not_found_prefix:
  assumes "to_ascii_lowercase p = a @ ''not found'' @ c"
  shows "says_not_found (plain_error (p @ r))"
  unfolding says_not_found_def plain_error_def contains_str_iff
  by (rule exI [of _ a], rule exI [of _ "c @ to_ascii_lowercase r"]) (simp add: lower_append assms)

lemma memory_not_found: "says_not_found (plain_error (''Image not found in memory storage: '' @ r))"
  by (rule says_not_found_prefix [where a = "''image ''" and c = "'' in memory storage: ''"]) code_simp

lemma mem_live_antimono: "mem_live t' e \<Longrightarrow> t \<le> t' \<Longrightarrow> mem_live t e"
  by (auto simp: mem_live_def split: prod.splits option.splits)

interpretation mem: storage_backend memory_backend "\<lambda>_. True" "\<lambda>_. True" mem_view "\<lambda>_ _. True"
proof
  fix s :: memory and k k' ct d now ttl t l
  show "fst (be_upload memory_backend now k ct d ttl s) = Inr ()"
    by (simp add: memory_backend_def mem_upload_def)
  show "case ttl of None \<Rightarrow> True | Some l \<Rightarrow> t + 10 ^ 9 \<le> now + l \<Longrightarrow> t < time_limit
      \<Longrightarrow> mem_view t (snd (be_upload memory_backend now k ct d ttl s)) k = Some d"
    by (auto simp: memory_backend_def mem_upload_def mem_view_def mem_live_def checked_add_time_def Let_def
        split: option.splits)
  show "now + l \<le> t \<Longrightarrow> t < time_limit \<Longrightarrow> mem_view t (snd (be_upload memory_backend now k ct d (Some l) s)) k = None"
    by (simp add: memory_backend_def mem_upload_def mem_view_def mem_live_def checked_add_time_def)
  show "k' \<noteq> k \<Longrightarrow> mem_view t (snd (be_upload memory_backend now k ct d ttl s)) k' = mem_view t s k'"
    by (simp add: memory_backend_def mem_upload_def mem_view_def)
  show "fst (be_check memory_backend now k s) = Inr (mem_view now s k \<noteq> None)"
    by (simp add: memory_backend_def mem_check_def mem_view_def split: option.splits)
  show "mem_view t (snd (be_check memory_backend now k s)) k' = mem_view t s k'"
    by (simp add: memory_backend_def mem_check_def)
  show "mem_view now s k = Some d \<Longrightarrow> fst (be_get memory_backend now k s) = Inr d"
    by (auto simp: memory_backend_def mem_get_def mem_view_def split: option.splits if_splits)
  show "mem_view now s k = None \<Longrightarrow> \<exists>e. fst (be_get memory_backend now k s) = Inl e \<and> says_not_found e"
    using memory_not_found [of k] memory_not_found [of "k @ '' (expired)''"]
    by (auto simp: memory_backend_def mem_get_def mem_view_def split: option.splits if_splits)
  show "mem_view t (snd (be_get memory_backend now k s)) k' = mem_view t s k'"
    by (simp add: memory_backend_def mem_get_def)
  show "fst (be_delete memory_backend now k s) = Inr ()"
    by (simp add: memory_backend_def mem_delete_def)
  show "mem_view t (snd (be_delete memory_backend now k s)) k' = (if k' = k then None else mem_view t s k')"
    by (simp add: memory_backend_def mem_delete_def mem_view_def)
next
  fix s k t t'
  show "t \<le> t' \<Longrightarrow> mem_view t' s k \<noteq> None \<Longrightarrow> mem_view t' s k = mem_view t s k"
    by (auto simp: mem_view_def split: option.splits if_splits dest: mem_live_antimono)
qed simp_all

section \<open>The storage service\<close>

record 's storage_service =
  sv_backend :: "'s backend"
  sv_cdn_base_url :: string
  sv_key_prefix :: string

text \<open>Each operation validates the key first and touches no backend when it is refused.\<close>

definition guard_key :: "'s storage_service \<Rightarrow> string \<Rightarrow> ('s \<Rightarrow> 'a io \<times> 's) \<Rightarrow> 's \<Rightarrow> 'a io \<times> 's" where
  "guard_key sv key op s =
     (case validate_cache_key key (sv_key_prefix sv) of Inl e \<Rightarrow> (Inl e, s) | Inr _ \<Rightarrow> op s)"

definition service_upload_image ::
  "'s storage_service \<Rightarrow> nat \<Rightarrow> string \<Rightarrow> string \<Rightarrow> string \<Rightarrow> 's \<Rightarrow> unit io \<times> 's" where
  "service_upload_image sv now key content_type data =
     guard_key sv key (be_upload_image (sv_backend sv) now key content_type data)"

definition service_upload_image_with_ttl ::
  "'s storage_service \<Rightarrow> nat \<Rightarrow> string \<Rightarrow> string \<Rightarrow> string \<Rightarrow> nat option \<Rightarrow> 's \<Rightarrow> unit io \<times> 's" where
  "service_upload_image_with_ttl sv now key content_type data ttl =
     guard_key sv key (be_upload (sv_backend sv) now key content_type data ttl)"

definition service_delete :: "'s storage_service \<Rightarrow> nat \<Rightarrow> string \<Rightarrow> 's \<Rightarrow> unit io \<times> 's" where
  "service_delete sv now key = guard_key sv key (be_delete (sv_backend sv) now key)"

definition service_check_cache :: "'s storage_service \<Rightarrow> nat \<Rightarrow> string \<Rightarrow> 's \<Rightarrow> bool io \<times> 's" where
  "service_check_cache sv now key = guard_key sv key (be_check (sv_backend sv) now key)"

definition service_get_image :: "'s storage_service \<Rightarrow> nat \<Rightarrow> string \<Rightarrow> 's \<Rightarrow> string io \<times> 's" where
  "service_get_image sv now key = guard_key sv key (be_get (sv_backend sv) now key)"

fun trim_end_matches :: "char \<Rightarrow> string \<Rightarrow> string" where
  "trim_end_matches c s = rev (dropWhile (\<lambda>x. x = c) (rev s))"

definition get_cdn_url :: "'s storage_service \<Rightarrow> string \<Rightarrow> string" where
  "get_cdn_url sv key = trim_end_matches CHR ''/'' (sv_cdn_base_url sv) @ ''/'' @ key"

lemmas service_defs = service_upload_image_def service_upload_image_with_ttl_def service_delete_def
  service_check_cache_def service_get_image_def be_upload_image_def

lemma guard_key_valid: "valid_key (sv_key_prefix sv) key \<Longrightarrow> guard_key sv key op s = op s"
  by (simp add: guard_key_def valid_key_def)

lemma guard_key_invalid:
  "\<not> valid_key (sv_key_prefix sv) key \<Longrightarrow> guard_key sv key op s = (Inl (invalid_key_error key), s)"
  by (auto simp: guard_key_def valid_key_def validate_cache_key_def split: sum.splits option.splits if_splits)


text \<open>What the service promises over any backend that keeps the contract.\<close>

context storage_backend
begin

lemma service_lifecycle:
  fixes now :: nat and ct d :: string and ttl :: "nat option"
  assumes sv: "sv_backend sv = b" and val: "\<And>k. valid_key (sv_key_prefix sv) k \<Longrightarrow> valid k"
    and inv: "invar s" and k: "valid_key (sv_key_prefix sv) key" and ex: "expirable now ttl"
  defines "s' \<equiv> snd (service_upload_image_with_ttl sv now key ct d ttl s)"
  shows "fst (service_upload_image_with_ttl sv now key ct d ttl s) = Inr () \<and> invar s'
    \<and> (t < time_limit \<and> (case ttl of None \<Rightarrow> True | Some l \<Rightarrow> t + 10 ^ 9 \<le> now + l) \<longrightarrow>
         fst (service_get_image sv t key s') = Inr d \<and> fst (service_check_cache sv t key s') = Inr True)
    \<and> (t < time_limit \<and> (case ttl of None \<Rightarrow> False | Some l \<Rightarrow> now + l \<le> t) \<longrightarrow>
         fst (service_check_cache sv t key s') = Inr False
         \<and> (\<exists>e. fst (service_get_image sv t key s') = Inl e \<and> says_not_found e))
    \<and> fst (service_delete sv t key s') = Inr ()
    \<and> fst (service_check_cache sv t' key (snd (service_delete sv t key s'))) = Inr False
    \<and> fst (service_delete sv t' key (snd (service_delete sv t key s'))) = Inr ()
    \<and> (valid_key (sv_key_prefix sv) key' \<and> key' \<noteq> key \<longrightarrow>
         fst (service_check_cache sv t key' s') = fst (service_check_cache sv t key' s))"
proof -
  have g2: "guard_key sv key op = op" for op :: "'s \<Rightarrow> bool io \<times> 's"
    using guard_key_valid [OF k] by (rule ext)
  have g3: "guard_key sv key op = op" for op :: "'s \<Rightarrow> string io \<times> 's"
    using guard_key_valid [OF k] by (rule ext)
  have g4: "guard_key sv key op = op" for op :: "'s \<Rightarrow> unit io \<times> 's"
    using guard_key_valid [OF k] by (rule ext)
  have s': "s' = snd (be_upload b now key ct d ttl s)"
    by (simp add: s'_def service_upload_image_with_ttl_def g4 sv)
  note v = val [OF k]
  have i: "invar s'"
    unfolding s' by (rule invar_upload [OF inv v])
  have o: "fst (service_check_cache sv t key' s') = fst (service_check_cache sv t key' s)"
    if "valid_key (sv_key_prefix sv) key'" "key' \<noteq> key"
    using that check_result [OF i val] check_result [OF inv val] upload_other [OF inv v val]
    by (simp add: service_check_cache_def guard_key_valid sv s')
  have e: "fst (service_check_cache sv t key s') = Inr False
      \<and> (\<exists>e. fst (service_get_image sv t key s') = Inl e \<and> says_not_found e)"
    if "t < time_limit" "ttl = Some l" "now + l \<le> t" for l
    using expired_is_missing [OF inv v _ that(3,1)] ex that(2)
    by (simp add: service_check_cache_def service_get_image_def g2 g3 sv s')
  show ?thesis
    using get_after_upload [OF inv v ex] check_after_upload [OF inv v ex] i o e upload_ok [OF inv v ex]
      delete_ok [OF i v] delete_removes [OF i v] delete_idempotent [OF i v]
    by (simp add: service_defs g2 g3 g4 sv s' split: option.splits)
qed

end

section \<open>Choosing the backend\<close>

text \<open>
  \<^verbatim>\<open>StorageType::from_str\<close> upper-cases its argument first.  Besides the ASCII
  letters, exactly two characters upper-case to one of the letters it then
  compares with: the long s (C5 BF) to S and the dotless i (C4 B1) to I.  Every
  other character keeps its bytes here, which no compared name contains.
\<close>

datatype storage_type = S3 | LocalFs | InMemory

fun to_uppercase :: "string \<Rightarrow> string" where
  "to_uppercase [] = []"
| "to_uppercase [c] = [if 97 \<le> byte c \<and> byte c \<le> 122 then char_of (byte c - 32) else c]"
| "to_uppercase (c # d # s) =
     (if byte c = 197 \<and> byte d = 191 then CHR ''S'' # to_uppercase s
      else if byte c = 196 \<and> byte d = 177 then CHR ''I'' # to_uppercase s
      else (if 97 \<le> byte c \<and> byte c \<le> 122 then char_of (byte c - 32) else c) # to_uppercase (d # s))"

definition storage_type_from_str :: "string \<Rightarrow> (any_error, storage_type) result" where
  "storage_type_from_str s =
     (let u = to_uppercase s in
      if u \<in> {''S3'', ''MINIO''} then Inr S3
      else if u \<in> {''LOCAL_FS'', ''LOCALFS'', ''LOCAL''} then Inr LocalFs
      else if u \<in> {''IN_MEMORY'', ''INMEMORY'', ''MEMORY''} then Inr InMemory
      else Inl (plain_error (''Invalid storage type: '' @ s)))"

text \<open>The Cargo features are a value: the code is compiled once for each.\<close>

record storage_features =
  feat_s3 :: bool
  feat_local_fs :: bool
  feat_in_memory :: bool

definition first_enabled :: "storage_features \<Rightarrow> (any_error, storage_type) result" where
  "first_enabled f =
     (if feat_s3 f then Inr S3
      else if feat_local_fs f then Inr LocalFs
      else if feat_in_memory f then Inr InMemory
      else Inl (plain_error ''No storage features are enabled''))"

definition determine_storage_type ::
  "storage_features \<Rightarrow> string option \<Rightarrow> string option \<Rightarrow> (any_error, storage_type) result" where
  "determine_storage_type f storage_type_str env_storage_type =
     (let enabled_features = of_bool (feat_s3 f) + of_bool (feat_local_fs f) + of_bool (feat_in_memory f) :: nat in
      if enabled_features = 0 then Inl (plain_error ''No storage features are enabled'')
      else if enabled_features = 1 then first_enabled f
      else case storage_type_str of
        Some t \<Rightarrow> storage_type_from_str t
      | None \<Rightarrow>
          (case env_storage_type of
             Some t \<Rightarrow> storage_type_from_str t
           | None \<Rightarrow> first_enabled f))"

record s3_config =
  s3_endpoint_url :: string
  s3_access_key :: string
  s3_secret_key :: string
  s3_bucket :: string
  s3_region :: string

record storage_config =
  sc_storage_type :: "string option"
  sc_cdn_base_url :: string
  sc_s3_config :: "s3_config option"
  sc_local_fs_base_path :: "string option"
  sc_key_prefix :: string

datatype storage_adapter = MinioAdapter s3_config | LocalFsAdapter string

text \<open>
  \<^verbatim>\<open>StorageService::new\<close> of a build that is not the crate's own test build, so
  the arm for \<^verbatim>\<open>InMemory\<close> does not exist.
\<close>

definition storage_service_new ::
  "storage_features \<Rightarrow> string option \<Rightarrow> storage_config \<Rightarrow> (any_error, storage_adapter \<times> string \<times> string) result" where
  "storage_service_new f env_storage_type config =
     bindr (determine_storage_type f (sc_storage_type config) env_storage_type) (\<lambda>storage_type.
       if storage_type = S3 \<and> feat_s3 f then
         bindr (ok_or (plain_error ''S3 configuration is required'') (sc_s3_config config)) (\<lambda>c.
           Inr (MinioAdapter c, sc_cdn_base_url config, sc_key_prefix config))
       else if storage_type = LocalFs \<and> feat_local_fs f then
         bindr (ok_or (plain_error ''Local FS configuration is required'') (sc_local_fs_base_path config)) (\<lambda>c.
           Inr (LocalFsAdapter c, sc_cdn_base_url config, sc_key_prefix config))
       else Inl (plain_error ''No storage backend available for the selected type''))"

section \<open>Properties\<close>

text \<open>
  A key the validator refuses reaches no backend: every operation of the
  service answers with the same not-found error, which the handlers turn into
  404, and leaves the backend's state as it was, whatever the backend is.
\<close>
theorem service_refuses_invalid_keys:
  assumes "\<not> valid_key (sv_key_prefix sv) key"
  shows "service_upload_image sv now key ct d s = (Inl (invalid_key_error key), s)
    \<and> service_upload_image_with_ttl sv now key ct d ttl s = (Inl (invalid_key_error key), s)
    \<and> service_delete sv now key s = (Inl (invalid_key_error key), s)
    \<and> service_check_cache sv now key s = (Inl (invalid_key_error key), s)
    \<and> service_get_image sv now key s = (Inl (invalid_key_error key), s)
    \<and> status_code (classify_download_error (invalid_key_error key)) = 404"
  using assms
  by (simp add: service_defs guard_key_invalid classify_download_error_def invalid_key_error_def status_code_def)

definition memory_service :: "string \<Rightarrow> memory storage_service" where
  "memory_service prefix =
     \<lparr> sv_backend = memory_backend, sv_cdn_base_url = ''https://cdn.example.com/'', sv_key_prefix = prefix \<rparr>"

theorem service_refuses_invalid_keys_witness:
  "\<not> valid_key '''' ''../etc/passwd''
   \<and> service_get_image (memory_service '''') 0 ''../etc/passwd'' Map.empty
       = (Inl (invalid_key_error ''../etc/passwd''), Map.empty)"
proof -
  have n: "\<not> valid_key '''' ''../etc/passwd''"
    unfolding valid_key_def by code_simp
  have p: "sv_key_prefix (memory_service '''') = ''''"
    by (simp add: memory_service_def)
  show ?thesis
    using service_refuses_invalid_keys [of "memory_service ''''" "''../etc/passwd''"] n p by simp
qed

text \<open>
  The build and the configuration decide the backend: with one storage
  feature compiled in, that backend is chosen whatever the configuration and
  the environment say; with several, the configuration's \<^verbatim>\<open>storage_type\<close> wins over
  \<^verbatim>\<open>STORAGE_TYPE\<close>, which wins over the first feature.  A selected backend is
  always one that is compiled in and configured, and it is never the in-memory one.
\<close>
theorem storage_service_new_selects:
  "(feat_s3 f \<and> \<not> feat_local_fs f \<and> \<not> feat_in_memory f \<longrightarrow> determine_storage_type f st env = Inr S3)
   \<and> (\<not> feat_s3 f \<and> feat_local_fs f \<and> \<not> feat_in_memory f \<longrightarrow> determine_storage_type f st env = Inr LocalFs)
   \<and> (feat_s3 f \<and> feat_local_fs f \<longrightarrow> determine_storage_type f (Some t) env = storage_type_from_str t
        \<and> determine_storage_type f None (Some t) = storage_type_from_str t
        \<and> determine_storage_type f None None = Inr S3)
   \<and> (storage_service_new f env config = Inr (a, cdn, prefix) \<longrightarrow>
        cdn = sc_cdn_base_url config \<and> prefix = sc_key_prefix config
        \<and> (case a of
             MinioAdapter c \<Rightarrow> feat_s3 f \<and> sc_s3_config config = Some c
           | LocalFsAdapter base \<Rightarrow> feat_local_fs f \<and> sc_local_fs_base_path config = Some base))"
  by (auto simp: determine_storage_type_def first_enabled_def storage_service_new_def bindr_def ok_or_def
      split: sum.splits if_splits option.splits)

definition release_features :: storage_features where
  "release_features = \<lparr> feat_s3 = True, feat_local_fs = True, feat_in_memory = False \<rparr>"

definition local_config :: storage_config where
  "local_config = \<lparr> sc_storage_type = Some ''local_fs'', sc_cdn_base_url = ''https://cdn.example.com'',
     sc_s3_config = None, sc_local_fs_base_path = Some ''/data'', sc_key_prefix = '''' \<rparr>"

theorem storage_service_new_selects_witness:
  "storage_service_new release_features (Some ''S3'') local_config
     = Inr (LocalFsAdapter ''/data'', ''https://cdn.example.com'', '''')
   \<and> feat_local_fs release_features"
proof -
  have "storage_service_new release_features (Some ''S3'') local_config
     = Inr (LocalFsAdapter ''/data'', ''https://cdn.example.com'', '''')"
    by code_simp
  then show ?thesis
    using storage_service_new_selects [of release_features None "Some ''S3''" "''S3''" local_config
      "LocalFsAdapter ''/data''" "''https://cdn.example.com''" "''''"] by simp
qed

end
