(* ===== verification/Transitions.thy ===== *)
theory Transitions
  imports Prelude
begin

text \<open>
  The contract that the concurrent parts of the service share, as the locale
  \<^verbatim>\<open>transitions\<close>: a step relation with an invariant every step keeps and a rank every step
  lowers.  Its runs keep the invariant, are no longer than the rank they start from, and
  can be run to a state that takes no further step.  Single flight (\<^verbatim>\<open>Resize\<close>) and batches
  (\<^verbatim>\<open>Batch\<close>) are its interpretations.
\<close>

locale transitions =
  fixes step :: "'a \<Rightarrow> 'a \<Rightarrow> bool"
    and inv :: "'a \<Rightarrow> bool"
    and left :: "'a \<Rightarrow> nat"
  assumes inv_step: "inv s \<Longrightarrow> step s t \<Longrightarrow> inv t"
    and left_step: "inv s \<Longrightarrow> step s t \<Longrightarrow> left t < left s"
begin

lemma run_bound: "(step ^^ k) s t \<Longrightarrow> inv s \<Longrightarrow> inv t \<and> k + left t \<le> left s"
proof (induction k arbitrary: t)
  case (Suc k)
  then obtain u where "(step ^^ k) s u" "step u t"
    by auto
  then show ?case
    using Suc.IH [of u] Suc.prems(2) inv_step [of u t] left_step [of u t] by auto
qed simp

lemma inv_run: "step\<^sup>*\<^sup>* s t \<Longrightarrow> inv s \<Longrightarrow> inv t"
  using run_bound by (metis rtranclp_imp_relpowp)

lemma runs_to_end:
  assumes "inv s"
  shows "\<exists>t. step\<^sup>*\<^sup>* s t \<and> inv t \<and> (\<forall>u. \<not> step t u)"
  using assms
proof (induction "left s" arbitrary: s rule: less_induct)
  case less
  show ?case
  proof (cases "\<exists>u. step s u")
    case True
    then obtain u where u: "step s u"
      by blast
    then obtain t where "step\<^sup>*\<^sup>* u t" "inv t" "\<forall>v. \<not> step t v"
      using less left_step inv_step by blast
    then show ?thesis
      using converse_rtranclp_into_rtranclp [of step s u t] u by blast
  next
    case False
    then show ?thesis
      using less by blast
  qed
qed

end

end
