(* ===== verification/Resize.thy ===== *)
theory Resize
  imports Storage Transitions
begin

text \<open>
  The resize service (\<^verbatim>\<open>src/src/services/resize/handler.rs\<close>): the pipeline of one
  cache miss, downloads from the cache, and the single-flight registry that lets
  concurrent requests for one key share the work of a leader.

  Fetching and processing an image are the image service's two operations, here
  the fields \<^verbatim>\<open>rs_download\<close> and \<^verbatim>\<open>rs_process\<close> of the service.  The registry is a step
  relation over all requests at once: a request is a task, a broadcast channel is
  a number, and every await point of \<^verbatim>\<open>resize\<close> ends a step, so that runs of the
  relation are the interleavings of the tasks, panics and cancellations included.
\<close>

section \<open>The pipeline\<close>

record 's resize_service =
  rs_storage :: "'s storage_service"
  rs_sha :: "string \<Rightarrow> string"
  rs_minio_sub_path :: string
  rs_cache_ttl :: "nat option"
  rs_download :: "string \<Rightarrow> string io"
  rs_process :: "string \<Rightarrow> resize_query \<Rightarrow> (string \<times> string) io"

definition cache_key :: "'s resize_service \<Rightarrow> resize_query \<Rightarrow> string" where
  "cache_key rs params = generate_key (rs_sha rs) (rs_minio_sub_path rs) params"

definition do_resize_work :: "'s resize_service \<Rightarrow> nat \<Rightarrow> string \<Rightarrow> resize_query \<Rightarrow> 's \<Rightarrow> string io \<times> 's" where
  "do_resize_work rs now key params s =
     (case rs_download rs (rq_url params) of
        Inl e \<Rightarrow> (Inl e, s)
      | Inr image_bytes \<Rightarrow>
        (case rs_process rs image_bytes params of
           Inl e \<Rightarrow> (Inl e, s)
         | Inr (processed_image, content_type) \<Rightarrow>
           (case service_upload_image_with_ttl (rs_storage rs) now key content_type processed_image (rs_cache_ttl rs) s of
              (Inl e, s') \<Rightarrow> (Inl e, s')
            | (Inr _, s') \<Rightarrow> (Inr (get_cdn_url (rs_storage rs) key), s'))))"

definition resize_download :: "'s resize_service \<Rightarrow> nat \<Rightarrow> string \<Rightarrow> 's \<Rightarrow> string io \<times> 's" where
  "resize_download rs now key s = service_get_image (rs_storage rs) now key s"

text \<open>One request on its own: nobody else works on its key, so it leads.\<close>

definition resize_alone :: "'s resize_service \<Rightarrow> nat \<Rightarrow> resize_query \<Rightarrow> 's \<Rightarrow> string io \<times> 's" where
  "resize_alone rs now params s =
     (case service_check_cache (rs_storage rs) now (cache_key rs params) s of
        (Inr True, s') \<Rightarrow> (Inr (get_cdn_url (rs_storage rs) (cache_key rs params)), s')
      | (_, s') \<Rightarrow> do_resize_work rs now (cache_key rs params) params s')"

section \<open>Single flight\<close>

text \<open>
  What the leader broadcasts is its result with the error flattened to its text;
  a follower wraps that text in a fresh error.
\<close>

type_synonym in_flight_result = "(string, string) result"

definition broadcast_of :: "string io \<Rightarrow> in_flight_result" where
  "broadcast_of r = map_err err_msg r"

definition follower_result :: "in_flight_result \<Rightarrow> string io" where
  "follower_result r = map_err plain_error r"

definition cancelled_message :: "string \<Rightarrow> string" where
  "cancelled_message key = ''in-flight request for key '' @ key @ '' was cancelled or panicked before completing''"

text \<open>
  A task has not started, has missed the cache, leads or follows a channel, has
  taken its entry out of the registry and is about to broadcast (with what it
  will itself return, unless it was dropped), is answered, or is gone.
\<close>

datatype task =
    Idle
  | Missed
  | Leading nat
  | Following nat
  | Sending nat in_flight_result "string io option"
  | Answered "string io"
  | Gone

record 's flight =
  fl_store :: 's
  fl_map :: "string \<rightharpoonup> nat"
  fl_sent :: "nat \<rightharpoonup> in_flight_result"
  fl_next :: nat
  fl_task :: "nat \<Rightarrow> task"

definition set_task :: "nat \<Rightarrow> task \<Rightarrow> 's flight \<Rightarrow> 's flight" where
  "set_task i t f = f\<lparr>fl_task := (fl_task f)(i := t)\<rparr>"

text \<open>
  \<^verbatim>\<open>flight_step rs req i f f'\<close>: task \<^verbatim>\<open>i\<close>, which serves request \<^verbatim>\<open>req i\<close>, moves.  The guard's
  \<^verbatim>\<open>drop\<close> removes the entry and then sends, as two steps; it runs when the leader
  finishes and also when the leader panics or is cancelled.
\<close>

inductive flight_step ::
  "'s resize_service \<Rightarrow> (nat \<Rightarrow> resize_query) \<Rightarrow> nat \<Rightarrow> 's flight \<Rightarrow> 's flight \<Rightarrow> bool"
  for rs :: "'s resize_service" and req :: "nat \<Rightarrow> resize_query"
where
  hit: "flight_step rs req i f (set_task i (Answered (Inr (get_cdn_url (rs_storage rs) (cache_key rs (req i))))) (f\<lparr>fl_store := s\<rparr>))"
    if "fl_task f i = Idle" "service_check_cache (rs_storage rs) now (cache_key rs (req i)) (fl_store f) = (Inr True, s)"
| miss: "flight_step rs req i f (set_task i Missed (f\<lparr>fl_store := s\<rparr>))"
    if "fl_task f i = Idle" "service_check_cache (rs_storage rs) now (cache_key rs (req i)) (fl_store f) = (r, s)"
      "r \<noteq> Inr True"
| lead: "flight_step rs req i f
      (set_task i (Leading (fl_next f)) (f\<lparr>fl_map := (fl_map f)(cache_key rs (req i) \<mapsto> fl_next f), fl_next := fl_next f + 1\<rparr>))"
    if "fl_task f i = Missed" "fl_map f (cache_key rs (req i)) = None"
| follow: "flight_step rs req i f (set_task i (Following ch) f)"
    if "fl_task f i = Missed" "fl_map f (cache_key rs (req i)) = Some ch"
| finish: "flight_step rs req i f
      (set_task i (Sending ch (broadcast_of r) (Some r)) (f\<lparr>fl_store := s, fl_map := (fl_map f)(cache_key rs (req i) := None)\<rparr>))"
    if "fl_task f i = Leading ch" "do_resize_work rs now (cache_key rs (req i)) (req i) (fl_store f) = (r, s)"
| drop_leader: "flight_step rs req i f
      (set_task i (Sending ch (Inl (cancelled_message (cache_key rs (req i)))) None)
        (f\<lparr>fl_map := (fl_map f)(cache_key rs (req i) := None)\<rparr>))"
    if "fl_task f i = Leading ch"
| send: "flight_step rs req i f
      (set_task i (case own of Some r \<Rightarrow> Answered r | None \<Rightarrow> Gone) (f\<lparr>fl_sent := (fl_sent f)(ch \<mapsto> msg)\<rparr>))"
    if "fl_task f i = Sending ch msg own"
| receive: "flight_step rs req i f (set_task i (Answered (follower_result msg)) f)"
    if "fl_task f i = Following ch" "fl_sent f ch = Some msg"
| drop_other: "flight_step rs req i f (set_task i Gone f)"
    if "fl_task f i = Idle \<or> fl_task f i = Missed \<or> (\<exists>ch. fl_task f i = Following ch)"

inductive_cases flight_stepE: "flight_step rs req i f f'"

definition flight_init :: "'s \<Rightarrow> nat \<Rightarrow> 's flight" where
  "flight_init s n =
     \<lparr> fl_store = s, fl_map = Map.empty, fl_sent = Map.empty, fl_next = 0,
       fl_task = (\<lambda>i. if i < n then Idle else Gone) \<rparr>"

inductive flight_run ::
  "'s resize_service \<Rightarrow> (nat \<Rightarrow> resize_query) \<Rightarrow> 's flight \<Rightarrow> nat \<Rightarrow> 's flight \<Rightarrow> bool"
  for rs :: "'s resize_service" and req :: "nat \<Rightarrow> resize_query" and f :: "'s flight"
where
  run_nil: "flight_run rs req f 0 f"
| run_snoc: "flight_run rs req f k g \<Longrightarrow> flight_step rs req i g h \<Longrightarrow> flight_run rs req f (Suc k) h"

definition finished :: "task \<Rightarrow> bool" where
  "finished t = (case t of Answered _ \<Rightarrow> True | Gone \<Rightarrow> True | _ \<Rightarrow> False)"

lemma set_task_simps [simp]:
  "fl_task (set_task i t f) = (fl_task f)(i := t)" "fl_map (set_task i t f) = fl_map f"
  "fl_sent (set_task i t f) = fl_sent f" "fl_next (set_task i t f) = fl_next f"
  "fl_store (set_task i t f) = fl_store f"
  by (simp_all add: set_task_def)

section \<open>The invariant of the registry\<close>

definition owns :: "task \<Rightarrow> nat \<Rightarrow> bool" where
  "owns t ch = (case t of Leading c \<Rightarrow> c = ch | Sending c _ _ \<Rightarrow> c = ch | _ \<Rightarrow> False)"

definition right_url :: "'s resize_service \<Rightarrow> resize_query \<Rightarrow> ('e, string) result \<Rightarrow> bool" where
  "right_url rs q r = (case r of Inr u \<Rightarrow> u = get_cdn_url (rs_storage rs) (cache_key rs q) | Inl _ \<Rightarrow> True)"

definition flight_inv :: "'s resize_service \<Rightarrow> (nat \<Rightarrow> resize_query) \<Rightarrow> 's flight \<Rightarrow> bool" where
  "flight_inv rs req f \<longleftrightarrow>
     (\<forall>j ch. fl_task f j = Leading ch \<longrightarrow> fl_map f (cache_key rs (req j)) = Some ch)
     \<and> (\<forall>k ch. fl_map f k = Some ch \<longrightarrow> (\<exists>j. fl_task f j = Leading ch \<and> cache_key rs (req j) = k))
     \<and> (\<forall>j j' ch. owns (fl_task f j) ch \<longrightarrow> owns (fl_task f j') ch \<longrightarrow> j = j')
     \<and> (\<forall>j ch. owns (fl_task f j) ch \<longrightarrow> ch < fl_next f \<and> fl_sent f ch = None)
     \<and> (\<forall>ch. fl_sent f ch \<noteq> None \<longrightarrow> ch < fl_next f)
     \<and> (\<forall>i ch. fl_task f i = Following ch \<longrightarrow>
          (\<exists>r. fl_sent f ch = Some r \<and> right_url rs (req i) r)
          \<or> (\<exists>j. owns (fl_task f j) ch \<and> cache_key rs (req j) = cache_key rs (req i)))
     \<and> (\<forall>j ch r own. fl_task f j = Sending ch r own \<longrightarrow> right_url rs (req j) r \<and> pred_option (right_url rs (req j)) own)
     \<and> (\<forall>i r. fl_task f i = Answered r \<longrightarrow> right_url rs (req i) r)"


lemma owns_simps [simp]:
  "owns (Leading c) ch \<longleftrightarrow> c = ch" "owns (Sending c r own) ch \<longleftrightarrow> c = ch"
  "\<not> owns Idle ch" "\<not> owns Missed ch" "\<not> owns (Following c) ch" "\<not> owns (Answered a) ch" "\<not> owns Gone ch"
  by (simp_all add: owns_def)

lemma right_url_simps [simp]:
  "right_url rs q (Inl e)"
  "right_url rs q (Inr u) \<longleftrightarrow> u = get_cdn_url (rs_storage rs) (cache_key rs q)"
  by (simp_all add: right_url_def)

lemma right_url_flatten [simp]:
  "right_url rs q (broadcast_of r) \<longleftrightarrow> right_url rs q r"
  "right_url rs q (follower_result m) \<longleftrightarrow> right_url rs q m"
  by (cases r, simp_all add: broadcast_of_def) (cases m, simp_all add: follower_result_def)

lemma right_url_same_key: "cache_key rs p = cache_key rs q \<Longrightarrow> right_url rs p r \<longleftrightarrow> right_url rs q r"
  by (cases r) simp_all

lemma do_resize_work_url: "do_resize_work rs now (cache_key rs q) q s = (r, s') \<Longrightarrow> right_url rs q r"
  by (auto simp: do_resize_work_def right_url_def split: sum.splits prod.splits)

lemma flight_inv_init: "flight_inv rs req (flight_init s n)"
  by (auto simp: flight_inv_def flight_init_def)

text \<open>The parts of the invariant, to be established and used one at a time.\<close>

lemma flight_invI:
  assumes "\<And>j ch. fl_task f j = Leading ch \<Longrightarrow> fl_map f (cache_key rs (req j)) = Some ch"
    and "\<And>k ch. fl_map f k = Some ch \<Longrightarrow> \<exists>j. fl_task f j = Leading ch \<and> cache_key rs (req j) = k"
    and "\<And>j j' ch. owns (fl_task f j) ch \<Longrightarrow> owns (fl_task f j') ch \<Longrightarrow> j = j'"
    and "\<And>j ch. owns (fl_task f j) ch \<Longrightarrow> ch < fl_next f \<and> fl_sent f ch = None"
    and "\<And>ch. fl_sent f ch \<noteq> None \<Longrightarrow> ch < fl_next f"
    and "\<And>i ch. fl_task f i = Following ch \<Longrightarrow> (\<exists>r. fl_sent f ch = Some r \<and> right_url rs (req i) r)
          \<or> (\<exists>j. owns (fl_task f j) ch \<and> cache_key rs (req j) = cache_key rs (req i))"
    and "\<And>j ch r own. fl_task f j = Sending ch r own \<Longrightarrow> right_url rs (req j) r \<and> pred_option (right_url rs (req j)) own"
    and "\<And>i r. fl_task f i = Answered r \<Longrightarrow> right_url rs (req i) r"
  shows "flight_inv rs req f"
  unfolding flight_inv_def using assms by blast

lemma flight_invD:
  assumes "flight_inv rs req f"
  shows "fl_task f j = Leading ch \<Longrightarrow> fl_map f (cache_key rs (req j)) = Some ch"
    and "fl_map f k = Some ch \<Longrightarrow> \<exists>j. fl_task f j = Leading ch \<and> cache_key rs (req j) = k"
    and "owns (fl_task f j) ch \<Longrightarrow> owns (fl_task f j') ch \<Longrightarrow> j = j'"
    and "owns (fl_task f j) ch \<Longrightarrow> ch < fl_next f" and "owns (fl_task f j) ch \<Longrightarrow> fl_sent f ch = None"
    and "fl_sent f ch \<noteq> None \<Longrightarrow> ch < fl_next f"
    and "fl_task f i = Following ch \<Longrightarrow> (\<exists>r. fl_sent f ch = Some r \<and> right_url rs (req i) r)
          \<or> (\<exists>j. owns (fl_task f j) ch \<and> cache_key rs (req j) = cache_key rs (req i))"
    and "fl_task f j = Sending ch r own \<Longrightarrow> right_url rs (req j) r \<and> pred_option (right_url rs (req j)) own"
    and "fl_task f i = Answered r' \<Longrightarrow> right_url rs (req i) r'"
  using assms unfolding flight_inv_def by blast+

text \<open>
  A task that owns no channel and does not come to own or follow one may move
  without touching the registry.
\<close>

lemma flight_inv_quiet:
  assumes inv: "flight_inv rs req f" and own: "\<And>ch. \<not> owns (fl_task f i) ch"
    and t: "t = Missed \<or> t = Gone \<or> (\<exists>r. t = Answered r \<and> right_url rs (req i) r)
        \<or> (\<exists>ch j. t = Following ch \<and> fl_task f j = Leading ch \<and> cache_key rs (req j) = cache_key rs (req i))"
  shows "flight_inv rs req (set_task i t (f\<lparr>fl_store := s\<rparr>))"
proof -
  let ?f = "set_task i t (f\<lparr>fl_store := s\<rparr>)"
  note I = flight_invD [OF inv]
  have ow: "owns (fl_task ?f j) ch \<longleftrightarrow> owns (fl_task f j) ch" for j ch
    using own [of ch] t by auto
  have ld: "fl_task ?f j = Leading ch \<longleftrightarrow> fl_task f j = Leading ch" for j ch
    using own [of ch] t by auto
  have sd: "fl_task ?f j = Sending ch r w \<longleftrightarrow> fl_task f j = Sending ch r w" for j ch r w
    using own [of ch] t by auto
  have fo: "(\<exists>r. fl_sent f ch = Some r \<and> right_url rs (req k) r)
      \<or> (\<exists>j. owns (fl_task f j) ch \<and> cache_key rs (req j) = cache_key rs (req k))"
    if fw: "fl_task ?f k = Following ch" for k ch
  proof (cases "k = i")
    case True
    then obtain j where "fl_task f j = Leading ch" "cache_key rs (req j) = cache_key rs (req i)"
      using t fw by auto
    then show ?thesis
      using True by (metis owns_simps(1))
  next
    case False
    then show ?thesis
      using I(7) [of k ch] fw by simp
  qed
  have an: "right_url rs (req k) r" if "fl_task ?f k = Answered r" for k r
    using t that I(9) by (auto split: if_splits)
  show ?thesis
    unfolding flight_inv_def ow ld sd
    using I(1-6,8) fo an by auto
qed


lemma flight_inv_lead:
  assumes inv: "flight_inv rs req f" and t: "fl_task f i = Missed" "fl_map f (cache_key rs (req i)) = None"
  shows "flight_inv rs req (set_task i (Leading (fl_next f))
    (f\<lparr>fl_map := (fl_map f)(cache_key rs (req i) \<mapsto> fl_next f), fl_next := fl_next f + 1\<rparr>))"
proof -
  let ?f = "set_task i (Leading (fl_next f))
    (f\<lparr>fl_map := (fl_map f)(cache_key rs (req i) \<mapsto> fl_next f), fl_next := fl_next f + 1\<rparr>)"
  note I = flight_invD [OF inv]
  have ow: "owns (fl_task ?f j) ch \<longleftrightarrow> owns (fl_task f j) ch \<or> (j = i \<and> ch = fl_next f)" for j ch
    using t(1) by auto
  have ne: "ch \<noteq> fl_next f" if "owns (fl_task f j) ch" for j ch
    using I(4) [OF that] by simp
  have key: "cache_key rs (req j) \<noteq> cache_key rs (req i)" if "fl_task f j = Leading ch" for j ch
    using I(1) [OF that] t(2) by auto
  have fresh: "fl_sent f (fl_next f) = None"
    by (rule ccontr) (use I(6) [of "fl_next f"] in simp)
  have one: "fl_task ?f j = Leading ch \<Longrightarrow> fl_map ?f (cache_key rs (req j)) = Some ch" for j ch
    using I(1) key by (auto split: if_splits)
  have two: "\<exists>j. fl_task ?f j = Leading ch \<and> cache_key rs (req j) = k" if m: "fl_map ?f k = Some ch" for k ch
  proof (cases "k = cache_key rs (req i)")
    case True
    then show ?thesis
      using m by (intro exI [of _ i]) simp
  next
    case False
    then obtain j where "fl_task f j = Leading ch" "cache_key rs (req j) = k"
      using I(2) [of k ch] m by auto
    then show ?thesis
      using False by (intro exI [of _ j]) auto
  qed
  have three: "owns (fl_task ?f j) ch \<Longrightarrow> owns (fl_task ?f j') ch \<Longrightarrow> j = j'" for j j' ch
    unfolding ow using I(3) ne by blast
  have four: "owns (fl_task ?f j) ch \<Longrightarrow> ch < fl_next ?f \<and> fl_sent ?f ch = None" for j ch
    unfolding ow using I(4,5) fresh by (auto simp: less_Suc_eq)
  have fo: "(\<exists>r. fl_sent ?f ch = Some r \<and> right_url rs (req k) r)
      \<or> (\<exists>j. owns (fl_task ?f j) ch \<and> cache_key rs (req j) = cache_key rs (req k))"
    if "fl_task ?f k = Following ch" for k ch
    using I(7) [of k ch] that unfolding ow by (simp split: if_splits) blast
  have five: "ch < fl_next ?f" if "fl_sent ?f ch \<noteq> None" for ch
    using I(6) [of ch] that by simp
  have sd: "right_url rs (req j) r \<and> pred_option (right_url rs (req j)) own" if "fl_task ?f j = Sending ch r own" for j ch r own
    using I(8) [of j ch r own] that by (simp split: if_splits)
  have an: "right_url rs (req j) r" if "fl_task ?f j = Answered r" for j r
    using I(9) [of j r] that by (simp split: if_splits)
  show ?thesis
    by (rule flight_invI [OF one two three four five fo sd an])
qed

text \<open>A leader leaves the registry, finished or dropped.\<close>

lemma flight_inv_leave:
  assumes inv: "flight_inv rs req f" and t: "fl_task f i = Leading ch"
    and r: "right_url rs (req i) m" "pred_option (right_url rs (req i)) own"
  shows "flight_inv rs req (set_task i (Sending ch m own)
    (f\<lparr>fl_store := s, fl_map := (fl_map f)(cache_key rs (req i) := None)\<rparr>))"
proof -
  let ?f = "set_task i (Sending ch m own) (f\<lparr>fl_store := s, fl_map := (fl_map f)(cache_key rs (req i) := None)\<rparr>)"
  note I = flight_invD [OF inv]
  have ow: "owns (fl_task ?f j) c \<longleftrightarrow> owns (fl_task f j) c" for j c
    using t by auto
  have key: "cache_key rs (req j) \<noteq> cache_key rs (req i)" if "fl_task f j = Leading c" "j \<noteq> i" for j c
  proof
    assume "cache_key rs (req j) = cache_key rs (req i)"
    then have "c = ch"
      using I(1) [OF that(1)] I(1) [OF t] by simp
    then show False
      using I(3) [of j ch i] that t by simp
  qed
  have one: "fl_task ?f j = Leading c \<Longrightarrow> fl_map ?f (cache_key rs (req j)) = Some c" for j c
    using I(1) key by (auto split: if_splits)
  have two: "\<exists>j. fl_task ?f j = Leading c \<and> cache_key rs (req j) = k" if "fl_map ?f k = Some c" for k c
    using I(2) [of k c] that by (auto split: if_splits)
  have sd: "right_url rs (req j) m' \<and> pred_option (right_url rs (req j)) w" if "fl_task ?f j = Sending c m' w" for j c m' w
    using I(8) [of j c m' w] r that by (simp split: if_splits)
  have an: "right_url rs (req j) r" if "fl_task ?f j = Answered r" for j r
    using I(9) [of j r] that by (simp split: if_splits)
  have three: "j = j'" if "owns (fl_task ?f j) c" "owns (fl_task ?f j') c" for j j' c
    using I(3) that unfolding ow by blast
  have four: "c < fl_next ?f \<and> fl_sent ?f c = None" if "owns (fl_task ?f j) c" for j c
    using I(4,5) that unfolding ow by simp
  have five: "c < fl_next ?f" if "fl_sent ?f c \<noteq> None" for c
    using I(6) [of c] that by simp
  have fo: "(\<exists>r. fl_sent ?f c = Some r \<and> right_url rs (req k) r)
      \<or> (\<exists>j. owns (fl_task ?f j) c \<and> cache_key rs (req j) = cache_key rs (req k))"
    if "fl_task ?f k = Following c" for k c
    using I(7) [of k c] that unfolding ow by (simp split: if_splits)
  show ?thesis
    by (rule flight_invI [OF one two three four five fo sd an])
qed

lemma flight_inv_send:
  assumes inv: "flight_inv rs req f" and t: "fl_task f i = Sending ch m own"
  shows "flight_inv rs req (set_task i (case own of Some r \<Rightarrow> Answered r | None \<Rightarrow> Gone) (f\<lparr>fl_sent := (fl_sent f)(ch \<mapsto> m)\<rparr>))"
proof -
  let ?t = "case own of Some r \<Rightarrow> Answered r | None \<Rightarrow> Gone"
  let ?f = "set_task i ?t (f\<lparr>fl_sent := (fl_sent f)(ch \<mapsto> m)\<rparr>)"
  note I = flight_invD [OF inv]
  have nt: "\<not> owns ?t c" "?t \<noteq> Leading c" "?t \<noteq> Following c" "?t \<noteq> Sending c r w" for c r w
    by (simp_all split: option.split)
  have mine: "owns (fl_task f i) ch"
    using t by simp
  have ow: "owns (fl_task ?f j) c \<longleftrightarrow> owns (fl_task f j) c \<and> c \<noteq> ch" for j c
  proof (cases "j = i")
    case True
    then show ?thesis
      using nt(1) t by simp
  next
    case False
    then have "owns (fl_task f j) c \<Longrightarrow> c \<noteq> ch"
      using I(3) [OF mine, of j] by blast
    then show ?thesis
      using False by auto
  qed
  have ld: "fl_task ?f j = Leading c \<longleftrightarrow> fl_task f j = Leading c" for j c
    using nt(2) t by simp
  have fo: "(\<exists>r. fl_sent ?f c = Some r \<and> right_url rs (req k) r)
      \<or> (\<exists>j. owns (fl_task ?f j) c \<and> cache_key rs (req j) = cache_key rs (req k))"
    if fw: "fl_task ?f k = Following c" for k c
  proof -
    have k: "fl_task f k = Following c"
      using fw nt by (auto split: if_splits)
    show ?thesis
    proof (cases "c = ch")
      case True
      have "fl_sent f ch = None"
        by (rule I(5) [OF mine])
      then obtain j where j: "owns (fl_task f j) ch" "cache_key rs (req j) = cache_key rs (req k)"
        using I(7) [OF k] True by auto
      then have "j = i"
        using I(3) mine by blast
      then have "right_url rs (req k) m"
        using I(8) [OF t] j(2) right_url_same_key [of rs "req i" "req k" m] by simp
      then show ?thesis
        using True by simp
    next
      case False
      then show ?thesis
        using I(7) [OF k] unfolding ow by simp
    qed
  qed
  have sd: "right_url rs (req j) r \<and> pred_option (right_url rs (req j)) w" if "fl_task ?f j = Sending c r w" for j c r w
    using that nt I(8) by (auto split: if_splits)
  have an: "right_url rs (req j) r" if "fl_task ?f j = Answered r" for j r
    using that I(9) I(8) [OF t] by (auto split: if_splits option.splits)
  have lt: "c < fl_next ?f" if "fl_sent ?f c \<noteq> None" for c
    using I(6) [of c] I(4) [OF mine] that by (simp split: if_splits)
  have one: "fl_map ?f (cache_key rs (req j)) = Some c" if "fl_task ?f j = Leading c" for j c
    using I(1) that unfolding ld by simp
  have two: "\<exists>j. fl_task ?f j = Leading c \<and> cache_key rs (req j) = k" if "fl_map ?f k = Some c" for k c
    using I(2) [of k c] that unfolding ld by simp
  have three: "j = j'" if "owns (fl_task ?f j) c" "owns (fl_task ?f j') c" for j j' c
    using I(3) that unfolding ow by blast
  have four: "c < fl_next ?f \<and> fl_sent ?f c = None" if "owns (fl_task ?f j) c" for j c
    using I(4,5) that unfolding ow by auto
  show ?thesis
    by (rule flight_invI [OF one two three four lt fo sd an])
qed


lemma flight_inv_step:
  assumes inv: "flight_inv rs req f" and step: "flight_step rs req i f g"
  shows "flight_inv rs req g"
  using step
proof cases
  case (hit now s)
  then show ?thesis
    using flight_inv_quiet [OF inv, of i] by simp
next
  case (miss now r s)
  then show ?thesis
    using flight_inv_quiet [OF inv, of i] by simp
next
  case lead
  then show ?thesis
    using flight_inv_lead [OF inv] by simp
next
  case (follow ch)
  then obtain k where "fl_task f k = Leading ch" "cache_key rs (req k) = cache_key rs (req i)"
    using flight_invD(2) [OF inv] by blast
  then show ?thesis
    using follow flight_inv_quiet [OF inv, of i "Following ch" "fl_store f"] by auto
next
  case (finish ch now r s)
  have "right_url rs (req i) r"
    by (rule do_resize_work_url [OF finish(3)])
  then show ?thesis
    using finish flight_inv_leave [OF inv, of i ch "broadcast_of r" "Some r" s] by simp
next
  case (drop_leader ch)
  then show ?thesis
    using flight_inv_leave [OF inv, of i ch "Inl (cancelled_message (cache_key rs (req i)))" None "fl_store f"] by simp
next
  case (send ch msg own)
  then show ?thesis
    using flight_inv_send [OF inv] by simp
next
  case (receive ch msg)
  have "right_url rs (req i) msg"
    using receive flight_invD(7) [OF inv receive(2)] flight_invD(5) [OF inv, of _ ch] by auto
  then show ?thesis
    using receive flight_inv_quiet [OF inv, of i "Answered (follower_result msg)" "fl_store f"] by simp
next
  case drop_other
  then show ?thesis
    using flight_inv_quiet [OF inv, of i Gone "fl_store f"] by auto
qed

lemma flight_inv_run: "flight_run rs req (flight_init s n) k f \<Longrightarrow> flight_inv rs req f"
  by (induction rule: flight_run.induct) (auto intro: flight_inv_init flight_inv_step)


section \<open>Progress\<close>

text \<open>How many steps a task has left at most.\<close>

definition rank :: "task \<Rightarrow> nat" where
  "rank t = (case t of Idle \<Rightarrow> 4 | Missed \<Rightarrow> 3 | Leading _ \<Rightarrow> 2 | Following _ \<Rightarrow> 1 | Sending _ _ _ \<Rightarrow> 1
     | Answered _ \<Rightarrow> 0 | Gone \<Rightarrow> 0)"

lemma rank_simps [simp]:
  "rank Idle = 4" "rank Missed = 3" "rank (Leading c) = 2" "rank (Following c) = 1" "rank (Sending c m w) = 1"
  "rank (Answered r) = 0" "rank Gone = 0"
  by (simp_all add: rank_def)

lemma finished_iff_rank: "finished t \<longleftrightarrow> rank t = 0"
  by (cases t) (simp_all add: finished_def)

lemma step_rank:
  "flight_step rs req i f g \<Longrightarrow> rank (fl_task g i) < rank (fl_task f i) \<and> (\<forall>j. j \<noteq> i \<longrightarrow> fl_task g j = fl_task f j)"
  by (cases rule: flight_step.cases) (auto split: option.split)

definition flight_moves :: "'s resize_service \<Rightarrow> (nat \<Rightarrow> resize_query) \<Rightarrow> 's flight \<Rightarrow> 's flight \<Rightarrow> bool" where
  "flight_moves rs req f g \<longleftrightarrow> (\<exists>i. flight_step rs req i f g)"

definition flight_left :: "nat \<Rightarrow> 's flight \<Rightarrow> nat" where
  "flight_left n f = (\<Sum>i<n. rank (fl_task f i))"

lemma flight_left_step:
  assumes "flight_step rs req i f g" "i < n"
  shows "flight_left n g < flight_left n f"
  unfolding flight_left_def using step_rank [OF assms(1)] assms(2)
  by (intro sum_strict_mono_ex1) (auto simp: le_less)

interpretation flights: transitions "flight_moves rs req"
  "\<lambda>f. flight_inv rs req f \<and> (\<forall>i\<ge>n. rank (fl_task f i) = 0)" "flight_left n"
proof
  fix f g
  assume f: "flight_inv rs req f \<and> (\<forall>i\<ge>n. rank (fl_task f i) = 0)" and "flight_moves rs req f g"
  then obtain i where s: "flight_step rs req i f g"
    by (auto simp: flight_moves_def)
  note r = step_rank [OF s]
  have i: "i < n"
    using f r by (metis not_less0 not_le)
  show "flight_left n g < flight_left n f"
    by (rule flight_left_step [OF s i])
  show "flight_inv rs req g \<and> (\<forall>i\<ge>n. rank (fl_task g i) = 0)"
    using f r i flight_inv_step [OF _ s] by (metis leD)
qed

lemma flight_run_moves: "flight_run rs req f k g \<Longrightarrow> (flight_moves rs req ^^ k) f g"
  by (induction rule: flight_run.induct) (auto simp: flight_moves_def)

lemma run_rank:
  assumes "flight_run rs req (flight_init s n) k f"
  shows "k + flight_left n f \<le> 4 * n"
proof -
  have "flight_left n (flight_init s n) = (\<Sum>i<n. 4)"
    unfolding flight_left_def by (rule sum.cong) (simp_all add: flight_init_def)
  moreover have "\<forall>i\<ge>n. rank (fl_task (flight_init s n) i) = 0"
    by (simp add: flight_init_def)
  ultimately show ?thesis
    using flights.run_bound [OF flight_run_moves [OF assms], of n] flight_inv_init [of rs req s n] by simp
qed

lemma flight_step_do:
  "fl_task f i = Leading ch \<Longrightarrow> \<exists>g r. flight_step rs req i f g \<and> fl_task g i = Sending ch (broadcast_of r) (Some r)"
  "fl_task f i = Sending ch msg own \<Longrightarrow> \<exists>g. flight_step rs req i f g \<and> fl_sent g ch = Some msg
     \<and> fl_task g i = (case own of Some r \<Rightarrow> Answered r | None \<Rightarrow> Gone)"
  "fl_task f i = Following ch \<Longrightarrow> fl_sent f ch = Some msg
     \<Longrightarrow> \<exists>g. flight_step rs req i f g \<and> fl_task g i = Answered (follower_result msg)"
  "fl_task f i = Missed \<Longrightarrow> \<exists>g ch. flight_step rs req i f g \<and> (fl_task g i = Leading ch \<or> fl_task g i = Following ch)"
  "fl_task f i = Idle \<Longrightarrow> \<exists>g. flight_step rs req i f g \<and> (fl_task g i = Missed \<or> (\<exists>u. fl_task g i = Answered (Inr u)))"
proof -
  show "fl_task f i = Leading ch \<Longrightarrow> \<exists>g r. flight_step rs req i f g \<and> fl_task g i = Sending ch (broadcast_of r) (Some r)"
    using finish [of f i ch rs 0 req] by (metis fun_upd_same prod.collapse set_task_simps(1))
  show "fl_task f i = Sending ch msg own \<Longrightarrow> \<exists>g. flight_step rs req i f g \<and> fl_sent g ch = Some msg
     \<and> fl_task g i = (case own of Some r \<Rightarrow> Answered r | None \<Rightarrow> Gone)"
    by (rule exI, rule conjI, erule send) simp
  show "fl_task f i = Following ch \<Longrightarrow> fl_sent f ch = Some msg
     \<Longrightarrow> \<exists>g. flight_step rs req i f g \<and> fl_task g i = Answered (follower_result msg)"
    by (rule exI, rule conjI, erule (1) receive) simp
  show "fl_task f i = Missed \<Longrightarrow> \<exists>g ch. flight_step rs req i f g \<and> (fl_task g i = Leading ch \<or> fl_task g i = Following ch)"
  proof (cases "fl_map f (cache_key rs (req i))")
    case None
    assume "fl_task f i = Missed"
    then show ?thesis
      using lead [of f i rs req] None by (metis fun_upd_same set_task_simps(1))
  next
    case (Some ch)
    assume "fl_task f i = Missed"
    then show ?thesis
      using follow [of f i rs req ch] Some by (metis fun_upd_same set_task_simps(1))
  qed
  show "fl_task f i = Idle \<Longrightarrow> \<exists>g. flight_step rs req i f g \<and> (fl_task g i = Missed \<or> (\<exists>u. fl_task g i = Answered (Inr u)))"
  proof -
    assume t: "fl_task f i = Idle"
    obtain r s where c: "service_check_cache (rs_storage rs) 0 (cache_key rs (req i)) (fl_store f) = (r, s)"
      by fastforce
    show ?thesis
    proof (cases "r = Inr True")
      case True
      show ?thesis
        by (rule exI, rule conjI, rule hit [where f = f and rs = rs and req = req and now = 0 and s = s]) (use t c True in simp_all)
    next
      case False
      show ?thesis
        by (rule exI, rule conjI, rule miss [where f = f and rs = rs and req = req and now = 0 and s = s and r = r]) (use t c False in simp_all)
    qed
  qed
qed

text \<open>Running alone is a run of the registry: the step relation has it as one of its runs.\<close>

lemma resize_alone_is_run:
  assumes "resize_alone rs now (req 0) s = (r, s')"
  shows "\<exists>k f. flight_run rs req (flight_init s 1) k f \<and> fl_task f 0 = Answered r \<and> fl_store f = s'"
proof -
  let ?key = "cache_key rs (req 0)"
  let ?f0 = "flight_init s 1"
  have f0: "fl_task ?f0 0 = Idle" "fl_store ?f0 = s" "fl_map ?f0 = Map.empty"
    by (simp_all add: flight_init_def)
  obtain c s1 where c: "service_check_cache (rs_storage rs) now ?key s = (c, s1)"
    by fastforce
  show ?thesis
  proof (cases "c = Inr True")
    case True
    then have r: "r = Inr (get_cdn_url (rs_storage rs) ?key)" "s' = s1"
      using assms c by (simp_all add: resize_alone_def)
    have "flight_step rs req 0 ?f0 (set_task 0 (Answered r) (?f0\<lparr>fl_store := s'\<rparr>))"
      unfolding r(1) by (rule hit [where now = now]) (use f0 c True r(2) in simp_all)
    from run_snoc [OF run_nil this] show ?thesis
      by (intro exI [of _ "Suc 0"] exI [of _ "set_task 0 (Answered r) (?f0\<lparr>fl_store := s'\<rparr>)"]) simp
  next
    case False
    then have w: "do_resize_work rs now ?key (req 0) s1 = (r, s')"
      using assms c by (auto simp: resize_alone_def split: sum.splits bool.splits)
    define f1 where "f1 = set_task 0 Missed (?f0\<lparr>fl_store := s1\<rparr>)"
    define f2 where "f2 = set_task 0 (Leading (fl_next f1)) (f1\<lparr>fl_map := (fl_map f1)(?key \<mapsto> fl_next f1), fl_next := fl_next f1 + 1\<rparr>)"
    define f3 where "f3 = set_task 0 (Sending (fl_next f1) (broadcast_of r) (Some r)) (f2\<lparr>fl_store := s', fl_map := (fl_map f2)(?key := None)\<rparr>)"
    define f4 where "f4 = set_task 0 (Answered r) (f3\<lparr>fl_sent := (fl_sent f3)(fl_next f1 \<mapsto> broadcast_of r)\<rparr>)"
    have s1: "flight_step rs req 0 ?f0 f1"
      unfolding f1_def by (rule miss [where now = now and r = c]) (use f0 c False in simp_all)
    have s2: "flight_step rs req 0 f1 f2"
      unfolding f2_def by (rule lead) (use f0 in \<open>simp_all add: f1_def\<close>)
    have s3: "flight_step rs req 0 f2 f3"
      unfolding f3_def by (rule finish [where now = now]) (use w in \<open>simp_all add: f2_def f1_def\<close>)
    have s4: "flight_step rs req 0 f3 f4"
      using send [of f3 0 "fl_next f1" "broadcast_of r" "Some r" rs req] by (simp add: f4_def f3_def)
    have "flight_run rs req ?f0 (Suc (Suc (Suc (Suc 0)))) f4"
      by (rule run_snoc, rule run_snoc, rule run_snoc, rule run_snoc, rule run_nil, rule s1, rule s2, rule s3, rule s4)
    then show ?thesis
      by (intro exI [of _ "Suc (Suc (Suc (Suc 0)))"] exI [of _ f4]) (simp add: f4_def f3_def)
  qed
qed

section \<open>What one request leaves in the cache\<close>

context storage_backend
begin

lemma resize_alone_stores:
  fixes now :: nat
  assumes sv: "sv_backend (rs_storage rs) = b"
    and val: "\<And>k. valid_key (sv_key_prefix (rs_storage rs)) k \<Longrightarrow> valid k"
    and inv: "invar s" and k: "valid_key (sv_key_prefix (rs_storage rs)) (cache_key rs q)"
    and run: "resize_alone rs now q s = (Inr u, s')"
    and miss: "fst (service_check_cache (rs_storage rs) now (cache_key rs q) s) = Inr False"
    and ttl: "rs_cache_ttl rs = None"
  shows "invar s'
    \<and> (\<exists>source body ct. rs_download rs (rq_url q) = Inr source \<and> rs_process rs source q = Inr (body, ct)
        \<and> (\<forall>t < time_limit. fst (service_get_image (rs_storage rs) t (cache_key rs q) s') = Inr body
             \<and> fst (service_check_cache (rs_storage rs) t (cache_key rs q) s') = Inr True))"
proof -
  let ?key = "cache_key rs q" and ?sv = "rs_storage rs"
  obtain s1 where s1: "service_check_cache ?sv now ?key s = (Inr False, s1)"
    using miss by (cases "service_check_cache ?sv now ?key s") simp
  then have "s1 = snd (be_check b now ?key s)"
    by (simp add: service_check_cache_def sv guard_key_valid [OF k])
  then have i1: "invar s1"
    using invar_check [OF inv val [OF k]] by simp
  obtain source body ct where w: "rs_download rs (rq_url q) = Inr source" "rs_process rs source q = Inr (body, ct)"
      "s' = snd (service_upload_image_with_ttl ?sv now ?key ct body None s1)"
    using run s1 ttl by (auto simp: resize_alone_def do_resize_work_def split: sum.splits prod.splits)
  note life = service_lifecycle [OF sv val i1 k expirable_None, of now ct body]
  have "invar s'"
    using life by (simp add: w(3) Let_def)
  moreover have "fst (service_get_image ?sv t ?key s') = Inr body \<and> fst (service_check_cache ?sv t ?key s') = Inr True"
    if "t < time_limit" for t
    using life that by (simp add: w(3))
  ultimately show ?thesis
    using w by blast
qed

lemma resize_alone_succeeds:
  fixes now :: nat
  assumes sv: "sv_backend (rs_storage rs) = b"
    and val: "\<And>k. valid_key (sv_key_prefix (rs_storage rs)) k \<Longrightarrow> valid k"
    and inv: "invar s" and k: "valid_key (sv_key_prefix (rs_storage rs)) (cache_key rs q)" and ttl: "rs_cache_ttl rs = None"
    and work: "rs_download rs (rq_url q) = Inr source" "rs_process rs source q = Inr (body, ct)"
  shows "fst (resize_alone rs now q s) = Inr (get_cdn_url (rs_storage rs) (cache_key rs q))"
proof -
  let ?key = "cache_key rs q" and ?sv = "rs_storage rs"
  obtain r s1 where s1: "service_check_cache ?sv now ?key s = (r, s1)"
    by fastforce
  then have "invar s1"
    using invar_check [OF inv val [OF k], of now] by (simp add: service_check_cache_def sv guard_key_valid [OF k])
  from upload_ok [OF this val [OF k] expirable_None, of now ct body]
  have "fst (service_upload_image_with_ttl ?sv now ?key ct body None s1) = Inr ()"
    by (simp add: service_upload_image_with_ttl_def sv guard_key_valid [OF k])
  then show ?thesis
    by (auto simp: resize_alone_def s1 do_resize_work_def work ttl split: sum.splits prod.splits bool.splits)
qed

lemma resize_alone_failure:
  fixes now :: nat
  assumes sv: "sv_backend (rs_storage rs) = b"
    and val: "\<And>k. valid_key (sv_key_prefix (rs_storage rs)) k \<Longrightarrow> valid k"
    and inv: "invar s" and ex: "expirable now (rs_cache_ttl rs)" and k: "valid_key (sv_key_prefix (rs_storage rs)) (cache_key rs q)"
    and run: "resize_alone rs now q s = (Inl e, s')"
  shows "invar s' \<and> (\<forall>t k'. now \<le> t \<longrightarrow> valid k' \<longrightarrow> view t s' k' = view t s k')"
proof -
  let ?key = "cache_key rs q" and ?sv = "rs_storage rs"
  have c: "service_check_cache ?sv now ?key s = be_check b now ?key s"
    by (simp add: service_check_cache_def sv guard_key_valid [OF k])
  have up: "fst (service_upload_image_with_ttl ?sv now ?key ct d ttl s1) = Inr ()" if "invar s1" "ttl = rs_cache_ttl rs" for ct d ttl s1
    using upload_ok [OF that(1) val [OF k] ex] that(2) by (simp add: service_upload_image_with_ttl_def sv guard_key_valid [OF k])
  obtain r s1 where s1: "be_check b now ?key s = (r, s1)" "invar s1"
    using invar_check [OF inv val [OF k], of now] by (cases "be_check b now ?key s") simp
  have "s' = s1"
    using run c s1 up [OF s1(2) refl]
    by (auto simp: resize_alone_def do_resize_work_def split: sum.splits prod.splits bool.splits)
       (metis Inl_Inr_False fst_conv)+
  then show ?thesis
    using s1 check_view [OF inv val [OF k], of _ now] by auto
qed

end

section \<open>Two requests for one key\<close>

definition demo_service :: "memory resize_service" where
  "demo_service = \<lparr> rs_storage = memory_service '''', rs_sha = (\<lambda>_. replicate 32 CHR ''a''), rs_minio_sub_path = '''',
     rs_cache_ttl = None, rs_download = (\<lambda>_. Inr ''source''), rs_process = (\<lambda>b q. Inr (''thumbnail'', ''image/jpeg'')) \<rparr>"

definition demo_req :: "nat \<Rightarrow> resize_query" where
  "demo_req i = resize_query_default\<lparr>rq_format := Jpg\<rparr>"

lemma demo_check:
  "\<exists>r. service_check_cache (rs_storage demo_service) now key Map.empty = (r, Map.empty) \<and> r \<noteq> Inr True"
  by (auto simp: service_check_cache_def guard_key_def demo_service_def memory_service_def memory_backend_def
      mem_check_def split: sum.split)

lemma demo_run:
  obtains f where "flight_run demo_service demo_req (flight_init Map.empty 2) 4 f"
    "fl_task f 0 = Leading 0" "fl_task f 1 = Following 0"
proof -
  let ?k = "cache_key demo_service (demo_req 0)"
  define f0 :: "memory flight" where "f0 = flight_init Map.empty 2"
  define f1 where "f1 = set_task 0 Missed (f0\<lparr>fl_store := Map.empty\<rparr>)"
  define f2 where "f2 = set_task 1 Missed (f1\<lparr>fl_store := Map.empty\<rparr>)"
  define f3 where "f3 = set_task 0 (Leading (fl_next f2)) (f2\<lparr>fl_map := (fl_map f2)(?k \<mapsto> fl_next f2), fl_next := fl_next f2 + 1\<rparr>)"
  define f4 where "f4 = set_task 1 (Following 0) f3"
  obtain r where c: "service_check_cache (rs_storage demo_service) 0 ?k Map.empty = (r, Map.empty)" "r \<noteq> Inr True"
    using demo_check by blast
  have st: "fl_store f0 = Map.empty" "fl_task f0 0 = Idle" "fl_task f0 1 = Idle" "fl_map f0 = Map.empty" "fl_next f0 = 0"
    by (simp_all add: f0_def flight_init_def)
  have s1: "flight_step demo_service demo_req 0 f0 f1"
    unfolding f1_def by (rule miss [where now = 0 and r = r]) (use st c in \<open>simp_all add: demo_req_def\<close>)
  have s2: "flight_step demo_service demo_req 1 f1 f2"
    unfolding f2_def by (rule miss [where now = 0 and r = r]) (use st c in \<open>simp_all add: f1_def demo_req_def\<close>)
  have s3: "flight_step demo_service demo_req 0 f2 f3"
    unfolding f3_def by (rule lead) (use st in \<open>simp_all add: f1_def f2_def demo_req_def\<close>)
  have s4: "flight_step demo_service demo_req 1 f3 f4"
    unfolding f4_def by (rule follow) (use st in \<open>simp_all add: f1_def f2_def f3_def demo_req_def\<close>)
  have "flight_run demo_service demo_req f0 (Suc (Suc (Suc (Suc 0)))) f4"
    by (rule run_snoc, rule run_snoc, rule run_snoc, rule run_snoc, rule run_nil, rule s1, rule s2, rule s3, rule s4)
  then have "flight_run demo_service demo_req f0 4 f4"
    by (simp add: numeral_eq_Suc)
  then show thesis
    using that [of f4] st by (simp add: f0_def f4_def f3_def f2_def f1_def)
qed

section \<open>Properties\<close>

text \<open>
  C5. Single flight: in every state the requests can reach, in any interleaving
  and with any of them dropped, at most one of them works on a given cache key,
  and a key is registered exactly while one does.
\<close>
theorem flight_single_leader:
  assumes "flight_run rs req (flight_init s n) k f"
  shows "(fl_task f i = Leading a \<and> fl_task f j = Leading b
      \<and> cache_key rs (req i) = cache_key rs (req j) \<longrightarrow> i = j \<and> a = b)
    \<and> (fl_map f key \<noteq> None \<longleftrightarrow> (\<exists>j ch. fl_task f j = Leading ch \<and> cache_key rs (req j) = key))"
proof -
  note I = flight_invD [OF flight_inv_run [OF assms]]
  have "i = j \<and> a = b" if t: "fl_task f i = Leading a" "fl_task f j = Leading b" "cache_key rs (req i) = cache_key rs (req j)"
  proof -
    have "a = b"
      using I(1) [OF t(1)] I(1) [OF t(2)] t(3) by simp
    then show ?thesis
      using I(3) [of i a j] t by simp
  qed
  moreover have "fl_map f key \<noteq> None \<longleftrightarrow> (\<exists>j ch. fl_task f j = Leading ch \<and> cache_key rs (req j) = key)"
    using I(1,2) by fastforce
  ultimately show ?thesis
    by blast
qed

theorem flight_single_leader_witness:
  "\<exists>f :: memory flight. fl_task f 0 = Leading 0 \<and> fl_task f 1 = Following 0
     \<and> fl_map f (cache_key demo_service (demo_req 0)) \<noteq> None"
proof (rule demo_run)
  fix f
  assume f: "flight_run demo_service demo_req (flight_init Map.empty 2) 4 f"
    "fl_task f 0 = Leading 0" "fl_task f 1 = Following 0"
  show ?thesis
    by (rule exI [of _ f])
       (use flight_single_leader [OF f(1), of 0 0 0 0 "cache_key demo_service (demo_req 0)"] f in metis)
qed

text \<open>
  C25. A request is only ever answered with the URL of its own cache key, whether
  it hit the cache, led the work or followed another request's leader.
\<close>
theorem flight_answers_own_key:
  assumes "flight_run rs req (flight_init s n) k f" "fl_task f i = Answered (Inr u)"
  shows "u = get_cdn_url (rs_storage rs) (cache_key rs (req i))"
  using flight_invD(9) [OF flight_inv_run [OF assms(1)] assms(2)] by simp

theorem flight_answers_own_key_witness:
  "\<exists>(f :: memory flight) r. fl_task f 1 = Answered (Inr r)
     \<and> r = ''https://cdn.example.com/'' @ cache_key demo_service (demo_req 1)"
proof (rule demo_run)
  fix f
  assume f: "flight_run demo_service demo_req (flight_init Map.empty 2) 4 f"
    "fl_task f 0 = Leading 0" "fl_task f 1 = Following 0"
  define k where "k = cache_key demo_service (demo_req 0)"
  obtain r s where w: "do_resize_work demo_service 0 k (demo_req 0) (fl_store f) = (r, s)"
    by fastforce
  have key: "valid_key '''' k"
    unfolding valid_key_iff k_def
    by (rule exI [of _ "concat (replicate 32 ''61'')"], rule exI [of _ "''jpg''"])
       (simp add: cache_key_def demo_service_def generate_key_def hex_lower_def image_format_display_def, code_simp)
  have r: "r = Inr (get_cdn_url (rs_storage demo_service) k)"
    using w key by (auto simp: do_resize_work_def demo_service_def service_defs guard_key_valid memory_service_def
        memory_backend_def mem_upload_def)
  define g where "g = set_task 0 (Sending 0 (broadcast_of r) (Some r)) (f\<lparr>fl_store := s, fl_map := (fl_map f)(k := None)\<rparr>)"
  define h where "h = set_task 0 (Answered r) (g\<lparr>fl_sent := (fl_sent g)(0 \<mapsto> broadcast_of r)\<rparr>)"
  define e where "e = set_task 1 (Answered (follower_result (broadcast_of r))) h"
  have s1: "flight_step demo_service demo_req 0 f g"
    unfolding g_def k_def by (rule finish [where now = 0]) (use f w k_def in simp_all)
  have s2: "flight_step demo_service demo_req 0 g h"
    using send [of g 0 0 "broadcast_of r" "Some r" demo_service demo_req] by (simp add: h_def g_def)
  have s3: "flight_step demo_service demo_req 1 h e"
    unfolding e_def by (rule receive [of _ _ 0]) (use f in \<open>simp_all add: h_def g_def\<close>)
  have run: "flight_run demo_service demo_req (flight_init Map.empty 2) (Suc (Suc (Suc 4))) e"
    by (rule run_snoc, rule run_snoc, rule run_snoc, rule f(1), rule s1, rule s2, rule s3)
  have e1: "fl_task e 1 = Answered (Inr (get_cdn_url (rs_storage demo_service) k))"
    by (simp add: e_def r broadcast_of_def follower_result_def)
  have u: "get_cdn_url (rs_storage demo_service) x = ''https://cdn.example.com/'' @ x" for x
    by (simp add: get_cdn_url_def demo_service_def memory_service_def)
  show ?thesis
    using flight_answers_own_key [OF run e1] e1 unfolding u by metis
qed

text \<open>A step of a task's own accord: neither dropped nor panicking, a dropped leader's guard apart.\<close>

definition works :: "'s resize_service \<Rightarrow> (nat \<Rightarrow> resize_query) \<Rightarrow> 's flight \<Rightarrow> 's flight \<Rightarrow> bool" where
  "works rs req f g \<longleftrightarrow> (\<exists>i. flight_step rs req i f g \<and> (\<forall>ch m. fl_task g i \<noteq> Sending ch m None)
     \<and> (fl_task g i = Gone \<longrightarrow> (\<exists>ch m. fl_task f i = Sending ch m None)))"

lemma ready_step:
  assumes "\<not> finished (fl_task f j)" "\<forall>ch. fl_task f j = Following ch \<longrightarrow> fl_sent f ch \<noteq> None"
  shows "\<exists>g. flight_step rs req j f g \<and> (\<forall>ch m. fl_task g j \<noteq> Sending ch m None)
      \<and> (fl_task g j = Gone \<longrightarrow> (\<exists>ch m. fl_task f j = Sending ch m None))"
  using assms flight_step_do [where f = f and i = j and rs = rs and req = req]
  by (cases "fl_task f j") (fastforce simp: finished_def split: option.splits)+

lemma follower_has_owner:
  "flight_inv rs req f \<Longrightarrow> fl_task f i = Following ch \<Longrightarrow> fl_sent f ch = None \<Longrightarrow> \<exists>j. owns (fl_task f j) ch \<and> j \<noteq> i"
  using flight_invD(7) [of rs req f i ch] by fastforce

lemma someone_ready:
  assumes "flight_inv rs req f" "\<not> finished (fl_task f i)"
  shows "\<exists>j. \<not> finished (fl_task f j) \<and> (\<forall>ch. fl_task f j = Following ch \<longrightarrow> fl_sent f ch \<noteq> None)"
proof (cases "\<exists>ch. fl_task f i = Following ch \<and> fl_sent f ch = None")
  case True
  then obtain j ch where "owns (fl_task f j) ch"
    using follower_has_owner [OF assms(1)] by blast
  then show ?thesis
    by (intro exI [of _ j]) (auto simp: owns_def finished_def split: task.splits)
next
  case False
  then show ?thesis
    using assms(2) by metis
qed

text \<open>
  C6. No request is stuck: in every reachable state with a request that is
  neither answered nor gone, some request can take a step of its own accord, not
  by being dropped; and in particular a follower can always be answered within
  its own and its leader's next three steps, even when the leader is dropped.
\<close>
theorem flight_no_deadlock:
  assumes "flight_run rs req (flight_init s n) k f" "\<not> finished (fl_task f i)"
  shows "(\<exists>j g. flight_step rs req j f g \<and> (\<forall>ch m. fl_task g j \<noteq> Sending ch m None)
      \<and> (fl_task g j = Gone \<longrightarrow> (\<exists>ch m. fl_task f j = Sending ch m None)))
    \<and> (\<forall>ch. fl_task f i = Following ch \<longrightarrow>
        (\<exists>l g r. l \<le> 3 \<and> flight_run rs req f l g \<and> fl_task g i = Answered r
           \<and> (\<exists>j. \<forall>m. m \<notin> {i, j} \<longrightarrow> fl_task g m = fl_task f m)))"
proof -
  note I = flight_invD [OF flight_inv_run [OF assms(1)]]
  note A = ready_step [where rs = rs and req = req and f = f] and B = follower_has_owner [OF flight_inv_run [OF assms(1)]]
  note one = someone_ready [OF flight_inv_run [OF assms(1)] assms(2)]
  have send_receive: "\<exists>l g r. l \<le> 2 \<and> flight_run rs req h l g \<and> fl_task g i = Answered r
      \<and> (\<forall>m. m \<notin> {i, j} \<longrightarrow> fl_task g m = fl_task h m)"
    if h: "fl_task h i = Following ch" "fl_task h j = Sending ch m own" "j \<noteq> i" for h j ch m own
  proof -
    obtain g1 where g1: "flight_step rs req j h g1" "fl_sent g1 ch = Some m"
      using flight_step_do(2) [OF h(2)] by blast
    note o1 = step_rank [OF g1(1)]
    then obtain g2 where g2: "flight_step rs req i g1 g2" "fl_task g2 i = Answered (follower_result m)"
      using flight_step_do(3) [of g1 i ch m rs req] h g1(2) by auto
    note o2 = step_rank [OF g2(1)]
    have "flight_run rs req h (Suc (Suc 0)) g2"
      using g1(1) g2(1) by (blast intro: flight_run.intros)
    moreover have "\<forall>q. q \<notin> {i, j} \<longrightarrow> fl_task g2 q = fl_task h q"
      using o1 o2 by simp
    ultimately show ?thesis
      using g2(2) by (intro exI [of _ "Suc (Suc 0)"] exI [of _ g2]) simp
  qed
  have two: "\<exists>l g r. l \<le> 3 \<and> flight_run rs req f l g \<and> fl_task g i = Answered r
      \<and> (\<exists>j. \<forall>m. m \<notin> {i, j} \<longrightarrow> fl_task g m = fl_task f m)"
    if fo: "fl_task f i = Following ch" for ch
  proof (cases "fl_sent f ch")
    case (Some m)
    then obtain g where g: "flight_step rs req i f g" "fl_task g i = Answered (follower_result m)"
      using flight_step_do(3) [OF fo] by blast
    have "\<forall>m. m \<notin> {i, i} \<longrightarrow> fl_task g m = fl_task f m"
      using step_rank [OF g(1)] by simp
    moreover have "flight_run rs req f (Suc 0) g"
      using g(1) by (blast intro: flight_run.intros)
    ultimately show ?thesis
      using g(2) by (metis le_add1 numeral_3_eq_3 plus_1_eq_Suc One_nat_def)
  next
    case None
    then obtain j where j: "owns (fl_task f j) ch" "j \<noteq> i"
      using B [OF fo] by blast
    show ?thesis
    proof (cases "fl_task f j")
      case (Leading c)
      then have "c = ch"
        using j by simp
      obtain h where h: "flight_step rs req j f h"
          "fl_task h j = Sending ch (Inl (cancelled_message (cache_key rs (req j)))) None"
        using drop_leader [of f j c rs req] Leading \<open>c = ch\<close> by fastforce
      note o = step_rank [OF h(1)]
      obtain l g r where g: "l \<le> 2" "flight_run rs req h l g" "fl_task g i = Answered r"
          "\<forall>m. m \<notin> {i, j} \<longrightarrow> fl_task g m = fl_task h m"
        using send_receive [OF _ h(2) j(2)] o fo j(2) by auto
      have "flight_run rs req f (Suc l) g"
        using g(2)
      proof (induction rule: flight_run.induct)
        case run_nil
        then show ?case
          using h(1) by (blast intro: flight_run.intros)
      qed (blast intro: flight_run.intros)
      then show ?thesis
        using g o by (intro exI [of _ "Suc l"] exI [of _ g] exI [of _ r]) auto
    next
      case (Sending c m own)
      then have "fl_task f j = Sending ch m own"
        using j(1) by simp
      then obtain l g r where "l \<le> 2" "flight_run rs req f l g" "fl_task g i = Answered r"
          "\<forall>m. m \<notin> {i, j} \<longrightarrow> fl_task g m = fl_task f m"
        using send_receive [OF fo _ j(2)] by blast
      then show ?thesis
        by (intro exI [of _ l] exI [of _ g] exI [of _ r]) auto
    qed (use j in simp_all)
  qed
  show ?thesis
    using A one two by blast
qed

theorem flight_no_deadlock_witness:
  "\<exists>f l g r. fl_task f 1 = Following 0 \<and> flight_run demo_service demo_req f l g \<and> l \<le> 3 \<and> fl_task g 1 = Answered r"
proof (rule demo_run)
  fix f
  assume f: "flight_run demo_service demo_req (flight_init Map.empty 2) 4 f"
    "fl_task f 0 = Leading 0" "fl_task f 1 = Following 0"
  have "\<not> finished (fl_task f 1)"
    unfolding f(3) by (simp add: finished_def)
  then show ?thesis
    using flight_no_deadlock [OF f(1), of 1] f(3) by blast
qed

section \<open>Every run ends with every answer\<close>

lemma dead_end_answers:
  assumes "flight_inv rs req g" "\<forall>h. \<not> works rs req g h"
  shows "finished (fl_task g i)" and "fl_map g = Map.empty"
proof -
  have fin: "finished (fl_task g i)" for i
    using someone_ready [OF assms(1), of i] ready_step [where f = g and rs = rs and req = req] assms(2)
    unfolding works_def by blast
  then show "finished (fl_task g i)" .
  show "fl_map g = Map.empty"
  proof (rule ext, rule ccontr)
    fix k
    assume "fl_map g k \<noteq> None"
    then obtain j ch where "fl_task g j = Leading ch"
      using flight_invD(2) [OF assms(1), of k] by blast
    then show False
      using fin [of j] by (simp add: finished_def)
  qed
qed

lemma works_moves: "works rs req f g \<Longrightarrow> flight_moves rs req f g"
  by (auto simp: works_def flight_moves_def)

text \<open>Working neither drops a request nor brings one back.\<close>

definition was_dropped :: "task \<Rightarrow> bool" where
  "was_dropped t \<longleftrightarrow> t = Gone \<or> (\<exists>ch m. t = Sending ch m None)"

lemma works_dropped:
  assumes "works rs req f g"
  shows "was_dropped (fl_task g i) \<longleftrightarrow> was_dropped (fl_task f i)"
proof -
  obtain j where j: "flight_step rs req j f g" "\<forall>ch m. fl_task g j \<noteq> Sending ch m None"
      "fl_task g j = Gone \<longrightarrow> (\<exists>ch m. fl_task f j = Sending ch m None)"
    using assms unfolding works_def by blast
  have "fl_task g j = Gone" if "fl_task f j = Sending ch m None" for ch m
    using j(1) that by (cases rule: flight_step.cases) auto
  moreover have "fl_task f j \<noteq> Gone"
    using step_rank [OF j(1)] by auto
  ultimately show ?thesis
    using j(2,3) step_rank [OF j(1)] by (cases "i = j") (auto simp: was_dropped_def)
qed

lemma works_run_dropped: "(works rs req ^^ l) f g \<Longrightarrow> was_dropped (fl_task g i) \<longleftrightarrow> was_dropped (fl_task f i)"
  by (induction l arbitrary: g) (auto dest: works_dropped)

interpretation working: transitions "works rs req"
  "\<lambda>f. flight_inv rs req f \<and> (\<forall>i\<ge>n. rank (fl_task f i) = 0)" "flight_left n"
  by unfold_locales (use flights.inv_step flights.left_step works_moves in blast)+

text \<open>
  C26. Every run ends with every answer.  From any state that \<^verbatim>\<open>n\<close> concurrent requests
  have reached, whatever was dropped on the way, let the tasks go on undisturbed, in any
  interleaving.  They take at most \<^verbatim>\<open>4 * n\<close> steps in all; they can go on to a point where
  no task can move; and wherever they stop, the registry is empty and each request that had
  not been dropped has an answer, with a success only under its own key: no follower is
  left waiting, not even for a leader that was dropped.
\<close>
theorem flight_terminates:
  assumes "flight_run rs req (flight_init s n) k f"
  shows "(\<exists>l g. (works rs req ^^ l) f g \<and> (\<forall>h. \<not> works rs req g h))
    \<and> (\<forall>l g. (works rs req ^^ l) f g \<longrightarrow> k + l \<le> 4 * n
         \<and> ((\<forall>h. \<not> works rs req g h) \<longrightarrow> fl_map g = Map.empty
              \<and> (\<forall>i. if was_dropped (fl_task f i) then fl_task g i = Gone
                     else \<exists>r. fl_task g i = Answered r \<and> right_url rs (req i) r)))"
proof -
  have start: "flight_inv rs req (flight_init s n) \<and> (\<forall>i\<ge>n. rank (fl_task (flight_init s n) i) = 0)"
    using flight_inv_init [of rs req s n] by (simp add: flight_init_def)
  have inv: "flight_inv rs req f \<and> (\<forall>i\<ge>n. rank (fl_task f i) = 0)" "k + flight_left n f \<le> 4 * n"
    using flights.run_bound [OF flight_run_moves [OF assms] start] run_rank [OF assms] by blast+
  obtain g l where "(works rs req ^^ l) f g" "\<forall>h. \<not> works rs req g h"
    using working.runs_to_end [OF inv(1)] by (metis rtranclp_imp_relpowp)
  then have ends: "\<exists>l g. (works rs req ^^ l) f g \<and> (\<forall>h. \<not> works rs req g h)"
    by blast
  have rest: "k + l \<le> 4 * n
      \<and> ((\<forall>h. \<not> works rs req g h) \<longrightarrow> fl_map g = Map.empty
         \<and> (\<forall>i. if was_dropped (fl_task f i) then fl_task g i = Gone
                else \<exists>r. fl_task g i = Answered r \<and> right_url rs (req i) r))"
    if r: "(works rs req ^^ l) f g" for l g
  proof -
    have g: "flight_inv rs req g" "k + l \<le> 4 * n"
      using working.run_bound [OF r inv(1)] inv(2) by simp_all
    have "if was_dropped (fl_task f i) then fl_task g i = Gone else \<exists>r. fl_task g i = Answered r \<and> right_url rs (req i) r"
      if "\<forall>h. \<not> works rs req g h" for i
      using dead_end_answers(1) [OF g(1) that, of i] works_run_dropped [OF r, of i] flight_invD(9) [OF g(1), of i]
      by (cases "fl_task g i") (auto simp: finished_def was_dropped_def)
    then show ?thesis
      using g(2) dead_end_answers(2) [OF g(1)] by blast
  qed
  show ?thesis
    using ends rest by blast
qed

theorem flight_terminates_witness:
  "\<exists>f g l r. flight_run demo_service demo_req (flight_init Map.empty 2) 4 f \<and> fl_task f 1 = Following 0
     \<and> (works demo_service demo_req ^^ l) f g \<and> fl_task g 1 = Answered r \<and> fl_map g = Map.empty"
proof (rule demo_run)
  fix f
  assume f: "flight_run demo_service demo_req (flight_init Map.empty 2) 4 f" "fl_task f 1 = Following 0"
  obtain l g where g: "(works demo_service demo_req ^^ l) f g" "\<forall>h. \<not> works demo_service demo_req g h"
    using flight_terminates [OF f(1)] by blast
  have "\<not> was_dropped (fl_task f 1)"
    using f(2) by (simp add: was_dropped_def)
  then obtain r where "fl_task g 1 = Answered r" "fl_map g = Map.empty"
    using flight_terminates [OF f(1)] g by metis
  then show ?thesis
    using f g(1) by blast
qed

end
