(* ===== verification/Image_Service.thy ===== *)
theory Image_Service
  imports Fetch Resize
begin

text \<open>
  The image service as the resize service uses it (\<^verbatim>\<open>process_image\<close> and
  \<^verbatim>\<open>download_watermark_if_needed\<close> of \<^verbatim>\<open>src/src/services/image/handler.rs\<close>): the watermark
  is fetched through the same guard as the source, load is shed when no processing
  permit is free, and the pixel work runs on a blocking thread.

  The pixel work itself (decoding, resizing and encoding) is an argument here,
  which \<^verbatim>\<open>Pipeline\<close> supplies; it returns nothing when its thread panics.
\<close>

record image_service =
  im_config :: performance_config
  im_world :: world
  im_permits :: nat
  im_blocking :: "string \<Rightarrow> resize_query \<Rightarrow> performance_config \<Rightarrow> string option \<Rightarrow> (string \<times> string) io option"

definition download_watermark_if_needed :: "image_service \<Rightarrow> resize_query \<Rightarrow> string option io \<times> connection list" where
  "download_watermark_if_needed im params =
     (case rq_watermark params of
        None \<Rightarrow> (Inr None, [])
      | Some watermark \<Rightarrow>
          (case (case wq_url watermark of Some u \<Rightarrow> Some u | None \<Rightarrow> pc_watermark_url (im_config im)) of
             None \<Rightarrow> (Inl (plain_error (''watermark requested (wm:) but no watermark image is available - set ''
                        @ ''WATERMARK_URL or pass wmu:{base64url} in the request'')), [])
           | Some u \<Rightarrow>
               (case download_image (im_config im) (im_world im) u of
                  (Inl e, conns) \<Rightarrow> (Inl (with_context ''Failed to download watermark image'' e), conns)
                | (Inr bytes, conns) \<Rightarrow> (Inr (Some bytes), conns))))"

definition process_image :: "image_service \<Rightarrow> string \<Rightarrow> resize_query \<Rightarrow> (string \<times> string) io \<times> connection list" where
  "process_image im image_bytes params =
     (case download_watermark_if_needed im params of
        (Inl e, conns) \<Rightarrow> (Inl e, conns)
      | (Inr watermark_bytes, conns) \<Rightarrow>
          if im_permits im = 0
          then (Inl (plain_error (''No processing permit available: ''
                  @ show_nat (pc_max_concurrent_processing (im_config im))
                  @ '' concurrent image processing jobs already running'')), conns)
          else
            ((case im_blocking im image_bytes params (im_config im) watermark_bytes of
                Some r \<Rightarrow> r
              | None \<Rightarrow> Inl (plain_error ''Image processing task was cancelled'')), conns))"

text \<open>\<^verbatim>\<open>ResizeService::with_config\<close>: the resize service over an image service, without expiry.\<close>

definition resize_service_with :: "'s storage_service \<Rightarrow> (string \<Rightarrow> string) \<Rightarrow> string \<Rightarrow> image_service \<Rightarrow> 's resize_service" where
  "resize_service_with storage sha sub_path im =
     \<lparr> rs_storage = storage, rs_sha = sha, rs_minio_sub_path = sub_path, rs_cache_ttl = None,
       rs_download = (\<lambda>u. fst (download_image (im_config im) (im_world im) u)),
       rs_process = (\<lambda>b q. fst (process_image im b q)) \<rparr>"

section \<open>Watermarks go through the guard\<close>

text \<open>A watermark fetch makes no connection that the source fetch would not be allowed to make.\<close>

lemma process_image_conns:
  "snd (process_image im b q) = snd (download_watermark_if_needed im q)"
  by (auto simp: process_image_def split: prod.splits sum.splits)

lemma watermark_conns:
  assumes "k < length (snd (process_image im b q))"
  shows "checked (im_config im) (im_world im) k (snd (process_image im b q) ! k)
    \<and> length (snd (process_image im b q)) \<le> pc_max_redirects (im_config im) + 1"
proof -
  obtain u where u: "snd (process_image im b q) = snd (download_image (im_config im) (im_world im) u)"
    using assms unfolding process_image_conns
    by (auto simp: download_watermark_if_needed_def split: option.splits prod.splits sum.splits)
       (metis snd_conv)+
  obtain r where r: "fetch_validated (im_config im) (im_world im) u = (r, snd (process_image im b q))"
    unfolding u download_image_conns by (metis prod.collapse)
  show ?thesis
    using fetch_validated_conns(1) [OF r] fetch_validated_conns(2) [OF r assms] by simp
qed

section \<open>What followers lose\<close>

text \<open>
  A rejection reaches its leader as a 400, typed; a follower of the same flight gets
  its text in a plain error, which the classification takes for a bad gateway.
\<close>

lemma follower_loses_rejection:
  fixes e :: any_error
  defines "e \<equiv> rejected (BlockedIpLiteral ''169.254.169.254'' (V4 (v4 169 254 169 254)))"
  shows "status_code (classify_resize_error e) = 400"
    and "\<exists>e'. follower_result (broadcast_of (Inl e)) = Inl e' \<and> err_msg e' = err_msg e
          \<and> status_code (classify_resize_error e') = 502"
  unfolding e_def by code_simp (intro exI conjI, code_simp+)

text \<open>
  An oversized watermark is the caller's fault as much as an oversized source; the
  context around its error hides the words the classification looks for.
\<close>

lemma oversized_watermark_502:
  "status_code (classify_resize_error (plain_error ''Image too large: 9 bytes (max: 8 bytes)'')) = 400"
  "status_code (classify_resize_error (with_context ''Failed to download watermark image''
     (plain_error ''Image too large: 9 bytes (max: 8 bytes)''))) = 502"
  by code_simp+

end
