(* ===== verification/Pipeline.thy ===== *)
theory Pipeline
  imports Codecs Image_Service
begin

text \<open>
  The pixel pipeline of \<^verbatim>\<open>src/src/services/image/handler.rs\<close>: from the bytes of a source to
  the bytes of the answer.  \<^verbatim>\<open>process_image_blocking_with_limits_and_watermark\<close> checks the
  request, recognises the source, takes the animated path or decodes, orients, trims and crops, and
  \<^verbatim>\<open>encode_single_image\<close> resizes, extends, pads, marks, flattens and encodes.  The image
  crates and the codecs are the arguments \<^verbatim>\<open>il\<close>, \<^verbatim>\<open>de\<close> and \<^verbatim>\<open>en\<close>.

  Shown: whatever the source and the request, a single picture that is encoded is within
  the configured limits, its source passed the resolution check, EXIF reaches the encoder
  only when it is wanted and never says "turn" about pixels that were turned, and a JPEG
  encoder never sees an alpha channel.  The animated path has no such limit.
\<close>

section \<open>Defaults\<close>

definition default_background :: rgb where
  "default_background = (255, 255, 255)"

definition default_webp_quality :: rfloat where
  "default_webp_quality = Fin False 82"

definition default_jpeg_quality :: nat where
  "default_jpeg_quality = 75"

definition default_avif_quality :: nat where
  "default_avif_quality = 80"

definition default_avif_speed :: nat where
  "default_avif_speed = 6"

definition option_or :: "'a option \<Rightarrow> 'a option \<Rightarrow> 'a option" where
  "option_or a b = (case a of Some x \<Rightarrow> Some x | None \<Rightarrow> b)"

section \<open>Encoding a single picture\<close>

definition forwarded_exif :: "resize_query \<Rightarrow> string option \<Rightarrow> bool \<Rightarrow> string option" where
  "forwarded_exif params exif_metadata exif_orientation_applied =
     (if rq_strip_metadata params then None
      else Option.bind exif_metadata (\<lambda>raw.
        if exif_orientation_applied then neutralize_exif_orientation raw else Some raw))"

definition output_format :: "image_format \<Rightarrow> (any_error, source_format \<times> string) result" where
  "output_format format =
     (case format of
        Jpg \<Rightarrow> Inr (FmtJpeg, ''image/jpeg'')
      | Png \<Rightarrow> Inr (FmtPng, ''image/png'')
      | Webp \<Rightarrow> Inr (FmtWebP, ''image/webp'')
      | Avif \<Rightarrow> Inr (FmtAvif, ''image/avif'')
      | Gif \<Rightarrow> Inr (FmtGif, ''image/gif'')
      | AutoFormat \<Rightarrow> Inl (plain_error ''internal error: unresolved Auto format reached the image encoder''))"

definition format_debug :: "source_format \<Rightarrow> string" where
  "format_debug format =
     (case format of FmtJpeg \<Rightarrow> ''Jpeg'' | FmtPng \<Rightarrow> ''Png'' | FmtWebP \<Rightarrow> ''WebP'' | FmtAvif \<Rightarrow> ''Avif'' | FmtGif \<Rightarrow> ''Gif'')"

definition handle_alpha :: "'img image_lib \<Rightarrow> 'img \<Rightarrow> source_format \<Rightarrow> rgb option \<Rightarrow> 'img" where
  "handle_alpha il img format background =
     (if il_has_alpha il img
      then (let background = unwrap_or background default_background in
            if format = FmtJpeg then il_of_rgb8 il (flatten_onto_background (il_to_rgba8 il img) background)
            else il_of_rgba8 il (normalize_transparent_pixels (il_to_rgba8 il img) background))
      else img)"

definition encode_output ::
  "'img image_lib \<Rightarrow> 'img encoders \<Rightarrow> 'img \<Rightarrow> source_format \<Rightarrow> string option \<Rightarrow> string option \<Rightarrow> resize_query
     \<Rightarrow> performance_config \<Rightarrow> (any_error, string) result" where
  "encode_output il en img format icc_profile exif_metadata params config =
     map_err (with_context (''Failed to encode image to '' @ format_debug format))
       (case format of
          FmtWebP \<Rightarrow>
            (let lossless = unwrap_or (rq_webp_lossless params) False;
                 quality = unwrap_or (map_option f32_of_nat (option_or (rq_webp_quality params) (rq_quality params))) default_webp_quality
             in encode_webp il en img quality lossless icc_profile exif_metadata)
        | FmtPng \<Rightarrow> encode_png en img icc_profile exif_metadata
        | FmtJpeg \<Rightarrow>
            (let quality = unwrap_or (option_or (rq_jpeg_quality params) (rq_quality params)) default_jpeg_quality;
                 progressive = unwrap_or (rq_jpeg_progressive params) (pc_jpeg_progressive_default config);
                 no_subsampling = unwrap_or (rq_jpeg_no_subsampling params) (pc_jpeg_no_subsampling_default config)
             in case rq_max_bytes params of
                  Some max_bytes \<Rightarrow>
                    fst (encode_with_max_bytes max_bytes quality
                      (\<lambda>q. encode_jpeg il en img q progressive no_subsampling icc_profile exif_metadata))
                | None \<Rightarrow> encode_jpeg il en img quality progressive no_subsampling icc_profile exif_metadata)
        | FmtAvif \<Rightarrow> avif_encode il en img (unwrap_or (rq_quality params) default_avif_quality) default_avif_speed exif_metadata
        | FmtGif \<Rightarrow> en_write_to en FmtGif img)"

definition check_final_dimensions :: "nat \<times> nat \<Rightarrow> performance_config \<Rightarrow> (any_error, unit) result" where
  "check_final_dimensions dims config =
     (case dims of (final_width, final_height) \<Rightarrow>
        if final_width > pc_max_output_width config \<or> final_height > pc_max_output_height config
        then Inl (plain_error (''Requested output dimensions too large after extend/padding: '' @ show_nat final_width @ ''x''
               @ show_nat final_height @ '' exceeds maximum '' @ show_nat (pc_max_output_width config) @ ''x''
               @ show_nat (pc_max_output_height config)))
        else Inr ())"

definition extend_and_pad :: "'img image_lib \<Rightarrow> 'img \<Rightarrow> (nat \<times> nat) option \<Rightarrow> resize_query \<Rightarrow> 'img" where
  "extend_and_pad il img extend_box params =
     (let background = unwrap_or (rq_background params) default_background;
          img = (case extend_box of
                   Some (target_w, target_h) \<Rightarrow> if rq_extend params then apply_extend il img target_w target_h background else img
                 | None \<Rightarrow> img)
      in case rq_padding params of Some padding \<Rightarrow> apply_padding il img padding background | None \<Rightarrow> img)"

definition encode_single_image ::
  "'img image_lib \<Rightarrow> 'img encoders \<Rightarrow> 'img \<Rightarrow> nat \<Rightarrow> nat \<Rightarrow> resize_query \<Rightarrow> string option \<Rightarrow> string option \<Rightarrow> bool
     \<Rightarrow> performance_config \<Rightarrow> string option \<Rightarrow> (any_error, string \<times> string) result" where
  "encode_single_image il en img src_width src_height params icc_profile exif_metadata exif_orientation_applied config watermark_bytes =
     (let exif_metadata = forwarded_exif params exif_metadata exif_orientation_applied;
          sizing = effective_resize_box params src_width src_height;
          (effective_width, effective_height) = es_resize_box sizing;
          flt = resize_filter effective_width effective_height
      in
      bindr (resize_and_filter il img effective_width effective_height flt params src_width src_height) (\<lambda>img.
      let img = extend_and_pad il img (es_extend_box sizing) params in
      bindr (check_final_dimensions (il_dimensions il img) config) (\<lambda>_.
      bindr (case (watermark_bytes, rq_watermark params) of
               (Some watermark_bytes, Some watermark) \<Rightarrow> apply_watermark il img watermark_bytes watermark
             | _ \<Rightarrow> Inr img) (\<lambda>img.
      bindr (output_format (rq_format params)) (\<lambda>(format, content_type).
      let img = handle_alpha il img format (rq_background params) in
      bindr (encode_output il en img format icc_profile exif_metadata params config) (\<lambda>output_bytes.
        Inr (output_bytes, content_type)))))))"

section \<open>Encoding an animation\<close>

fun animation_frames ::
  "'img image_lib \<Rightarrow> nat option \<Rightarrow> nat option \<Rightarrow> filter_type \<Rightarrow> resize_query \<Rightarrow> nat \<Rightarrow> nat \<Rightarrow> frame list
     \<Rightarrow> (any_error, frame list) result" where
  "animation_frames il effective_width effective_height flt params src_width src_height [] = Inr []"
| "animation_frames il effective_width effective_height flt params src_width src_height (frame # frames) =
     bindr (resize_and_filter il (il_of_rgba8 il (fr_buffer frame)) effective_width effective_height flt params src_width src_height) (\<lambda>img.
       let rgba = normalize_transparent_pixels (il_to_rgba8 il img) (unwrap_or (rq_background params) default_background) in
       bindr (animation_frames il effective_width effective_height flt params src_width src_height frames) (\<lambda>fs.
         Inr (\<lparr> fr_buffer = rgba, fr_delay = fr_delay frame \<rparr> # fs)))"

definition encode_animated_gif :: "'img encoders \<Rightarrow> frame list \<Rightarrow> (any_error, string \<times> string) result" where
  "encode_animated_gif en frames =
     bindr (map_err (with_context ''Failed to set GIF repeat behaviour'') (en_gif_set_repeat en)) (\<lambda>_.
     bindr (map_err (with_context ''Failed to encode animated GIF'') (en_gif_frames en frames)) (\<lambda>buf.
       Inr (buf, ''image/gif'')))"

definition encode_animation ::
  "'img image_lib \<Rightarrow> 'img encoders \<Rightarrow> frame list \<Rightarrow> nat \<Rightarrow> nat \<Rightarrow> resize_query \<Rightarrow> (any_error, string \<times> string) result" where
  "encode_animation il en frames src_width src_height params =
     (let effective_width = map_option (\<lambda>w. if rq_enlarge params then w else min w src_width) (rq_width params);
          effective_height = map_option (\<lambda>h. if rq_enlarge params then h else min h src_height) (rq_height params);
          flt = resize_filter effective_width effective_height
      in
      bindr (animation_frames il effective_width effective_height flt params src_width src_height frames) (\<lambda>output_frames.
        case rq_format params of
          Gif \<Rightarrow> encode_animated_gif en output_frames
        | Webp \<Rightarrow> encode_animated_webp (en_webp_frame en) output_frames
        | _ \<Rightarrow> Inl (plain_error ''internal error: encode_animation reached with a non-animatable format'')))"

section \<open>The whole pipeline\<close>

definition animation_of ::
  "'img image_lib \<Rightarrow> ('img, 'r) decoders \<Rightarrow> string \<Rightarrow> resize_query \<Rightarrow> performance_config
     \<Rightarrow> (any_error, (frame list \<times> nat \<times> nat) option) result" where
  "animation_of il de image_bytes params config =
     (if rq_format params = Gif \<or> rq_format params = Webp
      then (case detect_format_from_bytes image_bytes of
              Some source_format \<Rightarrow> decode_animation_source il de image_bytes source_format config
            | None \<Rightarrow> Inr None)
      else Inr None)"

definition process_still ::
  "'img image_lib \<Rightarrow> ('img, 'r) decoders \<Rightarrow> 'img encoders \<Rightarrow> string \<Rightarrow> resize_query \<Rightarrow> performance_config \<Rightarrow> string option
     \<Rightarrow> (any_error, string \<times> string) result" where
  "process_still il de en image_bytes params config watermark_bytes =
     (let format = detect_format_from_bytes image_bytes in
      bindr (peek_dimensions de image_bytes format) (\<lambda>(src_width, src_height).
      bindr (check_source_resolution src_width src_height (pc_max_src_resolution_mp config)) (\<lambda>_.
      bindr (decode_with_limits il de image_bytes format (pc_max_src_resolution_mp config) params)
        (\<lambda>(img, orientation, icc_profile, exif_metadata).
        let exif_orientation_applied = (rq_autorotate params \<and> orientation \<noteq> NoTransforms);
            img = (if rq_autorotate params then il_apply_orientation il img orientation else img);
            img = (case rq_trim params of Some t \<Rightarrow> apply_trim il img t | None \<Rightarrow> img);
            img = (case rq_crop params of Some c \<Rightarrow> apply_crop il img c | None \<Rightarrow> img);
            (src_width, src_height) = il_dimensions il img
        in encode_single_image il en img src_width src_height params icc_profile exif_metadata exif_orientation_applied
             config watermark_bytes))))"

text \<open>Nothing is a panic: \<^verbatim>\<open>expect\<close> on a list of frames that is neither longer than one nor of length one.\<close>

definition process_image_blocking_with_limits_and_watermark ::
  "'img image_lib \<Rightarrow> ('img, 'r) decoders \<Rightarrow> 'img encoders \<Rightarrow> string \<Rightarrow> resize_query \<Rightarrow> performance_config \<Rightarrow> string option
     \<Rightarrow> (any_error, string \<times> string) result option" where
  "process_image_blocking_with_limits_and_watermark il de en image_bytes params config watermark_bytes =
     (case check_output_dimensions params config of
        Inl e \<Rightarrow> Some (Inl e)
      | Inr _ \<Rightarrow>
          (case animation_of il de image_bytes params config of
             Inl e \<Rightarrow> Some (Inl e)
           | Inr (Some (frames, src_width, src_height)) \<Rightarrow>
               if length frames > 1 then Some (encode_animation il en frames src_width src_height params)
               else
                 (case frames of
                    [] \<Rightarrow> None
                  | frame # _ \<Rightarrow>
                      Some (encode_single_image il en (il_of_rgba8 il (fr_buffer frame)) src_width src_height params None None False
                        config watermark_bytes))
           | Inr None \<Rightarrow> Some (process_still il de en image_bytes params config watermark_bytes)))"

definition process_image_blocking_with_limits ::
  "'img image_lib \<Rightarrow> ('img, 'r) decoders \<Rightarrow> 'img encoders \<Rightarrow> string \<Rightarrow> resize_query \<Rightarrow> performance_config
     \<Rightarrow> (any_error, string \<times> string) result option" where
  "process_image_blocking_with_limits il de en image_bytes params config =
     process_image_blocking_with_limits_and_watermark il de en image_bytes params config None"

definition process_image_blocking ::
  "'img image_lib \<Rightarrow> ('img, 'r) decoders \<Rightarrow> 'img encoders \<Rightarrow> nat \<Rightarrow> string \<Rightarrow> resize_query
     \<Rightarrow> (any_error, string \<times> string) result option" where
  "process_image_blocking il de en cpu_count image_bytes params =
     process_image_blocking_with_limits il de en image_bytes params (default_config cpu_count)"

text \<open>The image service over this pipeline.\<close>

definition image_service_over ::
  "'img image_lib \<Rightarrow> ('img, 'r) decoders \<Rightarrow> 'img encoders \<Rightarrow> performance_config \<Rightarrow> world \<Rightarrow> nat \<Rightarrow> image_service" where
  "image_service_over il de en config w permits =
     \<lparr> im_config = config, im_world = w, im_permits = permits, im_blocking = process_image_blocking_with_limits_and_watermark il de en \<rparr>"

section \<open>What reaches the encoder\<close>

lemma check_final_dimensions_iff:
  "check_final_dimensions dims config = Inr u
     \<longleftrightarrow> fst dims \<le> pc_max_output_width config \<and> snd dims \<le> pc_max_output_height config"
  by (auto simp: check_final_dimensions_def split: prod.splits)

lemma handle_alpha_size: "image_lib_sizes il \<Longrightarrow> il_dimensions il (handle_alpha il img fmt bg) = il_dimensions il img"
  using image_lib_sizesD(5) [of il img]
  by (auto simp: handle_alpha_def Let_def image_lib_sizesD flatten_onto_background_def normalize_transparent_pixels_def
      map_pixels_def dimensions_def)

lemma handle_alpha_jpeg: "image_lib_sizes il \<Longrightarrow> \<not> il_has_alpha il (handle_alpha il img FmtJpeg bg)"
  by (auto simp: handle_alpha_def Let_def image_lib_sizesD)

text \<open>What may be handed on of a block of metadata.\<close>

definition exif_allowed :: "resize_query \<Rightarrow> string option \<Rightarrow> bool \<Rightarrow> string option \<Rightarrow> bool" where
  "exif_allowed params raw turned exif \<longleftrightarrow> (rq_strip_metadata params \<longrightarrow> exif = None)
     \<and> (\<not> rq_strip_metadata params \<and> \<not> turned \<longrightarrow> exif = raw)
     \<and> (turned \<longrightarrow> (\<forall>e. exif = Some e \<longrightarrow> (\<exists>le v. orientation_at e le v \<and> read_uint_in le (field e v 2) = 1)))"

lemma neutralized_upright:
  "neutralize_exif_orientation raw = Some e \<Longrightarrow> \<exists>le v. orientation_at e le v \<and> read_uint_in le (field e v 2) = 1"
  unfolding neutralize_orientation_at using orientation_at_upright field_upright_value orientation_at_bound by metis

lemma forwarded_exif_allowed: "exif_allowed params raw turned (forwarded_exif params raw turned)"
  using neutralized_upright by (auto simp: exif_allowed_def forwarded_exif_def bind_eq_Some_conv split: if_splits)

lemma encode_single_image_within:
  assumes il: "image_lib_sizes il"
    and e: "encode_single_image il en img sw sh params icc raw turned config wm = Inr (out, ct)"
  shows "\<exists>final fmt exif. encode_output il en final fmt icc exif params config = Inr out
    \<and> output_format (rq_format params) = Inr (fmt, ct)
    \<and> fst (il_dimensions il final) \<le> pc_max_output_width config \<and> snd (il_dimensions il final) \<le> pc_max_output_height config
    \<and> (fmt = FmtJpeg \<longrightarrow> \<not> il_has_alpha il final) \<and> exif_allowed params raw turned exif"
proof -
  obtain ew eh where box: "es_resize_box (effective_resize_box params sw sh) = (ew, eh)"
    by fastforce
  obtain resized padded marked fmt where r:
      "padded = extend_and_pad il resized (es_extend_box (effective_resize_box params sw sh)) params"
      "check_final_dimensions (il_dimensions il padded) config = Inr ()"
      "(case (wm, rq_watermark params) of (Some b, Some w) \<Rightarrow> apply_watermark il padded b w | _ \<Rightarrow> Inr padded) = Inr marked"
      "output_format (rq_format params) = Inr (fmt, ct)"
      "encode_output il en (handle_alpha il marked fmt (rq_background params)) fmt icc (forwarded_exif params raw turned) params config = Inr out"
    using e by (auto simp: encode_single_image_def box bindr_Inr_iff Let_def case_prod_unfold)
  have "il_dimensions il marked = il_dimensions il padded"
    using r(3) apply_watermark_size(1) [OF il] by (auto split: option.splits)
  then have "fst (il_dimensions il marked) \<le> pc_max_output_width config" "snd (il_dimensions il marked) \<le> pc_max_output_height config"
    using r(2) by (simp_all add: check_final_dimensions_iff)
  then show ?thesis
    using r(4,5) handle_alpha_size [OF il] handle_alpha_jpeg [OF il] forwarded_exif_allowed by metis
qed

lemma process_still_encodes:
  assumes "process_still il de en bytes params config wm = Inr (out, ct)"
  shows "\<exists>w h img orientation icc raw img'.
    peek_dimensions de bytes (detect_format_from_bytes bytes) = Inr (w, h)
    \<and> check_source_resolution w h (pc_max_src_resolution_mp config) = Inr ()
    \<and> decode_with_limits il de bytes (detect_format_from_bytes bytes) (pc_max_src_resolution_mp config) params
        = Inr (img, orientation, icc, raw)
    \<and> encode_single_image il en img' (fst (il_dimensions il img')) (snd (il_dimensions il img')) params icc raw
        (rq_autorotate params \<and> orientation \<noteq> NoTransforms) config wm = Inr (out, ct)"
  using assms by (auto simp: process_still_def bindr_Inr_iff Let_def case_prod_unfold)

text \<open>Through the image service, for a format that is never animated.\<close>

lemma served_picture_within:
  assumes il: "image_lib_sizes il" and fmt: "rq_format q \<noteq> Gif" "rq_format q \<noteq> Webp"
    and run: "fst (process_image (image_service_over il de en config w permits) source q) = Inr (out, ct)"
  shows "\<exists>final fmt icc exif. encode_output il en final fmt icc exif q config = Inr out
    \<and> output_format (rq_format q) = Inr (fmt, ct)
    \<and> fst (il_dimensions il final) \<le> pc_max_output_width config \<and> snd (il_dimensions il final) \<le> pc_max_output_height config"
proof -
  have "animation_of il de source q config = Inr None"
    using fmt by (simp add: animation_of_def)
  then obtain wm where "process_still il de en source q config wm = Inr (out, ct)"
    using run by (auto simp: process_image_def image_service_over_def process_image_blocking_with_limits_and_watermark_def
        split: prod.splits sum.splits if_splits option.splits)
  from process_still_encodes [OF this] show ?thesis
    using encode_single_image_within [OF il] by metis
qed

text \<open>
  C11. The limits of a picture.  Whatever the bytes of the source and the options of the
  request, when the pipeline answers with a picture that was not animated, the picture
  given to the encoder is within the configured width and height, after every resize,
  extension, padding and watermark; a source that was decoded had passed the resolution
  check on its header's size; a JPEG encoder is given no alpha channel; and EXIF reaches
  an encoder only if the request keeps metadata, unchanged if the pixels were not turned,
  and saying "upright" if they were.
\<close>
theorem picture_within_limits:
  assumes "image_lib_sizes il"
    and "process_image_blocking_with_limits_and_watermark il de en bytes params config wm = Some (Inr (out, ct))"
    and "\<forall>frames w h. animation_of il de bytes params config = Inr (Some (frames, w, h)) \<longrightarrow> length frames \<le> 1"
  shows "\<exists>final fmt icc exif raw turned. encode_output il en final fmt icc exif params config = Inr out
    \<and> output_format (rq_format params) = Inr (fmt, ct)
    \<and> fst (il_dimensions il final) \<le> pc_max_output_width config \<and> snd (il_dimensions il final) \<le> pc_max_output_height config
    \<and> (fmt = FmtJpeg \<longrightarrow> \<not> il_has_alpha il final) \<and> exif_allowed params raw turned exif
    \<and> (animation_of il de bytes params config = Inr None \<longrightarrow>
         (\<exists>w h img orientation. peek_dimensions de bytes (detect_format_from_bytes bytes) = Inr (w, h)
            \<and> w * h div 1000000 \<le> pc_max_src_resolution_mp config
            \<and> decode_with_limits il de bytes (detect_format_from_bytes bytes) (pc_max_src_resolution_mp config) params
                = Inr (img, orientation, icc, raw)
            \<and> turned = (rq_autorotate params \<and> orientation \<noteq> NoTransforms)))"
proof (cases "animation_of il de bytes params config")
  case (Inl e)
  then show ?thesis
    using assms(2) by (auto simp: process_image_blocking_with_limits_and_watermark_def split: sum.splits)
next
  case (Inr animation)
  show ?thesis
  proof (cases animation)
    case None
    have p: "process_still il de en bytes params config wm = Inr (out, ct)"
      using assms(2) Inr None by (auto simp: process_image_blocking_with_limits_and_watermark_def split: sum.splits)
    from process_still_encodes [OF p] obtain w h img orientation icc raw img' where
        d: "peek_dimensions de bytes (detect_format_from_bytes bytes) = Inr (w, h)"
        "check_source_resolution w h (pc_max_src_resolution_mp config) = Inr ()"
        "decode_with_limits il de bytes (detect_format_from_bytes bytes) (pc_max_src_resolution_mp config) params
           = Inr (img, orientation, icc, raw)"
      and enc: "encode_single_image il en img' (fst (il_dimensions il img')) (snd (il_dimensions il img')) params icc raw
           (rq_autorotate params \<and> orientation \<noteq> NoTransforms) config wm = Inr (out, ct)"
      by blast
    have "w * h div 1000000 \<le> pc_max_src_resolution_mp config"
      using d(2) by (auto simp: check_source_resolution_def Let_def split: if_splits)
    then show ?thesis
      using encode_single_image_within [OF assms(1) enc] d by metis
  next
    case (Some a)
    obtain frames w h where a: "a = (frames, w, h)"
      by (cases a)
    then have "length frames \<le> 1"
      using assms(3) Inr Some by blast
    then obtain f :: frame where "encode_single_image il en (il_of_rgba8 il (fr_buffer f)) w h params None None False config wm = Inr (out, ct)"
    proof (cases frames)
      case Nil
      then show thesis
        using assms(2) Inr Some a by (simp add: process_image_blocking_with_limits_and_watermark_def split: sum.splits)
    next
      case (Cons f fs)
      then show thesis
        using assms(2) Inr Some a \<open>length frames \<le> 1\<close>
        by (intro that [of f]) (simp add: process_image_blocking_with_limits_and_watermark_def split: sum.splits)
    qed
    from encode_single_image_within [OF assms(1) this] show ?thesis
      using Inr Some by (metis option.distinct(1) sum.inject(2))
  qed
qed

text \<open>Codecs for the examples: every source is a 64 by 64 picture, every encoder writes its format's name.\<close>

definition demo_decoder :: "(bool \<times> rgba raster) image_decoder" where
  "demo_decoder = \<lparr> id_total_bytes = 4 * 64 * 64, id_set_limits = (\<lambda>l. Inr ()), id_orientation = Some NoTransforms,
     id_icc_profile = None, id_exif_metadata = Some turned_exif, id_dimensions = (64, 64),
     id_decode = (\<lambda>l. Inr (False, plain_raster 64 64 (10, 20, 30, 255))) \<rparr>"

definition demo_decoders :: "frame list \<Rightarrow> nat \<times> nat \<Rightarrow> ((bool \<times> rgba raster), string) decoders" where
  "demo_decoders frames dims = \<lparr>
     de_with_format = (\<lambda>bytes format. bytes), de_with_guessed_format = (\<lambda>bytes. Inr bytes),
     de_into_dimensions = (\<lambda>r. Inr (64, 64)), de_into_decoder = (\<lambda>l r. Inr demo_decoder), de_reserve = (\<lambda>l n. Inr l),
     de_jpeg = (\<lambda>bytes. Inl None), de_webp = (\<lambda>bytes. Inl (plain_error ''no WebP'')),
     de_gif = (\<lambda>bytes. Inr \<lparr> gd_set_limits = (\<lambda>l. Inr ()), gd_dimensions = dims, gd_frames = map Inr frames \<rparr>),
     de_read_avif = (\<lambda>bytes. Inl None), de_from_avif = (\<lambda>bytes. Inl None), de_from_exif_chunk = (\<lambda>e. None),
     de_rgba_from_raw = (\<lambda>w h b. None), de_rgb_from_raw = (\<lambda>w h b. None), de_gray_from_raw = (\<lambda>w h b. None),
     de_rgba16_from_raw = (\<lambda>w h b. None), de_rgb16_from_raw = (\<lambda>w h b. None), de_gray16_from_raw = (\<lambda>w h b. None) \<rparr>"

definition demo_encoders :: "(bool \<times> rgba raster) encoders" where
  "demo_encoders = \<lparr> en_webp = (\<lambda>p icc exif img. Inr ''webp''), en_webp_frame = demo_frame_encoder,
     en_png = (\<lambda>icc exif img. Inr ''png''), en_jpeg = (\<lambda>p icc exif img. Inr ''jpeg''), en_avif = (\<lambda>p exif img. Inr (Inr ''avif'')),
     en_write_to = (\<lambda>f img. Inr ''gif''), en_gif_set_repeat = Inr (), en_gif_frames = (\<lambda>fs. Inr ''animation'') \<rparr>"

definition png_bytes :: string where
  "png_bytes = map char_of [0x89 :: nat, 0x50, 0x4E, 0x47] @ replicate 8 (char_of (0 :: nat))"

definition gif_bytes :: string where
  "gif_bytes = ''GIF89a'' @ replicate 6 (char_of (0 :: nat))"

lemma demo_formats: "detect_format_from_bytes png_bytes = Some FmtPng" "detect_format_from_bytes gif_bytes = Some FmtGif"
  by (simp_all add: detect_format_from_bytes_def png_bytes_def gif_bytes_def)

definition png_query :: resize_query where
  "png_query = resize_query_default\<lparr>rq_format := Png\<rparr>"

text \<open>A request for a PNG that changes nothing.\<close>

definition plain_png :: "resize_query \<Rightarrow> bool" where
  "plain_png q \<longleftrightarrow> rq_format q = Png \<and> rq_width q = None \<and> rq_height q = None \<and> rq_min_width q = None \<and> rq_min_height q = None
     \<and> rq_trim q = None \<and> rq_crop q = None \<and> rq_padding q = None \<and> rq_watermark q = None \<and> rq_grayscale q = None
     \<and> rq_blur_sigma q = None \<and> rq_rotate q = 0 \<and> \<not> rq_flip_horizontal q \<and> \<not> rq_flip_vertical q \<and> rq_strip_metadata q"

lemma plain_png_processed:
  assumes "plain_png q" and cfg: "pc_max_src_resolution_mp config = 50" "pc_max_output_width config = 4096"
      "pc_max_output_height config = 4096"
  shows "process_image_blocking_with_limits_and_watermark raster_lib (demo_decoders [] (64, 64)) demo_encoders png_bytes q config None
    = Some (Inr (''png'', ''image/png''))"
    and "animation_of raster_lib (demo_decoders [] (64, 64)) png_bytes q config = Inr None"
proof -
  let ?img = "(False, plain_raster 64 64 (10, 20, 30, 255)) :: bool \<times> rgba raster"
  have q: "rq_format q = Png" "rq_width q = None" "rq_height q = None" "rq_min_width q = None" "rq_min_height q = None"
      "rq_trim q = None" "rq_crop q = None" "rq_padding q = None" "rq_watermark q = None" "rq_grayscale q = None"
      "rq_blur_sigma q = None" "rq_rotate q = 0" "\<not> rq_flip_horizontal q" "\<not> rq_flip_vertical q" "rq_strip_metadata q"
    using assms(1) by (simp_all add: plain_png_def)
  show a: "animation_of raster_lib (demo_decoders [] (64, 64)) png_bytes q config = Inr None"
    by (simp add: animation_of_def q)
  have check: "check_output_dimensions q config = Inr ()"
    by (simp add: check_output_dimensions_def check_axis_bound_def q Let_def)
  have box: "effective_resize_box q w h = \<lparr> es_resize_box = (None, None), es_extend_box = None \<rparr>" for w h
    by (simp add: effective_resize_box_def q)
  have o: "il_apply_orientation raster_lib ?img NoTransforms = ?img"
    by (simp add: raster_lib_def swaps_axes_def)
  have dims: "il_dimensions raster_lib ?img = (64, 64)" "\<not> il_has_alpha raster_lib ?img"
    by (simp_all add: raster_lib_def)
  have peek: "peek_dimensions (demo_decoders [] (64, 64)) png_bytes (Some FmtPng) = Inr (64, 64)"
    by (simp add: peek_dimensions_def make_reader_def demo_decoders_def)
  have res: "check_source_resolution 64 64 50 = Inr ()"
    by (simp add: check_source_resolution_def)
  have dec: "decode_with_limits raster_lib (demo_decoders [] (64, 64)) png_bytes (Some FmtPng) 50 q
      = Inr (?img, NoTransforms, None, None)"
    by (simp add: decode_with_limits_def decode_with_image_crate_def open_decoder_def make_reader_def demo_decoders_def
        demo_decoder_def q)
  have rf: "resize_and_filter raster_lib ?img None None flt q 64 64 = Inr ?img" for flt
    by (simp add: resize_and_filter_def resize_step_def apply_rotate_def apply_flip_def q)
  have enc: "encode_single_image raster_lib demo_encoders ?img 64 64 q None None False config None
      = Inr (''png'', ''image/png'')"
    by (simp add: encode_single_image_def box rf extend_and_pad_def check_final_dimensions_def output_format_def
        handle_alpha_def encode_output_def encode_png_def demo_encoders_def dims q cfg Let_def)
  have still: "process_still raster_lib (demo_decoders [] (64, 64)) demo_encoders png_bytes q config None
      = Inr (''png'', ''image/png'')"
    by (simp add: process_still_def demo_formats peek cfg res dec q o dims enc)
  show "process_image_blocking_with_limits_and_watermark raster_lib (demo_decoders [] (64, 64)) demo_encoders png_bytes q config None
      = Some (Inr (''png'', ''image/png''))"
    by (simp add: process_image_blocking_with_limits_and_watermark_def check a still)
qed

theorem picture_within_limits_witness:
  "\<exists>final icc exif. encode_output raster_lib demo_encoders final FmtPng icc exif png_query (default_config 4) = Inr ''png''
     \<and> fst (il_dimensions raster_lib final) \<le> 4096 \<and> snd (il_dimensions raster_lib final) \<le> 4096"
proof -
  have cfg: "pc_max_src_resolution_mp (default_config 4) = 50" "pc_max_output_width (default_config 4) = 4096"
      "pc_max_output_height (default_config 4) = 4096"
    by (simp_all add: default_config_def)
  have "plain_png png_query"
    by (simp add: plain_png_def png_query_def resize_query_default_def)
  note p = plain_png_processed [OF this cfg]
  from picture_within_limits [OF raster_lib_sizes p(1)] p(2)
  obtain final fmt icc exif where "encode_output raster_lib demo_encoders final fmt icc exif png_query (default_config 4) = Inr ''png''"
      "output_format (rq_format png_query) = Inr (fmt, ''image/png'')"
      "fst (il_dimensions raster_lib final) \<le> 4096" "snd (il_dimensions raster_lib final) \<le> 4096"
    unfolding cfg by (metis option.distinct(1) sum.inject(2))
  moreover from this have "fmt = FmtPng"
    by (simp add: png_query_def output_format_def)
  ultimately show ?thesis
    by blast
qed

section \<open>What the animated path leaves out\<close>

text \<open>
  An animation skips the check of the final size.  Two frames of 64 by 50000 pixels are
  within the limits of a source, and a request for width 4096 passes the first check;
  the encoder then gets frames of 4096 by 3200000 pixels.
\<close>

definition tall_frame :: frame where
  "tall_frame = \<lparr> fr_buffer = plain_raster 64 50000 (0, 0, 0, 255), fr_delay = (40, 1) \<rparr>"

definition lone_width_gif :: resize_query where
  "lone_width_gif = lone_width\<lparr>rq_format := Gif\<rparr>"

lemma lone_width_fields:
  "rq_width lone_width = Some 4096" "rq_height lone_width = None" "rq_min_width lone_width = None"
  "rq_min_height lone_width = None" "rq_zoom_x lone_width = f_one" "rq_zoom_y lone_width = f_one"
  "rq_dpr lone_width = f_one" "rq_rotate lone_width = 0" "rq_enlarge lone_width"
  by (simp_all add: lone_width_def resize_query_default_def)

lemma lone_width_gif_fields:
  "rq_width lone_width_gif = Some 4096" "rq_height lone_width_gif = None" "rq_min_width lone_width_gif = None"
  "rq_min_height lone_width_gif = None" "rq_zoom_x lone_width_gif = f_one" "rq_zoom_y lone_width_gif = f_one"
  "rq_dpr lone_width_gif = f_one" "rq_rotate lone_width_gif = 0" "rq_enlarge lone_width_gif" "rq_format lone_width_gif = Gif"
  "rq_grayscale lone_width_gif = None" "rq_blur_sigma lone_width_gif = None"
  "\<not> rq_flip_horizontal lone_width_gif" "\<not> rq_flip_vertical lone_width_gif"
  by (simp_all add: lone_width_gif_def lone_width_def resize_query_default_def)

lemma lone_width_gif_accepted: "check_output_dimensions lone_width_gif (default_config 4) = Inr ()"
  using lone_width_allocates(1)
  by (simp add: check_output_dimensions_def lone_width_gif_fields lone_width_fields Let_def)

text \<open>A GIF with a header and no frame at all panics.\<close>

lemma empty_gif_panics:
  "process_image_blocking_with_limits_and_watermark raster_lib (demo_decoders [] (64, 64)) demo_encoders gif_bytes lone_width_gif (default_config 4) None = None"
proof -
  have "animation_of raster_lib (demo_decoders [] (64, 64)) gif_bytes lone_width_gif (default_config 4) = Inr (Some ([], 64, 64))"
    by (simp add: animation_of_def lone_width_gif_fields demo_formats decode_animation_source_def demo_decoders_def
        check_source_resolution_def default_config_def collect_frames_capped_def)
  then show ?thesis
    by (simp add: process_image_blocking_with_limits_and_watermark_def lone_width_gif_accepted)
qed

text \<open>
  An animation skips the check of the final size.  Two frames of 64 by 50000 pixels are
  within the limits of a source, and a request for width 4096 passes the first check;
  the encoder then gets frames of 4096 by 3200000 pixels.
\<close>

lemma lone_width_resized: "resize_dimensions 64 50000 4096 u32_max False = (4096, 3200000)"
  using lone_width_allocates(3)
  by (simp add: effective_resize_target_def effective_resize_box_def lone_width_fields rotate_swaps_axes_def swap_if_def Let_def
      scale_axis_one min_floor_def)

lemma lone_width_gif_frame:
  assumes "dimensions r = (64, 50000)"
  shows "\<exists>img. resize_and_filter raster_lib (il_of_rgba8 raster_lib r) (Some 4096) None Lanczos3 lone_width_gif 64 50000 = Inr img
    \<and> dimensions (il_to_rgba8 raster_lib img) = (4096, 3200000)"
proof -
  have "resize_and_filter raster_lib (il_of_rgba8 raster_lib r) (Some 4096) None Lanczos3 lone_width_gif 64 50000
      = fir_resize raster_lib (il_of_rgba8 raster_lib r) 4096 u32_max Lanczos3"
    by (cases "fir_resize raster_lib (il_of_rgba8 raster_lib r) 4096 u32_max Lanczos3")
      (simp_all add: resize_and_filter_def resize_step_def apply_rotate_def apply_flip_def lone_width_gif_fields)
  moreover have "il_dimensions raster_lib (il_of_rgba8 raster_lib r) = (64, 50000)"
    using assms by (simp add: raster_lib_def)
  moreover have "il_resample raster_lib (il_of_rgba8 raster_lib r) 4096 3200000 alg = Inr (True, sample_raster r 4096 3200000)" for alg
    by (simp add: raster_lib_def)
  moreover have "dimensions (il_to_rgba8 raster_lib (True, sample_raster r 4096 3200000)) = (4096, 3200000)"
    by (simp add: raster_lib_def sample_raster_def dimensions_def)
  ultimately show ?thesis
    by (simp add: fir_resize_def fir_resize_exact_def lone_width_resized)
qed

lemma animation_exceeds_limit:
  "\<exists>fs. animation_of raster_lib (demo_decoders [tall_frame, tall_frame] (64, 50000)) gif_bytes lone_width_gif (default_config 4)
           = Inr (Some ([tall_frame, tall_frame], 64, 50000))
       \<and> process_image_blocking_with_limits_and_watermark raster_lib (demo_decoders [tall_frame, tall_frame] (64, 50000)) demo_encoders gif_bytes lone_width_gif
           (default_config 4) None = Some (encode_animated_gif demo_encoders fs)
       \<and> length fs = 2 \<and> (\<forall>f \<in> set fs. dimensions (fr_buffer f) = (4096, 3200000))"
proof -
  let ?de = "demo_decoders [tall_frame, tall_frame] (64, 50000)"
  have an: "animation_of raster_lib ?de gif_bytes lone_width_gif (default_config 4) = Inr (Some ([tall_frame, tall_frame], 64, 50000))"
    by (simp add: animation_of_def lone_width_gif_fields demo_formats decode_animation_source_def demo_decoders_def
        check_source_resolution_def default_config_def collect_frames_capped_def)
  have "dimensions (fr_buffer tall_frame) = (64, 50000)"
    by (simp add: tall_frame_def)
  from lone_width_gif_frame [OF this] obtain img where img:
    "resize_and_filter raster_lib (il_of_rgba8 raster_lib (fr_buffer tall_frame)) (Some 4096) None Lanczos3 lone_width_gif 64 50000 = Inr img"
    "dimensions (il_to_rgba8 raster_lib img) = (4096, 3200000)"
    by blast
  let ?f = "\<lparr> fr_buffer = normalize_transparent_pixels (il_to_rgba8 raster_lib img)
      (unwrap_or (rq_background lone_width_gif) default_background), fr_delay = fr_delay tall_frame \<rparr>"
  have "animation_frames raster_lib (Some 4096) None Lanczos3 lone_width_gif 64 50000 [tall_frame, tall_frame] = Inr [?f, ?f]"
    by (simp add: img(1) Let_def)
  then have "encode_animation raster_lib demo_encoders [tall_frame, tall_frame] 64 50000 lone_width_gif
      = encode_animated_gif demo_encoders [?f, ?f]"
    by (simp add: encode_animation_def lone_width_gif_fields resize_filter_def Let_def)
  then have "process_image_blocking_with_limits_and_watermark raster_lib ?de demo_encoders gif_bytes lone_width_gif (default_config 4) None
      = Some (encode_animated_gif demo_encoders [?f, ?f])"
    by (simp add: process_image_blocking_with_limits_and_watermark_def an lone_width_gif_accepted)
  moreover have "dimensions (fr_buffer ?f) = (4096, 3200000)"
    using img(2) by (simp add: normalize_transparent_pixels_def map_pixels_def dimensions_def)
  ultimately show ?thesis
    using an by (intro exI [of _ "[?f, ?f]"]) simp
qed

end
