(* ===== verification/Storage_Local.thy ===== *)
theory Storage_Local
  imports Storage "HOL-Library.Sublist"
begin

text \<open>
  The local file-system backend (\<^verbatim>\<open>src/src/services/storage/local_fs_handler.rs\<close>).

  A path is the list of its components from the root.  The file system maps
  paths to files, directories and symbolic links (whose targets are absolute),
  and the system calls the code makes are defined on it with the two error kinds
  the code tells apart.  An upload is the list of file-system states it goes
  through, newest first, and takes the failures of its system calls as an
  argument, so that its theorems speak of crashes and concurrent readers too.
  A key that ends in a slash leaves a trailing separator on the Rust path, which
  is dropped here; the service refuses such keys.  An operation on a key that
  makes \<^verbatim>\<open>split_key\<close> panic ends with the error \<^verbatim>\<open>panicked\<close>.
\<close>

section \<open>The file system\<close>

type_synonym path = "string list"

datatype node = FileNode string | DirNode | LinkNode path

type_synonym fs = "path \<rightharpoonup> node"

datatype io_error = ENoEnt | EOther

type_synonym 'a os = "(io_error, 'a) result"

definition max_links :: nat where
  "max_links = 40"

text \<open>Resolving a path component by component, following at most \<^verbatim>\<open>n\<close> links.\<close>

function walk :: "fs \<Rightarrow> nat \<Rightarrow> path \<Rightarrow> path \<Rightarrow> path os" where
  "walk fs n cur [] = Inr cur"
| "walk fs n cur (c # cs) =
     (case fs (cur @ [c]) of
        None \<Rightarrow> Inl ENoEnt
      | Some DirNode \<Rightarrow> walk fs n (cur @ [c]) cs
      | Some (FileNode _) \<Rightarrow> if cs = [] then Inr (cur @ [c]) else Inl EOther
      | Some (LinkNode t) \<Rightarrow> (case n of 0 \<Rightarrow> Inl EOther | Suc m \<Rightarrow> walk fs m [] (t @ cs)))"
  by pat_completeness auto
termination
  by (relation "measures [\<lambda>(fs, n, cur, cs). n, \<lambda>(fs, n, cur, cs). length cs]") auto

definition canonicalize :: "fs \<Rightarrow> path \<Rightarrow> path os" where
  "canonicalize fs p = walk fs max_links [] p"

definition metadata :: "fs \<Rightarrow> path \<Rightarrow> node os" where
  "metadata fs p = bindr (canonicalize fs p) (\<lambda>q. ok_or ENoEnt (fs q))"

definition read_file :: "fs \<Rightarrow> path \<Rightarrow> string os" where
  "read_file fs p = bindr (metadata fs p) (\<lambda>nd. case nd of FileNode d \<Rightarrow> Inr d | _ \<Rightarrow> Inl EOther)"

text \<open>The directory entry a path names: its parent is resolved, its last component is not.\<close>

definition entry_of :: "fs \<Rightarrow> path \<Rightarrow> path os" where
  "entry_of fs p =
     (if p = [] then Inl EOther
      else bindr (canonicalize fs (butlast p)) (\<lambda>d.
        if fs d = Some DirNode then Inr (d @ [last p]) else Inl EOther))"

definition mkdir :: "fs \<Rightarrow> path \<Rightarrow> fs os" where
  "mkdir fs p = bindr (entry_of fs p) (\<lambda>q. if fs q = None then Inr (fs(q \<mapsto> DirNode)) else Inl EOther)"

definition is_dir :: "fs \<Rightarrow> path \<Rightarrow> bool" where
  "is_dir fs p = (metadata fs p = Inr DirNode)"

function create_dir_all :: "fs \<Rightarrow> path \<Rightarrow> fs os" where
  "create_dir_all fs p =
     (if p = [] then Inr fs
      else (case mkdir fs p of
        Inr fs' \<Rightarrow> Inr fs'
      | Inl e \<Rightarrow>
          if e \<noteq> ENoEnt then (if is_dir fs p then Inr fs else Inl e)
          else bindr (create_dir_all fs (butlast p)) (\<lambda>fs1.
            case mkdir fs1 p of
              Inr fs2 \<Rightarrow> Inr fs2
            | Inl e2 \<Rightarrow> if is_dir fs1 p then Inr fs1 else Inl e2)))"
  by pat_completeness auto
termination
  by (relation "measure (\<lambda>(fs, p). length p)") auto

declare create_dir_all.simps [simp del]

text \<open>Creating and truncating; a dangling link at the name is an error.\<close>

definition create_file :: "fs \<Rightarrow> path \<Rightarrow> fs os" where
  "create_file fs p = bindr (entry_of fs p) (\<lambda>q.
     case fs q of
       None \<Rightarrow> Inr (fs(q \<mapsto> FileNode []))
     | Some (FileNode _) \<Rightarrow> Inr (fs(q \<mapsto> FileNode []))
     | Some DirNode \<Rightarrow> Inl EOther
     | Some (LinkNode _) \<Rightarrow>
         bindr (canonicalize fs p) (\<lambda>r.
           case fs r of Some (FileNode _) \<Rightarrow> Inr (fs(r \<mapsto> FileNode [])) | _ \<Rightarrow> Inl EOther))"

definition write_file :: "fs \<Rightarrow> path \<Rightarrow> string \<Rightarrow> fs" where
  "write_file fs p d = (case canonicalize fs p of Inr q \<Rightarrow> fs(q \<mapsto> FileNode d) | Inl _ \<Rightarrow> fs)"

definition remove_file :: "fs \<Rightarrow> path \<Rightarrow> fs os" where
  "remove_file fs p = bindr (entry_of fs p) (\<lambda>q.
     case fs q of None \<Rightarrow> Inl ENoEnt | Some DirNode \<Rightarrow> Inl EOther | Some _ \<Rightarrow> Inr (fs(q := None)))"

definition rename_file :: "fs \<Rightarrow> path \<Rightarrow> path \<Rightarrow> fs os" where
  "rename_file fs a b = bindr (entry_of fs a) (\<lambda>qa. bindr (entry_of fs b) (\<lambda>qb.
     case fs qa of
       None \<Rightarrow> Inl ENoEnt
     | Some DirNode \<Rightarrow> Inl EOther
     | Some nd \<Rightarrow> if fs qb = Some DirNode then Inl EOther else Inr (fs(qa := None, qb \<mapsto> nd))))"

section \<open>Where a key lives\<close>

definition shard_prefix_len :: nat where
  "shard_prefix_len = 2"

definition sanitize_relative :: "string \<Rightarrow> path" where
  "sanitize_relative input = filter (\<lambda>s. s \<notin> {'''', ''.'', ''..''}) (split_on CHR ''/'' input)"

text \<open>Pushing text that does not start with a slash; \<^verbatim>\<open>Path\<close> drops empty and dot components.\<close>

definition push_path :: "path \<Rightarrow> string \<Rightarrow> path" where
  "push_path p s = p @ filter (\<lambda>c. c \<notin> {'''', ''.''}) (split_on CHR ''/'' s)"

text \<open>\<^verbatim>\<open>Inl ()\<close> is the panic of \<^const>\<open>split_key\<close>.\<close>

definition relative_path :: "string \<Rightarrow> (unit, path) result" where
  "relative_path key =
     bindr (split_key key) (\<lambda>parts.
       case parts of
         Some (pre, hash, ext) \<Rightarrow>
           if hash \<noteq> [] \<and> list_all is_ascii_hexdigit hash
           then (let shard_len = min (length hash) shard_prefix_len
                 in Inr (push_path (push_path (sanitize_relative pre) (take shard_len hash)) (hash @ ''.'' @ ext)))
           else Inr (sanitize_relative key)
       | None \<Rightarrow> Inr (sanitize_relative key))"

definition resolve :: "path \<Rightarrow> string \<Rightarrow> (unit, path) result" where
  "resolve base key = bindr (relative_path key) (\<lambda>rel. Inr (base @ rel))"

text \<open>The path of a key that resolves.\<close>

definition resolve_key :: "path \<Rightarrow> string \<Rightarrow> path" where
  "resolve_key base key = (case resolve base key of Inr p \<Rightarrow> p | Inl _ \<Rightarrow> base)"

definition expires_sidecar_path :: "path \<Rightarrow> path" where
  "expires_sidecar_path p = butlast p @ [last p @ ''.expires'']"

definition temp_file_name :: "nat \<Rightarrow> nat \<Rightarrow> nat \<Rightarrow> string \<Rightarrow> string" where
  "temp_file_name pid nanos counter final_name =
     ''.'' @ final_name @ ''.'' @ show_nat pid @ ''.'' @ show_nat nanos @ ''.'' @ show_nat counter @ ''.tmp''"

definition is_expired :: "fs \<Rightarrow> nat \<Rightarrow> path \<Rightarrow> bool" where
  "is_expired fs now sidecar_path =
     (case read_file fs sidecar_path of
        Inl _ \<Rightarrow> False
      | Inr bytes \<Rightarrow>
          (case Option.bind (from_utf8 bytes) (\<lambda>contents. parse_u64 (trim contents)) of
             None \<Rightarrow> False
           | Some expires_at_secs \<Rightarrow> now div 10 ^ 9 \<ge> expires_at_secs))"

section \<open>Operations\<close>

record local_state =
  ls_fs :: fs
  ls_counter :: nat

text \<open>Which of an upload's system calls fail, and how much a failed write left behind.\<close>

record faults =
  fl_create :: bool
  fl_write :: "nat option"
  fl_sync :: bool
  fl_cleanup :: bool
  fl_rename :: bool

definition no_faults :: faults where
  "no_faults = \<lparr> fl_create = False, fl_write = None, fl_sync = False, fl_cleanup = False, fl_rename = False \<rparr>"

definition stage_file :: "faults \<Rightarrow> path \<Rightarrow> string \<Rightarrow> fs \<Rightarrow> (string, unit) result \<times> fs list" where
  "stage_file fl tmp data fs =
     (case (if fl_create fl then Inl EOther else create_file fs tmp) of
        Inl _ \<Rightarrow> (Inl ''Failed to create temp file for atomic write'', [fs])
      | Inr fs1 \<Rightarrow>
          (case fl_write fl of
             Some n \<Rightarrow> (Inl ''Failed to write image to temp file'', [write_file fs1 tmp (take n data), fs1, fs])
           | None \<Rightarrow>
               if fl_sync fl then (Inl ''Failed to fsync temp file'', [write_file fs1 tmp data, fs1, fs])
               else (Inr (), [write_file fs1 tmp data, fs1, fs])))"

definition try_remove :: "bool \<Rightarrow> path \<Rightarrow> fs \<Rightarrow> fs" where
  "try_remove fault p fs = (if fault then fs else (case remove_file fs p of Inr fs' \<Rightarrow> fs' | Inl _ \<Rightarrow> fs))"

definition expiry_secs :: "nat \<Rightarrow> nat \<Rightarrow> nat" where
  "expiry_secs now ttl = (case checked_add_time now ttl of Some t \<Rightarrow> t div 10 ^ 9 | None \<Rightarrow> 2 ^ 64 - 1)"

text \<open>Recording or clearing the expiry, best effort: the states it adds, newest first.\<close>

definition write_sidecar :: "faults \<Rightarrow> path \<Rightarrow> path \<Rightarrow> nat \<Rightarrow> nat option \<Rightarrow> fs \<Rightarrow> fs list" where
  "write_sidecar fl sidecar tmp now ttl fs =
     (case ttl of
        Some l \<Rightarrow>
          (case stage_file fl tmp (show_nat (expiry_secs now l)) fs of
             (Inr _, states) \<Rightarrow>
               (case (if fl_rename fl then Inl EOther else rename_file (hd states) tmp sidecar) of
                  Inr fs' \<Rightarrow> fs' # states
                | Inl _ \<Rightarrow> states)
           | (Inl _, states) \<Rightarrow> try_remove (fl_cleanup fl) tmp (hd states) # states)
      | None \<Rightarrow> [try_remove (fl_cleanup fl) sidecar fs, fs])"

definition local_upload_trace ::
  "faults \<Rightarrow> faults \<Rightarrow> nat \<Rightarrow> path \<Rightarrow> nat \<Rightarrow> string \<Rightarrow> string \<Rightarrow> nat option \<Rightarrow> local_state
     \<Rightarrow> unit io \<times> fs list \<times> nat" where
  "local_upload_trace fl fl_side pid base now key data ttl s =
     (case resolve base key of Inl _ \<Rightarrow> (Inl panicked, [ls_fs s], ls_counter s) | Inr file_path \<Rightarrow>
      let parent = butlast file_path; fs = ls_fs s; n = ls_counter s in
      if file_path = [] then (Inl (plain_error (''Invalid storage path for key: '' @ key)), [fs], n)
      else case create_dir_all fs parent of
        Inl _ \<Rightarrow> (Inl (plain_error ''Failed to create a local storage directory''), [fs], n)
      | Inr fs1 \<Rightarrow>
        (case canonicalize fs1 base of
           Inl _ \<Rightarrow> (Inl (plain_error ''Failed to canonicalise local storage base path''), [fs1, fs], n)
         | Inr canonical_base \<Rightarrow>
        (case canonicalize fs1 parent of
           Inl _ \<Rightarrow> (Inl (plain_error ''Failed to canonicalise local storage target directory''), [fs1, fs], n)
         | Inr canonical_parent \<Rightarrow>
           if \<not> prefix canonical_base canonical_parent
           then (Inl (plain_error (''Resolved storage directory escapes the storage base path for key: '' @ key)),
                 [fs1, fs], n)
           else
             (let tmp = parent @ [temp_file_name pid now n (last file_path)] in
              case stage_file fl tmp data fs1 of
                (Inl e, states) \<Rightarrow>
                  (Inl (plain_error e), try_remove (fl_cleanup fl) tmp (hd states) # states @ [fs], n + 1)
              | (Inr _, states) \<Rightarrow>
                (case (if fl_rename fl then Inl EOther else rename_file (hd states) tmp file_path) of
                   Inl _ \<Rightarrow> (Inl (plain_error ''Failed to atomically rename temp file into place''),
                             states @ [fs], n + 1)
                 | Inr fs2 \<Rightarrow>
                   (let sidecar = expires_sidecar_path file_path;
                        tmp_sidecar = parent @ [temp_file_name pid now (n + 1) (last sidecar)]
                    in (Inr (), write_sidecar fl_side sidecar tmp_sidecar now ttl fs2 @ states @ [fs],
                        if ttl = None then n + 1 else n + 2)))))))"

definition local_upload ::
  "nat \<Rightarrow> path \<Rightarrow> nat \<Rightarrow> string \<Rightarrow> string \<Rightarrow> string \<Rightarrow> nat option \<Rightarrow> local_state \<Rightarrow> unit io \<times> local_state" where
  "local_upload pid base now key content_type data ttl s =
     (case local_upload_trace no_faults no_faults pid base now key data ttl s of
        (r, states, n) \<Rightarrow> (r, \<lparr> ls_fs = hd states, ls_counter = n \<rparr>))"

definition local_delete :: "path \<Rightarrow> nat \<Rightarrow> string \<Rightarrow> local_state \<Rightarrow> unit io \<times> local_state" where
  "local_delete base now key s =
     (case resolve base key of Inl _ \<Rightarrow> (Inl panicked, s) | Inr file_path \<Rightarrow>
      let sidecar = expires_sidecar_path file_path in
      case remove_file (ls_fs s) file_path of
        Inr fs1 \<Rightarrow> (Inr (), s\<lparr>ls_fs := try_remove False sidecar fs1\<rparr>)
      | Inl e \<Rightarrow>
          if e = ENoEnt then (Inr (), s\<lparr>ls_fs := try_remove False sidecar (ls_fs s)\<rparr>)
          else (Inl (plain_error (''Failed to delete local storage object for key: '' @ key)), s))"

definition local_check :: "path \<Rightarrow> nat \<Rightarrow> string \<Rightarrow> local_state \<Rightarrow> bool io \<times> local_state" where
  "local_check base now key s =
     (case resolve base key of Inl _ \<Rightarrow> (Inl panicked, s) | Inr file_path \<Rightarrow>
      case metadata (ls_fs s) file_path of
        Inr (FileNode _) \<Rightarrow>
          if is_expired (ls_fs s) now (expires_sidecar_path file_path)
          then (Inr False, snd (local_delete base now key s))
          else (Inr True, s)
      | Inr _ \<Rightarrow> (Inr False, s)
      | Inl e \<Rightarrow>
          if e = ENoEnt then (Inr False, s)
          else (Inl (plain_error (''Failed to stat local storage path for key: '' @ key)), s))"

definition display_path :: "path \<Rightarrow> string" where
  "display_path p = concat (map (\<lambda>c. ''/'' @ c) p)"

definition assert_within_base :: "fs \<Rightarrow> path \<Rightarrow> path \<Rightarrow> path io" where
  "assert_within_base fs base p =
     (case canonicalize fs base of
        Inl _ \<Rightarrow> Inl (plain_error ''Failed to canonicalise local storage base path'')
      | Inr canonical_base \<Rightarrow>
        (case canonicalize fs p of
           Inl _ \<Rightarrow> Inl (plain_error (''Failed to canonicalise local storage path: '' @ display_path p))
         | Inr canonical \<Rightarrow>
           if \<not> prefix canonical_base canonical
           then Inl (plain_error (''Resolved storage path escapes the storage base path: '' @ display_path p))
           else Inr canonical))"

definition local_get :: "path \<Rightarrow> nat \<Rightarrow> string \<Rightarrow> local_state \<Rightarrow> string io \<times> local_state" where
  "local_get base now key s =
     (case resolve base key of Inl _ \<Rightarrow> (Inl panicked, s) | Inr file_path \<Rightarrow>
      let fs = ls_fs s in
      case metadata fs file_path of
        Inl _ \<Rightarrow> (Inl (plain_error (''Image not found in local file system: '' @ display_path file_path)), s)
      | Inr (FileNode _) \<Rightarrow>
          if is_expired fs now (expires_sidecar_path file_path)
          then (Inl (plain_error (''Image not found in local file system: '' @ display_path file_path @ '' (expired)'')),
                snd (local_delete base now key s))
          else
            (case assert_within_base fs base file_path of
               Inl e \<Rightarrow> (Inl e, s)
             | Inr canonical \<Rightarrow>
                 (case read_file fs canonical of
                    Inr d \<Rightarrow> (Inr d, s)
                  | Inl _ \<Rightarrow> (Inl (plain_error (''Failed to read image from local file system: '' @ display_path file_path)), s)))
      | Inr _ \<Rightarrow> (Inl (plain_error (''Cache path is not a regular file: '' @ display_path file_path)), s))"

definition local_backend :: "nat \<Rightarrow> path \<Rightarrow> local_state backend" where
  "local_backend pid base =
     \<lparr> be_upload = local_upload pid base, be_check = local_check base, be_get = local_get base,
       be_delete = local_delete base \<rparr>"


section \<open>Trees without links\<close>

definition tree :: "fs \<Rightarrow> bool" where
  "tree fs \<longleftrightarrow> fs [] = Some DirNode \<and> (\<forall>p t. fs p \<noteq> Some (LinkNode t))
     \<and> (\<forall>p c. fs (p @ [c]) = None \<or> fs p = Some DirNode)"

definition dirs_only :: "fs \<Rightarrow> path \<Rightarrow> bool" where
  "dirs_only fs p \<longleftrightarrow> (\<forall>q. prefix q p \<longrightarrow> fs q = None \<or> fs q = Some DirNode)"

definition with_dirs :: "fs \<Rightarrow> path \<Rightarrow> fs" where
  "with_dirs fs p = (\<lambda>q. if prefix q p then Some DirNode else fs q)"

lemma tree_parent: "tree fs \<Longrightarrow> fs (p @ c # cs) \<noteq> None \<Longrightarrow> fs p = Some DirNode"
proof (induction cs rule: rev_induct)
  case (snoc x xs)
  have "fs (p @ c # xs) = Some DirNode"
    using snoc.prems unfolding tree_def by (metis append_Cons append_assoc)
  then show ?case
    using snoc.IH [OF snoc.prems(1)] by simp
qed (metis tree_def)

lemma tree_no_link: "tree fs \<Longrightarrow> fs p \<noteq> Some (LinkNode t)"
  by (simp add: tree_def)

lemma walk_found: "tree fs \<Longrightarrow> fs (cur @ cs) \<noteq> None \<Longrightarrow> walk fs n cur cs = Inr (cur @ cs)"
proof (induction cs arbitrary: cur)
  case (Cons c cs)
  show ?case
  proof (cases cs)
    case Nil
    then show ?thesis
      using Cons.prems tree_no_link [OF Cons.prems(1)] by (auto split: node.split)
  next
    case (Cons d ds)
    then have "fs (cur @ [c]) = Some DirNode"
      using tree_parent [of fs "cur @ [c]" d ds] Cons.prems by simp
    then show ?thesis
      using Cons.IH [of "cur @ [c]"] Cons.prems by simp
  qed
qed simp

lemma walk_missing:
  "fs (cur @ cs) = None \<Longrightarrow> cs \<noteq> [] \<Longrightarrow> (\<forall>q. prefix q (cur @ cs) \<longrightarrow> fs q = None \<or> fs q = Some DirNode)
   \<Longrightarrow> walk fs n cur cs = Inl ENoEnt"
proof (induction cs arbitrary: cur)
  case (Cons c cs)
  have "fs (cur @ [c]) = None \<or> fs (cur @ [c]) = Some DirNode"
    using Cons.prems(3) by (metis append_Cons append_Nil append_assoc prefixI)
  moreover have "walk fs n (cur @ [c]) cs = Inl ENoEnt" if "fs (cur @ [c]) = Some DirNode"
    using that Cons.IH [of "cur @ [c]"] Cons.prems by (cases "cs = []") auto
  ultimately show ?case
    by auto
qed simp

lemma canonicalize_found: "tree fs \<Longrightarrow> fs p \<noteq> None \<Longrightarrow> canonicalize fs p = Inr p"
  using walk_found [of fs "[]" p] by (simp add: canonicalize_def)

lemma canonicalize_missing: "tree fs \<Longrightarrow> fs p = None \<Longrightarrow> dirs_only fs p \<Longrightarrow> canonicalize fs p = Inl ENoEnt"
  using walk_missing [of fs "[]" p] by (cases "p = []") (auto simp: canonicalize_def dirs_only_def tree_def)

lemma canonicalize_Inr: "tree fs \<Longrightarrow> canonicalize fs p = Inr q \<Longrightarrow> fs p \<noteq> None \<Longrightarrow> q = p"
  using canonicalize_found by fastforce

lemma metadata_tree: "tree fs \<Longrightarrow> fs p = Some nd \<Longrightarrow> metadata fs p = Inr nd"
  by (simp add: metadata_def canonicalize_found)

lemma metadata_missing: "tree fs \<Longrightarrow> fs p = None \<Longrightarrow> dirs_only fs p \<Longrightarrow> metadata fs p = Inl ENoEnt"
  by (simp add: metadata_def canonicalize_missing)

lemma dirs_only_butlast: "dirs_only fs (p @ q) \<Longrightarrow> dirs_only fs p"
  by (auto simp: dirs_only_def)

lemma dirs_only_leaf: "dirs_only fs p \<Longrightarrow> fs (p @ [x]) = None \<Longrightarrow> dirs_only fs (p @ [x])"
  by (auto simp: dirs_only_def prefix_snoc)

lemma entry_dir: "tree fs \<Longrightarrow> fs p = Some DirNode \<Longrightarrow> entry_of fs (p @ [x]) = Inr (p @ [x])"
  by (simp add: entry_of_def canonicalize_found)

lemma entry_missing: "tree fs \<Longrightarrow> fs p = None \<Longrightarrow> dirs_only fs p \<Longrightarrow> entry_of fs (p @ [x]) = Inl ENoEnt"
  by (simp add: entry_of_def canonicalize_missing)

lemma tree_with_dirs: "tree fs \<Longrightarrow> dirs_only fs p \<Longrightarrow> tree (with_dirs fs p)"
  unfolding tree_def with_dirs_def by (auto dest: append_prefixD)

lemma with_dirs_self: "with_dirs fs p p = Some DirNode"
  by (simp add: with_dirs_def)

lemma create_dir_all_ok:
  "tree fs \<Longrightarrow> dirs_only fs p \<Longrightarrow> create_dir_all fs p = Inr (with_dirs fs p)"
proof (induction p rule: rev_induct)
  case Nil
  then show ?case
    by (auto simp: create_dir_all.simps with_dirs_def tree_def fun_eq_iff)
next
  case (snoc c p)
  note t = snoc.prems(1)
  have d: "dirs_only fs p" and l: "fs (p @ [c]) = None \<or> fs (p @ [c]) = Some DirNode"
    using snoc.prems by (auto simp: dirs_only_def)
  have w: "with_dirs fs (p @ [c]) = (with_dirs fs p)(p @ [c] \<mapsto> DirNode)"
    by (auto simp: with_dirs_def fun_eq_iff)
  show ?case
  proof (cases "fs p")
    case None
    have n: "fs (p @ [c]) = None"
      using None t unfolding tree_def by (metis option.distinct(1))
    have mk: "mkdir (with_dirs fs p) (p @ [c]) = Inr (with_dirs fs (p @ [c]))"
      using entry_dir [OF tree_with_dirs [OF t d] with_dirs_self] n
      by (simp add: mkdir_def w) (simp add: with_dirs_def)
    have "mkdir fs (p @ [c]) = Inl ENoEnt"
      by (simp add: mkdir_def entry_missing t None d)
    then show ?thesis
      using snoc.IH [OF t d] mk by (simp add: create_dir_all.simps [of fs "p @ [c]"])
  next
    case (Some nd)
    then have nd: "fs p = Some DirNode"
      using d by (auto simp: dirs_only_def)
    have id: "with_dirs fs p = fs"
      using nd t tree_parent [OF t] by (auto simp: with_dirs_def prefix_def fun_eq_iff) (metis neq_Nil_conv append_Nil2 option.distinct(1))
    show ?thesis
    proof (cases "fs (p @ [c]) = None")
      case True
      then show ?thesis
        using entry_dir [OF t nd] by (simp add: create_dir_all.simps [of fs "p @ [c]"] mkdir_def w id fun_upd_def)
    next
      case False
      then have "fs (p @ [c]) = Some DirNode"
        using l by argo
      then show ?thesis
        using entry_dir [OF t nd] metadata_tree [OF t]
        by (simp add: create_dir_all.simps [of fs "p @ [c]"] mkdir_def w id is_dir_def fun_upd_idem)
    qed
  qed
qed


section \<open>Files in one directory\<close>

text \<open>A leaf is no entry at all or a regular file.\<close>

definition leaf :: "node option \<Rightarrow> bool" where
  "leaf v = (case v of None \<Rightarrow> True | Some (FileNode _) \<Rightarrow> True | _ \<Rightarrow> False)"

lemma leaf_simps [simp]: "leaf None" "leaf (Some (FileNode d))" "\<not> leaf (Some DirNode)" "\<not> leaf (Some (LinkNode t))"
  by (simp_all add: leaf_def)

lemma leaf_cases: "leaf v \<Longrightarrow> v = None \<or> (\<exists>d. v = Some (FileNode d))"
  by (auto simp: leaf_def split: option.splits node.splits)

lemma leaf_tree: "tree fs \<Longrightarrow> fs p \<noteq> Some DirNode \<Longrightarrow> leaf (fs p)"
  by (auto simp: leaf_def tree_def split: option.splits node.splits)

lemma tree_leaf:
  assumes "tree fs" "leaf (fs (p @ [x]))" "leaf v" "v = None \<or> fs p = Some DirNode"
  shows "tree (fs(p @ [x] := v))"
proof -
  have "fs (p @ [x] @ [c]) = None" for c
    using assms(1,2) unfolding tree_def by (metis append_assoc leaf_simps(3))
  then show ?thesis
    using assms unfolding tree_def by (auto simp: leaf_def)
qed

lemma create_leaf:
  "tree fs \<Longrightarrow> fs p = Some DirNode \<Longrightarrow> leaf (fs (p @ [x])) \<Longrightarrow>
   create_file fs (p @ [x]) = Inr (fs(p @ [x] \<mapsto> FileNode []))"
  using entry_dir [of fs p x] by (auto simp: create_file_def dest: leaf_cases)

lemma write_leaf:
  "tree fs \<Longrightarrow> fs p \<noteq> None \<Longrightarrow> write_file fs p d = fs(p \<mapsto> FileNode d)"
  by (simp add: write_file_def canonicalize_found)

lemma remove_leaf:
  "tree fs \<Longrightarrow> fs p = Some DirNode \<Longrightarrow> leaf (fs (p @ [x])) \<Longrightarrow> try_remove False (p @ [x]) fs = fs(p @ [x] := None)"
  using entry_dir [of fs p x] by (auto simp: try_remove_def remove_file_def fun_upd_idem dest: leaf_cases)

lemma try_remove_cases:
  "tree fs \<Longrightarrow> fs p = Some DirNode \<Longrightarrow> leaf (fs (p @ [x]))
   \<Longrightarrow> try_remove b (p @ [x]) fs = fs \<or> try_remove b (p @ [x]) fs = fs(p @ [x] := None)"
  using remove_leaf [of fs p x] by (cases b) (simp_all add: try_remove_def)

lemma rename_leaf:
  "tree fs \<Longrightarrow> fs p = Some DirNode \<Longrightarrow> fs (p @ [x]) = Some (FileNode d) \<Longrightarrow> leaf (fs (p @ [y])) \<Longrightarrow>
   rename_file fs (p @ [x]) (p @ [y]) = Inr (fs(p @ [x] := None, p @ [y] \<mapsto> FileNode d))"
  using entry_dir [of fs p x] entry_dir [of fs p y] by (auto simp: rename_file_def dest: leaf_cases)

text \<open>Whether a sidecar says expired depends on its own entry only.\<close>

definition sidecar_expired :: "nat \<Rightarrow> node option \<Rightarrow> bool" where
  "sidecar_expired now v =
     (case v of
        Some (FileNode bytes) \<Rightarrow>
          (case Option.bind (from_utf8 bytes) (\<lambda>contents. parse_u64 (trim contents)) of
             None \<Rightarrow> False | Some secs \<Rightarrow> now div 10 ^ 9 \<ge> secs)
      | _ \<Rightarrow> False)"

lemma is_expired_tree:
  assumes "tree fs"
  shows "is_expired fs now p = sidecar_expired now (fs p)"
proof (cases "fs p")
  case None
  have "metadata fs p = Inl e \<or> metadata fs p = Inr DirNode" if "canonicalize fs p = Inl e" for e
    using that by (simp add: metadata_def)
  moreover have "\<exists>e. canonicalize fs p = Inl e"
  proof (cases "canonicalize fs p")
    case (Inr q)
    have "\<exists>e. walk fs n cur cs = Inl e" if "fs (cur @ cs) = None" "fs cur = Some DirNode" for n cur cs
      using that
    proof (induction cs arbitrary: cur)
      case (Cons c cs)
      then show ?case
        using Cons.IH [of "cur @ [c]"] tree_no_link [OF assms] by (auto split: option.split node.split)
    qed simp
    then show ?thesis
      using None assms by (auto simp: canonicalize_def tree_def)
  qed simp
  ultimately show ?thesis
    using None by (auto simp: is_expired_def read_file_def metadata_def sidecar_expired_def)
next
  case (Some nd)
  then show ?thesis
    using metadata_tree [OF assms Some] tree_no_link [OF assms, of p]
    by (cases nd) (simp_all add: is_expired_def read_file_def sidecar_expired_def)
qed

lemma trim_show_nat: "trim (show_nat n) = show_nat n"
proof -
  have "is_graphic c" if "c \<in> set (show_nat n)" for c
    using show_nat_digits [OF that] by (simp add: is_graphic_def is_ascii_digit_def)
  then show ?thesis
    by (intro trim_graphic) simp_all
qed

lemma sidecar_expired_show: "m < 2 ^ 64 \<Longrightarrow> sidecar_expired now (Some (FileNode (show_nat m))) \<longleftrightarrow> m \<le> now div 10 ^ 9"
proof -
  assume m: "m < 2 ^ 64"
  have "from_utf8 (show_nat m) = Some (show_nat m)"
    by (rule from_utf8_ascii) (auto dest!: show_nat_digits simp: is_ascii_digit_def)
  then show ?thesis
    using m by (simp add: sidecar_expired_def trim_show_nat parse_u_show)
qed

lemma sidecar_expired_None [simp]: "\<not> sidecar_expired now None"
  by (simp add: sidecar_expired_def)

lemma sidecar_expired_mono: "sidecar_expired t v \<Longrightarrow> t \<le> t' \<Longrightarrow> sidecar_expired t' v"
  using div_le_mono by (auto simp: sidecar_expired_def split: option.splits node.splits dest: order_trans)


section \<open>Staging\<close>

lemma no_faults_simps [simp]:
  "\<not> fl_create no_faults" "fl_write no_faults = None" "\<not> fl_sync no_faults" "\<not> fl_cleanup no_faults"
  "\<not> fl_rename no_faults"
  by (simp_all add: no_faults_def)

text \<open>
  Whatever fails, staging touches the temporary name only, and leaves the whole
  data there when it reports success.
\<close>

lemma stage_file_states:
  assumes "tree fs" "fs p = Some DirNode" "leaf (fs (p @ [x]))"
  shows "snd (stage_file fl (p @ [x]) data fs) \<noteq> []
    \<and> (\<forall>st \<in> set (snd (stage_file fl (p @ [x]) data fs)). st = fs \<or> (\<exists>d. st = fs(p @ [x] \<mapsto> FileNode d)))
    \<and> (fst (stage_file fl (p @ [x]) data fs) = Inr () \<longrightarrow>
         hd (snd (stage_file fl (p @ [x]) data fs)) = fs(p @ [x] \<mapsto> FileNode data))"
proof -
  have t: "tree (fs(p @ [x] \<mapsto> FileNode []))"
    using tree_leaf [OF assms(1,3)] assms(2) by simp
  have w: "write_file (fs(p @ [x] \<mapsto> FileNode [])) (p @ [x]) d = fs(p @ [x] \<mapsto> FileNode d)" for d
    using write_leaf [OF t, of "p @ [x]" d] by simp
  show ?thesis
    using create_leaf [OF assms] by (auto simp: stage_file_def w split: option.splits)
qed

lemma stage_file_no_faults:
  assumes "tree fs" "fs p = Some DirNode" "leaf (fs (p @ [x]))"
  shows "fst (stage_file no_faults (p @ [x]) data fs) = Inr ()"
  using create_leaf [OF assms] by (simp add: stage_file_def)

text \<open>Writing the sidecar touches the sidecar and its temporary name only.\<close>

lemma write_sidecar_states:
  assumes t: "tree fs" and p: "fs p = Some DirNode"
    and l: "leaf (fs (p @ [x]))" "leaf (fs (p @ [y]))" and ne: "x \<noteq> y"
  shows "write_sidecar fl (p @ [y]) (p @ [x]) now ttl fs \<noteq> []
    \<and> (\<forall>st \<in> set (write_sidecar fl (p @ [y]) (p @ [x]) now ttl fs).
         \<forall>q. q \<noteq> p @ [x] \<longrightarrow> q \<noteq> p @ [y] \<longrightarrow> st q = fs q)"
proof (cases ttl)
  case None
  then show ?thesis
    using try_remove_cases [OF t p l(2), of "fl_cleanup fl"] by (auto simp: write_sidecar_def)
next
  case (Some lt)
  let ?s = "stage_file fl (p @ [x]) (show_nat (expiry_secs now lt)) fs"
  note st = stage_file_states [OF t p l(1), of fl "show_nat (expiry_secs now lt)"]
  obtain r states where s: "?s = (r, states)"
    by fastforce
  have sl: "states \<noteq> []" "\<forall>st \<in> set states. st = fs \<or> (\<exists>d. st = fs(p @ [x] \<mapsto> FileNode d))"
    using st by (simp_all add: s)
  have h: "hd states = fs \<or> (\<exists>d. hd states = fs(p @ [x] \<mapsto> FileNode d))"
    using sl by simp
  show ?thesis
  proof (cases r)
    case (Inl e)
    have "tree (hd states)" "hd states p = Some DirNode" "leaf (hd states (p @ [x]))"
      using h t p l tree_leaf [OF t l(1)] by auto
    then have "try_remove (fl_cleanup fl) (p @ [x]) (hd states) = hd states
        \<or> try_remove (fl_cleanup fl) (p @ [x]) (hd states) = (hd states)(p @ [x] := None)"
      by (rule try_remove_cases)
    then show ?thesis
      using sl h by (auto simp: write_sidecar_def Some s Inl)
  next
    case (Inr u)
    have hd: "hd states = fs(p @ [x] \<mapsto> FileNode (show_nat (expiry_secs now lt)))"
      using st by (simp add: s Inr)
    have "tree (hd states)"
      unfolding hd using tree_leaf [OF t l(1)] p by simp
    then have "rename_file (hd states) (p @ [x]) (p @ [y])
        = Inr ((hd states)(p @ [x] := None, p @ [y] \<mapsto> FileNode (show_nat (expiry_secs now lt))))"
      using p l ne by (intro rename_leaf) (simp_all add: hd)
    then show ?thesis
      using sl by (auto simp: write_sidecar_def Some s Inr hd split: sum.splits)
  qed
qed

lemma write_sidecar_no_faults:
  assumes t: "tree fs" and p: "fs p = Some DirNode"
    and l: "leaf (fs (p @ [x]))" "leaf (fs (p @ [y]))" and ne: "x \<noteq> y"
  shows "hd (write_sidecar no_faults (p @ [y]) (p @ [x]) now ttl fs)
    = (case ttl of
         None \<Rightarrow> fs(p @ [y] := None)
       | Some lt \<Rightarrow> fs(p @ [x] := None, p @ [y] \<mapsto> FileNode (show_nat (expiry_secs now lt))))"
proof (cases ttl)
  case None
  then show ?thesis
    using remove_leaf [OF t p l(2)] by (simp add: write_sidecar_def)
next
  case (Some lt)
  let ?d = "show_nat (expiry_secs now lt)"
  obtain r states where s: "stage_file no_faults (p @ [x]) ?d fs = (r, states)"
    by fastforce
  have hd: "r = Inr ()" "hd states = fs(p @ [x] \<mapsto> FileNode ?d)"
    using stage_file_no_faults [OF t p l(1), of ?d] stage_file_states [OF t p l(1), of no_faults ?d]
    by (simp_all add: s)
  have "tree (hd states)"
    unfolding hd using tree_leaf [OF t l(1)] p by simp
  then have "rename_file (hd states) (p @ [x]) (p @ [y]) = Inr ((hd states)(p @ [x] := None, p @ [y] \<mapsto> FileNode ?d))"
    using p l ne by (intro rename_leaf) (simp_all add: hd)
  then show ?thesis
    by (simp add: write_sidecar_def Some s hd)
qed


section \<open>The layout of the cache directory\<close>

definition data_name :: "string \<Rightarrow> bool" where
  "data_name nm \<longleftrightarrow> (\<exists>h e. nm = h @ ''.'' @ e \<and> length h = 64 \<and> list_all is_lower_hex h \<and> e \<in> set allowed_extensions)"

text \<open>
  The invariant: a tree without links in which the prefix of the keys and its
  two-character shards are directories when they exist, and no directory lies
  directly in a shard.
\<close>

definition layout :: "path \<Rightarrow> string \<Rightarrow> fs \<Rightarrow> bool" where
  "layout base pre fs \<longleftrightarrow> tree fs
     \<and> (\<forall>sh. length sh = 2 \<longrightarrow> dirs_only fs (base @ sanitize_relative pre @ [sh])
          \<and> (\<forall>x. leaf (fs (base @ sanitize_relative pre @ [sh, x]))))"

definition local_invar :: "path \<Rightarrow> string \<Rightarrow> local_state \<Rightarrow> bool" where
  "local_invar base pre s \<longleftrightarrow> layout base pre (ls_fs s)"

lemma layout_leaf:
  assumes l: "layout base pre fs" and p: "p = base @ sanitize_relative pre @ [sh]" and n: "length sh = 2"
    and v: "leaf v" "v = None \<or> fs p = Some DirNode"
  shows "layout base pre (fs(p @ [x] := v))"
proof -
  have t: "tree fs" "leaf (fs (p @ [x]))"
    using l n by (simp_all add: layout_def p)
  have "dirs_only (fs(p @ [x] := v)) (base @ sanitize_relative pre @ [sh'])" if "length sh' = 2" for sh'
  proof -
    have "\<not> prefix (p @ [x]) (base @ sanitize_relative pre @ [sh'])"
      by (auto simp: p dest!: prefix_length_le)
    then show ?thesis
      using l that by (auto simp: layout_def dirs_only_def)
  qed
  moreover have "leaf ((fs(p @ [x] := v)) (base @ sanitize_relative pre @ [sh', y]))" if "length sh' = 2" for sh' y
    using l v that by (simp add: layout_def)
  ultimately show ?thesis
    using tree_leaf [OF t v] by (simp add: layout_def)
qed

lemma layout_dirs:
  assumes l: "layout base pre fs" and p: "p = base @ sanitize_relative pre @ [sh]" and n: "length sh = 2"
  shows "layout base pre (with_dirs fs p)"
proof -
  have d: "dirs_only fs (base @ sanitize_relative pre @ [sh'])" "leaf (fs (base @ sanitize_relative pre @ [sh', y]))"
    if "length sh' = 2" for sh' y
    using l that by (simp_all add: layout_def)
  have "\<not> prefix (base @ sanitize_relative pre @ [sh', y]) p" for sh' y
    by (auto simp: p dest!: prefix_length_le)
  then show ?thesis
    using d l n tree_with_dirs [of fs p] by (simp add: layout_def p dirs_only_def with_dirs_def)
qed

lemma data_name_head:
  assumes "data_name nm"
  shows "hd nm \<noteq> CHR ''.''"
proof -
  obtain h e where h: "nm = h @ ''.'' @ e" "length h = 64" "list_all is_lower_hex h"
    using assms by (auto simp: data_name_def)
  then have "h \<noteq> []"
    by auto
  then have "hd nm \<in> set h"
    by (simp add: h(1))
  then show ?thesis
    using hex_not_dot [OF h(3)] by metis
qed

lemma data_name_len: "data_name nm \<Longrightarrow> length (take 2 nm) = 2"
  by (auto simp: data_name_def)

lemma data_name_sidecar: "data_name a \<Longrightarrow> data_name b \<Longrightarrow> a @ ''.expires'' \<noteq> b"
proof
  assume d: "data_name a" "data_name b" and e: "a @ ''.expires'' = b"
  obtain h x where a: "a = h @ ''.'' @ x" "length h = 64"
    using d(1) by (auto simp: data_name_def)
  obtain g y where b: "b = g @ ''.'' @ y" "length g = 64" "y \<in> set allowed_extensions"
    using d(2) by (auto simp: data_name_def)
  have "x @ ''.expires'' = y"
    using e a b by simp
  then show False
    using ext_no_special [OF b(3)] by auto
qed

lemma temp_name_head: "hd (temp_file_name pid t n nm) = CHR ''.''"
  by (simp add: temp_file_name_def)

lemma data_name_not_temp:
  "data_name nm \<Longrightarrow> temp_file_name pid t n x \<noteq> nm \<and> temp_file_name pid t n x \<noteq> nm @ ''.expires''"
proof -
  assume d: "data_name nm"
  have "nm \<noteq> []"
    using d by (auto simp: data_name_def)
  then have "hd (nm @ ''.expires'') \<noteq> CHR ''.''"
    using data_name_head [OF d] by simp
  then show ?thesis
    using data_name_head [OF d] temp_name_head by metis
qed

lemma relative_path_valid:
  assumes "valid_key pre key"
  shows "\<exists>nm. key = pre @ nm \<and> data_name nm \<and> relative_path key = Inr (sanitize_relative pre @ [take 2 nm, nm])"
proof -
  obtain h e where k: "key = pre @ h @ ''.'' @ e" "length h = hash_len" "list_all is_lower_hex h"
    "e \<in> set allowed_extensions"
    using assms unfolding valid_key_iff by blast
  have sk: "split_key key = Inr (Some (pre, h, e))"
    using split_key_valid [OF k(1-3)] ext_no_special [OF k(4)] by blast
  have hx: "list_all is_ascii_hexdigit h"
    using k(3) by (auto simp: list_all_iff is_lower_hex_def is_ascii_hexdigit_def to_digit16_def is_ascii_digit_def)
  have sl: "CHR ''/'' \<notin> set h" "CHR ''/'' \<notin> set e" "CHR ''.'' \<notin> set h"
    using hex_not_dot [OF k(3)] ext_no_special [OF k(4)] by simp_all
  have t: "CHR ''/'' \<notin> set (take 2 h)" "CHR ''.'' \<notin> set (take 2 h)"
    using sl by (auto dest: in_set_takeD)
  have tl: "length (take 2 h) = 2" "length (h @ ''.'' @ e) > 2"
    using k(2) by (simp_all add: hash_len_def)
  have p1: "push_path q (take 2 h) = q @ [take 2 h]" for q
    using split_on_no_delim [OF t(1)] tl(1) t(2) by (auto simp: push_path_def)
  have p2: "push_path q (h @ ''.'' @ e) = q @ [h @ ''.'' @ e]" for q
    using split_on_no_delim [of "CHR ''/''" "h @ ''.'' @ e"] sl tl(2) by (auto simp: push_path_def append_eq_Cons_conv)
  have m: "min (length h) shard_prefix_len = 2"
    using k(2) by (simp add: hash_len_def shard_prefix_len_def)
  have ne: "h \<noteq> []"
    using k(2) by (auto simp: hash_len_def)
  have "relative_path key = Inr (sanitize_relative pre @ [take 2 h, h @ ''.'' @ e])"
    unfolding relative_path_def sk using ne hx p1 p2 m by simp
  moreover have "take 2 (h @ ''.'' @ e) = take 2 h"
    using k(2) by (simp add: hash_len_def)
  moreover have "data_name (h @ ''.'' @ e)"
    using k by (auto simp: data_name_def hash_len_def)
  ultimately show ?thesis
    using k(1) by (intro exI [of _ "h @ ''.'' @ e"]) simp
qed

text \<open>A valid key resolves, and never panics.\<close>

lemma resolve_valid: "valid_key pre key \<Longrightarrow> resolve base key = Inr (resolve_key base key)"
  using relative_path_valid [of pre key] by (auto simp: resolve_key_def resolve_def)

lemma prefix_resolve_key: "prefix base (resolve_key base key)"
  by (cases "relative_path key") (simp_all add: resolve_key_def resolve_def)

lemma with_dirs_leaf [simp]: "with_dirs fs p (p @ [x]) = fs (p @ [x])"
  by (simp add: with_dirs_def)

lemma upload_setup:
  assumes "local_invar base pre s" "valid_key pre key"
  obtains nm p where "p = base @ sanitize_relative pre @ [take 2 nm]" "key = pre @ nm" "data_name nm"
    "resolve_key base key = p @ [nm]" "dirs_only (ls_fs s) p" "tree (ls_fs s)" "tree (with_dirs (ls_fs s) p)"
    "create_dir_all (ls_fs s) p = Inr (with_dirs (ls_fs s) p)"
    "\<And>x. leaf (ls_fs s (p @ [x]))" "with_dirs (ls_fs s) p base = Some DirNode" "prefix base p"
proof -
  obtain nm where n: "key = pre @ nm" "data_name nm" "relative_path key = Inr (sanitize_relative pre @ [take 2 nm, nm])"
    using relative_path_valid [OF assms(2)] by blast
  let ?p = "base @ sanitize_relative pre @ [take 2 nm]"
  have d: "tree (ls_fs s)" "dirs_only (ls_fs s) ?p" "leaf (ls_fs s (?p @ [x]))" for x
    using assms(1) data_name_len [OF n(2)] by (simp_all add: local_invar_def layout_def)
  show thesis
    by (rule that [of ?p nm])
       (use n d tree_with_dirs [OF d(1,2)] create_dir_all_ok [OF d(1,2)] in
         \<open>simp_all add: resolve_key_def resolve_def with_dirs_def\<close>)
qed


section \<open>Uploads\<close>

text \<open>The trace of an upload whose directory is in order.\<close>

lemma upload_trace_eq:
  fixes data :: string
  assumes "resolve base key = Inr (p @ [nm])" "create_dir_all (ls_fs s) p = Inr fs1" "tree fs1"
    "fs1 base = Some DirNode" "fs1 p = Some DirNode" "prefix base p" "leaf (fs1 (p @ [nm]))"
    "\<And>x. leaf (fs1 (p @ [x]))" "\<And>n x. temp_file_name pid now n x \<noteq> nm"
  defines "t1 \<equiv> temp_file_name pid now (ls_counter s) nm"
    and "t2 \<equiv> temp_file_name pid now (Suc (ls_counter s)) (nm @ ''.expires'')"
    and "fs2 \<equiv> fs1(p @ [temp_file_name pid now (ls_counter s) nm] := None, p @ [nm] \<mapsto> FileNode data)"
  shows "\<exists>states. stage_file fl (p @ [t1]) data fs1 = (fst (stage_file fl (p @ [t1]) data fs1), states)
    \<and> local_upload_trace fl fls pid base now key data ttl s =
      (case fst (stage_file fl (p @ [t1]) data fs1) of
         Inl e \<Rightarrow> (Inl (plain_error e), try_remove (fl_cleanup fl) (p @ [t1]) (hd states) # states @ [ls_fs s],
                   ls_counter s + 1)
       | Inr _ \<Rightarrow>
          if fl_rename fl
          then (Inl (plain_error ''Failed to atomically rename temp file into place''), states @ [ls_fs s],
                ls_counter s + 1)
          else (Inr (), write_sidecar fls (p @ [nm @ ''.expires'']) (p @ [t2]) now ttl fs2 @ states @ [ls_fs s],
                if ttl = None then ls_counter s + 1 else ls_counter s + 2))"
proof -
  obtain r states where st: "stage_file fl (p @ [t1]) data fs1 = (r, states)"
    by fastforce
  have c: "canonicalize fs1 base = Inr base" "canonicalize fs1 p = Inr p"
    using canonicalize_found [OF assms(3)] assms(4,5) by simp_all
  have sc: "expires_sidecar_path (p @ [nm]) = p @ [nm @ ''.expires'']"
    by (simp add: expires_sidecar_path_def)
  show ?thesis
  proof (cases r)
    case (Inl e)
    then show ?thesis
      using st assms(1,2,6) by (simp add: local_upload_trace_def c t1_def Let_def)
  next
    case (Inr u)
    have hd: "hd states = fs1(p @ [t1] \<mapsto> FileNode data)"
      using stage_file_states [OF assms(3,5,8), of fl t1 data] by (simp add: st Inr)
    have tr: "tree (hd states)"
      unfolding hd using tree_leaf [OF assms(3,8)] assms(5) by simp
    have rn: "rename_file (hd states) (p @ [t1]) (p @ [nm]) = Inr fs2"
      using rename_leaf [OF tr, of p t1 data nm] assms(5,8,9)
      by (simp add: hd fs2_def t1_def)
    show ?thesis
      using st Inr assms(1,2,6) rn
      by (simp add: local_upload_trace_def c t1_def t2_def Let_def sc)
  qed
qed


text \<open>
  Under any failures, an upload goes only through states that agree with the
  first one, up to the directories it makes, everywhere but on the key's file,
  its sidecar and the temporary names; and the key's file changes in one step.
\<close>

lemma upload_states:
  assumes inv: "local_invar base pre s" and v: "valid_key pre key"
  obtains nm p t1 t2 where "p = base @ sanitize_relative pre @ [take 2 nm]" "key = pre @ nm" "data_name nm"
    "resolve_key base key = p @ [nm]" "hd t1 = CHR ''.''" "hd t2 = CHR ''.''"
    "\<And>r states n. local_upload_trace fl fls pid base now key data ttl s = (r, states, n) \<Longrightarrow>
       states \<noteq> []
       \<and> (\<forall>st \<in> set states. \<forall>q. q \<notin> {p @ [nm], p @ [nm @ ''.expires''], p @ [t1], p @ [t2]} \<longrightarrow>
            st q = ls_fs s q \<or> st q = with_dirs (ls_fs s) p q)
       \<and> (\<forall>st \<in> set states. st (p @ [nm]) = ls_fs s (p @ [nm])
            \<or> r = Inr () \<and> st (p @ [nm]) = Some (FileNode data))
       \<and> (r = Inr () \<longrightarrow> hd states (p @ [nm]) = Some (FileNode data))"
proof -
  obtain nm p where su: "p = base @ sanitize_relative pre @ [take 2 nm]" "key = pre @ nm" "data_name nm"
    "resolve_key base key = p @ [nm]" "dirs_only (ls_fs s) p" "tree (ls_fs s)" "tree (with_dirs (ls_fs s) p)"
    "create_dir_all (ls_fs s) p = Inr (with_dirs (ls_fs s) p)"
    "\<And>x. leaf (ls_fs s (p @ [x]))" "with_dirs (ls_fs s) p base = Some DirNode" "prefix base p"
    by (rule upload_setup [OF inv v]) (rule that)
  let ?fs1 = "with_dirs (ls_fs s) p"
  define t1 where "t1 = temp_file_name pid now (ls_counter s) nm"
  define t2 where "t2 = temp_file_name pid now (Suc (ls_counter s)) (nm @ ''.expires'')"
  define fs2 where "fs2 = ?fs1(p @ [t1] := None, p @ [nm] \<mapsto> FileNode data)"
  have lf: "leaf (?fs1 (p @ [x]))" for x
    using su(9) by simp
  have nt: "temp_file_name pid now n x \<noteq> nm" "temp_file_name pid now n x \<noteq> nm @ ''.expires''" for n x
    using data_name_not_temp [OF su(3)] by simp_all
  have ne: "t1 \<noteq> nm" "t2 \<noteq> nm" "t1 \<noteq> nm @ ''.expires''" "t2 \<noteq> nm @ ''.expires''"
    using nt by (auto simp: t1_def t2_def)
  obtain r0 states0 where st: "stage_file fl (p @ [t1]) data ?fs1 = (r0, states0)"
    by fastforce
  note eq = upload_trace_eq [OF resolve_valid [OF v, of base, unfolded su(4)] su(8,7,10) with_dirs_self su(11) lf lf nt(1), where fl = fl and fls = fls and ttl = ttl and data = data]
  have tr: "local_upload_trace fl fls pid base now key data ttl s =
      (case r0 of
         Inl e \<Rightarrow> (Inl (plain_error e), try_remove (fl_cleanup fl) (p @ [t1]) (hd states0) # states0 @ [ls_fs s],
                   ls_counter s + 1)
       | Inr _ \<Rightarrow>
          if fl_rename fl
          then (Inl (plain_error ''Failed to atomically rename temp file into place''), states0 @ [ls_fs s],
                ls_counter s + 1)
          else (Inr (), write_sidecar fls (p @ [nm @ ''.expires'']) (p @ [t2]) now ttl fs2 @ states0 @ [ls_fs s],
                if ttl = None then ls_counter s + 1 else ls_counter s + 2))"
    using eq unfolding t1_def [symmetric] t2_def [symmetric] fs2_def [symmetric] st by simp
  have s0: "states0 \<noteq> []" "\<And>x. x \<in> set states0 \<Longrightarrow> x = ?fs1 \<or> (\<exists>d. x = ?fs1(p @ [t1] \<mapsto> FileNode d))"
    using stage_file_states [OF su(7) with_dirs_self lf, of fl t1 data] by (auto simp: st)
  have s0q: "x q = ?fs1 q" if "x \<in> set states0" "q \<noteq> p @ [t1]" for x q
    using s0(2) [OF that(1)] that(2) by auto
  have s0n: "x (p @ [nm]) = ls_fs s (p @ [nm])" if "x \<in> set states0" for x
    using s0q [OF that, of "p @ [nm]"] ne by simp
  have h0: "hd states0 = ?fs1 \<or> (\<exists>d. hd states0 = ?fs1(p @ [t1] \<mapsto> FileNode d))"
    using s0 by simp
  have "tree (hd states0)" "hd states0 p = Some DirNode" "leaf (hd states0 (p @ [t1]))"
    by (rule disjE [OF h0]; use su(7) lf tree_leaf [OF su(7) lf] with_dirs_self [of "ls_fs s" p] in fastforce)+
  then have rm: "try_remove (fl_cleanup fl) (p @ [t1]) (hd states0) = hd states0
      \<or> try_remove (fl_cleanup fl) (p @ [t1]) (hd states0) = (hd states0)(p @ [t1] := None)"
    by (rule try_remove_cases)
  have t2': "tree fs2" "fs2 p = Some DirNode" "\<And>x. leaf (fs2 (p @ [x]))"
  proof -
    have a: "tree (?fs1(p @ [t1] := None))"
      using tree_leaf [OF su(7) lf] by simp
    show "tree fs2"
      unfolding fs2_def using tree_leaf [OF a, of p nm "Some (FileNode data)"] lf with_dirs_self [of "ls_fs s" p] by simp
    show "fs2 p = Some DirNode" "\<And>x. leaf (fs2 (p @ [x]))"
      using lf with_dirs_self [of "ls_fs s" p] by (simp_all add: fs2_def)
  qed
  have f2: "fs2 (p @ [nm]) = Some (FileNode data)" "\<And>q. q \<noteq> p @ [nm] \<Longrightarrow> q \<noteq> p @ [t1] \<Longrightarrow> fs2 q = ?fs1 q"
    by (simp_all add: fs2_def)
  note ws = write_sidecar_states [OF t2'(1,2,3,3) ne(4), of fls now ttl]
  have goal: "states \<noteq> []
       \<and> (\<forall>st \<in> set states. \<forall>q. q \<notin> {p @ [nm], p @ [nm @ ''.expires''], p @ [t1], p @ [t2]} \<longrightarrow>
            st q = ls_fs s q \<or> st q = ?fs1 q)
       \<and> (\<forall>st \<in> set states. st (p @ [nm]) = ls_fs s (p @ [nm])
            \<or> r = Inr () \<and> st (p @ [nm]) = Some (FileNode data))
       \<and> (r = Inr () \<longrightarrow> hd states (p @ [nm]) = Some (FileNode data))"
    if r: "local_upload_trace fl fls pid base now key data ttl s = (r, states, n)" for r states n
  proof -
    define good where "good st \<longleftrightarrow> (\<forall>q. q \<notin> {p @ [nm], p @ [nm @ ''.expires''], p @ [t1], p @ [t2]} \<longrightarrow>
        st q = ls_fs s q \<or> st q = ?fs1 q) \<and> (st (p @ [nm]) = ls_fs s (p @ [nm])
        \<or> r = Inr () \<and> st (p @ [nm]) = Some (FileNode data))" for st :: fs
    have s0g: "good st" if "st \<in> set states0 \<or> st = ls_fs s" for st
      using that s0q [of st] s0n [of st] unfolding good_def by blast
    have "states \<noteq> [] \<and> (\<forall>st \<in> set states. good st)
        \<and> (r = Inr () \<longrightarrow> hd states (p @ [nm]) = Some (FileNode data))"
  proof (cases "r = Inr ()")
    case True
    then have stt: "states = write_sidecar fls (p @ [nm @ ''.expires'']) (p @ [t2]) now ttl fs2 @ states0 @ [ls_fs s]"
      using r unfolding tr by (cases r0; cases "fl_rename fl") simp_all
    have b: "x (p @ [nm]) = Some (FileNode data)"
      if "x \<in> set (write_sidecar fls (p @ [nm @ ''.expires'']) (p @ [t2]) now ttl fs2)" for x
      using ws that ne f2 by auto
    then have "hd states (p @ [nm]) = Some (FileNode data)"
      using ws by (simp add: stt)
    moreover have w: "x q = ?fs1 q" if "x \<in> set (write_sidecar fls (p @ [nm @ ''.expires'']) (p @ [t2]) now ttl fs2)"
      "q \<notin> {p @ [nm], p @ [nm @ ''.expires''], p @ [t1], p @ [t2]}" for x q
    proof -
      have "x q = fs2 q"
        using conjunct2 [OF ws] that by (metis insert_iff)
      then show ?thesis
        using f2(2) [of q] that(2) by simp
    qed
    moreover have "good st" if m: "st \<in> set states" for st
    proof -
      consider "st \<in> set (write_sidecar fls (p @ [nm @ ''.expires'']) (p @ [t2]) now ttl fs2)"
        | "st \<in> set states0 \<or> st = ls_fs s"
        using m unfolding stt by auto
      then show ?thesis
      proof cases
        case 1
        then show ?thesis
          using w [OF 1] b [OF 1] True unfolding good_def by blast
      qed (rule s0g)
    qed
    ultimately show ?thesis
      using conjunct1 [OF ws] by (simp add: stt)
  next
    case False
    then have stt: "states = states0 @ [ls_fs s]
        \<or> states = try_remove (fl_cleanup fl) (p @ [t1]) (hd states0) # states0 @ [ls_fs s]"
      using r unfolding tr by (cases r0; cases "fl_rename fl") simp_all
    moreover have "try_remove (fl_cleanup fl) (p @ [t1]) (hd states0) q = ?fs1 q" if "q \<noteq> p @ [t1]" for q
      using rm s0q [OF hd_in_set [OF s0(1)] that] that by auto
    moreover have "try_remove (fl_cleanup fl) (p @ [t1]) (hd states0) (p @ [nm]) = ls_fs s (p @ [nm])"
      using rm s0n [OF hd_in_set [OF s0(1)]] ne by auto
    ultimately have "good (try_remove (fl_cleanup fl) (p @ [t1]) (hd states0))"
      by (simp add: good_def)
    then have "\<forall>st \<in> set states. good st"
      using stt s0g by auto
    then show ?thesis
      using stt s0(1) False by auto
  qed
  then show ?thesis
    unfolding good_def by blast
  qed
  show thesis
    by (rule that [OF su(1-4) _ _ goal]) (simp_all add: t1_def t2_def temp_name_head)
qed


lemma local_upload_final:
  assumes inv: "local_invar base pre s" and v: "valid_key pre key"
  obtains nm p t1 t2 where "p = base @ sanitize_relative pre @ [take 2 nm]" "key = pre @ nm" "data_name nm"
    "resolve_key base key = p @ [nm]" "hd t1 = CHR ''.''" "hd t2 = CHR ''.''"
    "fst (local_upload pid base now key ct data ttl s) = Inr ()"
    "ls_fs (snd (local_upload pid base now key ct data ttl s))
     = (let fs2 = (with_dirs (ls_fs s) p)(p @ [t1] := None, p @ [nm] \<mapsto> FileNode data) in
        case ttl of
          None \<Rightarrow> fs2(p @ [nm @ ''.expires''] := None)
        | Some lt \<Rightarrow> fs2(p @ [t2] := None, p @ [nm @ ''.expires''] \<mapsto> FileNode (show_nat (expiry_secs now lt))))"
    "local_invar base pre (snd (local_upload pid base now key ct data ttl s))"
proof (rule upload_setup [OF inv v])
  fix nm p
  assume su: "p = base @ sanitize_relative pre @ [take 2 nm]" "key = pre @ nm" "data_name nm"
    "resolve_key base key = p @ [nm]" "dirs_only (ls_fs s) p" "tree (ls_fs s)" "tree (with_dirs (ls_fs s) p)"
    "create_dir_all (ls_fs s) p = Inr (with_dirs (ls_fs s) p)"
    "\<And>x. leaf (ls_fs s (p @ [x]))" "with_dirs (ls_fs s) p base = Some DirNode" "prefix base p"
  let ?fs1 = "with_dirs (ls_fs s) p"
  define t1 where "t1 = temp_file_name pid now (ls_counter s) nm"
  define t2 where "t2 = temp_file_name pid now (Suc (ls_counter s)) (nm @ ''.expires'')"
  define fs2 where "fs2 = ?fs1(p @ [t1] := None, p @ [nm] \<mapsto> FileNode data)"
  have lf: "leaf (?fs1 (p @ [x]))" for x
    using su(9) by simp
  have nt: "temp_file_name pid now n x \<noteq> nm" "temp_file_name pid now n x \<noteq> nm @ ''.expires''" for n x
    using data_name_not_temp [OF su(3)] by simp_all
  have ne: "t2 \<noteq> nm @ ''.expires''"
    using nt by (auto simp: t2_def)
  have n2: "length (take 2 nm) = 2"
    by (rule data_name_len [OF su(3)])
  obtain states0 where st: "stage_file no_faults (p @ [t1]) data ?fs1 = (Inr (), states0)"
    using stage_file_no_faults [OF su(7) with_dirs_self lf, of t1 data] by (metis prod.collapse)
  note eq = upload_trace_eq [OF resolve_valid [OF v, of base, unfolded su(4)] su(8,7,10) with_dirs_self su(11) lf lf nt(1), where fl = no_faults
      and fls = no_faults and ttl = ttl and data = data]
  have tr: "local_upload_trace no_faults no_faults pid base now key data ttl s =
      (Inr (), write_sidecar no_faults (p @ [nm @ ''.expires'']) (p @ [t2]) now ttl fs2 @ states0 @ [ls_fs s],
                if ttl = None then ls_counter s + 1 else ls_counter s + 2)"
    using eq unfolding t1_def [symmetric] t2_def [symmetric] fs2_def [symmetric] st by simp
  have l1: "layout base pre ?fs1"
    using layout_dirs [OF _ su(1) n2] inv by (simp add: local_invar_def)
  have l2: "layout base pre fs2"
    unfolding fs2_def
    by (intro layout_leaf [OF layout_leaf [OF l1 su(1) n2] su(1) n2]) (simp_all add: with_dirs_self)
  have f2: "tree fs2" "fs2 p = Some DirNode" "leaf (fs2 (p @ [x]))" for x
  proof -
    show "tree fs2"
      using l2 by (simp add: layout_def)
    show "fs2 p = Some DirNode" "leaf (fs2 (p @ [x]))"
      using lf with_dirs_self [of "ls_fs s" p] by (simp_all add: fs2_def)
  qed
  note ws = write_sidecar_states [OF f2(1,2,3,3) ne, of no_faults now ttl]
  note fin = write_sidecar_no_faults [OF f2(1,2,3,3) ne, of now ttl]
  have h: "ls_fs (snd (local_upload pid base now key ct data ttl s))
      = (case ttl of None \<Rightarrow> fs2(p @ [nm @ ''.expires''] := None)
         | Some lt \<Rightarrow> fs2(p @ [t2] := None, p @ [nm @ ''.expires''] \<mapsto> FileNode (show_nat (expiry_secs now lt))))"
    unfolding fin [symmetric] using conjunct1 [OF ws] by (simp add: local_upload_def tr)
  have inv': "local_invar base pre (snd (local_upload pid base now key ct data ttl s))"
    unfolding local_invar_def h
  proof (cases ttl)
    case None
    then show "layout base pre (case ttl of None \<Rightarrow> fs2(p @ [nm @ ''.expires''] := None)
        | Some lt \<Rightarrow> fs2(p @ [t2] := None, p @ [nm @ ''.expires''] \<mapsto> FileNode (show_nat (expiry_secs now lt))))"
      using layout_leaf [OF l2 su(1) n2] by simp
  next
    case (Some lt)
    have "layout base pre (fs2(p @ [t2] := None, p @ [nm @ ''.expires''] \<mapsto> FileNode (show_nat (expiry_secs now lt))))"
      by (intro layout_leaf [OF layout_leaf [OF l2 su(1) n2] su(1) n2]) (simp_all add: f2)
    then show "layout base pre (case ttl of None \<Rightarrow> fs2(p @ [nm @ ''.expires''] := None)
        | Some lt \<Rightarrow> fs2(p @ [t2] := None, p @ [nm @ ''.expires''] \<mapsto> FileNode (show_nat (expiry_secs now lt))))"
      by (simp add: Some)
  qed
  have f: "fst (local_upload pid base now key ct data ttl s) = Inr ()"
    by (simp add: local_upload_def tr)
  show thesis
  proof (rule that [OF su(1-4) _ _ f _ inv', of t1 t2])
    show "hd t1 = CHR ''.''" "hd t2 = CHR ''.''"
      by (simp_all add: t1_def t2_def temp_name_head)
    show "ls_fs (snd (local_upload pid base now key ct data ttl s))
     = (let fs2 = (with_dirs (ls_fs s) p)(p @ [t1] := None, p @ [nm] \<mapsto> FileNode data) in
        case ttl of
          None \<Rightarrow> fs2(p @ [nm @ ''.expires''] := None)
        | Some lt \<Rightarrow> fs2(p @ [t2] := None, p @ [nm @ ''.expires''] \<mapsto> FileNode (show_nat (expiry_secs now lt))))"
      unfolding Let_def fs2_def [symmetric] by (rule h)
  qed
qed

section \<open>The backend contract\<close>

text \<open>The live data under a key: the file's contents unless its sidecar says expired.\<close>

definition local_view :: "path \<Rightarrow> nat \<Rightarrow> local_state \<Rightarrow> string \<Rightarrow> string option" where
  "local_view base t s key =
     (let file_path = resolve_key base key in
      case ls_fs s file_path of
        Some (FileNode d) \<Rightarrow>
          if sidecar_expired t (ls_fs s (expires_sidecar_path file_path)) then None else Some d
      | _ \<Rightarrow> None)"

lemma sidecar_snoc [simp]: "expires_sidecar_path (p @ [nm]) = p @ [nm @ ''.expires'']"
  by (simp add: expires_sidecar_path_def)

lemma local_view_at:
  "resolve_key base key = p @ [nm] \<Longrightarrow> local_view base t s key =
     (case ls_fs s (p @ [nm]) of
        Some (FileNode d) \<Rightarrow> if sidecar_expired t (ls_fs s (p @ [nm @ ''.expires''])) then None else Some d
      | _ \<Rightarrow> None)"
  by (simp add: local_view_def Let_def split: option.split node.split)

lemma valid_place:
  assumes "valid_key pre key"
  obtains nm where "key = pre @ nm" "data_name nm"
    "resolve_key base key = (base @ sanitize_relative pre @ [take 2 nm]) @ [nm]"
  using relative_path_valid [OF assms] by (auto simp: resolve_key_def resolve_def)

text \<open>Two names in one cache directory: files and sidecars of different keys never meet.\<close>

lemma names_apart:
  assumes "data_name a" "data_name b" "a \<noteq> b"
  shows "a @ ''.expires'' \<noteq> b @ ''.expires''" "a @ ''.expires'' \<noteq> b" "b @ ''.expires'' \<noteq> a"
  using assms data_name_sidecar by simp_all

lemma head_dot: "data_name a \<Longrightarrow> hd t = CHR ''.'' \<Longrightarrow> t \<noteq> a \<and> t \<noteq> a @ ''.expires''"
proof -
  assume d: "data_name a" and t: "hd t = CHR ''.''"
  have "a \<noteq> []"
    using d by (auto simp: data_name_def)
  then show ?thesis
    using data_name_head [OF d] t by (metis hd_append2)
qed

lemma expiry_secs_bound: "expiry_secs now l < 2 ^ 64"
proof (cases "now + l < time_limit")
  case True
  then have "(now + l) div 10 ^ 9 < 2 ^ 64"
    by (simp add: time_limit_def div_less_iff_less_mult)
  then show ?thesis
    using True by (simp add: expiry_secs_def checked_add_time_def)
qed (simp add: expiry_secs_def checked_add_time_def)

lemma expiry_secs_late:
  assumes "t + 10 ^ 9 \<le> now + l" "t < time_limit"
  shows "\<not> expiry_secs now l \<le> t div 10 ^ 9"
proof (cases "now + l < time_limit")
  case True
  have "(t + 10 ^ 9) div 10 ^ 9 \<le> (now + l) div 10 ^ 9"
    using assms(1) by (rule div_le_mono)
  then have "t div 10 ^ 9 < (now + l) div 10 ^ 9"
    by simp
  then show ?thesis
    using True by (simp add: expiry_secs_def checked_add_time_def)
next
  case False
  have "t div 10 ^ 9 < 2 ^ 63"
    using assms(2) by (simp add: time_limit_def div_less_iff_less_mult)
  then show ?thesis
    using False by (simp add: expiry_secs_def checked_add_time_def)
qed

lemma expiry_secs_early:
  assumes "now + l \<le> t" "t < time_limit"
  shows "expiry_secs now l \<le> t div 10 ^ 9"
  using assms by (simp add: expiry_secs_def checked_add_time_def div_le_mono)


lemma place_layout:
  assumes "local_invar base pre s" "data_name nm" "p = base @ sanitize_relative pre @ [take 2 nm]"
  shows "tree (ls_fs s)" "dirs_only (ls_fs s) p" "leaf (ls_fs s (p @ [x]))" "length (take 2 nm) = 2"
  using assms data_name_len [OF assms(2)] by (simp_all add: local_invar_def layout_def)

lemma remove_missing:
  assumes "tree fs" "fs p = None" "dirs_only fs p"
  shows "remove_file fs (p @ [x]) = Inl ENoEnt"
  using entry_missing [OF assms, of x] by (simp add: remove_file_def)

lemma remove_present:
  assumes "tree fs" "fs p = Some DirNode" "leaf (fs (p @ [x]))"
  shows "remove_file fs (p @ [x]) = (if fs (p @ [x]) = None then Inl ENoEnt else Inr (fs(p @ [x] := None)))"
  using entry_dir [OF assms(1,2), of x] leaf_cases [OF assms(3)] by (auto simp: remove_file_def)

lemma local_delete_eq:
  assumes inv: "local_invar base pre s" and nm: "data_name nm" "p = base @ sanitize_relative pre @ [take 2 nm]"
    and r: "resolve base key = Inr (p @ [nm])"
  shows "local_delete base now key s
    = (Inr (), s\<lparr>ls_fs := (ls_fs s)(p @ [nm] := None, p @ [nm @ ''.expires''] := None)\<rparr>)"
proof -
  note l = place_layout [OF inv nm]
  let ?fs = "ls_fs s"
  show ?thesis
  proof (cases "?fs p = Some DirNode")
    case True
    have "tree (?fs(p @ [nm] := None))"
      using tree_leaf [OF l(1,3)] by simp
    then have "try_remove False (p @ [nm @ ''.expires'']) (?fs(p @ [nm] := None))
        = ?fs(p @ [nm] := None, p @ [nm @ ''.expires''] := None)"
      using True l(3) by (intro remove_leaf) simp_all
    moreover have "try_remove False (p @ [nm @ ''.expires'']) ?fs = ?fs(p @ [nm @ ''.expires''] := None)"
      by (rule remove_leaf [OF l(1) True l(3)])
    moreover have "?fs(p @ [nm] := None) = ?fs" if "?fs (p @ [nm]) = None"
      using that by (rule fun_upd_idem)
    ultimately show ?thesis
      using remove_present [OF l(1) True l(3), of nm] by (simp add: local_delete_def r Let_def)
  next
    case False
    then have n: "?fs p = None"
      using l(2) by (auto simp: dirs_only_def)
    then have "?fs (p @ [x]) = None" for x
      using l(1) unfolding tree_def by (metis option.distinct(1))
    then have "?fs(p @ [nm] := None, p @ [nm @ ''.expires''] := None) = ?fs"
      by (simp add: fun_upd_idem)
    then show ?thesis
      using remove_missing [OF l(1) n l(2)] by (simp add: local_delete_def r Let_def try_remove_def)
  qed
qed

lemma local_view_upload_same:
  assumes inv: "local_invar base pre s" and v: "valid_key pre key"
  shows "local_view base t (snd (local_upload pid base now key ct data ttl s)) key
    = (if \<exists>l. ttl = Some l \<and> expiry_secs now l \<le> t div 10 ^ 9 then None else Some data)"
proof (rule local_upload_final [OF inv v, of pid now ct data ttl])
  fix nm p t1 t2
  assume f: "p = base @ sanitize_relative pre @ [take 2 nm]" "key = pre @ nm" "data_name nm"
    "resolve_key base key = p @ [nm]" "hd t1 = CHR ''.''" "hd t2 = CHR ''.''"
    "ls_fs (snd (local_upload pid base now key ct data ttl s))
     = (let fs2 = (with_dirs (ls_fs s) p)(p @ [t1] := None, p @ [nm] \<mapsto> FileNode data) in
        case ttl of
          None \<Rightarrow> fs2(p @ [nm @ ''.expires''] := None)
        | Some lt \<Rightarrow> fs2(p @ [t2] := None, p @ [nm @ ''.expires''] \<mapsto> FileNode (show_nat (expiry_secs now lt))))"
  let ?fs = "ls_fs (snd (local_upload pid base now key ct data ttl s))"
  have "nm \<noteq> t2"
    using head_dot [OF f(3,6)] by blast
  then have "?fs (p @ [nm]) = Some (FileNode data)"
    unfolding f(7) Let_def by (cases ttl) simp_all
  moreover have "?fs (p @ [nm @ ''.expires'']) = map_option (\<lambda>l. FileNode (show_nat (expiry_secs now l))) ttl"
    unfolding f(7) Let_def by (cases ttl) simp_all
  ultimately show ?thesis
    by (cases ttl) (simp_all add: local_view_at [OF f(4)] sidecar_expired_show [OF expiry_secs_bound])
qed

lemma local_view_upload_other:
  assumes inv: "local_invar base pre s" and v: "valid_key pre key" "valid_key pre key'" "key' \<noteq> key"
  shows "local_view base t (snd (local_upload pid base now key ct data ttl s)) key' = local_view base t s key'"
proof (rule local_upload_final [OF inv v(1), of pid now ct data ttl])
  fix nm p t1 t2
  assume f: "p = base @ sanitize_relative pre @ [take 2 nm]" "key = pre @ nm" "data_name nm"
    "resolve_key base key = p @ [nm]" "hd t1 = CHR ''.''" "hd t2 = CHR ''.''"
    "ls_fs (snd (local_upload pid base now key ct data ttl s))
     = (let fs2 = (with_dirs (ls_fs s) p)(p @ [t1] := None, p @ [nm] \<mapsto> FileNode data) in
        case ttl of
          None \<Rightarrow> fs2(p @ [nm @ ''.expires''] := None)
        | Some lt \<Rightarrow> fs2(p @ [t2] := None, p @ [nm @ ''.expires''] \<mapsto> FileNode (show_nat (expiry_secs now lt))))"
  obtain nm' where g: "key' = pre @ nm'" "data_name nm'"
    "resolve_key base key' = (base @ sanitize_relative pre @ [take 2 nm']) @ [nm']"
    by (rule valid_place [OF v(2)])
  let ?p' = "base @ sanitize_relative pre @ [take 2 nm']"
  have ne: "nm' \<noteq> nm"
    using v(3) f(2) g(1) by blast
  have u: "ls_fs (snd (local_upload pid base now key ct data ttl s)) (?p' @ [x]) = ls_fs s (?p' @ [x])"
    if "x \<notin> {nm, nm @ ''.expires'', t1, t2}" for x
  proof -
    have "with_dirs (ls_fs s) p (?p' @ [x]) = ls_fs s (?p' @ [x])"
      by (auto simp: with_dirs_def f(1) dest!: prefix_length_le)
    then show ?thesis
      unfolding f(7) Let_def using that by (cases ttl) (simp_all add: f(1))
  qed
  have h: "nm' \<notin> {nm, nm @ ''.expires'', t1, t2}" "nm' @ ''.expires'' \<notin> {nm, nm @ ''.expires'', t1, t2}"
    using head_dot [OF g(2) f(5)] head_dot [OF g(2) f(6)] names_apart [OF g(2) f(3) ne] ne by auto
  show ?thesis
    unfolding local_view_at [OF g(3)] u [OF h(1)] u [OF h(2)] by (rule refl)
qed


lemma local_view_Some:
  "local_view base t s key \<noteq> None \<longleftrightarrow>
     (\<exists>d. ls_fs s (resolve_key base key) = Some (FileNode d)
        \<and> \<not> sidecar_expired t (ls_fs s (expires_sidecar_path (resolve_key base key))))"
  by (auto simp: local_view_def Let_def split: option.splits node.splits)

text \<open>Deleting, and evicting an expired entry, hides exactly the key itself.\<close>

lemma local_view_delete:
  assumes inv: "local_invar base pre s" and v: "valid_key pre key" "valid_key pre key'"
  shows "local_view base t (snd (local_delete base now key s)) key' = (if key' = key then None else local_view base t s key')"
    and "local_invar base pre (snd (local_delete base now key s))" and "fst (local_delete base now key s) = Inr ()"
proof -
  obtain nm where f: "key = pre @ nm" "data_name nm"
    "resolve_key base key = (base @ sanitize_relative pre @ [take 2 nm]) @ [nm]"
    by (rule valid_place [OF v(1)])
  obtain nm' where g: "key' = pre @ nm'" "data_name nm'"
    "resolve_key base key' = (base @ sanitize_relative pre @ [take 2 nm']) @ [nm']"
    by (rule valid_place [OF v(2)])
  let ?p = "base @ sanitize_relative pre @ [take 2 nm]" and ?p' = "base @ sanitize_relative pre @ [take 2 nm']"
  have d: "local_delete base now key s
    = (Inr (), s\<lparr>ls_fs := (ls_fs s)(?p @ [nm] := None, ?p @ [nm @ ''.expires''] := None)\<rparr>)"
    by (rule local_delete_eq [OF inv f(2) refl resolve_valid [OF v(1), of base, unfolded f(3)]])
  show "fst (local_delete base now key s) = Inr ()"
    by (simp add: d)
  have l: "layout base pre (ls_fs s)" "length (take 2 nm) = 2"
    using inv data_name_len [OF f(2)] by (simp_all add: local_invar_def)
  have "layout base pre ((ls_fs s)(?p @ [nm] := None, ?p @ [nm @ ''.expires''] := None))"
    by (intro layout_leaf [OF layout_leaf [OF l(1) refl l(2)] refl l(2)]) simp_all
  then show "local_invar base pre (snd (local_delete base now key s))"
    by (simp add: d local_invar_def)
  show "local_view base t (snd (local_delete base now key s)) key' = (if key' = key then None else local_view base t s key')"
  proof (cases "key' = key")
    case True
    then have "nm' = nm"
      using f(1) g(1) by simp
    then show ?thesis
      using True by (simp add: local_view_at [OF f(3)] d)
  next
    case False
    then have ne: "nm' \<noteq> nm"
      using f(1) g(1) by blast
    have u: "ls_fs (snd (local_delete base now key s)) (?p' @ [x]) = ls_fs s (?p' @ [x])"
      if "x \<notin> {nm, nm @ ''.expires''}" for x
      using that by (simp add: d)
    have h: "nm' \<notin> {nm, nm @ ''.expires''}" "nm' @ ''.expires'' \<notin> {nm, nm @ ''.expires''}"
      using names_apart [OF g(2) f(2) ne] ne by auto
    show ?thesis
      unfolding local_view_at [OF g(3)] u [OF h(1)] u [OF h(2)] using False by simp
  qed
qed

lemma local_metadata:
  assumes inv: "local_invar base pre s" and v: "valid_key pre key"
  shows "metadata (ls_fs s) (resolve_key base key)
    = (case ls_fs s (resolve_key base key) of None \<Rightarrow> Inl ENoEnt | Some nd \<Rightarrow> Inr nd)"
    and "leaf (ls_fs s (resolve_key base key))"
    and "is_expired (ls_fs s) t (expires_sidecar_path (resolve_key base key))
      = sidecar_expired t (ls_fs s (expires_sidecar_path (resolve_key base key)))"
proof -
  obtain nm where f: "key = pre @ nm" "data_name nm"
    "resolve_key base key = (base @ sanitize_relative pre @ [take 2 nm]) @ [nm]"
    by (rule valid_place [OF v])
  note l = place_layout [OF inv f(2) refl]
  have m: "metadata (ls_fs s) (p @ [x]) = Inl ENoEnt"
    if "ls_fs s (p @ [x]) = None" "dirs_only (ls_fs s) p" for p x
    using metadata_missing [OF l(1)] dirs_only_leaf that by blast
  show "metadata (ls_fs s) (resolve_key base key)
    = (case ls_fs s (resolve_key base key) of None \<Rightarrow> Inl ENoEnt | Some nd \<Rightarrow> Inr nd)"
    unfolding f(3) using m [OF _ l(2), of nm] metadata_tree [OF l(1)]
    by (cases "ls_fs s ((base @ sanitize_relative pre @ [take 2 nm]) @ [nm])") simp_all
  show "leaf (ls_fs s (resolve_key base key))"
    unfolding f(3) by (rule l(3))
  show "is_expired (ls_fs s) t (expires_sidecar_path (resolve_key base key))
      = sidecar_expired t (ls_fs s (expires_sidecar_path (resolve_key base key)))"
    by (rule is_expired_tree [OF l(1)])
qed


lemma evict_view:
  assumes inv: "local_invar base pre s" and v: "valid_key pre key" "valid_key pre key'"
    and e: "sidecar_expired now (ls_fs s (expires_sidecar_path (resolve_key base key)))" and t: "now \<le> t"
  shows "local_view base t (snd (local_delete base now key s)) key' = local_view base t s key'"
proof -
  have "local_view base t s key = None"
    using sidecar_expired_mono [OF e t] local_view_Some [of base t s key] by blast
  then show ?thesis
    using local_view_delete(1) [OF inv v] by simp
qed

lemma local_check_cases:
  assumes inv: "local_invar base pre s" and v: "valid_key pre key"
  shows "fst (local_check base now key s) = Inr (local_view base now s key \<noteq> None)
    \<and> (snd (local_check base now key s) = s
       \<or> snd (local_check base now key s) = snd (local_delete base now key s)
         \<and> sidecar_expired now (ls_fs s (expires_sidecar_path (resolve_key base key))))"
  using local_metadata [OF inv v] leaf_cases [OF local_metadata(2) [OF inv v]] resolve_valid [OF v, of base]
  by (auto simp: local_check_def local_view_def Let_def)

lemma local_not_found: "says_not_found (plain_error (''Image not found in local file system: '' @ r))"
  by (rule says_not_found_prefix [where a = "''image ''" and c = "'' in local file system: ''"]) code_simp

lemma local_base_exists:
  assumes "tree fs" "fs (resolve_key base key) = Some nd" "valid_key pre key"
  shows "fs base = Some DirNode"
proof -
  obtain nm where "resolve_key base key = (base @ sanitize_relative pre @ [take 2 nm]) @ [nm]"
    by (rule valid_place [OF assms(3)])
  then obtain c cs where "resolve_key base key = base @ c # cs"
    by (metis append_is_Nil_conv append_assoc neq_Nil_conv not_Cons_self2)
  then show ?thesis
    using tree_parent [OF assms(1), of base c cs] assms(2) by simp
qed

lemma local_get_cases:
  assumes inv: "local_invar base pre s" and v: "valid_key pre key"
  shows "(case local_view base now s key of
           Some d \<Rightarrow> local_get base now key s = (Inr d, s)
         | None \<Rightarrow> (\<exists>r. fst (local_get base now key s) = Inl (plain_error (''Image not found in local file system: '' @ r)))
             \<and> (snd (local_get base now key s) = s
                \<or> snd (local_get base now key s) = snd (local_delete base now key s)
                  \<and> sidecar_expired now (ls_fs s (expires_sidecar_path (resolve_key base key)))))"
proof -
  note m = local_metadata [OF inv v]
  have t: "tree (ls_fs s)"
    using inv by (simp add: local_invar_def layout_def)
  consider "ls_fs s (resolve_key base key) = None" | d where "ls_fs s (resolve_key base key) = Some (FileNode d)"
    using leaf_cases [OF m(2)] by metis
  then show ?thesis
  proof cases
    case 1
    then show ?thesis
      using m resolve_valid [OF v, of base] by (auto simp: local_get_def local_view_def Let_def)
  next
    case 2
    have b: "canonicalize (ls_fs s) base = Inr base"
      using canonicalize_found [OF t] local_base_exists [OF t 2 v] by simp
    have c: "canonicalize (ls_fs s) (resolve_key base key) = Inr (resolve_key base key)"
      using canonicalize_found [OF t] 2 by simp
    have rd: "read_file (ls_fs s) (resolve_key base key) = Inr d"
      using m(1) 2 by (simp add: read_file_def)
    show ?thesis
      using m 2 b c rd prefix_resolve_key resolve_valid [OF v, of base] by (auto simp: local_get_def local_view_def Let_def assert_within_base_def)
  qed
qed

interpretation local: storage_backend "local_backend pid base" "local_invar base pre" "valid_key pre" "local_view base" "\<lambda>_ _. True"
  for pid base pre
proof
  fix s k k' ct d now t ttl l
  assume inv: "local_invar base pre s" and v: "valid_key pre k"
  note del = local_view_delete [OF inv v v, where now = now]
  show "local_invar base pre (snd (be_upload (local_backend pid base) now k ct d ttl s))"
    by (rule local_upload_final [OF inv v, of pid now ct d ttl]) (simp add: local_backend_def)
  show "local_invar base pre (snd (be_check (local_backend pid base) now k s))"
    using local_check_cases [OF inv v, of now] del(2) inv by (auto simp: local_backend_def)
  show "local_invar base pre (snd (be_get (local_backend pid base) now k s))"
    using local_get_cases [OF inv v, of now] del(2) inv by (auto simp: local_backend_def split: option.splits)
  show "local_invar base pre (snd (be_delete (local_backend pid base) now k s))"
    using del(2) by (simp add: local_backend_def)
  show "fst (be_upload (local_backend pid base) now k ct d ttl s) = Inr ()"
    by (rule local_upload_final [OF inv v, of pid now ct d ttl]) (simp add: local_backend_def)
  show "case ttl of None \<Rightarrow> True | Some l \<Rightarrow> t + 10 ^ 9 \<le> now + l \<Longrightarrow> t < time_limit
      \<Longrightarrow> local_view base t (snd (be_upload (local_backend pid base) now k ct d ttl s)) k = Some d"
    using expiry_secs_late [of t now] local_view_upload_same [OF inv v, of t pid now ct d ttl]
    by (auto simp: local_backend_def split: option.splits)
  show "now + l \<le> t \<Longrightarrow> t < time_limit
      \<Longrightarrow> local_view base t (snd (be_upload (local_backend pid base) now k ct d (Some l) s)) k = None"
    using expiry_secs_early [of now l t] local_view_upload_same [OF inv v, of t pid now ct d "Some l"]
    by (simp add: local_backend_def)
  show "local_view base t (snd (be_upload (local_backend pid base) now k ct d ttl s)) k' = local_view base t s k'"
    if "valid_key pre k'" "k' \<noteq> k"
    using local_view_upload_other [OF inv v that] by (simp add: local_backend_def)
  show "fst (be_check (local_backend pid base) now k s) = Inr (local_view base now s k \<noteq> None)"
    using local_check_cases [OF inv v, of now] by (simp add: local_backend_def)
  show "local_view base t (snd (be_check (local_backend pid base) now k s)) k' = local_view base t s k'"
    if "valid_key pre k'" "now \<le> t"
    using local_check_cases [OF inv v, of now] evict_view [OF inv v that(1) _ that(2)] by (auto simp: local_backend_def)
  show "local_view base now s k = Some d \<Longrightarrow> fst (be_get (local_backend pid base) now k s) = Inr d"
    using local_get_cases [OF inv v, of now] by (simp add: local_backend_def)
  show "local_view base now s k = None \<Longrightarrow> \<exists>e. fst (be_get (local_backend pid base) now k s) = Inl e \<and> says_not_found e"
    using local_get_cases [OF inv v, of now] local_not_found by (auto simp: local_backend_def)
  show "local_view base t (snd (be_get (local_backend pid base) now k s)) k' = local_view base t s k'"
    if "valid_key pre k'" "now \<le> t"
    using local_get_cases [OF inv v, of now] evict_view [OF inv v that(1) _ that(2)]
    by (auto simp: local_backend_def split: option.splits)
  show "fst (be_delete (local_backend pid base) now k s) = Inr ()"
    using del(3) by (simp add: local_backend_def)
  show "local_view base t (snd (be_delete (local_backend pid base) now k s)) k' = (if k' = k then None else local_view base t s k')"
    if "valid_key pre k'"
    using local_view_delete(1) [OF inv v that] by (simp add: local_backend_def)
  show "local_view base t' s k = local_view base t s k" if "t \<le> t'" "local_view base t' s k \<noteq> None" for t'
    using that sidecar_expired_mono [OF _ that(1)] by (auto simp: local_view_def Let_def split: option.splits node.splits if_splits)
qed simp_all


section \<open>Links cannot lead a read outside the base directory\<close>

text \<open>A path that is its own canonical form: directories all the way and no link at the end.\<close>

definition solid :: "fs \<Rightarrow> path \<Rightarrow> bool" where
  "solid fs q \<longleftrightarrow> (\<forall>p. strict_prefix p q \<and> p \<noteq> [] \<longrightarrow> fs p = Some DirNode)
     \<and> (q = [] \<or> (\<exists>nd. fs q = Some nd \<and> (\<forall>t. nd \<noteq> LinkNode t)))"

lemma solid_snoc:
  "solid fs cur \<Longrightarrow> cur = [] \<or> fs cur = Some DirNode \<Longrightarrow> fs (cur @ [c]) = Some nd \<Longrightarrow> \<forall>t. nd \<noteq> LinkNode t
   \<Longrightarrow> solid fs (cur @ [c])"
  by (auto simp: solid_def strict_prefix_def prefix_snoc)

lemma walk_solid:
  "walk fs n cur cs = Inr q \<Longrightarrow> solid fs cur \<Longrightarrow> cur = [] \<or> cs = [] \<or> fs cur = Some DirNode \<Longrightarrow> solid fs q"
proof (induction fs n cur cs rule: walk.induct)
  case (2 fs n cur c cs)
  have d: "cur = [] \<or> fs cur = Some DirNode"
    using 2 by simp
  show ?case
  proof (cases "fs (cur @ [c])")
    case (Some nd)
    note sn = solid_snoc [OF "2.prems"(2) d Some]
    show ?thesis
    proof (cases nd)
      case (FileNode b)
      then have "q = cur @ [c]"
        using "2.prems"(1) Some by (simp split: if_splits)
      then show ?thesis
        using sn FileNode by simp
    next
      case DirNode
      then have "walk fs n (cur @ [c]) cs = Inr q"
        using "2.prems"(1) Some by simp
      then show ?thesis
        using "2.IH"(1) Some DirNode sn by simp
    next
      case (LinkNode t)
      then obtain m where "n = Suc m" "walk fs m [] (t @ cs) = Inr q"
        using "2.prems"(1) Some by (simp split: nat.splits)
      moreover have "solid fs []"
        by (simp add: solid_def)
      ultimately show ?thesis
        using "2.IH"(2) Some LinkNode by simp
    qed
  qed (use "2.prems" in simp)
qed simp

lemma walk_of_solid:
  "solid fs (cur @ cs) \<Longrightarrow> walk fs n cur cs = Inr (cur @ cs)"
proof (induction cs arbitrary: cur)
  case (Cons c cs)
  show ?case
  proof (cases cs)
    case Nil
    then show ?thesis
      using Cons.prems by (auto simp: solid_def split: node.split)
  next
    case (Cons d ds)
    then have "fs (cur @ [c]) = Some DirNode"
      using Cons.prems by (auto simp: solid_def strict_prefix_def)
    then show ?thesis
      using Cons.IH [of "cur @ [c]"] Cons.prems by simp
  qed
qed simp

lemma read_canonical:
  assumes "canonicalize fs p = Inr q" "read_file fs q = Inr d"
  shows "fs q = Some (FileNode d)"
proof -
  have "solid fs q"
    using walk_solid [of fs max_links "[]" p q] assms(1) by (simp add: canonicalize_def solid_def)
  then have "canonicalize fs q = Inr q"
    using walk_of_solid [of fs "[]" q max_links] by (simp add: canonicalize_def)
  then show ?thesis
    using assms(2) by (auto simp: read_file_def metadata_def bindr_def ok_or_def split: option.splits node.splits)
qed

lemma filter_split_no_slash: "list_all (\<lambda>c. CHR ''/'' \<notin> set c) (split_on CHR ''/'' s)"
  using set_split_on by (auto simp: list_all_iff)

lemma split_on_concat_set: "w \<in> set (split_on c s) \<Longrightarrow> set w \<subseteq> set s"
proof (induction s arbitrary: w)
  case (Cons x s)
  obtain v vs where v: "split_on c s = v # vs"
    by (metis split_on_not_Nil neq_Nil_conv)
  then have "w = [] \<or> w \<in> set (v # vs) \<or> w = x # v"
    using Cons.prems by (auto split: if_splits)
  then show ?case
    using Cons.IH [of w] Cons.IH [of v] v by auto
qed simp

lemma split_on_hd:
  assumes "c \<notin> set h"
  shows "\<exists>w ws. split_on c (h @ s) = (h @ w) # ws \<and> split_on c s = w # ws"
proof (cases "c \<in> set s")
  case True
  then obtain a b where s: "s = a @ c # b" "c \<notin> set a"
    by (metis split_list_first)
  then show ?thesis
    using assms split_on_append [of c "h @ a" b] split_on_append [of c a b] by simp
next
  case False
  then show ?thesis
    using assms split_on_no_delim [of c "h @ s"] split_on_no_delim [of c s] by simp
qed


definition safe_component :: "string \<Rightarrow> bool" where
  "safe_component c \<longleftrightarrow> c \<noteq> '''' \<and> c \<noteq> ''.'' \<and> c \<noteq> ''..'' \<and> CHR ''/'' \<notin> set c"

lemma sanitize_safe: "list_all safe_component (sanitize_relative s)"
  using set_split_on by (auto simp: sanitize_relative_def list_all_iff safe_component_def)

lemma hexdigit_not_special: "is_ascii_hexdigit c \<Longrightarrow> c \<noteq> CHR ''.'' \<and> c \<noteq> CHR ''/''"
  by (auto simp: is_ascii_hexdigit_def to_digit16_def)

lemma push_safe:
  assumes h: "h \<noteq> []" "list_all is_ascii_hexdigit h" and e: "CHR ''.'' \<notin> set e" and p: "list_all safe_component p"
  shows "list_all safe_component (push_path (push_path p (take n h)) (h @ ''.'' @ e))"
proof -
  have hd: "hd h \<noteq> CHR ''.''" "CHR ''/'' \<notin> set h"
    using h hexdigit_not_special by (auto simp: list_all_iff)
  have t: "CHR ''/'' \<notin> set (take n h)"
    using hd(2) by (auto dest: in_set_takeD)
  have t2: "take n h \<noteq> ''..''"
    using hd(1) by (cases h; cases n) auto
  have p1: "list_all safe_component (push_path p (take n h))"
    using p split_on_no_delim [OF t] t t2 by (simp add: push_path_def safe_component_def)
  have sl: "CHR ''/'' \<notin> set (h @ ''.'')"
    using hd(2) by simp
  obtain w ws where w: "split_on CHR ''/'' (h @ ''.'' @ e) = (h @ ''.'' @ w) # ws" "split_on CHR ''/'' e = w # ws"
    using split_on_hd [OF sl, of e] by auto
  have wm: "CHR ''/'' \<notin> set c" "CHR ''.'' \<notin> set c" if "c \<in> set (w # ws)" for c
    using set_split_on [of c "CHR ''/''" e] split_on_concat_set [of c "CHR ''/''" e] that e w(2) by auto
  have "safe_component (h @ ''.'' @ w)"
    using hd wm [of w] h(1) by (cases h) (auto simp: safe_component_def)
  moreover have "safe_component c" if "c \<in> set ws" "c \<noteq> ''''" for c
    using wm [of c] that by (auto simp: safe_component_def)
  ultimately show ?thesis
    using p1 w(1) by (auto simp: push_path_def [of "push_path p (take n h)"] list_all_iff)
qed

lemma relative_path_safe: "relative_path key = Inr rel \<Longrightarrow> list_all safe_component rel"
proof -
  assume r: "relative_path key = Inr rel"
  then obtain parts where p: "split_key key = Inr parts"
    by (auto simp: relative_path_def bindr_Inr_iff)
  show ?thesis
  proof (cases parts)
    case None
    then show ?thesis
      using r p sanitize_safe by (auto simp: relative_path_def)
  next
    case (Some x)
    obtain pre h e where x: "x = (pre, h, e)"
      by (metis prod_cases3)
    have "CHR ''.'' \<notin> set e"
      using p by (auto simp: Some x split_key_def rsplit_once_Some_iff Let_def split: option.splits if_splits)
    then show ?thesis
      using r p push_safe [OF _ _ _ sanitize_safe [of pre], of h e] sanitize_safe [of key]
      by (auto simp: relative_path_def Some x Let_def split: if_splits)
  qed
qed

section \<open>Properties\<close>

text \<open>
  C23. No key, valid or not, names a path outside the base directory: a key resolves to the
  base followed by components that are not empty, not a dot, not two dots, and contain
  no slash.  The one other outcome is a panic, for exactly the keys that have the byte
  of an unfinished character 64 bytes before their last dot; no valid key is one of them.
\<close>
theorem local_paths_below_base:
  "(case resolve base key of
      Inr p \<Rightarrow> \<exists>rel. p = base @ rel \<and> list_all (\<lambda>c. c \<noteq> '''' \<and> c \<noteq> ''.'' \<and> c \<noteq> ''..'' \<and> CHR ''/'' \<notin> set c) rel
    | Inl _ \<Rightarrow> \<not> valid_key pre key)
   \<and> (resolve base key = Inl () \<longleftrightarrow>
       (\<exists>before ext. key = before @ ''.'' @ ext \<and> CHR ''.'' \<notin> set ext \<and> 64 < length before
          \<and> 128 \<le> byte (before ! (length before - 64)) \<and> byte (before ! (length before - 64)) < 192))"
proof
  show "case resolve base key of
      Inr p \<Rightarrow> \<exists>rel. p = base @ rel \<and> list_all (\<lambda>c. c \<noteq> '''' \<and> c \<noteq> ''.'' \<and> c \<noteq> ''..'' \<and> CHR ''/'' \<notin> set c) rel
    | Inl _ \<Rightarrow> \<not> valid_key pre key"
    using relative_path_safe [of key] resolve_valid [of pre key base]
    by (auto simp: resolve_def safe_component_def [abs_def] bindr_Inr_iff split: sum.splits)
  have "resolve base key = Inl () \<longleftrightarrow> split_key key = Inl ()"
    by (auto simp: resolve_def relative_path_def Let_def bindr_def split: sum.splits option.splits)
  then show "resolve base key = Inl () \<longleftrightarrow>
       (\<exists>before ext. key = before @ ''.'' @ ext \<and> CHR ''.'' \<notin> set ext \<and> 64 < length before
          \<and> 128 \<le> byte (before ! (length before - 64)) \<and> byte (before ! (length before - 64)) < 192)"
    unfolding split_key_panics .
qed

text \<open>
  A read never leaves the base directory, whatever symbolic links have been
  planted: data that \<^verbatim>\<open>get_image\<close> returns is the contents of a regular file whose
  canonical path lies below the canonical base.
\<close>
theorem local_get_within_base:
  assumes "fst (local_get base now key s) = Inr d"
  shows "\<exists>canonical_base q. canonicalize (ls_fs s) base = Inr canonical_base
     \<and> canonicalize (ls_fs s) (resolve_key base key) = Inr q
     \<and> prefix canonical_base q \<and> ls_fs s q = Some (FileNode d)"
  using assms read_canonical [of "ls_fs s" "resolve_key base key"]
  by (auto simp: local_get_def resolve_key_def Let_def assert_within_base_def split: sum.splits node.splits if_splits)

text \<open>A fresh cache directory.\<close>

definition fresh_state :: "path \<Rightarrow> local_state" where
  "fresh_state base = \<lparr> ls_fs = (\<lambda>q. if prefix q base then Some DirNode else None), ls_counter = 0 \<rparr>"

lemma fresh_invar: "local_invar base pre (fresh_state base)"
proof -
  have "\<not> prefix (base @ sanitize_relative pre @ [sh, x]) base" for sh x
    by (auto dest!: prefix_length_le)
  then show ?thesis
    by (auto simp: local_invar_def layout_def fresh_state_def tree_def dirs_only_def dest: append_prefixD)
qed

definition sample_key :: string where
  "sample_key = replicate 64 CHR ''a'' @ ''.jpg''"

lemma sample_valid: "valid_key '''' sample_key"
  unfolding valid_key_iff
  by (rule exI [of _ "replicate 64 CHR ''a''"], rule exI [of _ "''jpg''"])
     (simp add: sample_key_def hash_len_def is_lower_hex_def allowed_extensions_def list_all_iff)

theorem local_get_within_base_witness:
  "\<exists>s q. fst (local_get [''data''] 0 sample_key s) = Inr ''img'' \<and> prefix [''data''] q \<and> ls_fs s q = Some (FileNode ''img'')"
proof -
  let ?s = "snd (local_upload 1 [''data''] 0 sample_key ''image/jpeg'' ''img'' None (fresh_state [''data'']))"
  have g: "fst (local_get [''data''] 0 sample_key ?s) = Inr ''img''"
    using local.get_after_upload [OF fresh_invar sample_valid, where t = 0 and now = 0 and ttl = None and ct = "''image/jpeg''" and d = "''img''" and pid = 1 and base = "[''data'']"]
    by (simp add: local_backend_def time_limit_def)
  have "local_invar [''data''] '''' ?s"
    using local.invar_upload [OF fresh_invar sample_valid, where now = 0 and ttl = None and ct = "''image/jpeg''" and d = "''img''" and pid = 1 and base = "[''data'']"]
    by (simp add: local_backend_def)
  then have t: "tree (ls_fs ?s)"
    by (simp add: local_invar_def layout_def)
  obtain cb q where q: "canonicalize (ls_fs ?s) [''data''] = Inr cb"
      "canonicalize (ls_fs ?s) (resolve_key [''data''] sample_key) = Inr q" "prefix cb q" "ls_fs ?s q = Some (FileNode ''img'')"
    using local_get_within_base [OF g] by blast
  have "cb = [''data'']"
  proof -
    have "resolve_key [''data''] sample_key \<noteq> []"
      using prefix_resolve_key [of "[''data'']" sample_key] by auto
    have "ls_fs ?s [''data''] \<noteq> None"
    proof (rule ccontr)
      assume "\<not> ls_fs ?s [''data''] \<noteq> None"
      then have "walk (ls_fs ?s) max_links [] [''data''] = Inl ENoEnt"
        by simp
      then show False
        using q(1) by (simp add: canonicalize_def)
    qed
    then show ?thesis
      using canonicalize_Inr [OF t q(1)] by blast
  qed
  then show ?thesis
    using g q by blast
qed


text \<open>
  C4. Uploads are atomic under any failures: whatever system calls fail, in
  every state the file system goes through, the key's file is the old one or the
  whole new one, the latter only if the upload then reports success, and no
  other key's data or expiry changes.
\<close>
theorem local_upload_atomic:
  assumes "local_invar base pre s" "valid_key pre key"
    "local_upload_trace fl fl_side pid base now key data ttl s = (r, states, n)"
  shows "states \<noteq> []
    \<and> (\<forall>st \<in> set states. st (resolve_key base key) = ls_fs s (resolve_key base key)
         \<or> r = Inr () \<and> st (resolve_key base key) = Some (FileNode data))
    \<and> (r = Inr () \<longrightarrow> hd states (resolve_key base key) = Some (FileNode data))
    \<and> (\<forall>st \<in> set states. \<forall>key'. valid_key pre key' \<and> key' \<noteq> key \<longrightarrow>
         (\<forall>t. local_view base t \<lparr>ls_fs = st, ls_counter = n\<rparr> key' = local_view base t s key'))"
proof (rule upload_states [OF assms(1,2), of fl fl_side pid now data ttl])
  fix nm p t1 t2
  assume f: "p = base @ sanitize_relative pre @ [take 2 nm]" "key = pre @ nm" "data_name nm"
    "resolve_key base key = p @ [nm]" "hd t1 = CHR ''.''" "hd t2 = CHR ''.''"
    and u: "\<And>r states n. local_upload_trace fl fl_side pid base now key data ttl s = (r, states, n) \<Longrightarrow>
       states \<noteq> []
       \<and> (\<forall>st \<in> set states. \<forall>q. q \<notin> {p @ [nm], p @ [nm @ ''.expires''], p @ [t1], p @ [t2]} \<longrightarrow>
            st q = ls_fs s q \<or> st q = with_dirs (ls_fs s) p q)
       \<and> (\<forall>st \<in> set states. st (p @ [nm]) = ls_fs s (p @ [nm])
            \<or> r = Inr () \<and> st (p @ [nm]) = Some (FileNode data))
       \<and> (r = Inr () \<longrightarrow> hd states (p @ [nm]) = Some (FileNode data))"
  note U = u [OF assms(3)]
  have o: "local_view base t \<lparr>ls_fs = st, ls_counter = n\<rparr> key' = local_view base t s key'"
    if st: "st \<in> set states" and k': "valid_key pre key'" "key' \<noteq> key" for st key' t
  proof -
    obtain nm' where g: "key' = pre @ nm'" "data_name nm'"
      "resolve_key base key' = (base @ sanitize_relative pre @ [take 2 nm']) @ [nm']"
      by (rule valid_place [OF k'(1)])
    let ?p' = "base @ sanitize_relative pre @ [take 2 nm']"
    have ne: "nm' \<noteq> nm"
      using k'(2) f(2) g(1) by blast
    have eq: "st (?p' @ [x]) = ls_fs s (?p' @ [x])" if "x \<notin> {nm, nm @ ''.expires'', t1, t2}" for x
    proof -
      have "with_dirs (ls_fs s) p (?p' @ [x]) = ls_fs s (?p' @ [x])"
        by (auto simp: with_dirs_def f(1) dest!: prefix_length_le)
      moreover have "?p' @ [x] \<notin> {p @ [nm], p @ [nm @ ''.expires''], p @ [t1], p @ [t2]}"
        using that by (simp add: f(1))
      ultimately show ?thesis
        using U st by metis
    qed
    have h: "nm' \<notin> {nm, nm @ ''.expires'', t1, t2}" "nm' @ ''.expires'' \<notin> {nm, nm @ ''.expires'', t1, t2}"
      using head_dot [OF g(2) f(5)] head_dot [OF g(2) f(6)] names_apart [OF g(2) f(3) ne] ne by auto
    show ?thesis
      unfolding local_view_at [OF g(3)] local_state.select_convs eq [OF h(1)] eq [OF h(2)] by (rule refl)
  qed
  show ?thesis
    unfolding f(4)
  proof (intro conjI)
    show "\<forall>st \<in> set states. \<forall>key'. valid_key pre key' \<and> key' \<noteq> key \<longrightarrow>
         (\<forall>t. local_view base t \<lparr>ls_fs = st, ls_counter = n\<rparr> key' = local_view base t s key')"
      using o by simp
  qed (use U in simp_all)
qed

definition disk_full :: faults where
  "disk_full = no_faults\<lparr>fl_write := Some 3\<rparr>"

theorem local_upload_atomic_witness:
  "\<exists>states n. local_upload_trace disk_full no_faults 1 [''data''] 0 sample_key ''image'' None (fresh_state [''data''])
      = (Inl (plain_error ''Failed to write image to temp file''), states, n)
    \<and> (\<forall>st \<in> set states. st (resolve_key [''data''] sample_key) = None)"
proof -
  let ?s = "fresh_state [''data'']"
  obtain r states n where t: "local_upload_trace disk_full no_faults 1 [''data''] 0 sample_key ''image'' None ?s = (r, states, n)"
    by (metis prod_cases3)
  have r: "r = Inl (plain_error ''Failed to write image to temp file'')"
  proof (rule upload_setup [OF fresh_invar sample_valid, of "[''data'']"])
    fix nm p
    assume su: "resolve_key [''data''] sample_key = p @ [nm]" "data_name nm"
      "create_dir_all (ls_fs ?s) p = Inr (with_dirs (ls_fs ?s) p)" "tree (with_dirs (ls_fs ?s) p)"
      "with_dirs (ls_fs ?s) p [''data''] = Some DirNode" "prefix [''data''] p" "\<And>x. leaf (ls_fs ?s (p @ [x]))"
    have lf: "leaf (with_dirs (ls_fs ?s) p (p @ [x]))" for x
      using su(7) by simp
    have nt: "temp_file_name 1 0 n x \<noteq> nm" for n x
      using data_name_not_temp [OF su(2)] by simp
    have "fst (stage_file disk_full (p @ [x]) ''image'' (with_dirs (ls_fs ?s) p))
        = Inl ''Failed to write image to temp file''" for x
      using create_leaf [OF su(4) with_dirs_self lf] by (simp add: stage_file_def disk_full_def)
    then show ?thesis
      using upload_trace_eq [OF resolve_valid [OF sample_valid, of "[''data'']", unfolded su(1)] su(3,4,5) with_dirs_self su(6) lf lf nt, of disk_full "''image''" no_faults None] t
      by auto
  qed
  have "ls_fs ?s (resolve_key [''data''] sample_key) = None"
  proof (rule valid_place [OF sample_valid, of "[''data'']"])
    fix nm
    assume "resolve_key [''data''] sample_key = ([''data''] @ sanitize_relative '''' @ [take 2 nm]) @ [nm]"
    then show ?thesis
      by (simp add: fresh_state_def)
  qed
  then show ?thesis
    using local_upload_atomic [OF fresh_invar sample_valid t] t r by auto
qed


lemma not_found_404: "says_not_found e \<Longrightarrow> status_code (classify_download_error e) = 404"
  by (simp add: says_not_found_def classify_download_error_def status_code_def)

text \<open>
  C9. The cache lifecycle over the local file system: after an upload through the
  service, a reader gets exactly the uploaded data until a second before its
  time to live runs out, and from then on a miss that is answered with 404;
  deleting is idempotent and final; other keys are not affected; and the
  directory layout stays in order.
\<close>
theorem local_cache_lifecycle:
  fixes now :: nat
  assumes "sv_backend sv = local_backend pid base" "local_invar base (sv_key_prefix sv) s"
    "valid_key (sv_key_prefix sv) key"
  shows "let s' = snd (service_upload_image_with_ttl sv now key ct d ttl s) in
    fst (service_upload_image_with_ttl sv now key ct d ttl s) = Inr ()
    \<and> local_invar base (sv_key_prefix sv) s'
    \<and> (t < time_limit \<and> (case ttl of None \<Rightarrow> True | Some l \<Rightarrow> t + 10 ^ 9 \<le> now + l) \<longrightarrow>
         fst (service_get_image sv t key s') = Inr d \<and> fst (service_check_cache sv t key s') = Inr True)
    \<and> (t < time_limit \<and> (case ttl of None \<Rightarrow> False | Some l \<Rightarrow> now + l \<le> t) \<longrightarrow>
         fst (service_check_cache sv t key s') = Inr False
         \<and> (\<exists>e. fst (service_get_image sv t key s') = Inl e \<and> status_code (classify_download_error e) = 404))
    \<and> fst (service_delete sv t key s') = Inr ()
    \<and> fst (service_check_cache sv t' key (snd (service_delete sv t key s'))) = Inr False
    \<and> fst (service_delete sv t' key (snd (service_delete sv t key s'))) = Inr ()
    \<and> (valid_key (sv_key_prefix sv) key' \<and> key' \<noteq> key \<longrightarrow>
         fst (service_check_cache sv t key' s') = fst (service_check_cache sv t key' s))"
  using local.service_lifecycle [OF assms(1) _ assms(2,3) TrueI, of now ct d ttl t t' key'] not_found_404
  unfolding Let_def by blast

definition local_service :: "local_state storage_service" where
  "local_service = \<lparr> sv_backend = local_backend 1 [''data''], sv_cdn_base_url = ''https://cdn.example.com'', sv_key_prefix = '''' \<rparr>"

theorem local_cache_lifecycle_witness:
  "let s' = snd (service_upload_image_with_ttl local_service 0 sample_key ''image/jpeg'' ''img'' (Some (60 * 10 ^ 9)) (fresh_state [''data''])) in
     fst (service_get_image local_service (59 * 10 ^ 9) sample_key s') = Inr ''img''
     \<and> fst (service_check_cache local_service (60 * 10 ^ 9) sample_key s') = Inr False"
proof -
  have p: "sv_backend local_service = local_backend 1 [''data'']" "sv_key_prefix local_service = ''''"
    by (simp_all add: local_service_def)
  have i: "local_invar [''data''] (sv_key_prefix local_service) (fresh_state [''data''])"
    by (rule fresh_invar)
  have v: "valid_key (sv_key_prefix local_service) sample_key"
    unfolding p by (rule sample_valid)
  show ?thesis
    using local_cache_lifecycle [OF p(1) i v, of 0 "''image/jpeg''" "''img''" "Some (60 * 10 ^ 9)" "59 * 10 ^ 9"]
      local_cache_lifecycle [OF p(1) i v, of 0 "''image/jpeg''" "''img''" "Some (60 * 10 ^ 9)" "60 * 10 ^ 9"]
    by (simp add: Let_def time_limit_def)
qed

text \<open>A failing sidecar: its states touch nothing but its temporary name.\<close>

definition side_fails :: "faults \<Rightarrow> bool" where
  "side_fails fl \<longleftrightarrow> fl_create fl \<or> fl_write fl \<noteq> None \<or> fl_sync fl \<or> fl_rename fl"

lemma write_sidecar_failed:
  assumes t: "tree fs" and p: "fs p = Some DirNode" and l: "leaf (fs (p @ [x]))" and f: "side_fails fl"
  shows "\<exists>v. leaf v \<and> hd (write_sidecar fl (p @ [y]) (p @ [x]) now (Some lt) fs) = fs(p @ [x] := v)"
proof -
  let ?d = "show_nat (expiry_secs now lt)"
  obtain r states where s: "stage_file fl (p @ [x]) ?d fs = (r, states)"
    by fastforce
  have "states \<noteq> []" "\<forall>st \<in> set states. st = fs \<or> (\<exists>d. st = fs(p @ [x] \<mapsto> FileNode d))"
    using stage_file_states [OF t p l, of fl ?d] by (auto simp: s)
  then have "hd states = fs \<or> (\<exists>d. hd states = fs(p @ [x] \<mapsto> FileNode d))"
    by simp
  then obtain v where v: "leaf v" "hd states = fs(p @ [x] := v)"
    using l by (metis fun_upd_triv leaf_simps(2))
  have "tree (hd states)" "hd states p = Some DirNode" "leaf (hd states (p @ [x]))"
    unfolding v(2) using tree_leaf [OF t l, of v] p v(1) by simp_all
  from try_remove_cases [OF this] have "\<exists>v'. leaf v' \<and> try_remove b (p @ [x]) (hd states) = fs(p @ [x] := v')" for b
    unfolding v(2) using v(1) by (metis fun_upd_upd leaf_simps(1))
  moreover have "fl_rename fl" if "r = Inr ()"
    using f s that by (auto simp: side_fails_def stage_file_def split: sum.splits option.splits if_splits)
  ultimately show ?thesis
    using v \<open>states \<noteq> []\<close> by (cases r) (auto simp: write_sidecar_def s)
qed

text \<open>
  C24. A sidecar that cannot be written leaves the old expiry in force.  When an upload
  stores its data but its sidecar fails at any step (creating, writing, syncing or renaming
  its temporary file, with or without cleaning that up), the upload reports success, and
  the key's sidecar is what it was before.  So a reader gets the new data until an earlier
  upload's time runs out, and a 404 from then on, whatever the new time to live; only when
  there was no sidecar does the entry never expire.
\<close>
theorem local_sidecar_failure_keeps_expiry:
  fixes l :: nat
  assumes "local_invar base pre s" "valid_key pre key" "side_fails fl_side"
    "local_upload_trace no_faults fl_side pid base now key data (Some l) s = (r, states, n)"
  defines "sidecar \<equiv> expires_sidecar_path (resolve_key base key)" and "s' \<equiv> \<lparr>ls_fs = hd states, ls_counter = n\<rparr>"
  shows "r = Inr () \<and> local_invar base pre s' \<and> ls_fs s' sidecar = ls_fs s sidecar
    \<and> (\<forall>t. if sidecar_expired t (ls_fs s sidecar)
           then fst (local_check base t key s') = Inr False
             \<and> (\<exists>e. fst (local_get base t key s') = Inl e \<and> status_code (classify_download_error e) = 404)
           else fst (local_get base t key s') = Inr data)"
proof (rule upload_setup [OF assms(1,2)])
  fix nm p
  assume su: "p = base @ sanitize_relative pre @ [take 2 nm]" "key = pre @ nm" "data_name nm"
    "resolve_key base key = p @ [nm]" "dirs_only (ls_fs s) p" "tree (ls_fs s)" "tree (with_dirs (ls_fs s) p)"
    "create_dir_all (ls_fs s) p = Inr (with_dirs (ls_fs s) p)"
    "\<And>x. leaf (ls_fs s (p @ [x]))" "with_dirs (ls_fs s) p base = Some DirNode" "prefix base p"
  let ?fs1 = "with_dirs (ls_fs s) p"
  define t1 where "t1 = temp_file_name pid now (ls_counter s) nm"
  define t2 where "t2 = temp_file_name pid now (Suc (ls_counter s)) (nm @ ''.expires'')"
  define fs2 where "fs2 = ?fs1(p @ [t1] := None, p @ [nm] \<mapsto> FileNode data)"
  have lf: "leaf (?fs1 (p @ [x]))" for x
    using su(9) by simp
  have nt: "temp_file_name pid now n x \<noteq> nm" "temp_file_name pid now n x \<noteq> nm @ ''.expires''" for n x
    using data_name_not_temp [OF su(3)] by simp_all
  have n2: "length (take 2 nm) = 2"
    by (rule data_name_len [OF su(3)])
  obtain states0 where st: "stage_file no_faults (p @ [t1]) data ?fs1 = (Inr (), states0)"
    using stage_file_no_faults [OF su(7) with_dirs_self lf, of t1 data] by (metis prod.collapse)
  have l2: "layout base pre fs2"
    unfolding fs2_def using assms(1)
    by (intro layout_leaf [OF layout_leaf [OF layout_dirs [OF _ su(1) n2] su(1) n2] su(1) n2])
       (simp_all add: with_dirs_self local_invar_def)
  have f2: "tree fs2" "fs2 p = Some DirNode" "leaf (fs2 (p @ [x]))" for x
    using l2 lf with_dirs_self [of "ls_fs s" p] by (simp_all add: layout_def fs2_def)
  have tr: "local_upload_trace no_faults fl_side pid base now key data (Some l) s =
      (Inr (), write_sidecar fl_side (p @ [nm @ ''.expires'']) (p @ [t2]) now (Some l) fs2 @ states0 @ [ls_fs s],
       ls_counter s + 2)"
    using upload_trace_eq [OF resolve_valid [OF assms(2), of base, unfolded su(4)] su(8,7,10) with_dirs_self su(11) lf lf nt(1), where fl = no_faults
      and fls = fl_side and ttl = "Some l" and data = data]
    unfolding t1_def [symmetric] t2_def [symmetric] fs2_def [symmetric] st by simp
  have "write_sidecar fl_side (p @ [nm @ ''.expires'']) (p @ [t2]) now (Some l) fs2 \<noteq> []"
    using write_sidecar_states [OF f2(1,2,3,3), of t2 "nm @ ''.expires''" fl_side now "Some l"] nt(2) by (simp add: t2_def)
  then obtain v where v: "leaf v" "hd states = fs2(p @ [t2] := v)"
    using write_sidecar_failed [OF f2 assms(3), where x = t2 and y = "nm @ ''.expires''" and now = now and lt = l] tr assms(4) by auto
  have inv': "local_invar base pre s'"
    unfolding s'_def local_invar_def using layout_leaf [OF l2 su(1) n2 v(1)] f2(2) by (simp add: v(2))
  have body: "ls_fs s' (p @ [nm]) = Some (FileNode data)" and same: "ls_fs s' sidecar = ls_fs s sidecar"
    using nt [symmetric] by (simp_all add: s'_def v(2) fs2_def t1_def t2_def sidecar_def su(4))
  have view: "local_view base t s' key = (if sidecar_expired t (ls_fs s sidecar) then None else Some data)" for t
    using body same by (simp add: local_view_at [OF su(4)] sidecar_def su(4))
  have reads: "if sidecar_expired t (ls_fs s sidecar)
           then fst (local_check base t key s') = Inr False
             \<and> (\<exists>e. fst (local_get base t key s') = Inl e \<and> status_code (classify_download_error e) = 404)
           else fst (local_get base t key s') = Inr data" for t
    using local_get_cases [OF inv' assms(2), of t] local_check_cases [OF inv' assms(2), of t] local_not_found not_found_404
    unfolding view by (auto split: if_splits)
  show ?thesis
    using tr assms(4) inv' same reads by simp
qed

definition rename_fails :: faults where
  "rename_fails = no_faults\<lparr>fl_rename := True\<rparr>"

theorem local_sidecar_failure_keeps_expiry_witness:
  "\<exists>s s'. local_invar [''data''] '''' s \<and> fst (local_get [''data''] (59 * 10 ^ 9) sample_key s) = Inr ''old''
     \<and> fst (local_get [''data''] (59 * 10 ^ 9) sample_key s') = Inr ''new''
     \<and> (\<exists>e. fst (local_get [''data''] (71 * 10 ^ 9) sample_key s') = Inl e \<and> status_code (classify_download_error e) = 404)
     \<and> (\<exists>states n. local_upload_trace no_faults rename_fails 1 [''data''] (50 * 10 ^ 9) sample_key ''new'' (Some (10 ^ 12)) s
          = (Inr (), states, n) \<and> s' = \<lparr>ls_fs = hd states, ls_counter = n\<rparr>)"
proof -
  let ?s = "snd (local_upload 1 [''data''] 0 sample_key ''image/jpeg'' ''old'' (Some (60 * 10 ^ 9)) (fresh_state [''data'']))"
  have i: "local_invar [''data''] '''' ?s"
    using local.invar_upload [OF fresh_invar sample_valid] by (simp add: local_backend_def)
  have w: "local_view [''data''] (71 * 10 ^ 9) ?s sample_key = None" "local_view [''data''] (59 * 10 ^ 9) ?s sample_key = Some ''old''"
    using local_view_upload_same [OF fresh_invar sample_valid, of "[''data'']" "71 * 10 ^ 9" 1 0 "''image/jpeg''" "''old''" "Some (60 * 10 ^ 9)"]
      local_view_upload_same [OF fresh_invar sample_valid, of "[''data'']" "59 * 10 ^ 9" 1 0 "''image/jpeg''" "''old''" "Some (60 * 10 ^ 9)"]
    by (simp_all add: expiry_secs_def checked_add_time_def time_limit_def)
  have x: "sidecar_expired (71 * 10 ^ 9) (ls_fs ?s (expires_sidecar_path (resolve_key [''data''] sample_key)))"
      "\<not> sidecar_expired (59 * 10 ^ 9) (ls_fs ?s (expires_sidecar_path (resolve_key [''data''] sample_key)))"
    using w by (auto simp: local_view_def Let_def split: option.splits node.splits if_splits)
  have old: "fst (local_get [''data''] (59 * 10 ^ 9) sample_key ?s) = Inr ''old''"
    using local_get_cases [OF i sample_valid, of "59 * 10 ^ 9"] w(2) by simp
  obtain r states n where t: "local_upload_trace no_faults rename_fails 1 [''data''] (50 * 10 ^ 9) sample_key ''new''
      (Some (10 ^ 12)) ?s = (r, states, n)"
    by (metis prod_cases3)
  have f: "side_fails rename_fails"
    by (simp add: side_fails_def rename_fails_def)
  note k = local_sidecar_failure_keeps_expiry [OF i sample_valid f t]
  have "fst (local_get [''data''] (59 * 10 ^ 9) sample_key \<lparr>ls_fs = hd states, ls_counter = n\<rparr>) = Inr ''new''"
    using k x(2) by metis
  moreover have "\<exists>e. fst (local_get [''data''] (71 * 10 ^ 9) sample_key \<lparr>ls_fs = hd states, ls_counter = n\<rparr>) = Inl e
      \<and> status_code (classify_download_error e) = 404"
    using k x(1) by metis
  ultimately show ?thesis
    using i old k t by blast
qed

end
