(* ===== verification/Storage_S3.thy ===== *)
theory Storage_S3
  imports Storage
begin

text \<open>
  The S3 backend (\<^verbatim>\<open>src/src/services/storage/s3_handler.rs\<close>): what it asks of the SDK's
  client, how it reads the \<^verbatim>\<open>Expires\<close> header back, and how it words its errors.  The
  client is an argument: a record of the four calls and of the SDK's parser of HTTP dates.

  Shown: over a bucket that behaves as a map from keys to bodies and \<^verbatim>\<open>Expires\<close> headers, the
  backend keeps the contract \<^verbatim>\<open>storage_backend\<close>; and whatever the client answers, an
  unreadable date never expires an object and no failure reads as a miss.
\<close>

section \<open>The client\<close>

datatype head_object_error = HeadNotFound | HeadOther string

datatype get_object_error = NoSuchKey | GetOther string

record put_object =
  po_bucket :: string
  po_key :: string
  po_body :: string
  po_content_type :: string
  po_cache_control :: string
  po_expires :: "nat option"

text \<open>\<^verbatim>\<open>head\<close> and \<^verbatim>\<open>get\<close> return the \<^verbatim>\<open>Expires\<close> header; reading the body of a \<^verbatim>\<open>get\<close> may still fail.\<close>

record 's s3_client =
  cl_put :: "put_object \<Rightarrow> 's \<Rightarrow> (string, unit) result \<times> 's"
  cl_head :: "string \<Rightarrow> string \<Rightarrow> 's \<Rightarrow> (head_object_error, string option) result \<times> 's"
  cl_get :: "string \<Rightarrow> string \<Rightarrow> 's \<Rightarrow> (get_object_error, string option \<times> (string, string) result) result \<times> 's"
  cl_delete :: "string \<Rightarrow> string \<Rightarrow> 's \<Rightarrow> (string, unit) result \<times> 's"
  cl_parse_http_date :: "string \<Rightarrow> int option"

record s3_client_config =
  scc_endpoint_url :: string
  scc_credentials :: "string \<times> string"
  scc_region :: string
  scc_force_path_style :: bool

record 's minio_storage =
  ms_client :: "'s s3_client"
  ms_bucket :: string

text \<open>
  Building the client panics (nothing here) when no TLS provider is installed; \<^verbatim>\<open>connect\<close>
  is the SDK's \<^verbatim>\<open>Client::from_conf\<close> with the connector that \<^verbatim>\<open>build_https_client\<close> makes.
\<close>

definition new_minio ::
  "'p option \<Rightarrow> ('p \<Rightarrow> s3_client_config \<Rightarrow> 's s3_client) \<Rightarrow> s3_config \<Rightarrow> 's minio_storage option" where
  "new_minio provider connect config =
     map_option (\<lambda>p.
       \<lparr> ms_client = connect p
           \<lparr> scc_endpoint_url = s3_endpoint_url config, scc_credentials = (s3_access_key config, s3_secret_key config),
             scc_region = s3_region config, scc_force_path_style = True \<rparr>,
         ms_bucket = s3_bucket config \<rparr>) provider"

section \<open>The operations\<close>

text \<open>The seconds of a \<^verbatim>\<open>SystemTime\<close> fit the \<^verbatim>\<open>i64\<close> they are cast to.\<close>

definition s3_is_expired :: "'s minio_storage \<Rightarrow> nat \<Rightarrow> string option \<Rightarrow> bool" where
  "s3_is_expired st now expires =
     (case expires of
        None \<Rightarrow> False
      | Some expires \<Rightarrow>
          (case cl_parse_http_date (ms_client st) expires of
             None \<Rightarrow> False
           | Some secs \<Rightarrow> int (now div 10 ^ 9) \<ge> secs))"

definition s3_error :: "string \<Rightarrow> any_error" where
  "s3_error e = plain_error (''S3 error: '' @ e)"

definition s3_upload ::
  "'s minio_storage \<Rightarrow> nat \<Rightarrow> string \<Rightarrow> string \<Rightarrow> string \<Rightarrow> nat option \<Rightarrow> 's \<Rightarrow> unit io \<times> 's" where
  "s3_upload st now key content_type data ttl s =
     (case cl_put (ms_client st)
             \<lparr> po_bucket = ms_bucket st, po_key = key, po_body = data, po_content_type = content_type,
               po_cache_control = ''public, max-age=31536000, immutable'',
               po_expires = Option.bind ttl (checked_add_time now) \<rparr> s of
        (Inl e, s) \<Rightarrow> (Inl (with_context ''Failed to upload image to MinIO'' (s3_error e)), s)
      | (Inr _, s) \<Rightarrow> (Inr (), s))"

definition s3_delete :: "'s minio_storage \<Rightarrow> nat \<Rightarrow> string \<Rightarrow> 's \<Rightarrow> unit io \<times> 's" where
  "s3_delete st now key s =
     (case cl_delete (ms_client st) (ms_bucket st) key s of
        (Inl e, s) \<Rightarrow> (Inl (with_context (''Failed to delete image from S3: '' @ key) (s3_error e)), s)
      | (Inr _, s) \<Rightarrow> (Inr (), s))"

definition s3_check :: "'s minio_storage \<Rightarrow> nat \<Rightarrow> string \<Rightarrow> 's \<Rightarrow> bool io \<times> 's" where
  "s3_check st now key s =
     (case cl_head (ms_client st) (ms_bucket st) key s of
        (Inr expires, s) \<Rightarrow>
          if s3_is_expired st now expires then (Inr False, snd (s3_delete st now key s)) else (Inr True, s)
      | (Inl HeadNotFound, s) \<Rightarrow> (Inr False, s)
      | (Inl (HeadOther e), s) \<Rightarrow> (Inl (s3_error e), s))"

definition s3_get :: "'s minio_storage \<Rightarrow> nat \<Rightarrow> string \<Rightarrow> 's \<Rightarrow> string io \<times> 's" where
  "s3_get st now key s =
     (case cl_get (ms_client st) (ms_bucket st) key s of
        (Inl NoSuchKey, s) \<Rightarrow> (Inl (plain_error (''Image not found in S3: '' @ key)), s)
      | (Inl (GetOther e), s) \<Rightarrow> (Inl (with_context (''Failed to get image from S3: '' @ key) (s3_error e)), s)
      | (Inr (expires, body), s) \<Rightarrow>
          if s3_is_expired st now expires
          then (Inl (plain_error (''Image not found in S3: '' @ key @ '' (expired)'')), snd (s3_delete st now key s))
          else
            (case body of
               Inl e \<Rightarrow> (Inl (plain_error (''Failed to read S3 response body: '' @ e)), s)
             | Inr data \<Rightarrow> (Inr data, s)))"

definition s3_backend :: "'s minio_storage \<Rightarrow> 's backend" where
  "s3_backend st = \<lparr> be_upload = s3_upload st, be_check = s3_check st, be_get = s3_get st, be_delete = s3_delete st \<rparr>"

section \<open>A bucket that is a map\<close>

text \<open>
  The documented behaviour of a bucket: \<^verbatim>\<open>objects s k\<close> is the body and the \<^verbatim>\<open>Expires\<close> header
  under \<^verbatim>\<open>k\<close>, and \<^verbatim>\<open>http_date\<close> the header the SDK writes for a time, if it can; it is read
  back to the second.
\<close>

definition put_header :: "(nat \<Rightarrow> string option) \<Rightarrow> put_object \<Rightarrow> string option option" where
  "put_header http_date p =
     (case po_expires p of None \<Rightarrow> Some None | Some t \<Rightarrow> map_option Some (http_date t))"

definition bucket_laws ::
  "'s minio_storage \<Rightarrow> ('s \<Rightarrow> string \<Rightarrow> (string \<times> string option) option) \<Rightarrow> (nat \<Rightarrow> string option) \<Rightarrow> bool" where
  "bucket_laws st objects http_date \<longleftrightarrow>
     (\<forall>t h. http_date t = Some h \<longrightarrow> cl_parse_http_date (ms_client st) h = Some (int (t div 10 ^ 9)))
   \<and> (\<forall>p s. po_bucket p = ms_bucket st \<longrightarrow>
        (case put_header http_date p of
           Some h \<Rightarrow> fst (cl_put (ms_client st) p s) = Inr ()
             \<and> objects (snd (cl_put (ms_client st) p s)) = (objects s)(po_key p \<mapsto> (po_body p, h))
         | None \<Rightarrow> objects (snd (cl_put (ms_client st) p s)) = objects s))
   \<and> (\<forall>k s. objects (snd (cl_head (ms_client st) (ms_bucket st) k s)) = objects s
        \<and> fst (cl_head (ms_client st) (ms_bucket st) k s)
            = (case objects s k of None \<Rightarrow> Inl HeadNotFound | Some (body, h) \<Rightarrow> Inr h))
   \<and> (\<forall>k s. objects (snd (cl_get (ms_client st) (ms_bucket st) k s)) = objects s
        \<and> fst (cl_get (ms_client st) (ms_bucket st) k s)
            = (case objects s k of None \<Rightarrow> Inl NoSuchKey | Some (body, h) \<Rightarrow> Inr (h, Inr body)))
   \<and> (\<forall>k s. fst (cl_delete (ms_client st) (ms_bucket st) k s) = Inr ()
        \<and> objects (snd (cl_delete (ms_client st) (ms_bucket st) k s)) = (objects s)(k := None))"

text \<open>What a reader sees, and which expiries the SDK can write.\<close>

definition s3_view ::
  "'s minio_storage \<Rightarrow> ('s \<Rightarrow> string \<Rightarrow> (string \<times> string option) option) \<Rightarrow> nat \<Rightarrow> 's \<Rightarrow> string \<Rightarrow> string option" where
  "s3_view st objects now s k =
     (case objects s k of None \<Rightarrow> None | Some (body, h) \<Rightarrow> if s3_is_expired st now h then None else Some body)"

definition s3_expirable :: "(nat \<Rightarrow> string option) \<Rightarrow> nat \<Rightarrow> nat option \<Rightarrow> bool" where
  "s3_expirable http_date now ttl =
     (case Option.bind ttl (checked_add_time now) of None \<Rightarrow> True | Some t \<Rightarrow> http_date t \<noteq> None)"

section \<open>The contract\<close>

lemma s3_is_expired_mono: "s3_is_expired st t h \<Longrightarrow> t \<le> t' \<Longrightarrow> s3_is_expired st t' h"
  using div_le_mono [of t t' "10 ^ 9"] by (auto simp: s3_is_expired_def split: option.splits)

lemma bucket_lawsD:
  assumes "bucket_laws st objects http_date"
  shows "http_date t = Some e \<Longrightarrow> cl_parse_http_date (ms_client st) e = Some (int (t div 10 ^ 9))"
    and "po_bucket p = ms_bucket st \<Longrightarrow> put_header http_date p = Some h \<Longrightarrow> fst (cl_put (ms_client st) p s) = Inr ()
      \<and> objects (snd (cl_put (ms_client st) p s)) = (objects s)(po_key p \<mapsto> (po_body p, h))"
    and "po_bucket p = ms_bucket st \<Longrightarrow> put_header http_date p = None \<Longrightarrow> objects (snd (cl_put (ms_client st) p s)) = objects s"
    and "objects (snd (cl_head (ms_client st) (ms_bucket st) k s)) = objects s"
    and "fst (cl_head (ms_client st) (ms_bucket st) k s) = (case objects s k of None \<Rightarrow> Inl HeadNotFound | Some (body, h) \<Rightarrow> Inr h)"
    and "objects (snd (cl_get (ms_client st) (ms_bucket st) k s)) = objects s"
    and "fst (cl_get (ms_client st) (ms_bucket st) k s) = (case objects s k of None \<Rightarrow> Inl NoSuchKey | Some (body, h) \<Rightarrow> Inr (h, Inr body))"
    and "fst (cl_delete (ms_client st) (ms_bucket st) k s) = Inr ()"
    and "objects (snd (cl_delete (ms_client st) (ms_bucket st) k s)) = (objects s)(k := None)"
  using assms unfolding bucket_laws_def by (auto split: option.splits)

lemma s3_delete_map:
  assumes "bucket_laws st objects http_date"
  shows "fst (s3_delete st now k s) = Inr () \<and> objects (snd (s3_delete st now k s)) = (objects s)(k := None)"
  using bucket_lawsD(8,9) [OF assms, of k s] by (auto simp: s3_delete_def split: prod.splits sum.splits)

lemma s3_check_map:
  assumes "bucket_laws st objects http_date"
  shows "fst (s3_check st now k s) = Inr (s3_view st objects now s k \<noteq> None)
    \<and> objects (snd (s3_check st now k s))
        = (if \<exists>body h. objects s k = Some (body, h) \<and> s3_is_expired st now h then (objects s)(k := None) else objects s)"
  using bucket_lawsD(4,5) [OF assms, of k s] s3_delete_map [OF assms]
  by (auto simp: s3_check_def s3_view_def split: prod.splits sum.splits option.splits head_object_error.splits)

lemma s3_get_map:
  assumes "bucket_laws st objects http_date"
  shows "(case s3_view st objects now s k of
            Some d \<Rightarrow> fst (s3_get st now k s) = Inr d
          | None \<Rightarrow> \<exists>r. fst (s3_get st now k s) = Inl (plain_error (''Image not found in S3: '' @ r)))
    \<and> objects (snd (s3_get st now k s))
        = (if \<exists>body h. objects s k = Some (body, h) \<and> s3_is_expired st now h then (objects s)(k := None) else objects s)"
  using bucket_lawsD(6,7) [OF assms, of k s] s3_delete_map [OF assms]
  by (auto simp: s3_get_def s3_view_def split: prod.splits sum.splits option.splits get_object_error.splits)

lemma s3_upload_map:
  assumes "bucket_laws st objects http_date"
  shows "(case put_header http_date \<lparr> po_bucket = ms_bucket st, po_key = k, po_body = d, po_content_type = ct,
             po_cache_control = ''public, max-age=31536000, immutable'', po_expires = Option.bind ttl (checked_add_time now) \<rparr> of
            Some h \<Rightarrow> fst (s3_upload st now k ct d ttl s) = Inr ()
              \<and> objects (snd (s3_upload st now k ct d ttl s)) = (objects s)(k \<mapsto> (d, h))
          | None \<Rightarrow> objects (snd (s3_upload st now k ct d ttl s)) = objects s)"
proof -
  let ?p = "\<lparr> po_bucket = ms_bucket st, po_key = k, po_body = d, po_content_type = ct,
     po_cache_control = ''public, max-age=31536000, immutable'', po_expires = Option.bind ttl (checked_add_time now) \<rparr>"
  obtain r s' where "cl_put (ms_client st) ?p s = (r, s')"
    by fastforce
  then show ?thesis
    using bucket_lawsD(2) [OF assms, of ?p _ s] bucket_lawsD(3) [OF assms, of ?p s] by (auto simp: s3_upload_def split: option.splits sum.splits)
qed

lemma s3_not_found: "says_not_found (plain_error (''Image not found in S3: '' @ r))"
  by (rule says_not_found_prefix [where a = "''image ''" and c = "'' in s3: ''"]) code_simp

lemma view_after_eviction:
  assumes "objects s' = (if \<exists>body h. objects s k = Some (body, h) \<and> s3_is_expired st now h then (objects s)(k := None) else objects s)"
    and "now \<le> t"
  shows "s3_view st objects t s' k' = s3_view st objects t s k'"
  using assms s3_is_expired_mono [OF _ assms(2)] by (auto simp: s3_view_def split: option.splits if_splits)

text \<open>
  C10. The S3 backend keeps the contract of a storage backend over every bucket that
  behaves as a map: uploads are seen until their time to live is over and never after,
  other keys are not touched, checks and reads agree, what is missing or expired reads as
  not found, evicting an expired object changes nothing a reader sees, and deleting is
  idempotent.
\<close>
theorem s3_keeps_contract:
  assumes "bucket_laws st objects http_date"
  shows "storage_backend (s3_backend st) (\<lambda>_. True) (\<lambda>_. True) (s3_view st objects) (s3_expirable http_date)"
proof
  fix s k k' ct d now t ttl l
  note up = s3_upload_map [OF assms, where k = k and d = d and ct = ct and ttl = ttl and now = now and s = s]
  show "s3_expirable http_date now None"
    by (simp add: s3_expirable_def)
  show "fst (be_upload (s3_backend st) now k ct d ttl s) = Inr ()" if "s3_expirable http_date now ttl"
    using up that by (auto simp: s3_backend_def put_header_def s3_expirable_def split: option.splits)
  show "s3_view st objects t (snd (be_upload (s3_backend st) now k ct d ttl s)) k = Some d"
    if e: "s3_expirable http_date now ttl" and l: "case ttl of None \<Rightarrow> True | Some l \<Rightarrow> t + 10 ^ 9 \<le> now + l"
  proof (cases "Option.bind ttl (checked_add_time now)")
    case None
    then show ?thesis
      using up by (simp add: s3_backend_def put_header_def s3_view_def s3_is_expired_def)
  next
    case (Some u)
    then have u: "t + 10 ^ 9 \<le> u"
      using l by (auto simp: checked_add_time_def bind_eq_Some_conv split: if_splits)
    obtain h where h: "http_date u = Some h"
      using e Some by (auto simp: s3_expirable_def)
    have "t div 10 ^ 9 < u div 10 ^ 9"
      using div_le_mono [OF u, of "10 ^ 9"] by simp
    then have "\<not> s3_is_expired st t (Some h)"
      using bucket_lawsD(1) [OF assms h] by (simp add: s3_is_expired_def)
    then show ?thesis
      using up Some h by (simp add: s3_backend_def put_header_def s3_view_def)
  qed
  show "s3_view st objects t (snd (be_upload (s3_backend st) now k ct d (Some l) s)) k = None"
    if e: "s3_expirable http_date now (Some l)" and l: "now + l \<le> t" "t < time_limit"
  proof -
    obtain h where h: "http_date (now + l) = Some h"
      using e l by (auto simp: s3_expirable_def checked_add_time_def)
    have "s3_is_expired st t (Some h)"
      using bucket_lawsD(1) [OF assms h] div_le_mono [OF l(1), of "10 ^ 9"] by (simp add: s3_is_expired_def)
    then show ?thesis
      using s3_upload_map [OF assms, where k = k and d = d and ct = ct and ttl = "Some l" and now = now and s = s] l h
      by (simp add: s3_backend_def put_header_def s3_view_def checked_add_time_def)
  qed
  show "s3_view st objects t (snd (be_upload (s3_backend st) now k ct d ttl s)) k' = s3_view st objects t s k'" if "k' \<noteq> k"
    using up that by (auto simp: s3_backend_def s3_view_def split: option.splits)
  show "fst (be_check (s3_backend st) now k s) = Inr (s3_view st objects now s k \<noteq> None)"
    using s3_check_map [OF assms] by (simp add: s3_backend_def)
  show "s3_view st objects t (snd (be_check (s3_backend st) now k s)) k' = s3_view st objects t s k'" if "now \<le> t"
    using view_after_eviction [OF conjunct2 [OF s3_check_map [OF assms, where now = now and k = k and s = s]] that] by (simp add: s3_backend_def)
  show "fst (be_get (s3_backend st) now k s) = Inr d" if "s3_view st objects now s k = Some d"
    using s3_get_map [OF assms, where now = now and k = k and s = s] that by (simp add: s3_backend_def)
  show "\<exists>e. fst (be_get (s3_backend st) now k s) = Inl e \<and> says_not_found e" if "s3_view st objects now s k = None"
    using s3_get_map [OF assms, where now = now and k = k and s = s] that s3_not_found by (auto simp: s3_backend_def)
  show "s3_view st objects t (snd (be_get (s3_backend st) now k s)) k' = s3_view st objects t s k'" if "now \<le> t"
    using view_after_eviction [OF conjunct2 [OF s3_get_map [OF assms, where now = now and k = k and s = s]] that] by (simp add: s3_backend_def)
  show "fst (be_delete (s3_backend st) now k s) = Inr ()"
    using s3_delete_map [OF assms] by (simp add: s3_backend_def)
  show "s3_view st objects t (snd (be_delete (s3_backend st) now k s)) k' = (if k' = k then None else s3_view st objects t s k')"
    using s3_delete_map [OF assms, of now k s] by (simp add: s3_backend_def s3_view_def)
  show "s3_view st objects t' s k = s3_view st objects t s k" if "t \<le> t'" "s3_view st objects t' s k \<noteq> None" for t'
    using that s3_is_expired_mono [OF _ that(1)] by (auto simp: s3_view_def split: option.splits if_splits)
qed simp_all

text \<open>A bucket as a map, which writes a date as so many strokes, up to a last date.\<close>

definition stroke_date :: "nat \<Rightarrow> string option" where
  "stroke_date t = (if t < 10 ^ 12 then Some (replicate (t div 10 ^ 9) CHR ''x'') else None)"

definition map_client :: "(string \<rightharpoonup> string \<times> string option) s3_client" where
  "map_client = \<lparr>
     cl_put = (\<lambda>p s. case put_header stroke_date p of
        Some h \<Rightarrow> (Inr (), s(po_key p \<mapsto> (po_body p, h))) | None \<Rightarrow> (Inl ''bad date'', s)),
     cl_head = (\<lambda>b k s. (case s k of None \<Rightarrow> Inl HeadNotFound | Some (body, h) \<Rightarrow> Inr h, s)),
     cl_get = (\<lambda>b k s. (case s k of None \<Rightarrow> Inl NoSuchKey | Some (body, h) \<Rightarrow> Inr (h, Inr body), s)),
     cl_delete = (\<lambda>b k s. (Inr (), s(k := None))),
     cl_parse_http_date = (\<lambda>h. Some (int (length h))) \<rparr>"

definition map_storage :: "(string \<rightharpoonup> string \<times> string option) minio_storage" where
  "map_storage = \<lparr> ms_client = map_client, ms_bucket = ''image-cache'' \<rparr>"

lemma map_storage_laws: "bucket_laws map_storage id stroke_date"
  by (auto simp: bucket_laws_def map_storage_def map_client_def stroke_date_def split: option.splits if_splits)

theorem s3_keeps_contract_witness:
  "fst (s3_get map_storage (3 * 10 ^ 9) ''k'' (snd (s3_upload map_storage (10 ^ 9) ''k'' ''image/png'' ''img'' (Some (5 * 10 ^ 9)) Map.empty)))
     = Inr ''img''"
proof -
  have "s3_expirable stroke_date (10 ^ 9) (Some (5 * 10 ^ 9))"
    by (simp add: s3_expirable_def checked_add_time_def stroke_date_def)
  then show ?thesis
    using storage_backend.get_after_upload [OF s3_keeps_contract [OF map_storage_laws], where now = "10 ^ 9" and ttl = "Some (5 * 10 ^ 9)"
        and t = "3 * 10 ^ 9" and k = "''k''" and ct = "''image/png''" and d = "''img''" and s = Map.empty]
    by (simp add: s3_backend_def time_limit_def)
qed

section \<open>Failures of the client\<close>

text \<open>A date that cannot be read does not expire an object, and a failing call is never a miss.\<close>

lemma unreadable_date_fails_open:
  "cl_parse_http_date (ms_client st) h = None \<Longrightarrow> \<not> s3_is_expired st now (Some h)"
  by (simp add: s3_is_expired_def)

lemma failing_check_is_an_error:
  "fst (cl_head (ms_client st) (ms_bucket st) k s) = Inl (HeadOther e) \<Longrightarrow> fst (s3_check st now k s) = Inl (s3_error e)"
  by (auto simp: s3_check_def split: prod.splits)

end
