(* ===== verification/Signing.thy ===== *)
theory Signing
  imports Url Errors
begin

text \<open>
  Signed-URL verification: \<^verbatim>\<open>src/src/modules/signing/verify.rs\<close> and
  \<^verbatim>\<open>src/src/modules/signing/config.rs\<close>, and the gate \<^verbatim>\<open>verify_or_reject\<close> of
  \<^verbatim>\<open>src/src/modules/api/resize.rs\<close>.  HMAC-SHA256 and the base64url codec come from
  third-party crates and are the parameters \<^verbatim>\<open>hmac\<close> (key, message), \<^verbatim>\<open>b64e\<close> and
  \<^verbatim>\<open>b64\<close>; \<^verbatim>\<open>ct_eq\<close> is equality of byte strings.
\<close>

section \<open>Signatures\<close>

definition compute_signature :: "(string \<Rightarrow> string \<Rightarrow> string) \<Rightarrow> string \<Rightarrow> string \<Rightarrow> string \<Rightarrow> string" where
  "compute_signature hmac key salt signed_path = hmac key (salt @ signed_path)"

definition verify_signature ::
  "(string \<Rightarrow> string \<Rightarrow> string) \<Rightarrow> (string \<Rightarrow> string option) \<Rightarrow> string \<Rightarrow> string \<Rightarrow> string \<Rightarrow> string \<Rightarrow> bool" where
  "verify_signature hmac b64 key salt signed_path provided_signature =
     (case b64 provided_signature of
        None \<Rightarrow> False
      | Some provided \<Rightarrow>
          (let expected = compute_signature hmac key salt signed_path in
           if length provided \<noteq> length expected then False else provided = expected))"

definition sign_path ::
  "(string \<Rightarrow> string \<Rightarrow> string) \<Rightarrow> (string \<Rightarrow> string) \<Rightarrow> string \<Rightarrow> string \<Rightarrow> string \<Rightarrow> string" where
  "sign_path hmac b64e key salt signed_path = b64e (compute_signature hmac key salt signed_path)"

section \<open>Configuration\<close>

record signing_config =
  sc_key :: string
  sc_salt :: string
  sc_allow_unsigned :: bool

definition signing_enabled :: "signing_config \<Rightarrow> bool" where
  "signing_enabled c = (sc_key c \<noteq> [] \<and> sc_salt c \<noteq> [])"

definition hex_nibble :: "char \<Rightarrow> nat option" where
  "hex_nibble b =
     (if 48 \<le> byte b \<and> byte b \<le> 57 then Some (byte b - 48)
      else if 97 \<le> byte b \<and> byte b \<le> 102 then Some (byte b - 97 + 10)
      else if 65 \<le> byte b \<and> byte b \<le> 70 then Some (byte b - 65 + 10)
      else None)"

fun decode_hex_pairs :: "string \<Rightarrow> string \<Rightarrow> (message, string) result" where
  "decode_hex_pairs name (a # b # rest) =
     bindr (ok_or (Msg ''contains a non-hex character'' [AStr name, AStr [a]]) (hex_nibble a)) (\<lambda>hi.
     bindr (ok_or (Msg ''contains a non-hex character'' [AStr name, AStr [b]]) (hex_nibble b)) (\<lambda>lo.
     bindr (decode_hex_pairs name rest) (\<lambda>bs. Inr (char_of (hi * 16 + lo) # bs))))"
| "decode_hex_pairs name _ = Inr []"

definition decode_hex_env :: "string \<Rightarrow> string option \<Rightarrow> (message, string) result" where
  "decode_hex_env name raw =
     (case raw of
        None \<Rightarrow> Inr []
      | Some s \<Rightarrow>
          if s = [] then Inr []
          else if length s mod 2 \<noteq> 0
          then Inl (Msg ''must be an even-length hex string'' [AStr name, ANat (length s)])
          else decode_hex_pairs name s)"

text \<open>The environment fields \<^verbatim>\<open>from_env\<close> reads.\<close>

record signing_env =
  env_signing_key :: "string option"
  env_signing_salt :: "string option"
  env_allow_unsigned_requests :: "bool option"

definition signing_from_env :: "signing_env \<Rightarrow> (message, signing_config) result" where
  "signing_from_env config =
     (let allow_unsigned = unwrap_or (env_allow_unsigned_requests config) False in
      bindr (decode_hex_env ''SIGNING_KEY'' (env_signing_key config)) (\<lambda>key.
      bindr (decode_hex_env ''SIGNING_SALT'' (env_signing_salt config)) (\<lambda>salt.
        (let signing = \<lparr> sc_key = key, sc_salt = salt, sc_allow_unsigned = allow_unsigned \<rparr> in
         if \<not> signing_enabled signing \<and> \<not> sc_allow_unsigned signing
         then Inl (Msg ''SIGNING_KEY and SIGNING_SALT must both be set'' [])
         else Inr signing))))"

section \<open>The gate\<close>

definition verify_or_reject ::
  "(string \<Rightarrow> string \<Rightarrow> string) \<Rightarrow> (string \<Rightarrow> string option) \<Rightarrow> signing_config \<Rightarrow> signed_request \<Rightarrow> (app_error, unit) result" where
  "verify_or_reject hmac b64 signing signed =
     (if sr_signature_segment signed = ''unsigned''
      then (if sc_allow_unsigned signing then Inr ()
            else Inl (Forbidden (''unsigned requests are refused; signing is required (#27). Set ''
              @ ''ALLOW_UNSIGNED_REQUESTS=true to enable the /unsigned/ escape for local development.'')))
      else if \<not> signing_enabled signing
      then Inl (Forbidden ''no signing key is configured; use /unsigned/... in local development'')
      else if verify_signature hmac b64 (sc_key signing) (sc_salt signing) (sr_signed_path signed) (sr_signature_segment signed)
      then Inr ()
      else Inl (Forbidden ''invalid signature''))"

section \<open>Properties\<close>

lemma verify_signature_iff:
  "verify_signature hmac b64 key salt path s \<longleftrightarrow> b64 s = Some (compute_signature hmac key salt path)"
  by (auto simp: verify_signature_def Let_def split: option.splits)

text \<open>
  C15. The gate lets a request through only in two ways: the literal
  \<^verbatim>\<open>unsigned\<close> segment under an explicit opt-in, or a segment that decodes to the
  MAC of the signed path under a configured, non-empty key and salt.  Enabling
  the escape never weakens the check of any other segment; every refusal is a 403.
\<close>

theorem verify_or_reject_exact:
  "(verify_or_reject hmac b64 signing signed = Inr () \<longleftrightarrow>
      (sr_signature_segment signed = ''unsigned'' \<and> sc_allow_unsigned signing)
      \<or> (sr_signature_segment signed \<noteq> ''unsigned'' \<and> sc_key signing \<noteq> [] \<and> sc_salt signing \<noteq> []
         \<and> b64 (sr_signature_segment signed) = Some (hmac (sc_key signing) (sc_salt signing @ sr_signed_path signed))))
   \<and> (\<forall>e. verify_or_reject hmac b64 signing signed = Inl e \<longrightarrow> status_code e = 403)"
  by (auto simp: verify_or_reject_def verify_signature_iff compute_signature_def signing_enabled_def status_code_def)

theorem verify_or_reject_exact_witness:
  "verify_or_reject (\<lambda>k m. k @ m) Some \<lparr> sc_key = ''k'', sc_salt = ''s'', sc_allow_unsigned = False \<rparr>
     \<lparr> sr_signature_segment = ''ks/q:80/abc.jpg'', sr_signed_path = ''/q:80/abc.jpg'', sr_remainder_segments = [''q:80'', ''abc.jpg''] \<rparr> = Inr ()"
  using verify_or_reject_exact [of "\<lambda>k m. k @ m" Some "\<lparr> sc_key = ''k'', sc_salt = ''s'', sc_allow_unsigned = False \<rparr>"
     "\<lparr> sr_signature_segment = ''ks/q:80/abc.jpg'', sr_signed_path = ''/q:80/abc.jpg'', sr_remainder_segments = [''q:80'', ''abc.jpg''] \<rparr>"]
  by simp

lemma hex_nibble_hex_char [simp]: "d < 16 \<Longrightarrow> hex_nibble (hex_char d) = Some d"
  by (simp add: hex_nibble_def hex_char_def)

lemma decode_hex_pairs_bytes:
  "decode_hex_pairs name (concat (map (\<lambda>c. hex2 (byte c)) bs)) = Inr bs"
proof (induction bs)
  case (Cons c bs)
  have "byte c div 16 < 16"
    by (simp add: less_mult_imp_div_less)
  then show ?case
    using Cons by (simp add: hex2_def div_mod_decomp)
qed simp

lemma length_hex2_concat: "length (concat (map (\<lambda>c. hex2 (byte c)) bs)) = 2 * length bs"
  by (induction bs) (auto simp: hex2_def)

text \<open>
  Configuration fails closed and reads keys faithfully: it succeeds only
  with a non-empty key and salt or an explicit opt-out, and a hex-encoded key and
  salt decode to exactly their bytes.
\<close>

theorem signing_from_env_fail_closed:
  "(signing_from_env env = Inr c \<longrightarrow> signing_enabled c \<or> env_allow_unsigned_requests env = Some True)
   \<and> signing_from_env \<lparr> env_signing_key = Some (concat (map (\<lambda>c. hex2 (byte c)) key)),
        env_signing_salt = Some (concat (map (\<lambda>c. hex2 (byte c)) salt)), env_allow_unsigned_requests = u \<rparr>
     = (if key \<noteq> [] \<and> salt \<noteq> [] \<or> u = Some True
        then Inr \<lparr> sc_key = key, sc_salt = salt, sc_allow_unsigned = unwrap_or u False \<rparr>
        else Inl (Msg ''SIGNING_KEY and SIGNING_SALT must both be set'' []))"
proof -
  have d: "decode_hex_env name (Some (concat (map (\<lambda>c. hex2 (byte c)) bs))) = Inr bs" for name bs
    using decode_hex_pairs_bytes [of name bs] length_hex2_concat [of bs]
    by (auto simp: decode_hex_env_def hex2_def)
  show ?thesis
    by (auto simp: signing_from_env_def Let_def d result_simps signing_enabled_def unwrap_or_def
        split: if_splits option.splits)
qed

theorem signing_from_env_fail_closed_witness:
  "signing_enabled \<lparr> sc_key = ''k'', sc_salt = ''s'', sc_allow_unsigned = False \<rparr>"
proof -
  have "signing_from_env \<lparr> env_signing_key = Some ''6b'', env_signing_salt = Some ''73'', env_allow_unsigned_requests = None \<rparr>
      = Inr \<lparr> sc_key = ''k'', sc_salt = ''s'', sc_allow_unsigned = False \<rparr>"
    by code_simp
  with signing_from_env_fail_closed [of "\<lparr> env_signing_key = Some ''6b'', env_signing_salt = Some ''73'', env_allow_unsigned_requests = None \<rparr>"]
  show ?thesis
    by auto
qed

end
