(* ===== verification/Negotiation.thy ===== *)
theory Negotiation
  imports Float_Display Params
begin

text \<open>
  \<^verbatim>\<open>Accept\<close> negotiation for the \<^verbatim>\<open>.auto\<close> extension
  (\<^verbatim>\<open>src/src/modules/negotiation.rs\<close>): the header parser, the best quality per
  media type, and \<^verbatim>\<open>resolve\<close>.  What the choice must be is stated twice: over the entries
  of any header text, and over the media ranges a client prints into a header, which
  never go through the parser.
\<close>

record accept_entry =
  ac_media_type :: string
  ac_q :: rfloat

definition param_q :: "string \<Rightarrow> rfloat option" where
  "param_q param =
     (case strip_prefix ''q='' (trim param) of None \<Rightarrow> None | Some v \<Rightarrow> parse_f32 (trim v))"

definition parse_accept_entry :: "string \<Rightarrow> accept_entry option" where
  "parse_accept_entry entry =
     (let parts = split_on CHR '';'' entry;
          media_type = to_ascii_lowercase (trim (hd parts))
      in if media_type = [] then None
         else Some \<lparr> ac_media_type = media_type,
                     ac_q = (case List.map_filter param_q (tl parts) of [] \<Rightarrow> f_one | q # _ \<Rightarrow> q) \<rparr>)"

definition parse_accept :: "string \<Rightarrow> accept_entry list" where
  "parse_accept accept = List.map_filter parse_accept_entry (split_on CHR '','' accept)"

definition entry_matches :: "string \<Rightarrow> accept_entry \<Rightarrow> bool" where
  "entry_matches media_type e =
     (ac_media_type e = media_type \<or> ac_media_type e = ''image/*'' \<or> ac_media_type e = ''*/*'')"

definition q_step :: "rfloat option \<Rightarrow> rfloat \<Rightarrow> rfloat option" where
  "q_step acc q = Some (case acc of None \<Rightarrow> q | Some a \<Rightarrow> f_max a q)"

definition best_q :: "accept_entry list \<Rightarrow> string \<Rightarrow> rfloat option" where
  "best_q entries media_type = foldl q_step None (map ac_q (filter (entry_matches media_type) entries))"

definition resolve_format :: "image_format \<Rightarrow> string option \<Rightarrow> image_format \<times> bool" where
  "resolve_format format accept =
     (if format \<noteq> AutoFormat then (format, False)
      else
        (let entries = (case accept of None \<Rightarrow> [] | Some a \<Rightarrow> parse_accept a);
             avif_q = (case best_q entries ''image/avif'' of Some q \<Rightarrow> q | None \<Rightarrow> f_zero);
             webp_q = (case best_q entries ''image/webp'' of Some q \<Rightarrow> q | None \<Rightarrow> f_zero)
         in (if f_lt f_zero avif_q \<and> f_le webp_q avif_q then Avif
             else if f_lt f_zero webp_q then Webp
             else Jpg, True)))"

section \<open>The best quality\<close>

lemma f_lt_nan [simp]: "\<not> f_lt a NaN" "\<not> f_lt NaN a"
  by (cases a; simp)+

lemma f_lt_trans_neg:
  assumes "\<not> is_nan b" "\<not> f_lt b a" "f_lt b c"
  shows "\<not> f_lt c a"
  using assms by (cases a; cases b; cases c) (auto split: if_splits)

text \<open>A quality that nothing in a list exceeds, and a NaN only when all are.\<close>

definition top_q :: "rfloat \<Rightarrow> rfloat list \<Rightarrow> bool" where
  "top_q m qs \<longleftrightarrow> m \<in> set qs \<and> (\<forall>q \<in> set qs. \<not> f_lt m q) \<and> (is_nan m \<longrightarrow> list_all is_nan qs)"

lemma is_nan_iff: "is_nan x \<longleftrightarrow> x = NaN"
  by (cases x) auto

lemma f_lt_irrefl [simp]: "\<not> f_lt a a"
  by (cases a) auto

lemma top_q_step:
  assumes "top_q m qs"
  shows "top_q (f_max m q) (qs @ [q])"
proof (cases "is_nan m \<or> is_nan q")
  case True
  then show ?thesis
    using assms by (auto simp: top_q_def f_max_def list_all_iff is_nan_iff)
next
  case False
  then show ?thesis
    using assms f_lt_trans_neg [of m _ q] by (auto simp: top_q_def f_max_def)
qed

lemma foldl_q_step:
  "top_q m qs \<Longrightarrow> \<exists>m'. foldl q_step (Some m) rs = Some m' \<and> top_q m' (qs @ rs)"
proof (induction rs arbitrary: m qs)
  case (Cons r rs)
  then show ?case
    using Cons.IH [OF top_q_step [of m qs r]] by (simp add: q_step_def)
qed simp

lemma best_q_top:
  "case best_q entries mt of
     None \<Rightarrow> filter (entry_matches mt) entries = []
   | Some m \<Rightarrow> top_q m (map ac_q (filter (entry_matches mt) entries))"
proof (cases "map ac_q (filter (entry_matches mt) entries)")
  case Nil
  then show ?thesis by (simp add: best_q_def)
next
  case (Cons q qs)
  have "top_q q [q]"
    by (auto simp: top_q_def)
  then obtain m where "foldl q_step (Some q) qs = Some m" "top_q m (q # qs)"
    using foldl_q_step [of q "[q]" qs] by auto
  then show ?thesis
    using Cons by (simp add: best_q_def q_step_def)
qed

text \<open>The entries of a header that accept a media type.\<close>

definition accepts :: "string option \<Rightarrow> string \<Rightarrow> rfloat \<Rightarrow> bool" where
  "accepts accept mt q \<longleftrightarrow>
     (\<exists>a. accept = Some a \<and> (\<exists>e \<in> set (parse_accept a). entry_matches mt e \<and> ac_q e = q))"

definition offered_q :: "string option \<Rightarrow> string \<Rightarrow> rfloat" where
  "offered_q accept mt =
     (case best_q (case accept of None \<Rightarrow> [] | Some a \<Rightarrow> parse_accept a) mt of Some q \<Rightarrow> q | None \<Rightarrow> f_zero)"

lemma offered_q_bound: "accepts accept mt q \<Longrightarrow> \<not> f_lt (offered_q accept mt) q"
  using best_q_top [where entries = "case accept of None \<Rightarrow> [] | Some a \<Rightarrow> parse_accept a" and mt = mt]
  by (auto simp: accepts_def offered_q_def top_q_def filter_empty_conv split: option.splits)

lemma offered_q_accepts: "f_lt f_zero (offered_q accept mt) \<Longrightarrow> accepts accept mt (offered_q accept mt)"
  using best_q_top [where entries = "case accept of None \<Rightarrow> [] | Some a \<Rightarrow> parse_accept a" and mt = mt]
  by (auto simp: accepts_def offered_q_def top_q_def split: option.splits)

lemma offered_q_not_nan: "accepts accept mt q \<Longrightarrow> \<not> is_nan q \<Longrightarrow> \<not> is_nan (offered_q accept mt)"
  using best_q_top [where entries = "case accept of None \<Rightarrow> [] | Some a \<Rightarrow> parse_accept a" and mt = mt]
  by (auto simp: accepts_def offered_q_def top_q_def list_all_iff filter_empty_conv split: option.splits)

lemma resolve_auto:
  "resolve_format AutoFormat accept =
     (if f_lt f_zero (offered_q accept ''image/avif'') \<and> f_le (offered_q accept ''image/webp'') (offered_q accept ''image/avif'') then Avif
      else if f_lt f_zero (offered_q accept ''image/webp'') then Webp else Jpg, True)"
  by (simp add: resolve_format_def offered_q_def Let_def)

lemma resolve_auto_None: "resolve_format AutoFormat None = (Jpg, True)"
  by (simp add: resolve_auto offered_q_def best_q_def)

lemma not_lt_pos: "\<not> f_lt m q \<Longrightarrow> f_lt f_zero q \<Longrightarrow> \<not> is_nan m \<Longrightarrow> f_lt f_zero m"
  by (cases m; cases q) (auto split: if_splits)

lemma f_lt_chain:
  "\<not> f_lt m q \<Longrightarrow> \<not> f_le w m \<Longrightarrow> \<not> is_nan m \<Longrightarrow> \<not> is_nan q \<Longrightarrow> \<not> is_nan w \<Longrightarrow> f_lt q w"
  by (cases m; cases q; cases w) (auto split: if_splits)

lemma f_le_lt_trans: "f_le a b \<Longrightarrow> \<not> f_lt a q \<Longrightarrow> \<not> f_lt b q"
  by (cases a; cases b; cases q) (auto split: if_splits)

lemma f_le_not_lt: "\<not> is_nan a \<Longrightarrow> \<not> is_nan b \<Longrightarrow> f_le a b \<longleftrightarrow> \<not> f_lt b a"
  by (cases a; cases b) (auto split: if_splits)

lemma f_not_lt_trans: "\<not> is_nan b \<Longrightarrow> \<not> f_lt a b \<Longrightarrow> \<not> f_lt b c \<Longrightarrow> \<not> f_lt a c"
  by (cases a; cases b; cases c) (auto split: if_splits)

text \<open>
  Which offers make AVIF the answer, and which WebP, for any header.  The quality
  \<^verbatim>\<open>nan\<close> parses: a header whose WebP entries all carry it is never answered in AVIF.
\<close>

definition wants_avif :: "string option \<Rightarrow> bool" where
  "wants_avif accept \<longleftrightarrow>
     (\<exists>q. accepts accept ''image/avif'' q \<and> f_lt f_zero q \<and> (\<forall>w. accepts accept ''image/webp'' w \<longrightarrow> \<not> f_lt q w))
     \<and> ((\<forall>w. \<not> accepts accept ''image/webp'' w) \<or> (\<exists>w. accepts accept ''image/webp'' w \<and> \<not> is_nan w))"

definition wants_webp :: "string option \<Rightarrow> bool" where
  "wants_webp accept \<longleftrightarrow>
     (\<exists>w. accepts accept ''image/webp'' w \<and> f_lt f_zero w
        \<and> (\<forall>q. accepts accept ''image/avif'' q \<and> f_lt f_zero q \<longrightarrow> f_lt q w))"

lemma offered_q_none: "(\<And>w. \<not> accepts accept mt w) \<Longrightarrow> offered_q accept mt = f_zero"
  using best_q_top [where entries = "case accept of None \<Rightarrow> [] | Some a \<Rightarrow> parse_accept a" and mt = mt]
  by (fastforce simp: accepts_def offered_q_def top_q_def split: option.splits)

lemma offered_q_some: "accepts accept mt w \<Longrightarrow> accepts accept mt (offered_q accept mt)"
  using best_q_top [where entries = "case accept of None \<Rightarrow> [] | Some a \<Rightarrow> parse_accept a" and mt = mt]
  by (auto simp: accepts_def offered_q_def top_q_def filter_empty_conv split: option.splits)

lemma wants_avif_iff:
  "wants_avif accept \<longleftrightarrow> f_lt f_zero (offered_q accept ''image/avif'')
     \<and> f_le (offered_q accept ''image/webp'') (offered_q accept ''image/avif'')" (is "_ \<longleftrightarrow> f_lt _ ?a \<and> f_le ?w ?a")
proof
  assume a: "wants_avif accept"
  then obtain q where q: "accepts accept ''image/avif'' q" "f_lt f_zero q"
      "\<And>w. accepts accept ''image/webp'' w \<Longrightarrow> \<not> f_lt q w"
    by (auto simp: wants_avif_def)
  have nq: "\<not> is_nan q"
    using q(2) by (auto simp: is_nan_iff)
  then have na: "\<not> is_nan ?a" "\<not> f_lt ?a q"
    using q(1) offered_q_not_nan offered_q_bound by blast+
  then have pos: "f_lt f_zero ?a"
    using q(2) not_lt_pos by blast
  moreover have "f_le ?w ?a"
  proof (cases "\<exists>w. accepts accept ''image/webp'' w")
    case True
    then obtain w where w: "accepts accept ''image/webp'' w" "\<not> is_nan w"
      using a by (auto simp: wants_avif_def)
    then have "\<not> is_nan ?w" "\<not> f_lt q ?w"
      using offered_q_not_nan offered_q_some q(3) by blast+
    then show ?thesis
      using na nq f_not_lt_trans f_le_not_lt by blast
  next
    case False
    then have "?w = f_zero"
      by (intro offered_q_none) simp
    then show ?thesis
      using pos by (cases ?a) auto
  qed
  ultimately show "f_lt f_zero ?a \<and> f_le ?w ?a"
    by simp
next
  assume a: "f_lt f_zero ?a \<and> f_le ?w ?a"
  then have "\<not> is_nan ?w"
    by (auto simp: is_nan_iff)
  moreover have "\<not> f_lt ?a w" if "accepts accept ''image/webp'' w" for w
    using a that offered_q_bound f_le_lt_trans by blast
  ultimately show "wants_avif accept"
    using a offered_q_accepts [of accept "''image/avif''"] offered_q_some [of accept "''image/webp''"]
    unfolding wants_avif_def by blast
qed

lemma wants_webp_iff:
  "wants_webp accept \<longleftrightarrow> f_lt f_zero (offered_q accept ''image/webp'') \<and> \<not> wants_avif accept"
proof
  let ?a = "offered_q accept ''image/avif''" and ?w = "offered_q accept ''image/webp''"
  assume "wants_webp accept"
  then obtain w where w: "accepts accept ''image/webp'' w" "f_lt f_zero w"
      "\<And>q. accepts accept ''image/avif'' q \<Longrightarrow> f_lt f_zero q \<Longrightarrow> f_lt q w"
    by (auto simp: wants_webp_def)
  have "\<not> is_nan w"
    using w(2) by (auto simp: is_nan_iff)
  then have "f_lt f_zero ?w"
    using w(1,2) offered_q_not_nan offered_q_bound not_lt_pos by blast
  moreover have "\<not> (f_lt f_zero ?a \<and> f_le ?w ?a)"
    using w(1,3) offered_q_accepts [of accept "''image/avif''"] offered_q_bound f_le_lt_trans by blast
  ultimately show "f_lt f_zero ?w \<and> \<not> wants_avif accept"
    by (simp add: wants_avif_iff)
next
  let ?a = "offered_q accept ''image/avif''" and ?w = "offered_q accept ''image/webp''"
  assume a: "f_lt f_zero ?w \<and> \<not> wants_avif accept"
  have "f_lt q ?w" if q: "accepts accept ''image/avif'' q" "f_lt f_zero q" for q
  proof -
    have n: "\<not> is_nan q" "\<not> is_nan ?w"
      using q(2) a by (auto simp: is_nan_iff)
    then have "\<not> is_nan ?a" "\<not> f_lt ?a q"
      using q(1) offered_q_not_nan offered_q_bound by blast+
    moreover from calculation have "f_lt f_zero ?a"
      using q(2) not_lt_pos by blast
    ultimately show ?thesis
      using a n f_lt_chain unfolding wants_avif_iff by blast
  qed
  then show "wants_webp accept"
    using a offered_q_accepts unfolding wants_webp_def by blast
qed

lemma resolve_auto_wants:
  "resolve_format AutoFormat accept =
     (if wants_avif accept then Avif else if wants_webp accept then Webp else Jpg, True)"
  by (simp add: resolve_auto wants_webp_iff wants_avif_iff)

lemma wants_disjoint: "\<not> (wants_avif accept \<and> wants_webp accept)"
  by (simp add: wants_webp_iff)

section \<open>Headers by the grammar\<close>

text \<open>
  What a client means to say: media ranges with other parameters and an optional
  weight in thousandths (the grammar of RFC 9110 gives weights at most three decimals),
  written out with blanks after the separators.
\<close>

record media_range =
  mr_type :: string
  mr_params :: "string list"
  mr_weight :: "nat option"

definition plain_token :: "string \<Rightarrow> bool" where
  "plain_token s \<longleftrightarrow> s \<noteq> [] \<and> list_all (\<lambda>c. is_graphic c \<and> c \<noteq> CHR '','' \<and> c \<noteq> CHR '';'') s"

definition wf_range :: "media_range \<Rightarrow> bool" where
  "wf_range r \<longleftrightarrow> plain_token (mr_type r)
     \<and> list_all (\<lambda>p. plain_token p \<and> \<not> starts_with ''q='' p) (mr_params r)
     \<and> (case mr_weight r of None \<Rightarrow> True | Some n \<Rightarrow> n \<le> 1000)"

definition range_parts :: "media_range \<Rightarrow> string list" where
  "range_parts r = mr_params r @ (case mr_weight r of None \<Rightarrow> [] | Some n \<Rightarrow> [''q='' @ show_decimal n (- 3)])"

definition print_range :: "string \<Rightarrow> media_range \<Rightarrow> string" where
  "print_range blanks r = join_with (CHR '';'' # blanks) (mr_type r # range_parts r)"

definition print_accept :: "string \<Rightarrow> media_range list \<Rightarrow> string" where
  "print_accept blanks rs = join_with (CHR '','' # blanks) (map (print_range blanks) rs)"

text \<open>The weight, in thousandths, the ranges give a media type: the highest of those that cover it.\<close>

definition covers :: "string \<Rightarrow> media_range \<Rightarrow> bool" where
  "covers mt r \<longleftrightarrow> to_ascii_lowercase (mr_type r) \<in> {mt, ''image/*'', ''*/*''}"

definition weight_of :: "media_range \<Rightarrow> nat" where
  "weight_of r = (case mr_weight r of None \<Rightarrow> 1000 | Some n \<Rightarrow> n)"

definition offer_weight :: "media_range list \<Rightarrow> string \<Rightarrow> nat" where
  "offer_weight rs mt = Max (insert 0 (weight_of ` set (filter (covers mt) rs)))"

definition milli :: "nat \<Rightarrow> rfloat" where
  "milli n = round_float f32_fmt False (of_nat n * 10 powi (- 3))"

text \<open>Weights keep their order as \<^verbatim>\<open>f32\<close>.\<close>

lemma milli_error:
  assumes "n \<le> 1000"
  shows "\<bar>round_mag f32_fmt (of_nat n * 10 powi (- 3)) - of_nat n * 10 powi (- 3)\<bar> < 1 / 4000"
proof (cases "n = 0")
  case False
  let ?x = "of_nat n * 10 powi (- 3) :: rat"
  have x: "0 < ?x" "?x \<le> 1"
    using False assms by (simp_all add: power_int_minus field_simps)
  have "flog2 1 = 0"
    by (rule flog2_unique) simp_all
  then have "flog2 ?x \<le> 0"
    using flog2_mono [OF x] by simp
  then have "ulp_exp f32_fmt ?x \<le> - 23"
    by (simp add: ulp_exp_def)
  then have "pow2 (ulp_exp f32_fmt ?x) \<le> pow2 (- 23)"
    by (simp only: pow2_le_iff)
  moreover have "pow2 (- 23) / 2 < 1 / 4000"
    by (simp add: power_int_minus)
  ultimately show ?thesis
    using round_mag_error [OF x(1), of f32_fmt] by linarith
qed simp

lemma milli_Fin:
  assumes "n \<le> 1000"
  shows "milli n = Fin False (round_mag f32_fmt (of_nat n * 10 powi (- 3)))"
proof -
  have "of_nat n * 10 powi (- 3) \<le> (1 :: rat)"
    using assms by (simp add: power_int_minus field_simps)
  then have "round_mag f32_fmt (of_nat n * 10 powi (- 3)) < 2"
    using milli_error [OF assms] by linarith
  also have "(2 :: rat) \<le> pow2 128"
    using pow2_mono [of 1 128] by simp
  finally show ?thesis
    by (simp add: milli_def round_float_def)
qed

lemma milli_less: "n \<le> 1000 \<Longrightarrow> m \<le> 1000 \<Longrightarrow> f_lt (milli n) (milli m) \<longleftrightarrow> n < m"
proof -
  assume b: "n \<le> 1000" "m \<le> 1000"
  have "round_mag f32_fmt (of_nat i * 10 powi (- 3)) < round_mag f32_fmt (of_nat j * 10 powi (- 3))"
    if "i < j" "i \<le> 1000" "j \<le> 1000" for i j
  proof -
    have "of_nat i + 1 \<le> (of_nat j :: rat)"
      using that(1) by (metis Suc_leI add.commute of_nat_Suc of_nat_le_iff)
    then have "of_nat i * 10 powi (- 3) + 1 / 1000 \<le> (of_nat j * 10 powi (- 3) :: rat)"
      by (simp add: power_int_minus field_simps)
    then show ?thesis
      using milli_error [OF that(2)] milli_error [OF that(3)] by linarith
  qed
  then show ?thesis
    using b by (auto simp: milli_Fin) (metis less_asym linorder_neqE_nat order_less_irrefl)
qed

lemma milli_not_nan [simp]: "\<not> is_nan (milli n)"
  by (simp add: milli_def round_float_def Let_def)

lemma milli_le: "n \<le> 1000 \<Longrightarrow> m \<le> 1000 \<Longrightarrow> f_le (milli n) (milli m) \<longleftrightarrow> n \<le> m"
  by (simp add: f_le_not_lt milli_less linorder_not_less)

lemma milli_0: "milli 0 = f_zero"
  by (simp add: milli_def round_float_representable)

lemma milli_1000: "milli 1000 = f_one"
  by (simp add: milli_def power_int_minus round_float_representable)

lemma milli_max: "n \<le> 1000 \<Longrightarrow> m \<le> 1000 \<Longrightarrow> f_max (milli n) (milli m) = milli (max n m)"
  by (simp add: f_max_def milli_less max_def)

lemma trim_Nil: "trim [] = []"
  by code_simp

text \<open>A printed header parses to the ranges it was printed from.\<close>

lemma strip_any_single:
  "[c] \<in> set ws \<Longrightarrow> list_all (\<lambda>w. w \<noteq> [] \<and> (hd w = c \<longrightarrow> w = [c])) ws \<Longrightarrow> strip_any ws (c # s) = Some s"
proof (induction ws)
  case (Cons w ws)
  then show ?case
    by (cases "hd w = c"; cases w) auto
qed simp

abbreviation is_blank :: "char \<Rightarrow> bool" where
  "is_blank c \<equiv> c = CHR '' '' \<or> c = CHR 0x09"

lemma blank_encodings:
  assumes "is_blank c"
  shows "strip_any ws_encodings (c # s) = Some s" "strip_any (map rev ws_encodings) (c # s) = Some s"
proof -
  have "[CHR '' ''] \<in> set ws_encodings \<and> [CHR 0x09] \<in> set ws_encodings"
    "[CHR '' ''] \<in> set (map rev ws_encodings) \<and> [CHR 0x09] \<in> set (map rev ws_encodings)"
    "list_all (\<lambda>w. w \<noteq> [] \<and> (hd w = CHR '' '' \<longrightarrow> w = [CHR '' ''])) ws_encodings
      \<and> list_all (\<lambda>w. w \<noteq> [] \<and> (hd w = CHR 0x09 \<longrightarrow> w = [CHR 0x09])) ws_encodings"
    "list_all (\<lambda>w. w \<noteq> [] \<and> (hd w = CHR '' '' \<longrightarrow> w = [CHR '' ''])) (map rev ws_encodings)
      \<and> list_all (\<lambda>w. w \<noteq> [] \<and> (hd w = CHR 0x09 \<longrightarrow> w = [CHR 0x09])) (map rev ws_encodings)"
    by code_simp+
  then show "strip_any ws_encodings (c # s) = Some s" "strip_any (map rev ws_encodings) (c # s) = Some s"
    using assms by (auto simp del: set_map intro!: strip_any_single)
qed

lemma trim_start_blank: "is_blank c \<Longrightarrow> trim_start (c # s) = trim_start s"
  by (subst trim_start.simps) (simp add: blank_encodings)

definition blank_text :: "string \<Rightarrow> bool" where
  "blank_text = list_all is_blank"

lemma trim_blanks: "blank_text g \<Longrightarrow> trim (g @ s) = trim s"
  by (induction g) (auto simp: blank_text_def trim_def trim_start_blank)

lemma trim_token:
  assumes "plain_token s"
  shows "trim s = s" "blank_text g \<Longrightarrow> trim (g @ s) = s"
proof -
  have "s \<noteq> []" "is_graphic (hd s)" "is_graphic (last s)"
    using assms hd_in_set [of s] last_in_set [of s] by (auto simp: plain_token_def list_all_iff)
  then show "trim s = s"
    by (rule trim_graphic)
  then show "blank_text g \<Longrightarrow> trim (g @ s) = s"
    by (simp add: trim_blanks)
qed

lemma weight_token: "plain_token (show_decimal n e)" "plain_token (''q='' @ show_decimal n e)"
proof -
  have "is_graphic c \<and> c \<noteq> CHR '','' \<and> c \<noteq> CHR '';''" if "c \<in> set (show_decimal n e)" for c
    using show_decimal_chars [OF that] by (auto simp: is_graphic_def is_ascii_digit_def)
  then show "plain_token (show_decimal n e)" "plain_token (''q='' @ show_decimal n e)"
    using show_decimal_first [of n e] by (auto simp: plain_token_def list_all_iff is_graphic_def)
qed

lemma range_parts_plain: "wf_range r \<Longrightarrow> list_all plain_token (range_parts r)"
  using weight_token(2) by (auto simp: wf_range_def range_parts_def list_all_iff split: option.splits)

lemma parse_weight: "parse_f32 (show_decimal n (- 3)) = Some (milli n)"
proof -
  obtain c cs where c: "show_decimal n (- 3) = c # cs" "is_ascii_digit c"
    using show_decimal_first by blast
  then have "c \<noteq> CHR ''-''" "c \<noteq> CHR ''+''"
    by auto
  then show ?thesis
    using c parse_show_decimal [of n "- 3"] by (simp add: parse_f32_def parse_float_fmt_def milli_def)
qed

lemma param_q_weight: "blank_text g \<Longrightarrow> param_q (g @ ''q='' @ show_decimal n (- 3)) = Some (milli n)"
  using trim_token(2) [OF weight_token(2), of g n "- 3"] trim_token(1) [OF weight_token(1), of n "- 3"]
  by (simp add: param_q_def parse_weight)

lemma param_q_other: "blank_text g \<Longrightarrow> plain_token p \<Longrightarrow> \<not> starts_with ''q='' p \<Longrightarrow> param_q (g @ p) = None"
  by (simp add: param_q_def trim_token starts_with_def)

lemma first_weight:
  assumes "wf_range r" "blank_text g"
  shows "List.map_filter param_q (map ((@) g) (range_parts r))
    = (case mr_weight r of None \<Rightarrow> [] | Some n \<Rightarrow> [milli n])"
proof -
  have "List.map_filter param_q (map ((@) g) ps @ xs) = List.map_filter param_q xs"
    if "list_all (\<lambda>p. plain_token p \<and> \<not> starts_with ''q='' p) ps" for ps xs
    using that assms(2) by (induction ps) (simp_all add: map_filter_simps param_q_other)
  then show ?thesis
    using assms param_q_weight
    by (auto simp: range_parts_def wf_range_def map_filter_simps split: option.splits)
qed

lemma split_join_blanks:
  assumes "c \<notin> set g" "\<And>w. w \<in> set (v # ws) \<Longrightarrow> c \<notin> set w"
  shows "split_on c (join_with (c # g) (v # ws)) = v # map ((@) g) ws"
proof -
  have "join_with [c] ((h @ w) # us) = h @ join_with [c] (w # us)" for h w us
    by (cases us) simp_all
  then have "join_with (c # g) (v # ws) = join_with [c] (v # map ((@) g) ws)" for v
    by (induction ws arbitrary: v) (simp_all add: join_with_Cons)
  then show ?thesis
    using assms by (simp only:) (rule split_join, auto)
qed

lemma blank_no_delims: "blank_text g \<Longrightarrow> CHR '','' \<notin> set g \<and> CHR '';'' \<notin> set g"
  by (induction g) (auto simp: blank_text_def)

lemma plain_no_delims: "plain_token s \<Longrightarrow> CHR '','' \<notin> set s \<and> CHR '';'' \<notin> set s"
  by (auto simp: plain_token_def list_all_iff)

lemma parse_printed_range:
  assumes "wf_range r" "blank_text g" "blank_text h"
  shows "parse_accept_entry (h @ print_range g r)
    = Some \<lparr> ac_media_type = to_ascii_lowercase (mr_type r), ac_q = milli (weight_of r) \<rparr>"
proof -
  have "h @ print_range g r = join_with (CHR '';'' # g) ((h @ mr_type r) # range_parts r)"
    by (cases "range_parts r") (simp_all add: print_range_def)
  moreover have "split_on CHR '';'' (join_with (CHR '';'' # g) ((h @ mr_type r) # range_parts r))
      = (h @ mr_type r) # map ((@) g) (range_parts r)"
    using assms range_parts_plain [OF assms(1)] blank_no_delims plain_no_delims
    by (intro split_join_blanks) (auto simp: wf_range_def list_all_iff)
  moreover have "trim (h @ mr_type r) = mr_type r" "mr_type r \<noteq> []"
    using assms trim_token by (auto simp: wf_range_def plain_token_def)
  ultimately show ?thesis
    using first_weight [OF assms(1,2)]
    by (auto simp: parse_accept_entry_def to_ascii_lowercase_def weight_of_def milli_1000 split: option.splits)
qed

lemma join_with_free: "c \<notin> set sep \<Longrightarrow> (\<And>w. w \<in> set ws \<Longrightarrow> c \<notin> set w) \<Longrightarrow> c \<notin> set (join_with sep ws)"
  by (induction sep ws rule: join_with.induct) auto

lemma parse_printed_accept:
  assumes "list_all wf_range rs" "blank_text g"
  shows "parse_accept (print_accept g rs)
    = map (\<lambda>r. \<lparr> ac_media_type = to_ascii_lowercase (mr_type r), ac_q = milli (weight_of r) \<rparr>) rs"
proof (cases rs)
  case Nil
  then show ?thesis
    by (simp add: parse_accept_def print_accept_def parse_accept_entry_def map_filter_simps trim_Nil to_ascii_lowercase_def)
next
  case (Cons r0 rest)
  have "CHR '','' \<notin> set (print_range g r)" if "r \<in> set rs" for r
  proof -
    have "wf_range r"
      using that assms(1) by (simp add: list_all_iff)
    then show ?thesis
      using assms(2) range_parts_plain [of r] blank_no_delims plain_no_delims unfolding print_range_def
      by (intro join_with_free) (auto simp: wf_range_def list_all_iff)
  qed
  then have "split_on CHR '','' (print_accept g rs) = print_range g r0 # map ((@) g \<circ> print_range g) rest"
    using Cons assms(2) blank_no_delims split_join_blanks [of "CHR '',''" g "print_range g r0" "map (print_range g) rest"]
    by (auto simp: print_accept_def)
  moreover have "parse_accept_entry (print_range g r0)
      = Some \<lparr> ac_media_type = to_ascii_lowercase (mr_type r0), ac_q = milli (weight_of r0) \<rparr>"
    using parse_printed_range [of r0 g "[]"] Cons assms by (simp add: blank_text_def)
  moreover have "List.map_filter parse_accept_entry (map ((@) g \<circ> print_range g) rs')
      = map (\<lambda>r. \<lparr> ac_media_type = to_ascii_lowercase (mr_type r), ac_q = milli (weight_of r) \<rparr>) rs'"
    if "list_all wf_range rs'" for rs'
    using that assms(2) by (induction rs') (simp_all add: map_filter_simps parse_printed_range)
  ultimately show ?thesis
    using Cons assms(1) by (simp add: parse_accept_def map_filter_simps)
qed

text \<open>So the quality found for a media type is the highest weight of the ranges that cover it.\<close>

lemma q_step_milli: "n \<le> 1000 \<Longrightarrow> m \<le> 1000 \<Longrightarrow> q_step (Some (milli n)) (milli m) = Some (milli (max n m))"
  by (simp add: q_step_def milli_max)

lemma foldl_milli:
  "n \<le> 1000 \<Longrightarrow> list_all (\<lambda>m. m \<le> 1000) ns \<Longrightarrow>
     foldl q_step (Some (milli n)) (map milli ns) = Some (milli (Max (insert n (set ns))))"
proof (induction ns arbitrary: n)
  case (Cons m ns)
  then have "foldl q_step (Some (milli n)) (map milli (m # ns)) = Some (milli (Max (insert (max n m) (set ns))))"
    by (simp add: q_step_milli)
  moreover have "Max (insert (max n m) (set ns)) = Max (insert n (set (m # ns)))"
    by (cases ns) (simp_all add: max.assoc)
  ultimately show ?case
    by simp
qed simp

lemma weight_le: "wf_range r \<Longrightarrow> weight_of r \<le> 1000"
  by (auto simp: wf_range_def weight_of_def split: option.splits)

lemma offer_weight_le: "list_all wf_range rs \<Longrightarrow> offer_weight rs mt \<le> 1000"
  by (auto simp: offer_weight_def list_all_iff intro: weight_le)

lemma offered_printed:
  assumes "list_all wf_range rs" "blank_text g"
  shows "offered_q (Some (print_accept g rs)) mt = milli (offer_weight rs mt)"
proof -
  define ns where "ns = map weight_of (filter (covers mt) rs)"
  have "map ac_q (filter (entry_matches mt) (parse_accept (print_accept g rs))) = map milli ns"
    unfolding parse_printed_accept [OF assms] ns_def
    by (induction rs) (auto simp: entry_matches_def covers_def)
  then have best: "best_q (parse_accept (print_accept g rs)) mt = foldl q_step None (map milli ns)"
    by (simp add: best_q_def)
  have set_ns: "offer_weight rs mt = Max (insert 0 (set ns))"
    by (simp add: offer_weight_def ns_def)
  have le: "list_all (\<lambda>m. m \<le> 1000) ns"
    using assms(1) by (auto simp: ns_def list_all_iff intro: weight_le)
  show ?thesis
  proof (cases ns)
    case Nil
    then show ?thesis
      using best set_ns by (simp add: offered_q_def milli_0)
  next
    case (Cons n ns')
    then have "Max (insert 0 (set ns)) = Max (insert n (set ns'))"
      by (simp add: insert_commute)
    then show ?thesis
      using best set_ns le Cons by (simp add: offered_q_def q_step_def foldl_milli)
  qed
qed

text \<open>
  C20. Negotiation follows the client.  An explicit format is kept and marked not
  negotiated; without a header \<^verbatim>\<open>auto\<close> is JPEG.  For any header text, \<^verbatim>\<open>auto\<close> is AVIF
  exactly when some entry accepts AVIF with positive quality and no entry accepts WebP
  with more (and the WebP entries are not all \<^verbatim>\<open>q=nan\<close>), WebP exactly when some entry
  accepts it with positive quality, above every positive AVIF quality, and JPEG
  otherwise.  And on a header printed from media ranges (any case, other parameters,
  weights of up to three decimals, blanks after the separators) the choice is the one the
  ranges' own weights dictate, in thousandths: the parser and its \<^verbatim>\<open>f32\<close> weights lose nothing.
\<close>

theorem resolve_respects_accept:
  "(format \<noteq> AutoFormat \<longrightarrow> resolve_format format accept = (format, False))
   \<and> resolve_format AutoFormat None = (Jpg, True)
   \<and> snd (resolve_format AutoFormat accept)
   \<and> (fst (resolve_format AutoFormat accept) = Avif \<longleftrightarrow> wants_avif accept)
   \<and> (fst (resolve_format AutoFormat accept) = Webp \<longleftrightarrow> wants_webp accept)
   \<and> (fst (resolve_format AutoFormat accept) = Jpg \<longleftrightarrow> \<not> wants_avif accept \<and> \<not> wants_webp accept)
   \<and> (list_all wf_range rs \<and> blank_text blanks \<longrightarrow>
        resolve_format AutoFormat (Some (print_accept blanks rs)) =
          (let avif = offer_weight rs ''image/avif''; webp = offer_weight rs ''image/webp''
           in if 0 < avif \<and> webp \<le> avif then Avif else if 0 < webp then Webp else Jpg, True))"
proof -
  have "resolve_format AutoFormat (Some (print_accept blanks rs)) =
      (let avif = offer_weight rs ''image/avif''; webp = offer_weight rs ''image/webp''
       in if 0 < avif \<and> webp \<le> avif then Avif else if 0 < webp then Webp else Jpg, True)"
    if "list_all wf_range rs" "blank_text blanks"
  proof -
    have "f_lt f_zero (milli (offer_weight rs mt)) \<longleftrightarrow> 0 < offer_weight rs mt" for mt
      using milli_less [of 0 "offer_weight rs mt"] offer_weight_le [OF that(1)] by (simp add: milli_0)
    then show ?thesis
      using that by (simp add: resolve_auto offered_printed milli_le offer_weight_le Let_def)
  qed
  moreover have "format \<noteq> AutoFormat \<longrightarrow> resolve_format format accept = (format, False)"
    by (simp add: resolve_format_def)
  moreover have "snd (resolve_format AutoFormat accept)
      \<and> (fst (resolve_format AutoFormat accept) = Avif \<longleftrightarrow> wants_avif accept)
      \<and> (fst (resolve_format AutoFormat accept) = Webp \<longleftrightarrow> wants_webp accept)
      \<and> (fst (resolve_format AutoFormat accept) = Jpg \<longleftrightarrow> \<not> wants_avif accept \<and> \<not> wants_webp accept)"
    using wants_disjoint [of accept] by (simp add: resolve_auto_wants)
  ultimately show ?thesis
    using resolve_auto_None by blast
qed

lemma parse_accept_example: "parse_accept ''image/webp'' = [\<lparr> ac_media_type = ''image/webp'', ac_q = f_one \<rparr>]"
proof -
  have "trim ''image/webp'' = ''image/webp''"
    by (simp add: trim_graphic is_graphic_def)
  then show ?thesis
    by (simp add: parse_accept_def parse_accept_entry_def map_filter_simps to_ascii_lowercase_def to_ascii_lower_def)
qed

definition demo_ranges :: "media_range list" where
  "demo_ranges = [\<lparr> mr_type = ''image/AVIF'', mr_params = [''v=1''], mr_weight = Some 300 \<rparr>,
     \<lparr> mr_type = ''image/webp'', mr_params = [], mr_weight = Some 800 \<rparr>,
     \<lparr> mr_type = ''text/html'', mr_params = [], mr_weight = None \<rparr>]"

lemma demo_weights: "show_decimal 300 (- 3) = ''0.3''" "show_decimal 800 (- 3) = ''0.8''"
  by code_simp+

lemma demo_header: "print_accept '' '' demo_ranges = ''image/AVIF; v=1; q=0.3, image/webp; q=0.8, text/html''"
  by (simp add: print_accept_def print_range_def range_parts_def demo_ranges_def demo_weights)

theorem resolve_respects_accept_witness:
  "resolve_format Png None = (Png, False) \<and> wants_webp (Some ''image/webp'')
   \<and> resolve_format AutoFormat (Some ''image/AVIF; v=1; q=0.3, image/webp; q=0.8, text/html'') = (Webp, True)"
proof -
  have "resolve_format AutoFormat (Some ''image/webp'') = (Webp, True)"
    by (simp add: resolve_format_def parse_accept_example best_q_def entry_matches_def q_step_def)
  moreover have "list_all wf_range demo_ranges" "blank_text '' ''"
    by (simp_all add: demo_ranges_def wf_range_def plain_token_def starts_with_def is_graphic_def blank_text_def)
  moreover have "offer_weight demo_ranges ''image/avif'' = 300" "offer_weight demo_ranges ''image/webp'' = 800"
    by code_simp+
  ultimately show ?thesis
    using resolve_respects_accept [of Png None demo_ranges "'' ''"] resolve_respects_accept [of Png "Some ''image/webp''" demo_ranges "'' ''"]
    by (simp add: demo_header)
qed

end
