(* ===== verification/Http_Date.thy ===== *)
theory Http_Date
  imports Prelude
begin

text \<open>
  HTTP dates (\<^verbatim>\<open>src/src/modules/utils/date.rs\<close>): \<^verbatim>\<open>civil_from_days\<close> and
  \<^verbatim>\<open>format_http_date\<close>.  A \<^verbatim>\<open>SystemTime\<close> is its number of whole seconds since the
  epoch, negative before it.  The code's \<^verbatim>\<open>i64\<close> is an integer here: the days of a
  \<^verbatim>\<open>SystemTime\<close> are below \<^verbatim>\<open>2 ^ 63 / 86400\<close> in size, far from where the additions would wrap.
\<close>

definition weekdays :: "string list" where
  "weekdays = [''Thu'', ''Fri'', ''Sat'', ''Sun'', ''Mon'', ''Tue'', ''Wed'']"

definition months :: "string list" where
  "months = [''Jan'', ''Feb'', ''Mar'', ''Apr'', ''May'', ''Jun'', ''Jul'', ''Aug'', ''Sep'', ''Oct'', ''Nov'', ''Dec'']"

text \<open>Rust's \<^verbatim>\<open>/\<close> on \<^verbatim>\<open>i64\<close> truncates towards zero.\<close>

definition tdiv :: "int \<Rightarrow> int \<Rightarrow> int" where
  "tdiv a b = (if a \<ge> 0 then a div b else - ((- a) div b))"

definition civil_from_days :: "int \<Rightarrow> int \<times> nat \<times> nat" where
  "civil_from_days z0 =
     (let z = z0 + 719468;
          era = tdiv (if z \<ge> 0 then z else z - 146096) 146097;
          doe = nat (z - era * 146097);
          yoe = (doe - doe div 1460 + doe div 36524 - doe div 146096) div 365;
          y = int yoe + era * 400;
          doy = doe - (365 * yoe + yoe div 4 - yoe div 100);
          mp = (5 * doy + 2) div 153;
          d = doy - (153 * mp + 2) div 5 + 1;
          m = (if mp < 10 then mp + 3 else mp - 9)
      in (if m \<le> 2 then y + 1 else y, m, d))"

text \<open>The \<^verbatim>\<open>:0n\<close> formats pad with zeros.\<close>

definition pad0 :: "nat \<Rightarrow> string \<Rightarrow> string" where
  "pad0 w s = replicate (w - length s) CHR ''0'' @ s"

definition format_http_date :: "int \<Rightarrow> string" where
  "format_http_date time =
     (let secs = nat (max 0 time);
          days = int (secs div 86400);
          time_of_day = secs mod 86400;
          hour = time_of_day div 3600;
          minute = (time_of_day mod 3600) div 60;
          second = time_of_day mod 60;
          weekday = weekdays ! nat (days mod 7);
          (year, month, day) = civil_from_days days
      in weekday @ '', '' @ pad0 2 (show_nat day) @ '' '' @ months ! (month - 1) @ '' ''
         @ pad0 4 (show_int year) @ '' '' @ pad0 2 (show_nat hour) @ '':'' @ pad0 2 (show_nat minute) @ '':''
         @ pad0 2 (show_nat second) @ '' GMT'')"

definition immutable_resource_last_modified :: string where
  "immutable_resource_last_modified = format_http_date 0"

section \<open>The Gregorian calendar\<close>

definition leap :: "int \<Rightarrow> bool" where
  "leap y = ((4 dvd y \<and> \<not> 100 dvd y) \<or> 400 dvd y)"

definition month_len :: "int \<Rightarrow> nat \<Rightarrow> nat" where
  "month_len y m = (if m = 2 then (if leap y then 29 else 28) else if m \<in> {4, 6, 9, 11} then 30 else 31)"

definition next_day :: "int \<times> nat \<times> nat \<Rightarrow> int \<times> nat \<times> nat" where
  "next_day = (\<lambda>(y, m, d).
     if d < month_len y m then (y, m, d + 1) else if m < 12 then (y, m + 1, 1) else (y + 1, 1, 1))"

section \<open>The year of an era\<close>

definition yoe_of :: "nat \<Rightarrow> nat" where
  "yoe_of doe = (doe - doe div 1460 + doe div 36524 - doe div 146096) div 365"

definition year_start :: "nat \<Rightarrow> nat" where
  "year_start y = 365 * y + y div 4 - y div 100"

text \<open>The length of a year that begins in March, from its number in the era.\<close>

definition year_len :: "nat \<Rightarrow> nat" where
  "year_len y = (if y = 399 \<or> ((y + 1) mod 4 = 0 \<and> (y + 1) mod 100 \<noteq> 0) then 366 else 365)"

lemma yoe_mono1: "doe - doe div 1460 + doe div 36524 - doe div 146096
    \<le> Suc doe - Suc doe div 1460 + Suc doe div 36524 - Suc doe div 146096"
proof -
  have a: "Suc doe div 1460 \<le> doe div 1460 + 1"
    by (simp add: div_Suc)
  have b: "doe div 146096 = doe div 36524 div 4" "Suc doe div 146096 = Suc doe div 36524 div 4"
    by (simp_all flip: div_mult2_eq)
  have c: "Suc doe div 36524 = doe div 36524 \<or> Suc doe div 36524 = Suc (doe div 36524)"
    by (simp add: div_Suc)
  have d: "x - x div 4 \<le> Suc x - Suc x div 4" for x :: nat
    by (cases "Suc x mod 4 = 0") (simp_all add: div_Suc)
  have e: "doe div 1460 \<le> doe"
    by simp
  define x where "x = doe div 36524"
  have A: "doe - doe div 1460 \<le> Suc doe - Suc doe div 1460"
    using a e by simp
  have q: "x div 4 \<le> x" "Suc x div 4 \<le> Suc x"
    by simp_all
  show ?thesis
    using c unfolding b x_def [symmetric]
  proof
    assume s: "Suc doe div 36524 = x"
    show "doe - doe div 1460 + x - x div 4
        \<le> Suc doe - Suc doe div 1460 + Suc doe div 36524 - Suc doe div 36524 div 4"
      unfolding s using A by (intro diff_le_mono add_right_mono)
  next
    assume s: "Suc doe div 36524 = Suc x"
    show "doe - doe div 1460 + x - x div 4
        \<le> Suc doe - Suc doe div 1460 + Suc doe div 36524 - Suc doe div 36524 div 4"
      unfolding s using add_mono [OF A d [of x]] q by (simp add: diff_add_assoc)
  qed
qed

lemma yoe_mono: "i \<le> j \<Longrightarrow> yoe_of i \<le> yoe_of j"
proof -
  have "mono (\<lambda>doe::nat. doe - doe div 1460 + doe div 36524 - doe div 146096)"
    using yoe_mono1 by (simp add: mono_iff_le_Suc)
  then show "i \<le> j \<Longrightarrow> yoe_of i \<le> yoe_of j"
    unfolding yoe_of_def by (intro div_le_mono) (auto dest: monoD)
qed

definition year_ok :: "nat \<Rightarrow> bool" where
  "year_ok y \<longleftrightarrow> yoe_of (year_start y) = y \<and> yoe_of (year_start y + year_len y - 1) = y
      \<and> year_start (y + 1) + (if y = 399 then 1 else 0) = year_start y + year_len y
      \<and> year_start y + year_len y \<le> 146097"

lemma year_ok_numeral: "year_ok 0" "year_ok 1" "year_ok (numeral k) \<longleftrightarrow>
   yoe_of (year_start (numeral k)) = numeral k \<and> yoe_of (year_start (numeral k) + year_len (numeral k) - 1) = numeral k
      \<and> year_start (numeral (k + num.One)) + (if numeral k = (399::nat) then 1 else 0) = year_start (numeral k) + year_len (numeral k)
      \<and> year_start (numeral k) + year_len (numeral k) \<le> 146097"
  by (simp_all add: year_ok_def yoe_of_def year_start_def year_len_def)

lemma year_ok_all: "list_all year_ok [2..<400]"
  by (simp add: upt_rec_numeral year_ok_numeral yoe_of_def year_start_def year_len_def)

lemma year_ok: "y < 400 \<Longrightarrow> year_ok y"
proof (cases "y < 2")
  case True
  then have "y = 0 \<or> y = 1"
    by linarith
  then show ?thesis
    using year_ok_numeral(1,2) by blast
next
  case False
  assume "y < 400"
  with False have "y \<in> set [2..<400]"
    by (simp only: set_upt atLeastLessThan_iff not_less)
  then show ?thesis
    using year_ok_all by (simp only: list_all_iff)
qed

lemma yoe_of_year:
  assumes "y < 400" "doy < year_len y"
  shows "yoe_of (year_start y + doy) = y"
proof -
  have "yoe_of (year_start y) = y" "yoe_of (year_start y + year_len y - 1) = y"
    using year_ok [OF assms(1)] by (simp_all add: year_ok_def)
  then show ?thesis
    using yoe_mono [of "year_start y" "year_start y + doy"]
      yoe_mono [of "year_start y + doy" "year_start y + year_len y - 1"] assms(2) by simp
qed

lemma year_start_Suc: "y < 399 \<Longrightarrow> year_start (Suc y) = year_start y + year_len y"
  using year_ok [of y] by (simp add: year_ok_def)

lemma doe_decompose:
  "doe < 146097 \<Longrightarrow> \<exists>y doy. y < 400 \<and> doy < year_len y \<and> doe = year_start y + doy"
proof (induction doe)
  case 0
  show ?case
    by (rule exI [of _ 0], rule exI [of _ 0]) (simp add: year_start_def year_len_def)
next
  case (Suc doe)
  then obtain y doy where y: "y < 400" "doy < year_len y" "doe = year_start y + doy"
    by auto
  consider "Suc doy < year_len y" | "Suc doy = year_len y" "y < 399" | "Suc doy = year_len y" "y = 399"
    using y(1,2) by linarith
  then show ?case
  proof cases
    case 1
    then show ?thesis
      using y by (intro exI [of _ y] exI [of _ "Suc doy"]) simp
  next
    case 2
    then show ?thesis
      using y year_start_Suc [OF 2(2)]
      by (intro exI [of _ "Suc y"] exI [of _ 0]) (simp add: year_len_def)
  next
    case 3
    then have "Suc doe = 146097"
      using y by (simp add: year_start_def year_len_def)
    then show ?thesis
      using Suc.prems by simp
  qed
qed

section \<open>The day of a year\<close>

definition month_day :: "nat \<Rightarrow> nat \<times> nat" where
  "month_day doy =
     (let mp = (5 * doy + 2) div 153
      in (if mp < 10 then mp + 3 else mp - 9, doy - (153 * mp + 2) div 5 + 1))"

definition longest_month :: "nat \<Rightarrow> nat" where
  "longest_month m = (if m = 2 then 29 else if m \<in> {4, 6, 9, 11} then 30 else 31)"

definition day_ok :: "nat \<Rightarrow> bool" where
  "day_ok doy \<longleftrightarrow> (let (m, d) = month_day doy in
     month_day (doy + 1) = (if d < longest_month m then (m, d + 1) else (m mod 12 + 1, 1))
     \<and> 1 \<le> m \<and> m \<le> 12 \<and> 1 \<le> d \<and> d \<le> longest_month m \<and> (m = 2 \<and> 28 \<le> d \<longleftrightarrow> 364 \<le> doy))"

lemma day_ok_numeral: "day_ok 0" "day_ok 1" "day_ok (numeral k) \<longleftrightarrow>
   (let (m, d) = month_day (numeral k) in
     month_day (numeral (k + num.One)) = (if d < longest_month m then (m, d + 1) else (m mod 12 + 1, 1))
     \<and> 1 \<le> m \<and> m \<le> 12 \<and> 1 \<le> d \<and> d \<le> longest_month m \<and> (m = 2 \<and> 28 \<le> d \<longleftrightarrow> 364 \<le> (numeral k :: nat)))"
  by (simp_all add: day_ok_def month_day_def longest_month_def)

lemma day_ok_all: "list_all day_ok [2..<365]"
  by (simp add: upt_rec_numeral day_ok_numeral month_day_def longest_month_def)

lemma day_ok: "doy < 365 \<Longrightarrow> day_ok doy"
proof (cases "doy < 2")
  case True
  then have "doy = 0 \<or> doy = 1"
    by linarith
  then show ?thesis
    using day_ok_numeral(1,2) by blast
next
  case False
  assume "doy < 365"
  with False have "doy \<in> set [2..<365]"
    by (simp only: set_upt atLeastLessThan_iff not_less)
  then show ?thesis
    using day_ok_all by (simp only: list_all_iff)
qed

section \<open>Dates by era, year and day\<close>

definition date_at :: "int \<Rightarrow> nat \<Rightarrow> nat \<Rightarrow> int \<times> nat \<times> nat" where
  "date_at era y doy =
     (case month_day doy of (m, d) \<Rightarrow> (int y + era * 400 + (if m \<le> 2 then 1 else 0), m, d))"

lemma tdiv_era: "tdiv (if z \<ge> 0 then z else z - 146096) 146097 = z div 146097"
proof (cases "z \<ge> 0")
  case False
  have "(146096 - z) div 146097 = - (z div 146097)"
    by (rule int_div_pos_eq [where r = "146096 - z mod 146097"])
      (simp_all add: algebra_simps minus_mod_eq_mult_div [symmetric])
  then show ?thesis
    using False by (simp add: tdiv_def)
qed (simp add: tdiv_def)

lemma year_len_bounds: "365 \<le> year_len y" "year_len y \<le> 366"
  by (simp_all add: year_len_def)

lemma civil_date_at:
  assumes "y < 400" "doy < year_len y" "year_start y + doy < 146097"
  shows "civil_from_days (era * 146097 + int (year_start y + doy) - 719468) = date_at era y doy"
proof -
  let ?doe = "year_start y + doy"
  have era: "(era * 146097 + int ?doe) div 146097 = era"
    using assms(3) by simp
  have y: "(?doe - ?doe div 1460 + ?doe div 36524 - ?doe div 146096) div 365 = y"
    using yoe_of_year [OF assms(1,2)] by (simp add: yoe_of_def)
  have doy: "?doe - (365 * y + y div 4 - y div 100) = doy"
    by (simp add: year_start_def)
  show ?thesis
    unfolding civil_from_days_def tdiv_era Let_def
    by (simp only: diff_add_cancel era add_diff_cancel_left' nat_int y doy)
      (simp add: date_at_def month_day_def Let_def)
qed

lemma leap_year_len:
  assumes "y < 400"
  shows "leap (int y + era * 400 + 1) \<longleftrightarrow> year_len y = 366"
proof -
  have "k dvd int y + era * 400 + 1 \<longleftrightarrow> k dvd int (y + 1)" if "k dvd 400" for k :: int
  proof -
    have "int y + era * 400 + 1 = era * 400 + int (y + 1)"
      by simp
    then show ?thesis
      using that by (simp only: dvd_add_right_iff dvd_mult)
  qed
  from this [of "int 4"] this [of "int 100"] this [of "int 400"]
  have "leap (int y + era * 400 + 1) \<longleftrightarrow> (4 dvd y + 1 \<and> \<not> 100 dvd y + 1) \<or> 400 dvd y + 1"
    unfolding leap_def by (simp only: int_dvd_int_iff) simp
  moreover have "400 dvd y + 1 \<longleftrightarrow> y = 399"
    using assms dvd_imp_le [of 400 "y + 1"] by auto
  ultimately show ?thesis
    by (auto simp: year_len_def dvd_eq_mod_eq_0)
qed

lemma date_at_next:
  assumes "y < 400" "Suc doy < year_len y"
  shows "date_at era y (Suc doy) = next_day (date_at era y doy)"
proof -
  have doy: "doy < 365"
    using assms(2) year_len_bounds(2) [of y] by simp
  obtain m d where md: "month_day doy = (m, d)"
    by (cases "month_day doy")
  note ok = day_ok [OF doy, unfolded day_ok_def md Let_def prod.case]
  let ?Y = "int y + era * 400 + (if m \<le> 2 then 1 else 0)"
  have "d < longest_month m \<longleftrightarrow> d < month_len ?Y m"
  proof (cases "m = 2 \<and> 28 \<le> d")
    case True
    then have "364 \<le> doy"
      using ok by blast
    then have "year_len y = 366"
      using assms(2) year_len_bounds [of y] by linarith
    then show ?thesis
      using True leap_year_len [OF assms(1), of era] by (simp add: month_len_def longest_month_def)
  qed (auto simp: month_len_def longest_month_def)
  moreover have "m mod 12 + 1 = (if m < 12 then m + 1 else 1)"
    using ok by auto
  moreover have "m = 1 \<or> m = 2 \<or> 2 < m"
    using ok by linarith
  moreover have "d < longest_month m" if "m = 2"
  proof (rule ccontr)
    assume "\<not> d < longest_month m"
    then have "28 < d" "doy = 364"
      using that ok doy by (auto simp: longest_month_def)
    then show False
      using md by (simp add: month_day_def)
  qed
  ultimately show ?thesis
    using ok by (auto simp: date_at_def md next_day_def)
qed

lemma date_at_year_end:
  assumes "y < 400" "Suc doy = year_len y"
  shows "next_day (date_at era y doy) = (int y + era * 400 + 1, 3, 1)"
proof -
  have "doy = 364 \<and> \<not> leap (int y + era * 400 + 1) \<or> doy = 365 \<and> leap (int y + era * 400 + 1)"
    using assms leap_year_len [OF assms(1), of era] by (auto simp: year_len_def split: if_splits)
  then show ?thesis
    by (auto simp: date_at_def month_day_def next_day_def month_len_def)
qed

text \<open>
  C21. \<^verbatim>\<open>civil_from_days\<close> is the proleptic Gregorian calendar: day 0 is
  1 January 1970 and each following day number is the following calendar date,
  with months and leap years of the right length, for every day number.
\<close>

theorem civil_from_days_calendar:
  "civil_from_days 0 = (1970, 1, 1) \<and> civil_from_days (z + 1) = next_day (civil_from_days z)"
proof
  show "civil_from_days 0 = (1970, 1, 1)"
    by code_simp
  define era doe where "era = (z + 719468) div 146097" and "doe = nat ((z + 719468) mod 146097)"
  have doe: "doe < 146097"
    by (simp add: doe_def nat_less_iff)
  have "int doe = (z + 719468) mod 146097"
    by (simp add: doe_def)
  then have z: "z = era * 146097 + int doe - 719468"
    using div_mult_mod_eq [of "z + 719468" 146097] unfolding era_def by linarith
  obtain y doy where y: "y < 400" "doy < year_len y" "doe = year_start y + doy"
    using doe_decompose [OF doe] by blast
  have cz: "civil_from_days z = date_at era y doy"
    using civil_date_at [OF y(1,2), of era] y(3) doe z by simp
  consider "Suc doy < year_len y" | "Suc doy = year_len y" "y < 399" | "Suc doy = year_len y" "y = 399"
    using y(1,2) by linarith
  then show "civil_from_days (z + 1) = next_day (civil_from_days z)"
  proof cases
    case 1
    then have "year_start y + Suc doy < 146097"
      using year_ok [OF y(1)] by (simp add: year_ok_def)
    from civil_date_at [OF y(1) 1 this, of era] show ?thesis
      unfolding cz by (simp add: z y(3) date_at_next [OF y(1) 1] algebra_simps)
  next
    case 2
    have "year_start (Suc y) + 0 < 146097" "0 < year_len (Suc y)" "Suc y < 400"
      using year_ok [of "Suc y"] 2 by (simp_all add: year_ok_def year_len_def split: if_splits)
    then have "civil_from_days (era * 146097 + int (year_start (Suc y) + 0) - 719468) = date_at era (Suc y) 0"
      by (intro civil_date_at)
    moreover have "era * 146097 + int (year_start (Suc y) + 0) - 719468 = z + 1"
      using year_start_Suc [OF 2(2)] 2(1) y(3) z by simp
    ultimately have "civil_from_days (z + 1) = date_at era (Suc y) 0"
      by (simp only:)
    then show ?thesis
      unfolding cz date_at_year_end [OF y(1) 2(1)] by (simp add: date_at_def month_day_def)
  next
    case 3
    have "civil_from_days ((era + 1) * 146097 + int (year_start 0 + 0) - 719468) = date_at (era + 1) 0 0"
      by (rule civil_date_at) (simp_all add: year_len_def year_start_def)
    moreover have "(era + 1) * 146097 + int (year_start 0 + 0) - 719468 = z + 1"
      using 3 y(3) z by (simp add: year_start_def year_len_def)
    ultimately have "civil_from_days (z + 1) = date_at (era + 1) 0 0"
      by (simp only:)
    then show ?thesis
      unfolding cz date_at_year_end [OF y(1) 3(1)] by (simp add: date_at_def month_day_def 3(2))
  qed
qed

end
