(* ===== verification/Http_Api.thy ===== *)
theory Http_Api
  imports Resize Signing Negotiation Http_Date
begin

text \<open>
  The HTTP surface: the handlers of \<^verbatim>\<open>src/src/modules/api/resize.rs\<close> and
  \<^verbatim>\<open>src/src/modules/api/download.rs\<close>, conditional requests
  (\<^verbatim>\<open>src/src/modules/router/middlewares.rs\<close>, \<^verbatim>\<open>src/src/modules/utils/etag.rs\<close>), the router's
  limits, and the authentication of the metrics endpoint
  (\<^verbatim>\<open>src/src/modules/metrics_auth\<close>).

  A handler takes the time, the parts of the request it reads and the state of the
  storage backend.  Request headers are a map from lower-case names to bytes;
  response headers are a list on which \<^verbatim>\<open>insert\<close> replaces.  The crates that decode
  signatures, sources and percent escapes, and the renderings of parse errors and of
  \<^verbatim>\<open>Debug\<close> text, are the fields of \<^verbatim>\<open>codecs\<close>.
\<close>

section \<open>Headers\<close>

record codecs =
  cd_hmac :: "string \<Rightarrow> string \<Rightarrow> string"
  cd_b64 :: "string \<Rightarrow> string option"
  cd_pct :: "string \<Rightarrow> string option"
  cd_parse_error :: "url_parse_error \<Rightarrow> string"
  cd_debug :: "string \<Rightarrow> string"

type_synonym headers = "string \<rightharpoonup> string"

text \<open>\<^verbatim>\<open>HeaderValue::to_str\<close> and \<^verbatim>\<open>HeaderValue::from_str\<close>.\<close>

definition value_to_str :: "string \<Rightarrow> string option" where
  "value_to_str v = (if list_all (\<lambda>c. (32 \<le> byte c \<and> byte c < 127) \<or> byte c = 9) v then Some v else None)"

definition value_from_str :: "string \<Rightarrow> string option" where
  "value_from_str v = (if list_all (\<lambda>c. (32 \<le> byte c \<and> byte c \<noteq> 127) \<or> byte c = 9) v then Some v else None)"

definition insert_header :: "string \<Rightarrow> string \<Rightarrow> (string \<times> string) list \<Rightarrow> (string \<times> string) list" where
  "insert_header name v hs = filter (\<lambda>h. fst h \<noteq> name) hs @ [(name, v)]"

definition immutable_cache :: string where
  "immutable_cache = ''public, max-age=31536000, immutable''"

section \<open>The resize handler\<close>

record 's api_service =
  ap_resize_service :: "'s resize_service"
  ap_signing :: signing_config
  ap_presets :: preset_registry
  ap_allowed_options :: allowed_options

definition url_parse_error_response :: "codecs \<Rightarrow> url_parse_error \<Rightarrow> app_error" where
  "url_parse_error_response cd err = BadRequest (cd_parse_error cd err)"

definition perform_resize :: "'s api_service \<Rightarrow> nat \<Rightarrow> resize_query \<Rightarrow> 's \<Rightarrow> (app_error, string) result \<times> 's" where
  "perform_resize api now query s =
     map_prod (map_err classify_resize_error) id (resize_alone (ap_resize_service api) now query s)"

text \<open>What \<^verbatim>\<open>handle\<close> does before it touches the service: the checked and negotiated query.\<close>

definition admit :: "codecs \<Rightarrow> 's api_service \<Rightarrow> string \<Rightarrow> headers \<Rightarrow> (app_error, resize_query \<times> bool) result" where
  "admit cd api raw_path hs =
     bindr (map_err (url_parse_error_response cd) (split_path raw_path)) (\<lambda>signed.
     bindr (verify_or_reject (cd_hmac cd) (cd_b64 cd) (ap_signing api) signed) (\<lambda>_.
     bindr (map_err (url_parse_error_response cd)
             (parse_with_config (cd_b64 cd) (cd_pct cd) (ap_presets api) (ap_allowed_options api) signed)) (\<lambda>parsed.
       (let query = into_resize_query parsed;
            accept = Option.bind (hs ''accept'') value_to_str;
            (resolved_format, negotiated) = resolve_format (rq_format query) accept
        in Inr (query\<lparr>rq_format := resolved_format\<rparr>, negotiated)))))"

definition handle ::
  "codecs \<Rightarrow> 's api_service \<Rightarrow> nat \<Rightarrow> string \<Rightarrow> headers \<Rightarrow> 's \<Rightarrow> (app_error, string \<times> bool) result \<times> 's" where
  "handle cd api now raw_path hs s =
     (case admit cd api raw_path hs of
        Inl e \<Rightarrow> (Inl e, s)
      | Inr (query, negotiated) \<Rightarrow>
          (case perform_resize api now query s of
             (Inl e, s') \<Rightarrow> (Inl e, s')
           | (Inr location, s') \<Rightarrow> (Inr (location, negotiated), s')))"

definition redirect_response :: "codecs \<Rightarrow> string \<Rightarrow> bool \<Rightarrow> response" where
  "redirect_response cd location negotiated =
     (case value_from_str location of
        Some v \<Rightarrow>
          \<lparr> resp_status = 301,
            resp_headers = insert_header ''location'' v
              ((if negotiated then insert_header ''vary'' ''Accept'' else id)
                 (insert_header ''cache-control'' immutable_cache [])),
            resp_body = [] \<rparr>
      | None \<Rightarrow> error_response (AnyError (plain_error
          (''generated CDN location '' @ cd_debug cd location @ '' is not a valid HTTP header value''))))"

definition resize_handler ::
  "codecs \<Rightarrow> 's api_service \<Rightarrow> nat \<Rightarrow> string \<Rightarrow> headers \<Rightarrow> 's \<Rightarrow> response \<times> 's" where
  "resize_handler cd api now path hs s =
     (case handle cd api now path hs s of
        (Inr (location, negotiated), s') \<Rightarrow> (redirect_response cd location negotiated, s')
      | (Inl err, s') \<Rightarrow> (error_response err, s'))"

section \<open>The download handler\<close>

definition content_type_for_key :: "string \<Rightarrow> string" where
  "content_type_for_key key =
     (let ext = (case rsplit_once CHR ''.'' key of Some (_, e) \<Rightarrow> e | None \<Rightarrow> key) in
      case image_format_from_str ext of
        Inr f \<Rightarrow>
          (case f of
             Jpg \<Rightarrow> ''image/jpeg'' | Png \<Rightarrow> ''image/png'' | Webp \<Rightarrow> ''image/webp''
           | Avif \<Rightarrow> ''image/avif'' | Gif \<Rightarrow> ''image/gif'' | AutoFormat \<Rightarrow> ''application/octet-stream'')
      | Inl _ \<Rightarrow> ''application/octet-stream'')"

definition success_response :: "string \<Rightarrow> string \<Rightarrow> response" where
  "success_response key data =
     \<lparr> resp_status = 200,
       resp_headers = insert_header ''content-type'' (content_type_for_key key)
         (insert_header ''cache-control'' immutable_cache [(''content-type'', ''application/octet-stream'')]),
       resp_body = data \<rparr>"

definition download_handler :: "'s api_service \<Rightarrow> nat \<Rightarrow> string \<Rightarrow> 's \<Rightarrow> response \<times> 's" where
  "download_handler api now key s =
     (case resize_download (ap_resize_service api) now key s of
        (Inr data, s') \<Rightarrow> (success_response key data, s')
      | (Inl e, s') \<Rightarrow> (error_response (classify_download_error e), s'))"

section \<open>Conditional requests\<close>

definition strip_weak_prefix :: "string \<Rightarrow> string" where
  "strip_weak_prefix v = (case strip_prefix ''W/'' v of Some r \<Rightarrow> r | None \<Rightarrow> v)"

definition if_none_match_satisfied :: "string \<Rightarrow> string \<Rightarrow> bool" where
  "if_none_match_satisfied if_none_match etag =
     list_ex (\<lambda>candidate. candidate = ''*'' \<or> strip_weak_prefix candidate = etag)
       (map trim (split_on CHR '','' if_none_match))"

definition download_path_prefix :: string where
  "download_path_prefix = ''/api/images/files/''"

definition etag_for_request :: "string \<Rightarrow> string option" where
  "etag_for_request path =
     (case strip_prefix download_path_prefix path of
        Some key \<Rightarrow> if key \<noteq> [] then Some ([CHR 0x22] @ key @ [CHR 0x22]) else None
      | None \<Rightarrow> None)"

definition apply_conditional_headers :: "string \<Rightarrow> (string \<times> string) list \<Rightarrow> (string \<times> string) list" where
  "apply_conditional_headers etag hs =
     (let hs = (case value_from_str etag of Some v \<Rightarrow> insert_header ''etag'' v hs | None \<Rightarrow> hs);
          lm = unwrap_or (value_from_str immutable_resource_last_modified) ''Thu, 01 Jan 1970 00:00:00 GMT'';
          hs = insert_header ''last-modified'' lm hs
      in insert_header ''vary'' ''Accept'' hs)"

definition not_modified_response :: "string \<Rightarrow> response" where
  "not_modified_response etag =
     \<lparr> resp_status = 304,
       resp_headers = insert_header ''cache-control'' immutable_cache (apply_conditional_headers etag []),
       resp_body = [] \<rparr>"

definition conditional_download ::
  "('s \<Rightarrow> response \<times> 's) \<Rightarrow> string \<Rightarrow> headers \<Rightarrow> 's \<Rightarrow> response \<times> 's" where
  "conditional_download next path hs s =
     (case etag_for_request path of
        None \<Rightarrow> next s
      | Some etag \<Rightarrow>
          if (case Option.bind (hs ''if-none-match'') value_to_str of
                Some if_none_match \<Rightarrow> if_none_match_satisfied if_none_match etag
              | None \<Rightarrow> False)
          then (not_modified_response etag, s)
          else
            (case next s of
               (response, s') \<Rightarrow>
                 if resp_status response = 200
                 then (response\<lparr>resp_headers := apply_conditional_headers etag (resp_headers response)\<rparr>, s')
                 else (response, s')))"

section \<open>Saturation and timeouts\<close>

record middleware_config =
  mc_request_timeout_ms :: nat
  mc_max_concurrent_requests :: nat
  mc_rate_limit_burst :: nat
  mc_rate_limit_period_ms :: nat

definition default_middleware_config :: middleware_config where
  "default_middleware_config =
     \<lparr> mc_request_timeout_ms = 30000, mc_max_concurrent_requests = 512, mc_rate_limit_burst = 20,
       mc_rate_limit_period_ms = 100 \<rparr>"

text \<open>\<^term>\<open>parse\<close> is \<^verbatim>\<open>parse::<T>\<close> of the field's integer type.\<close>

definition env_positive :: "(string \<Rightarrow> nat option) \<Rightarrow> (string \<rightharpoonup> string) \<Rightarrow> string \<Rightarrow> nat option" where
  "env_positive parse env name =
     (case Option.bind (env name) parse of Some v \<Rightarrow> if v \<noteq> 0 then Some v else None | None \<Rightarrow> None)"

definition middleware_from_env :: "(string \<rightharpoonup> string) \<Rightarrow> middleware_config" where
  "middleware_from_env env =
     (let d = default_middleware_config in
      \<lparr> mc_request_timeout_ms =
          unwrap_or (map_option (\<lambda>n. n * 1000) (env_positive parse_u64 env ''REQUEST_TIMEOUT_SECS'')) (mc_request_timeout_ms d),
        mc_max_concurrent_requests =
          unwrap_or (env_positive parse_u64 env ''MAX_CONCURRENT_REQUESTS'') (mc_max_concurrent_requests d),
        mc_rate_limit_burst = unwrap_or (env_positive parse_u32 env ''RATE_LIMIT_BURST'') (mc_rate_limit_burst d),
        mc_rate_limit_period_ms =
          unwrap_or (env_positive parse_u64 env ''RATE_LIMIT_PERIOD_MS'') (mc_rate_limit_period_ms d) \<rparr>)"

definition service_unavailable :: "string \<Rightarrow> response" where
  "service_unavailable msg =
     \<lparr> resp_status = 503,
       resp_headers = insert_header ''cache-control'' ''no-store'' [(''content-type'', ''text/plain; charset=utf-8'')],
       resp_body = msg \<rparr>"

text \<open>
  \<^term>\<open>running\<close> requests hold permits; the inner service answers after \<^term>\<open>took\<close>
  milliseconds.  The result is the response and the permits held while it ran.
\<close>

definition saturation_and_timeout :: "middleware_config \<Rightarrow> nat \<Rightarrow> nat \<Rightarrow> response \<Rightarrow> response \<times> nat" where
  "saturation_and_timeout config running took inner =
     (if running \<ge> mc_max_concurrent_requests config
      then (service_unavailable ''service is at capacity, try again shortly'', running)
      else if took > mc_request_timeout_ms config
      then (service_unavailable ''request exceeded the configured timeout'', running + 1)
      else (inner, running + 1))"

section \<open>Metrics authentication\<close>

record metrics_auth_config =
  ma_token :: string
  ma_allow_unauthenticated :: bool

definition metrics_enabled :: "metrics_auth_config \<Rightarrow> bool" where
  "metrics_enabled c = (ma_token c \<noteq> [])"

datatype metrics_error = TokenRequired

definition metrics_auth_from_env ::
  "string option \<Rightarrow> bool option \<Rightarrow> (metrics_error, metrics_auth_config) result" where
  "metrics_auth_from_env metrics_auth_token allow_unauthenticated_metrics =
     (let allow_unauthenticated = unwrap_or allow_unauthenticated_metrics False;
          token = unwrap_or (Option.bind (map_option trim metrics_auth_token) (\<lambda>s. if s \<noteq> [] then Some s else None)) [];
          metrics_auth = \<lparr> ma_token = token, ma_allow_unauthenticated = allow_unauthenticated \<rparr>
      in if \<not> metrics_enabled metrics_auth \<and> \<not> ma_allow_unauthenticated metrics_auth
         then Inl TokenRequired else Inr metrics_auth)"

definition verify_token :: "metrics_auth_config \<Rightarrow> string \<Rightarrow> bool" where
  "verify_token c provided =
     (if \<not> metrics_enabled c then False
      else if length provided \<noteq> length (ma_token c) then False
      else provided = ma_token c)"

definition bearer_prefix :: string where
  "bearer_prefix = ''Bearer ''"

definition unauthorized_response :: response where
  "unauthorized_response =
     \<lparr> resp_status = 401,
       resp_headers = insert_header ''www-authenticate'' (''Bearer realm='' @ [CHR 0x22] @ ''metrics'' @ [CHR 0x22])
         [(''content-type'', ''text/plain; charset=utf-8'')],
       resp_body = ''unauthorized'' \<rparr>"

definition require_metrics_auth :: "metrics_auth_config \<Rightarrow> headers \<Rightarrow> response \<Rightarrow> response" where
  "require_metrics_auth config hs inner =
     (if ma_allow_unauthenticated config then inner
      else
        (let provided_token = Option.bind (Option.bind (hs ''authorization'') value_to_str) (strip_prefix bearer_prefix);
             authorized = (case provided_token of Some token \<Rightarrow> verify_token config token | None \<Rightarrow> False)
         in if authorized then inner else unauthorized_response))"

section \<open>What the resize handler answers\<close>

lemma resolve_format_concrete: "fst (resolve_format f accept) \<noteq> AutoFormat"
  by (auto simp: resolve_format_def Let_def)

lemma admit_Inr:
  assumes "admit cd api path hs = Inr (query, negotiated)"
  shows "rq_format query \<noteq> AutoFormat
     \<and> (\<exists>signed. split_path path = Inr signed \<and> verify_or_reject (cd_hmac cd) (cd_b64 cd) (ap_signing api) signed = Inr ())"
  using assms resolve_format_concrete
  by (auto simp: admit_def result_simps Let_def case_prod_unfold)

lemma resize_alone_url: "resize_alone rs now q s = (Inr u, s') \<Longrightarrow> u = get_cdn_url (rs_storage rs) (cache_key rs q)"
  by (auto simp: resize_alone_def do_resize_work_def split: prod.splits sum.splits bool.splits)

lemma error_response_status: "resp_status (error_response e) \<noteq> 301" "resp_status (error_response e) \<noteq> 200"
  by (cases e; simp add: error_response_def status_code_def)+

lemma insert_header_mem: "(name, w) \<in> set (insert_header name v hs) \<longleftrightarrow> w = v"
  "m \<noteq> name \<Longrightarrow> (m, w) \<in> set (insert_header name v hs) \<longleftrightarrow> (m, w) \<in> set hs"
  by (auto simp: insert_header_def)

lemma value_from_str_Some: "value_from_str v = Some w \<Longrightarrow> w = v"
  by (simp add: value_from_str_def split: if_splits)

lemma redirect_response_301:
  assumes "resp_status (redirect_response cd loc negotiated) = 301"
  shows "(''location'', w) \<in> set (resp_headers (redirect_response cd loc negotiated)) \<longleftrightarrow> w = loc"
    and "(''vary'', w) \<in> set (resp_headers (redirect_response cd loc negotiated)) \<longleftrightarrow> negotiated \<and> w = ''Accept''"
  using assms error_response_status value_from_str_Some [of loc]
  by (auto simp: redirect_response_def insert_header_mem insert_header_def split: option.splits)

lemma resize_handler_301:
  assumes "resize_handler cd api now path hs s = (resp, s')" "resp_status resp = 301"
  obtains query negotiated where "admit cd api path hs = Inr (query, negotiated)"
    "resize_alone (ap_resize_service api) now query s =
       (Inr (get_cdn_url (rs_storage (ap_resize_service api)) (cache_key (ap_resize_service api) query)), s')"
    "resp = redirect_response cd (get_cdn_url (rs_storage (ap_resize_service api)) (cache_key (ap_resize_service api) query)) negotiated"
proof -
  obtain query negotiated where a: "admit cd api path hs = Inr (query, negotiated)"
    using assms error_response_status by (auto simp: resize_handler_def handle_def split: sum.splits)
  obtain r s1 where r: "resize_alone (ap_resize_service api) now query s = (r, s1)"
    by fastforce
  show thesis
  proof (cases r)
    case (Inl e)
    then show thesis
      using assms a r error_response_status by (auto simp: resize_handler_def handle_def perform_resize_def)
  next
    case (Inr u)
    then show thesis
      using assms a r resize_alone_url [of "ap_resize_service api" now query s u s1] that [OF a]
      by (auto simp: resize_handler_def handle_def perform_resize_def)
  qed
qed

text \<open>
  C28. The resize route redirects to its own results only.  A request that fails the
  path grammar, the signature gate or the option parser is answered with that error and
  leaves the service and its storage alone.  A 301 means the signature was accepted,
  and its only Location is the CDN URL of the cache key of the admitted query in a
  concrete format, never the source URL of the caller; Vary is sent exactly when the
  format was negotiated.
\<close>
theorem resize_handler_safe:
  "(admit cd api path hs = Inl e \<longrightarrow> resize_handler cd api now path hs s = (error_response e, s))
   \<and> (resp_status (fst (resize_handler cd api now path hs s)) = 301 \<longrightarrow>
       (\<exists>query negotiated signed. admit cd api path hs = Inr (query, negotiated) \<and> rq_format query \<noteq> AutoFormat
          \<and> split_path path = Inr signed
          \<and> verify_or_reject (cd_hmac cd) (cd_b64 cd) (ap_signing api) signed = Inr ()
          \<and> (\<forall>w. (''location'', w) \<in> set (resp_headers (fst (resize_handler cd api now path hs s))) \<longleftrightarrow>
               w = get_cdn_url (rs_storage (ap_resize_service api)) (cache_key (ap_resize_service api) query))
          \<and> (\<forall>w. (''vary'', w) \<in> set (resp_headers (fst (resize_handler cd api now path hs s))) \<longleftrightarrow>
               negotiated \<and> w = ''Accept'')))"
proof (intro conjI impI)
  show "resize_handler cd api now path hs s = (error_response e, s)" if "admit cd api path hs = Inl e"
    using that by (simp add: resize_handler_def handle_def)
next
  assume st: "resp_status (fst (resize_handler cd api now path hs s)) = 301"
  obtain resp s' where r: "resize_handler cd api now path hs s = (resp, s')"
    by fastforce
  show "\<exists>query negotiated signed. admit cd api path hs = Inr (query, negotiated) \<and> rq_format query \<noteq> AutoFormat
      \<and> split_path path = Inr signed
      \<and> verify_or_reject (cd_hmac cd) (cd_b64 cd) (ap_signing api) signed = Inr ()
      \<and> (\<forall>w. (''location'', w) \<in> set (resp_headers (fst (resize_handler cd api now path hs s))) \<longleftrightarrow>
           w = get_cdn_url (rs_storage (ap_resize_service api)) (cache_key (ap_resize_service api) query))
      \<and> (\<forall>w. (''vary'', w) \<in> set (resp_headers (fst (resize_handler cd api now path hs s))) \<longleftrightarrow>
           negotiated \<and> w = ''Accept'')"
  proof (rule resize_handler_301 [OF r])
    show "resp_status resp = 301"
      using st r by simp
    fix query negotiated
    assume q: "admit cd api path hs = Inr (query, negotiated)"
      "resp = redirect_response cd (get_cdn_url (rs_storage (ap_resize_service api)) (cache_key (ap_resize_service api) query)) negotiated"
    have s301: "resp_status (redirect_response cd (get_cdn_url (rs_storage (ap_resize_service api))
        (cache_key (ap_resize_service api) query)) negotiated) = 301"
      using st r q(2) by simp
    show ?thesis
      using q r admit_Inr [OF q(1)] redirect_response_301 [OF s301] by auto
  qed
qed

text \<open>A service with signing switched off, over an empty memory.\<close>

definition demo_codecs :: codecs where
  "demo_codecs = \<lparr> cd_hmac = (\<lambda>k m. m), cd_b64 = (\<lambda>_. None), cd_pct = Some, cd_parse_error = (\<lambda>_. ''bad path''), cd_debug = id \<rparr>"

definition demo_api :: "memory api_service" where
  "demo_api = \<lparr> ap_resize_service = demo_service, ap_signing = \<lparr> sc_key = [], sc_salt = [], sc_allow_unsigned = True \<rparr>,
     ap_presets = presets_empty, ap_allowed_options = allowed_unrestricted \<rparr>"

lemma demo_resize_status:
  "resp_status (fst (resize_handler demo_codecs demo_api 0 ''/unsigned/plain/http://a/b.jpg'' Map.empty Map.empty)) = 301"
  by code_simp

theorem resize_handler_safe_witness:
  "\<exists>q. admit demo_codecs demo_api ''/unsigned/plain/http://a/b.jpg'' Map.empty = Inr q"
  using resize_handler_safe [where cd = demo_codecs and api = demo_api and path = "''/unsigned/plain/http://a/b.jpg''"
      and hs = Map.empty and now = 0 and s = Map.empty] demo_resize_status by metis

section \<open>Signed URLs\<close>






section \<open>Revalidation\<close>

definition plain_key :: "string \<Rightarrow> bool" where
  "plain_key key \<longleftrightarrow> key \<noteq> [] \<and> list_all (\<lambda>c. is_graphic c \<and> byte c < 127 \<and> c \<noteq> CHR '','' \<and> c \<noteq> CHR 0x22) key"

lemma valid_key_plain:
  assumes "valid_key [] key"
  shows "plain_key key"
proof -
  obtain hash ext where k: "key = hash @ ''.'' @ ext" "list_all is_lower_hex hash" "ext \<in> set allowed_extensions"
    using assms by (auto simp: valid_key_iff)
  have "is_graphic c \<and> byte c < 127 \<and> c \<noteq> CHR '','' \<and> c \<noteq> CHR 0x22" if "is_lower_hex c" for c
    using that by (auto simp: is_lower_hex_def is_graphic_def is_ascii_digit_def)
  then show ?thesis
    using k by (auto simp: plain_key_def list_all_iff allowed_extensions_def is_graphic_def)
qed

definition etag_of :: "string \<Rightarrow> string" where
  "etag_of key = [CHR 0x22] @ key @ [CHR 0x22]"

lemma etag_for_key: "key \<noteq> [] \<Longrightarrow> etag_for_request (download_path_prefix @ key) = Some (etag_of key)"
  by (simp add: etag_for_request_def etag_of_def)

lemma etag_value:
  assumes "plain_key key"
  shows "value_from_str (etag_of key) = Some (etag_of key)" "value_to_str (etag_of key) = Some (etag_of key)"
proof -
  have k: "list_all (\<lambda>c. 33 \<le> byte c \<and> byte c < 127) key"
    using assms by (simp add: plain_key_def is_graphic_def list_all_iff)
  have "list_all (\<lambda>c. (32 \<le> byte c \<and> byte c \<noteq> 127) \<or> byte c = 9) key"
    "list_all (\<lambda>c. (32 \<le> byte c \<and> byte c < 127) \<or> byte c = 9) key"
    by (rule list.pred_mono_strong [OF k], simp)+
  then show "value_from_str (etag_of key) = Some (etag_of key)" "value_to_str (etag_of key) = Some (etag_of key)"
    by (simp_all add: value_from_str_def value_to_str_def etag_of_def)
qed

lemma etag_satisfies:
  assumes "plain_key key" "key' \<noteq> []"
  shows "if_none_match_satisfied (etag_of key) (etag_of key') \<longleftrightarrow> key = key'"
proof -
  have c: "CHR '','' \<notin> set (etag_of key)"
    using assms(1) by (auto simp: etag_of_def plain_key_def list_all_iff)
  have g: "trim (etag_of key) = etag_of key"
    by (rule trim_graphic) (simp_all add: etag_of_def is_graphic_def)
  have "etag_of key \<noteq> ''*''" "strip_weak_prefix (etag_of key) = etag_of key"
    using assms(1) by (simp_all add: etag_of_def strip_weak_prefix_def)
  then show ?thesis
    by (simp add: if_none_match_satisfied_def split_on_no_delim [OF c] g) (simp add: etag_of_def)
qed

text \<open>
  C29. Revalidation works for every cache key without a prefix.  A 200 answer on the
  download route carries the quoted key as its only ETag; a client that sends that tag
  back for the same key gets a 304 with the same tag without the request reaching
  the handler or the storage, and with the tag of any other key the request goes to
  the handler as if it had sent none.
\<close>
theorem revalidation_round_trip:
  assumes "valid_key [] key" "hs ''if-none-match'' = None"
    "conditional_download next (download_path_prefix @ key) hs s = (resp, s')" "resp_status resp = 200"
  shows "(\<forall>w. (''etag'', w) \<in> set (resp_headers resp) \<longleftrightarrow> w = etag_of key)
    \<and> conditional_download next (download_path_prefix @ key) (hs(''if-none-match'' \<mapsto> etag_of key)) s
          = (not_modified_response (etag_of key), s)
    \<and> (\<forall>w. (''etag'', w) \<in> set (resp_headers (not_modified_response (etag_of key))) \<longleftrightarrow> w = etag_of key)
    \<and> (\<forall>key'. valid_key [] key' \<and> key' \<noteq> key \<longrightarrow>
          conditional_download next (download_path_prefix @ key) (hs(''if-none-match'' \<mapsto> etag_of key')) s = (resp, s'))"
proof -
  note p = valid_key_plain [OF assms(1)]
  have ne: "key \<noteq> []"
    using p by (simp add: plain_key_def)
  have h: "(''etag'', w) \<in> set (apply_conditional_headers (etag_of key) l) \<longleftrightarrow> w = etag_of key" for w l
    by (simp add: apply_conditional_headers_def Let_def etag_value [OF p] insert_header_mem)
  have "(''etag'', w) \<in> set (resp_headers resp) \<longleftrightarrow> w = etag_of key" for w
    using assms(2-4) h
    by (auto simp: conditional_download_def etag_for_key [OF ne] split: prod.splits if_splits)
  moreover have "conditional_download next (download_path_prefix @ key) (hs(''if-none-match'' \<mapsto> etag_of key)) s
      = (not_modified_response (etag_of key), s)"
    using etag_satisfies [OF p ne] by (simp add: conditional_download_def etag_for_key [OF ne] etag_value [OF p])
  moreover have "(''etag'', w) \<in> set (resp_headers (not_modified_response (etag_of key))) \<longleftrightarrow> w = etag_of key" for w
    by (simp add: not_modified_response_def insert_header_mem h)
  moreover have "conditional_download next (download_path_prefix @ key) (hs(''if-none-match'' \<mapsto> etag_of key')) s = (resp, s')"
    if "valid_key [] key'" "key' \<noteq> key" for key'
    using etag_satisfies [OF valid_key_plain [OF that(1)] ne] that(2) assms(2,3)
    by (simp add: conditional_download_def etag_for_key [OF ne] etag_value [OF valid_key_plain [OF that(1)]])
  ultimately show ?thesis
    by blast
qed

definition hash_key :: string where
  "hash_key = replicate 64 CHR ''0'' @ ''.png''"

lemma hash_key_valid: "valid_key [] hash_key"
  unfolding valid_key_def hash_key_def by code_simp

theorem revalidation_round_trip_witness:
  "conditional_download (\<lambda>s. (success_response hash_key ''img'', s)) (download_path_prefix @ hash_key)
      (Map.empty(''if-none-match'' \<mapsto> etag_of hash_key)) () = (not_modified_response (etag_of hash_key), ())"
proof -
  have ne: "hash_key \<noteq> []"
    using valid_key_plain [OF hash_key_valid] by (simp add: plain_key_def)
  have r: "conditional_download (\<lambda>s. (success_response hash_key ''img'', s)) (download_path_prefix @ hash_key) Map.empty ()
      = ((success_response hash_key ''img'')\<lparr>resp_headers := apply_conditional_headers (etag_of hash_key)
           (resp_headers (success_response hash_key ''img''))\<rparr>, ())"
    by (simp add: conditional_download_def etag_for_key [OF ne] success_response_def)
  show ?thesis
    using revalidation_round_trip [OF hash_key_valid _ r] by (simp add: success_response_def)
qed

text \<open>
  The wildcard is answered before the storage is asked: any non-empty key, existing or
  not, valid or not, gets a 304 with a matching tag.
\<close>

lemma wildcard_never_misses:
  "key \<noteq> [] \<Longrightarrow> hs ''if-none-match'' = Some ''*'' \<Longrightarrow>
     conditional_download next (download_path_prefix @ key) hs s = (not_modified_response (etag_of key), s)"
  by (simp add: conditional_download_def etag_for_key value_to_str_def if_none_match_satisfied_def
      trim_graphic [of "''*''"] is_graphic_def)

section \<open>The router's limits\<close>

lemma env_positive_not_zero: "env_positive parse env name = Some v \<Longrightarrow> v \<noteq> 0"
  by (auto simp: env_positive_def split: option.splits if_splits)

text \<open>No environment saturates the service for good: every limit stays positive.\<close>

lemma middleware_from_env_positive:
  "0 < mc_request_timeout_ms (middleware_from_env env) \<and> 0 < mc_max_concurrent_requests (middleware_from_env env)
   \<and> 0 < mc_rate_limit_burst (middleware_from_env env) \<and> 0 < mc_rate_limit_period_ms (middleware_from_env env)"
  by (auto simp: middleware_from_env_def Let_def default_middleware_config_def unwrap_or_def
      dest: env_positive_not_zero split: option.splits)

lemma saturation_keeps_bound:
  "running \<le> mc_max_concurrent_requests config \<Longrightarrow>
     snd (saturation_and_timeout config running took inner) \<le> mc_max_concurrent_requests config
     \<and> (took > mc_request_timeout_ms config \<longrightarrow> resp_status (fst (saturation_and_timeout config running took inner)) = 503)"
  by (auto simp: saturation_and_timeout_def service_unavailable_def)

section \<open>The metrics endpoint\<close>

text \<open>
  The metrics endpoint is closed unless it is opened on purpose.  A configuration is
  refused at start-up when there is neither a token with more than white space nor the
  explicit opt-out; under an accepted one a request is served only if the opt-out is
  set or its Authorization header is the bearer token, byte for byte, and every other
  request gets a 401 with a challenge.
\<close>
theorem metrics_auth_fail_closed:
  "(metrics_auth_from_env token allow = Inl TokenRequired \<longleftrightarrow>
      allow \<noteq> Some True \<and> (case token of None \<Rightarrow> True | Some t \<Rightarrow> trim t = []))
   \<and> (metrics_auth_from_env token allow = Inr c \<longrightarrow>
        require_metrics_auth c hs inner =
          (if allow = Some True
              \<or> (\<exists>t. token = Some t \<and> trim t \<noteq> [] \<and> Option.bind (hs ''authorization'') value_to_str = Some (''Bearer '' @ trim t))
           then inner else unauthorized_response))
   \<and> resp_status unauthorized_response = 401"
proof (intro conjI impI)
  show "metrics_auth_from_env token allow = Inl TokenRequired \<longleftrightarrow>
      allow \<noteq> Some True \<and> (case token of None \<Rightarrow> True | Some t \<Rightarrow> trim t = [])"
    by (auto simp: metrics_auth_from_env_def Let_def metrics_enabled_def unwrap_or_def split: option.splits)
next
  assume "metrics_auth_from_env token allow = Inr c"
  then have c: "ma_allow_unauthenticated c = (allow = Some True)"
      "ma_token c = (case token of None \<Rightarrow> [] | Some t \<Rightarrow> trim t)"
    by (auto simp: metrics_auth_from_env_def Let_def metrics_enabled_def unwrap_or_def split: option.splits if_splits)
  have "verify_token c p \<longleftrightarrow> (\<exists>t. token = Some t \<and> trim t \<noteq> [] \<and> p = trim t)" for p
    using c(2) by (auto simp: verify_token_def metrics_enabled_def split: option.splits)
  then show "require_metrics_auth c hs inner =
          (if allow = Some True
              \<or> (\<exists>t. token = Some t \<and> trim t \<noteq> [] \<and> Option.bind (hs ''authorization'') value_to_str = Some (''Bearer '' @ trim t))
           then inner else unauthorized_response)"
    by (cases "Option.bind (hs ''authorization'') value_to_str")
       (auto simp: require_metrics_auth_def Let_def c(1) bearer_prefix_def strip_prefix_Some_iff bind_eq_Some_conv
          split: option.splits)
qed (simp add: unauthorized_response_def)

theorem metrics_auth_fail_closed_witness:
  "require_metrics_auth \<lparr> ma_token = ''s3cret'', ma_allow_unauthenticated = False \<rparr>
     (Map.empty(''authorization'' \<mapsto> ''Bearer s3cre7'')) (service_unavailable []) = unauthorized_response"
proof -
  have t: "trim ''s3cret'' = ''s3cret''"
    by (rule trim_graphic) (simp_all add: is_graphic_def)
  have c: "metrics_auth_from_env (Some ''s3cret'') None = Inr \<lparr> ma_token = ''s3cret'', ma_allow_unauthenticated = False \<rparr>"
    by (simp add: t metrics_auth_from_env_def metrics_enabled_def unwrap_or_def)
  have v: "value_to_str ''Bearer s3cre7'' = Some ''Bearer s3cre7''"
    by (simp add: value_to_str_def)
  show ?thesis
    using metrics_auth_fail_closed [of "Some ''s3cret''" None "\<lparr> ma_token = ''s3cret'', ma_allow_unauthenticated = False \<rparr>"
        "Map.empty(''authorization'' \<mapsto> ''Bearer s3cre7'')" "service_unavailable []"] c t v
    by simp
qed

end
