(* ===== verification/Startup.thy ===== *)
theory Startup
  imports Pipeline Storage_Local Storage_S3 Http_Api
begin

text \<open>
  Start-up: the variables of the environment (\<^verbatim>\<open>src/src/modules/env/env.rs\<close>), what
  \<^verbatim>\<open>ApiService::create\<close> (\<^verbatim>\<open>src/src/modules/api/handler.rs\<close>) makes of them, and the settings
  \<^verbatim>\<open>main\<close> reads itself (\<^verbatim>\<open>src/src/main.rs\<close>).

  Shown: a service that starts has closed its signature gate and its metrics endpoint or
  was told not to, its keys and its storage agree on their prefix, and with the gate
  closed it admits nothing but requests that carry the MAC of their path.
\<close>

section \<open>The environment\<close>

record env_config =
  ec_http_host :: string
  ec_http_port :: nat
  ec_storage_type :: "string option"
  ec_sub_path :: string
  ec_minio :: s3_config
  ec_local_fs_storage_path :: string
  ec_cdn_base_url :: string
  ec_log_level :: string
  ec_otlp_span_endpoint :: string
  ec_otlp_metric_endpoint :: string
  ec_otlp_service_name :: string
  ec_performance :: perf_env
  ec_signing :: signing_env
  ec_presets :: "string option"
  ec_allowed_processing_options :: "string option"
  ec_metrics_auth_token :: "string option"
  ec_allow_unauthenticated_metrics :: "bool option"

text \<open>
  The loaders that \<^verbatim>\<open>derive(Envconfig)\<close> uses: a variable that is set must parse, and the
  error names the first that does not.
\<close>

definition env_bool :: "string \<Rightarrow> bool option" where
  "env_bool s = (if s = ''true'' then Some True else if s = ''false'' then Some False else None)"

definition load_default :: "(string \<rightharpoonup> string) \<Rightarrow> string \<Rightarrow> string \<Rightarrow> string" where
  "load_default env name fallback = unwrap_or (env name) fallback"

definition load_parsed :: "(string \<Rightarrow> 'a option) \<Rightarrow> (string \<rightharpoonup> string) \<Rightarrow> string \<Rightarrow> 'a \<Rightarrow> (string, 'a) result" where
  "load_parsed parse env name fallback = (case env name of None \<Rightarrow> Inr fallback | Some v \<Rightarrow> ok_or name (parse v))"

definition load_optional :: "(string \<Rightarrow> 'a option) \<Rightarrow> (string \<rightharpoonup> string) \<Rightarrow> string \<Rightarrow> (string, 'a option) result" where
  "load_optional parse env name =
     (case env name of None \<Rightarrow> Inr None | Some v \<Rightarrow> map_sum id Some (ok_or name (parse v)))"

definition perf_env_from :: "(string \<rightharpoonup> string) \<Rightarrow> (string, perf_env) result" where
  "perf_env_from env =
     bindr (load_optional parse_u64 env ''MAX_CONCURRENT_DOWNLOADS'') (\<lambda>downloads.
     bindr (load_optional parse_u64 env ''MAX_CONCURRENT_PROCESSING'') (\<lambda>processing.
     bindr (load_optional parse_u64 env ''HTTP_TIMEOUT_SECS'') (\<lambda>http_timeout.
     bindr (load_optional parse_u64 env ''MAX_IMAGE_SIZE_MB'') (\<lambda>image_size.
     bindr (load_optional parse_u64 env ''CPU_THREAD_POOL_SIZE'') (\<lambda>threads.
     bindr (load_optional env_bool env ''ENABLE_HTTP2'') (\<lambda>http2.
     bindr (load_optional parse_u64 env ''CONNECTION_POOL_SIZE'') (\<lambda>pool.
     bindr (load_optional parse_u64 env ''KEEP_ALIVE_TIMEOUT_SECS'') (\<lambda>keep_alive.
     bindr (load_optional parse_u8 env ''MAX_REDIRECTS'') (\<lambda>redirects.
     bindr (load_optional env_bool env ''ALLOW_LOOPBACK_SOURCE_ADDRESSES'') (\<lambda>loopback.
     bindr (load_optional env_bool env ''ALLOW_LINK_LOCAL_SOURCE_ADDRESSES'') (\<lambda>link_local.
     bindr (load_optional parse_u64 env ''MAX_SRC_RESOLUTION_MP'') (\<lambda>src_mp.
     bindr (load_optional parse_u32 env ''MAX_OUTPUT_WIDTH'') (\<lambda>out_w.
     bindr (load_optional parse_u32 env ''MAX_OUTPUT_HEIGHT'') (\<lambda>out_h.
     bindr (load_optional parse_u64 env ''MAX_ANIMATION_FRAMES'') (\<lambda>frames.
       Inr \<lparr> en_max_concurrent_downloads = downloads, en_max_concurrent_processing = processing,
         en_http_timeout_secs = http_timeout, en_max_image_size_mb = image_size, en_cpu_thread_pool_size = threads,
         en_enable_http2 = http2, en_connection_pool_size = pool, en_keep_alive_timeout_secs = keep_alive,
         en_performance_profile = env ''PERFORMANCE_PROFILE'', en_max_redirects = redirects,
         en_allowed_sources = env ''ALLOWED_SOURCES'', en_allow_loopback_source_addresses = loopback,
         en_allow_link_local_source_addresses = link_local, en_max_src_resolution_mp = src_mp,
         en_max_output_width = out_w, en_max_output_height = out_h, en_max_animation_frames = frames,
         en_watermark_url = env ''WATERMARK_URL'', en_jpeg_progressive = None, en_jpeg_no_subsampling = None \<rparr>)))))))))))))))"

definition init_from_env :: "(string \<rightharpoonup> string) \<Rightarrow> (string, env_config) result" where
  "init_from_env env =
     bindr (load_parsed parse_u16 env ''PORT'' 3000) (\<lambda>port.
     bindr (perf_env_from env) (\<lambda>perf.
     bindr (load_optional env_bool env ''ALLOW_UNSIGNED_REQUESTS'') (\<lambda>allow_unsigned.
     bindr (load_optional env_bool env ''JPEG_PROGRESSIVE'') (\<lambda>progressive.
     bindr (load_optional env_bool env ''JPEG_NO_SUBSAMPLING'') (\<lambda>no_subsampling.
     bindr (load_optional env_bool env ''ALLOW_UNAUTHENTICATED_METRICS'') (\<lambda>allow_metrics.
       Inr \<lparr> ec_http_host = load_default env ''HOST'' ''0.0.0.0'', ec_http_port = port,
         ec_storage_type = env ''STORAGE_TYPE'', ec_sub_path = load_default env ''STORAGE_SUB_PATH'' [],
         ec_minio = \<lparr> s3_endpoint_url = load_default env ''MINIO_ENDPOINT_URL'' ''http://localhost:9000'',
           s3_access_key = load_default env ''MINIO_ACCESS_KEY_ID'' ''minioadmin'',
           s3_secret_key = load_default env ''MINIO_SECRET_ACCESS_KEY'' ''minioadmin'',
           s3_bucket = load_default env ''MINIO_BUCKET'' ''image-cache'',
           s3_region = load_default env ''MINIO_REGION'' ''us-east-1'' \<rparr>,
         ec_local_fs_storage_path = load_default env ''LOCAL_FS_STORAGE_PATH'' ''./data/images'',
         ec_cdn_base_url = load_default env ''CDN_BASE_URL'' ''http://localhost:9000/image-cache'',
         ec_log_level = load_default env ''LOG_LEVEL'' ''debug'',
         ec_otlp_span_endpoint = load_default env ''OTLP_SPAN_ENDPOINT'' ''http://localhost:4317'',
         ec_otlp_metric_endpoint = load_default env ''OTLP_METRIC_ENDPOINT'' ''http://localhost:4318/v1/metrics'',
         ec_otlp_service_name = load_default env ''OTLP_SERVICE_NAME'' ''rust-app-example'',
         ec_performance = perf\<lparr>en_jpeg_progressive := progressive, en_jpeg_no_subsampling := no_subsampling\<rparr>,
         ec_signing = \<lparr> env_signing_key = env ''SIGNING_KEY'', env_signing_salt = env ''SIGNING_SALT'',
           env_allow_unsigned_requests = allow_unsigned \<rparr>,
         ec_presets = env ''PRESETS'', ec_allowed_processing_options = env ''ALLOWED_PROCESSING_OPTIONS'',
         ec_metrics_auth_token = env ''METRICS_AUTH_TOKEN'', ec_allow_unauthenticated_metrics = allow_metrics \<rparr>))))))"

section \<open>Creating the service\<close>

datatype startup_error =
    SigningError message
  | MetricsError metrics_error
  | PresetError message
  | ProfileError config_error
  | StorageError any_error
  | Panics

record started =
  st_signing :: signing_config
  st_metrics_auth :: "metrics_auth_config option"
  st_presets :: preset_registry
  st_allowed_options :: allowed_options
  st_performance :: performance_config
  st_minio_sub_path :: string
  st_storage :: storage_adapter
  st_cdn_base_url :: string
  st_key_prefix :: string

text \<open>\<^verbatim>\<open>tokio::sync::Semaphore::new\<close> panics above \<^verbatim>\<open>usize::MAX >> 3\<close> permits.\<close>

definition semaphore_new :: "nat \<Rightarrow> (startup_error, nat) result" where
  "semaphore_new permits = (if permits \<le> 2 ^ 61 - 1 then Inr permits else Inl Panics)"

definition image_service_with_config :: "performance_config \<Rightarrow> (startup_error, performance_config) result" where
  "image_service_with_config config =
     bindr (semaphore_new (pc_max_concurrent_downloads config)) (\<lambda>_.
     bindr (semaphore_new (pc_max_concurrent_processing config)) (\<lambda>_.
       Inr config))"

definition storage_config_of :: "storage_features \<Rightarrow> env_config \<Rightarrow> storage_config" where
  "storage_config_of f config =
     \<lparr> sc_storage_type = ec_storage_type config, sc_cdn_base_url = ec_cdn_base_url config,
       sc_s3_config = (if feat_s3 f then Some (ec_minio config) else None),
       sc_local_fs_base_path = (if feat_local_fs f then Some (ec_local_fs_storage_path config) else None),
       sc_key_prefix = ec_sub_path config \<rparr>"

text \<open>
  \<^verbatim>\<open>tls\<close> says whether a TLS provider is installed, without which building the S3 client
  panics; \<^verbatim>\<open>otel\<close> is the Cargo feature of the metrics endpoint.
\<close>

definition api_service_create ::
  "storage_features \<Rightarrow> bool \<Rightarrow> bool \<Rightarrow> string option \<Rightarrow> nat \<Rightarrow> env_config \<Rightarrow> (startup_error, started) result" where
  "api_service_create f otel tls env_storage_type cpus config =
     bindr (map_err SigningError (signing_from_env (ec_signing config))) (\<lambda>signing.
     bindr (if otel
            then map_sum MetricsError Some
                   (metrics_auth_from_env (ec_metrics_auth_token config) (ec_allow_unauthenticated_metrics config))
            else Inr None) (\<lambda>metrics_auth.
     bindr (map_err PresetError (presets_parse (unwrap_or (ec_presets config) []))) (\<lambda>presets.
       let allowed = allowed_parse (unwrap_or (ec_allowed_processing_options config) []) in
     bindr (map_err ProfileError (config_from_env cpus (ec_performance config))) (\<lambda>performance.
     bindr (map_err StorageError (storage_service_new f env_storage_type (storage_config_of f config))) (\<lambda>(adapter, cdn, key_prefix).
     bindr (if (case adapter of MinioAdapter _ \<Rightarrow> \<not> tls | LocalFsAdapter _ \<Rightarrow> False) then Inl Panics else Inr ()) (\<lambda>_.
     bindr (image_service_with_config performance) (\<lambda>performance.
       Inr \<lparr> st_signing = signing, st_metrics_auth = metrics_auth, st_presets = presets, st_allowed_options = allowed,
         st_performance = performance, st_minio_sub_path = ec_sub_path config, st_storage = adapter,
         st_cdn_base_url = cdn, st_key_prefix = key_prefix \<rparr>)))))))"

text \<open>The service over a backend and an image service that were built from it.\<close>

definition api_service_of :: "'s backend \<Rightarrow> (string \<Rightarrow> string) \<Rightarrow> image_service \<Rightarrow> started \<Rightarrow> 's api_service" where
  "api_service_of backend sha im st =
     \<lparr> ap_resize_service = resize_service_with
         \<lparr> sv_backend = backend, sv_cdn_base_url = st_cdn_base_url st, sv_key_prefix = st_key_prefix st \<rparr>
         sha (st_minio_sub_path st) im,
       ap_signing = st_signing st, ap_presets = st_presets st, ap_allowed_options = st_allowed_options st \<rparr>"

section \<open>What \<^verbatim>\<open>main\<close> reads\<close>

definition worker_threads_from_env :: "(string \<rightharpoonup> string) \<Rightarrow> nat \<Rightarrow> nat" where
  "worker_threads_from_env env effective_cpus =
     unwrap_or (env_positive parse_u64 env ''TOKIO_WORKER_THREADS'') effective_cpus"

definition default_shutdown_timeout_secs :: nat where
  "default_shutdown_timeout_secs = 20"

definition parse_shutdown_timeout :: "string option \<Rightarrow> nat" where
  "parse_shutdown_timeout raw =
     unwrap_or (case Option.bind raw parse_u64 of Some secs \<Rightarrow> if secs > 0 then Some secs else None | None \<Rightarrow> None)
       default_shutdown_timeout_secs"

text \<open>What the server's task comes to, and when, counted from the signal; nothing is a task that never ends.\<close>

datatype server_result = ServerDone | ServerError string | ServerPanicked string

definition drain :: "nat \<Rightarrow> (nat \<times> server_result) option \<Rightarrow> (string, unit) result \<times> nat option" where
  "drain drain_timeout task =
     (case task of
        Some (t, r) \<Rightarrow>
          if t \<le> drain_timeout
          then ((case r of ServerDone \<Rightarrow> Inr () | ServerError e \<Rightarrow> Inl e | ServerPanicked e \<Rightarrow> Inl e), Some t)
          else (Inr (), Some drain_timeout)
      | None \<Rightarrow> (Inr (), Some drain_timeout))"

section \<open>What a started service guarantees\<close>

lemma load_optional_Inr:
  "load_optional parse env name = Inr (Some v) \<longleftrightarrow> (\<exists>s. env name = Some s \<and> parse s = Some v)"
  by (auto simp: load_optional_def ok_or_def split: option.splits)

lemma signing_from_env_closed:
  "signing_from_env e = Inr c \<Longrightarrow> (signing_enabled c \<or> sc_allow_unsigned c)
     \<and> (sc_allow_unsigned c \<longleftrightarrow> env_allow_unsigned_requests e = Some True)"
  by (auto simp: signing_from_env_def Let_def result_simps unwrap_or_def split: if_splits option.splits)

lemma metrics_auth_closed:
  "metrics_auth_from_env t a = Inr c \<Longrightarrow> (metrics_enabled c \<or> ma_allow_unauthenticated c)
     \<and> (ma_allow_unauthenticated c \<longleftrightarrow> a = Some True)"
  by (auto simp: metrics_auth_from_env_def Let_def unwrap_or_def split: if_splits option.splits)

lemma map_sum_Inr_iff: "map_sum f g r = Inr y \<longleftrightarrow> (\<exists>x. r = Inr x \<and> y = g x)"
  by (cases r) auto

lemma api_service_createD:
  assumes "api_service_create f otel tls env_storage_type cpus config = Inr st"
  shows "signing_from_env (ec_signing config) = Inr (st_signing st)"
    and "otel \<Longrightarrow> \<exists>m. st_metrics_auth st = Some m
        \<and> metrics_auth_from_env (ec_metrics_auth_token config) (ec_allow_unauthenticated_metrics config) = Inr m"
    and "presets_parse (unwrap_or (ec_presets config) []) = Inr (st_presets st)"
    and "config_from_env cpus (ec_performance config) = Inr (st_performance st)"
    and "storage_service_new f env_storage_type (storage_config_of f config)
        = Inr (st_storage st, st_cdn_base_url st, st_key_prefix st)"
    and "st_minio_sub_path st = ec_sub_path config"
    and "pc_max_concurrent_downloads (st_performance st) \<le> 2 ^ 61 - 1"
      "pc_max_concurrent_processing (st_performance st) \<le> 2 ^ 61 - 1"
  using assms
  by (auto simp: api_service_create_def Let_def result_simps image_service_with_config_def semaphore_new_def map_sum_Inr_iff
      split: if_splits sum.splits)

lemma storage_service_new_names:
  "storage_service_new f e c = Inr (a, cdn, pre) \<Longrightarrow> cdn = sc_cdn_base_url c \<and> pre = sc_key_prefix c
     \<and> (case a of MinioAdapter m \<Rightarrow> feat_s3 f \<and> sc_s3_config c = Some m | LocalFsAdapter b \<Rightarrow> feat_local_fs f \<and> sc_local_fs_base_path c = Some b)"
  by (auto simp: storage_service_new_def result_simps split: if_splits)

lemma generated_key_valid:
  assumes "\<And>m. length (sha m) = 32" "list_all (\<lambda>b. 32 \<le> byte b \<and> byte b \<noteq> 127) pre" "rq_format q \<noteq> AutoFormat"
  shows "valid_key pre (generate_key sha pre q)"
  using generate_key_checked [where prefix = pre, OF assms(1,2)] assms(3) by (simp add: valid_key_def)

text \<open>
  C3. A service whose environment does not opt out of signing admits nothing but signed
  requests, from start-up on.  If \<^verbatim>\<open>ApiService::create\<close> succeeds and \<^verbatim>\<open>ALLOW_UNSIGNED_REQUESTS\<close>
  is not \<^verbatim>\<open>true\<close>, then key and salt are set, every path the resize handler admits splits
  into a segment that decodes to the MAC, under that key and salt, of all the rest of the
  path; and the cache key of every admitted request is one its own storage accepts, below
  the prefix of \<^verbatim>\<open>STORAGE_SUB_PATH\<close>.
\<close>
theorem closed_service_admits_signed:
  assumes create: "api_service_create f otel tls env_storage_type cpus config = Inr st"
    and closed: "env_allow_unsigned_requests (ec_signing config) \<noteq> Some True"
    and admitted: "admit cd (api_service_of backend sha im st) path hs = Inr (query, negotiated)"
    and keys: "\<And>m. length (sha m) = 32" "list_all (\<lambda>b. 32 \<le> byte b \<and> byte b \<noteq> 127) (ec_sub_path config)"
  shows "sc_key (st_signing st) \<noteq> [] \<and> sc_salt (st_signing st) \<noteq> []
    \<and> (\<exists>sig signed. (path = CHR ''/'' # sig @ signed \<or> path = sig @ signed)
         \<and> cd_b64 cd sig = Some (cd_hmac cd (sc_key (st_signing st)) (sc_salt (st_signing st) @ signed)))
    \<and> valid_key (sv_key_prefix (rs_storage (ap_resize_service (api_service_of backend sha im st))))
        (cache_key (ap_resize_service (api_service_of backend sha im st)) query)
    \<and> st_key_prefix st = ec_sub_path config"
proof -
  note st = api_service_createD [OF create]
  have s: "signing_enabled (st_signing st)" "\<not> sc_allow_unsigned (st_signing st)"
    using signing_from_env_closed [OF st(1)] closed by auto
  have prefix: "st_key_prefix st = ec_sub_path config"
    using storage_service_new_names [OF st(5)] by (simp add: storage_config_of_def)
  obtain sr where sr: "split_path path = Inr sr" "verify_or_reject (cd_hmac cd) (cd_b64 cd) (st_signing st) sr = Inr ()"
      and fmt: "rq_format query \<noteq> AutoFormat"
    using admit_Inr [OF admitted] by (auto simp: api_service_of_def)
  have "cd_b64 cd (sr_signature_segment sr)
      = Some (cd_hmac cd (sc_key (st_signing st)) (sc_salt (st_signing st) @ sr_signed_path sr))"
    using sr(2) s by (auto simp: verify_or_reject_def verify_signature_iff compute_signature_def split: if_splits)
  moreover have "path = CHR ''/'' # sr_signature_segment sr @ sr_signed_path sr \<or> path = sr_signature_segment sr @ sr_signed_path sr"
    using split_path_exact [OF sr(1)] by blast
  ultimately have "\<exists>sig signed. (path = CHR ''/'' # sig @ signed \<or> path = sig @ signed)
      \<and> cd_b64 cd sig = Some (cd_hmac cd (sc_key (st_signing st)) (sc_salt (st_signing st) @ signed))"
    by blast
  moreover have "valid_key (ec_sub_path config) (generate_key sha (ec_sub_path config) query)"
    by (rule generated_key_valid [OF keys fmt])
  ultimately show ?thesis
    using s(1) prefix st(6) by (simp add: signing_enabled_def api_service_of_def resize_service_with_def cache_key_def)
qed

text \<open>A closed environment, and a MAC that is the message itself.\<close>

definition closed_env :: "string \<rightharpoonup> string" where
  "closed_env = [''SIGNING_KEY'' \<mapsto> ''6b'', ''SIGNING_SALT'' \<mapsto> ''73'', ''STORAGE_TYPE'' \<mapsto> ''local_fs'', ''METRICS_AUTH_TOKEN'' \<mapsto> ''token'']"

definition mac_codecs :: codecs where
  "mac_codecs = \<lparr> cd_hmac = (\<lambda>k m. ''mac''), cd_b64 = Some, cd_pct = Some, cd_parse_error = (\<lambda>_. ''bad path''), cd_debug = id \<rparr>"

definition mac_api :: "memory api_service" where
  "mac_api = demo_api\<lparr>ap_signing := \<lparr> sc_key = ''k'', sc_salt = ''s'', sc_allow_unsigned = False \<rparr>\<rparr>"

lemma mac_api_admits: "is_ok (admit mac_codecs mac_api ''/mac/plain/http://a/b.jpg'' Map.empty)"
  by code_simp

lemma closed_env_loads:
  "\<exists>c. init_from_env closed_env = Inr c \<and> ec_storage_type c = Some ''local_fs'' \<and> ec_sub_path c = [] \<and> ec_presets c = None
     \<and> ec_local_fs_storage_path c = ''./data/images'' \<and> ec_metrics_auth_token c = Some ''token'' \<and> ec_allow_unauthenticated_metrics c = None
     \<and> ec_signing c = \<lparr> env_signing_key = Some ''6b'', env_signing_salt = Some ''73'', env_allow_unsigned_requests = None \<rparr>
     \<and> en_performance_profile (ec_performance c) = None \<and> en_max_concurrent_downloads (ec_performance c) = None
     \<and> en_max_concurrent_processing (ec_performance c) = None \<and> ec_allowed_processing_options c = None"
  by (simp add: init_from_env_def perf_env_from_def load_optional_def load_parsed_def load_default_def closed_env_def unwrap_or_def)

lemma closed_service_starts:
  "\<exists>config st. init_from_env closed_env = Inr config
     \<and> api_service_create release_features True True None 4 config = Inr st \<and> ec_sub_path config = []
     \<and> env_allow_unsigned_requests (ec_signing config) \<noteq> Some True
     \<and> st_signing st = \<lparr> sc_key = ''k'', sc_salt = ''s'', sc_allow_unsigned = False \<rparr>
     \<and> st_presets st = presets_empty \<and> st_allowed_options st = allowed_unrestricted"
proof -
  obtain c where c: "init_from_env closed_env = Inr c" "ec_storage_type c = Some ''local_fs''" "ec_sub_path c = []" "ec_presets c = None"
      "ec_local_fs_storage_path c = ''./data/images''" "ec_metrics_auth_token c = Some ''token''" "ec_allow_unauthenticated_metrics c = None"
      "ec_signing c = \<lparr> env_signing_key = Some ''6b'', env_signing_salt = Some ''73'', env_allow_unsigned_requests = None \<rparr>"
      "en_performance_profile (ec_performance c) = None" "en_max_concurrent_downloads (ec_performance c) = None"
      "en_max_concurrent_processing (ec_performance c) = None" "ec_allowed_processing_options c = None"
    using closed_env_loads by blast
  have s: "signing_from_env (ec_signing c) = Inr \<lparr> sc_key = ''k'', sc_salt = ''s'', sc_allow_unsigned = False \<rparr>"
    unfolding c by code_simp
  have "trim ''token'' = ''token''"
    by (rule trim_graphic) (simp_all add: is_graphic_def)
  then have m: "\<exists>m. metrics_auth_from_env (ec_metrics_auth_token c) (ec_allow_unauthenticated_metrics c) = Inr m"
    by (simp add: c metrics_auth_from_env_def metrics_enabled_def unwrap_or_def)
  have t: "trim [] = []"
    by code_simp
  have p: "presets_parse (unwrap_or (ec_presets c) []) = Inr presets_empty"
    by (simp add: c t unwrap_or_def presets_parse_def parse_preset_entry_def presets_empty_def)
  have a: "allowed_parse (unwrap_or (ec_allowed_processing_options c) []) = allowed_unrestricted"
    by (simp add: c t unwrap_or_def allowed_parse_def)
  have f: "config_from_env 4 (ec_performance c) = Inr (custom_config 4 (ec_performance c))"
    by (simp add: config_from_env_def c)
  have i: "image_service_with_config (custom_config 4 (ec_performance c)) = Inr (custom_config 4 (ec_performance c))"
    by (simp add: image_service_with_config_def semaphore_new_def custom_config_def c unwrap_or_def)
  have e: "env_allow_unsigned_requests (ec_signing c) \<noteq> Some True"
    by (simp add: c)
  have d: "determine_storage_type release_features (Some ''local_fs'') None = Inr LocalFs"
    by code_simp
  have "storage_service_new release_features None (storage_config_of release_features c)
      = Inr (LocalFsAdapter ''./data/images'', ec_cdn_base_url c, [])"
    by (simp add: storage_service_new_def storage_config_of_def c d) (simp add: release_features_def)
  then show ?thesis
    using m c(1,3) e by (auto simp: api_service_create_def s p a f i Let_def)
qed

theorem closed_service_admits_signed_witness:
  "\<exists>st :: started. sc_key (st_signing st) \<noteq> [] \<and> (\<exists>sig signed. (''/mac/plain/http://a/b.jpg'' = CHR ''/'' # sig @ signed
       \<or> ''/mac/plain/http://a/b.jpg'' = sig @ signed)
     \<and> cd_b64 mac_codecs sig = Some (cd_hmac mac_codecs (sc_key (st_signing st)) (sc_salt (st_signing st) @ signed)))"
proof -
  obtain config st where c: "api_service_create release_features True True None 4 config = Inr st" "ec_sub_path config = []"
      "env_allow_unsigned_requests (ec_signing config) \<noteq> Some True"
      "st_signing st = \<lparr> sc_key = ''k'', sc_salt = ''s'', sc_allow_unsigned = False \<rparr>"
      "st_presets st = presets_empty" "st_allowed_options st = allowed_unrestricted"
    using closed_service_starts by blast
  obtain q n where "admit mac_codecs mac_api ''/mac/plain/http://a/b.jpg'' Map.empty = Inr (q, n)"
    using mac_api_admits by (auto simp: is_ok_iff)
  then have a: "admit mac_codecs (api_service_of memory_backend (\<lambda>_. replicate 32 CHR ''a'') im st)
      ''/mac/plain/http://a/b.jpg'' Map.empty = Inr (q, n)" for im
    by (simp add: admit_def c api_service_of_def mac_api_def demo_api_def)
  have "sc_key (st_signing st) \<noteq> [] \<and> (\<exists>sig signed. (''/mac/plain/http://a/b.jpg'' = CHR ''/'' # sig @ signed
       \<or> ''/mac/plain/http://a/b.jpg'' = sig @ signed)
     \<and> cd_b64 mac_codecs sig = Some (cd_hmac mac_codecs (sc_key (st_signing st)) (sc_salt (st_signing st) @ signed)))"
    using closed_service_admits_signed [OF c(1,3) a [of "image_service_over raster_lib (demo_decoders [] (64, 64)) demo_encoders (default_config 4) demo_world 4"]] c(2) by simp
  then show ?thesis
    by blast
qed

end
