(* ===== verification/Router.thy ===== *)
theory Router
  imports Startup
begin

text \<open>
  The assembled application (\<^verbatim>\<open>src/src/modules/router/router.rs\<close> and
  \<^verbatim>\<open>apply_common_middlewares\<close> of \<^verbatim>\<open>src/src/modules/router/middlewares.rs\<close>): which handler answers
  which route, and in which order the service's own layers see a request.  A layer that is
  added later is outside: the conditional layer sees a request before the saturation guard
  does, and that one before the handlers.  The matcher of routes is an argument; the layers
  of \<^verbatim>\<open>tower-http\<close> (compression, CORS), \<^verbatim>\<open>tower_governor\<close> (rates) and telemetry are left out.

  Shown: of a service that was not told to leave them open, the health route answers
  anyone, the metrics route only the holder of the token, and a revalidation is answered
  without a permit and without touching the storage.
\<close>

section \<open>The routes\<close>

datatype endpoint =
    RootEndpoint
  | HealthEndpoint
  | FilesEndpoint string
  | ResizeEndpoint
  | MetricsEndpoint

text \<open>\<^verbatim>\<open>&'static str\<close> and \<^verbatim>\<open>String\<close> as responses.\<close>

definition text_response :: "string \<Rightarrow> response" where
  "text_response body = \<lparr> resp_status = 200, resp_headers = [(''content-type'', ''text/plain; charset=utf-8'')], resp_body = body \<rparr>"

definition redirect_temporary :: "string \<Rightarrow> response" where
  "redirect_temporary uri = \<lparr> resp_status = 307, resp_headers = [(''location'', uri)], resp_body = [] \<rparr>"

definition not_found_response :: response where
  "not_found_response = \<lparr> resp_status = 404, resp_headers = [], resp_body = [] \<rparr>"

definition health :: string where
  "health = ''OK''"

text \<open>\<^verbatim>\<open>metrics\<close> is the text that \<^verbatim>\<open>prometheus::gather\<close> encodes to.\<close>

definition route_response ::
  "codecs \<Rightarrow> 's api_service \<Rightarrow> metrics_auth_config option \<Rightarrow> string \<Rightarrow> nat \<Rightarrow> string \<Rightarrow> headers \<Rightarrow> endpoint option \<Rightarrow> 's \<Rightarrow> response \<times> 's" where
  "route_response cd api metrics_auth metrics now path hs route s =
     (case route of
        Some RootEndpoint \<Rightarrow> (redirect_temporary ''/health'', s)
      | Some HealthEndpoint \<Rightarrow> (text_response health, s)
      | Some (FilesEndpoint key) \<Rightarrow> download_handler api now key s
      | Some ResizeEndpoint \<Rightarrow> resize_handler cd api now path hs s
      | Some MetricsEndpoint \<Rightarrow>
          (case metrics_auth of
             Some config \<Rightarrow> (require_metrics_auth config hs (text_response metrics), s)
           | None \<Rightarrow> (not_found_response, s))
      | None \<Rightarrow> (not_found_response, s))"

section \<open>The layers\<close>

text \<open>
  The guard, around the inner service: without a permit the inner service is not called;
  out of time it is dropped where it stands, and \<^verbatim>\<open>dropped\<close> is the state it leaves.
\<close>

definition guarded ::
  "middleware_config \<Rightarrow> nat \<Rightarrow> nat \<Rightarrow> 's \<Rightarrow> ('s \<Rightarrow> response \<times> 's) \<Rightarrow> 's \<Rightarrow> response \<times> 's" where
  "guarded config running took dropped inner s =
     (if running \<ge> mc_max_concurrent_requests config
      then (fst (saturation_and_timeout config running took (fst (inner s))), s)
      else (fst (saturation_and_timeout config running took (fst (inner s))),
            if took > mc_request_timeout_ms config then dropped else snd (inner s)))"

definition serve ::
  "middleware_config \<Rightarrow> nat \<Rightarrow> nat \<Rightarrow> 's \<Rightarrow> (string \<Rightarrow> endpoint option) \<Rightarrow> codecs \<Rightarrow> 's api_service \<Rightarrow> metrics_auth_config option
     \<Rightarrow> string \<Rightarrow> nat \<Rightarrow> string \<Rightarrow> headers \<Rightarrow> 's \<Rightarrow> response \<times> 's" where
  "serve config running took dropped match_route cd api metrics_auth metrics now path hs s =
     conditional_download
       (guarded config running took dropped
          (route_response cd api metrics_auth metrics now path hs (match_route path))) path hs s"

text \<open>The documented precedence of the matcher: a literal segment wins over a parameter.\<close>

definition literal_routes_first :: "(string \<Rightarrow> endpoint option) \<Rightarrow> bool" where
  "literal_routes_first match_route \<longleftrightarrow>
     match_route ''/'' = Some RootEndpoint \<and> match_route ''/health'' = Some HealthEndpoint
   \<and> match_route ''/metrics'' = Some MetricsEndpoint
   \<and> (\<forall>key. key \<noteq> [] \<longrightarrow> CHR ''/'' \<notin> set key \<longrightarrow> CHR ''%'' \<notin> set key \<longrightarrow> match_route (download_path_prefix @ key) = Some (FilesEndpoint key))"

section \<open>Open and closed doors\<close>

lemma etag_for_literal: "etag_for_request ''/health'' = None" "etag_for_request ''/metrics'' = None"
  by (simp_all add: etag_for_request_def download_path_prefix_def)

lemma metrics_door:
  assumes "metrics_auth_from_env token allow = Inr c" "allow \<noteq> Some True"
  shows "require_metrics_auth c hs inner =
    (if \<exists>t. token = Some t \<and> trim t \<noteq> [] \<and> Option.bind (hs ''authorization'') value_to_str = Some (''Bearer '' @ trim t)
     then inner else unauthorized_response)"
  using metrics_auth_fail_closed [of token allow c hs inner] assms by simp

text \<open>
  C40. The doors of the assembled service.  For a service that started with telemetry and
  without \<^verbatim>\<open>ALLOW_UNAUTHENTICATED_METRICS=true\<close>, whatever the headers, the load and the
  state: below capacity and in time, \<^verbatim>\<open>/health\<close> answers 200 and \<^verbatim>\<open>/metrics\<close> its text to the
  holder of \<^verbatim>\<open>METRICS_AUTH_TOKEN\<close> and 401 to everyone else; at capacity both answer 503 and
  nothing happens; and a download that carries the entity tag of its key is answered 304
  even at capacity and without touching the storage.
\<close>
theorem service_doors:
  fixes mw :: middleware_config and cd :: codecs and backend :: "'s backend" and sha :: "string \<Rightarrow> string" and im :: image_service
    and metrics :: string and now :: nat and dropped :: 's and st :: started
  assumes create: "api_service_create f True tls env_storage_type cpus config = Inr st"
    and closed: "ec_allow_unauthenticated_metrics config \<noteq> Some True"
    and routes: "literal_routes_first match_route"
  defines "answer running took path hs s \<equiv>
    serve mw running took dropped match_route cd (api_service_of backend sha im st) (st_metrics_auth st) metrics now path hs s"
  shows "(running < mc_max_concurrent_requests mw \<and> took \<le> mc_request_timeout_ms mw \<longrightarrow>
        answer running took ''/health'' hs s = (text_response health, s)
        \<and> answer running took ''/metrics'' hs s =
            (if \<exists>t. ec_metrics_auth_token config = Some t \<and> trim t \<noteq> []
                  \<and> Option.bind (hs ''authorization'') value_to_str = Some (''Bearer '' @ trim t)
             then text_response metrics else unauthorized_response, s))
    \<and> (mc_max_concurrent_requests mw \<le> running \<and> path \<in> {''/health'', ''/metrics''} \<longrightarrow>
        resp_status (fst (answer running took path hs s)) = 503 \<and> snd (answer running took path hs s) = s)
    \<and> (etag_for_request path = Some etag \<and> hs ''if-none-match'' = Some v \<and> value_to_str v = Some v \<and> if_none_match_satisfied v etag \<longrightarrow>
        answer running took path hs s = (not_modified_response etag, s))"
proof -
  obtain m where m: "st_metrics_auth st = Some m"
      "metrics_auth_from_env (ec_metrics_auth_token config) (ec_allow_unauthenticated_metrics config) = Inr m"
    using api_service_createD(2) [OF create] by blast
  have r: "match_route ''/health'' = Some HealthEndpoint" "match_route ''/metrics'' = Some MetricsEndpoint"
    using routes by (simp_all add: literal_routes_first_def)
  have "answer running took ''/health'' hs s = (text_response health, s)"
      "answer running took ''/metrics'' hs s = (require_metrics_auth m hs (text_response metrics), s)"
    if "running < mc_max_concurrent_requests mw" "took \<le> mc_request_timeout_ms mw"
    using that
    by (simp_all add: answer_def serve_def conditional_download_def etag_for_literal r guarded_def saturation_and_timeout_def
        route_response_def m(1))
  moreover have "resp_status (fst (answer running took path hs s)) = 503 \<and> snd (answer running took path hs s) = s"
    if "mc_max_concurrent_requests mw \<le> running" "path \<in> {''/health'', ''/metrics''}"
    using that
    by (auto simp: answer_def serve_def conditional_download_def etag_for_literal guarded_def saturation_and_timeout_def
        service_unavailable_def)
  moreover have "answer running took path hs s = (not_modified_response etag, s)"
    if "etag_for_request path = Some etag" "hs ''if-none-match'' = Some v" "value_to_str v = Some v" "if_none_match_satisfied v etag"
    using that by (simp add: answer_def serve_def conditional_download_def)
  ultimately show ?thesis
    unfolding metrics_door [OF m(2) closed] by blast
qed

text \<open>A matcher that tries the literal routes first.\<close>

definition demo_match :: "string \<Rightarrow> endpoint option" where
  "demo_match path =
     (if path = ''/'' then Some RootEndpoint
      else if path = ''/health'' then Some HealthEndpoint
      else if path = ''/metrics'' then Some MetricsEndpoint
      else (case strip_prefix download_path_prefix path of Some key \<Rightarrow> Some (FilesEndpoint key) | None \<Rightarrow> Some ResizeEndpoint))"

lemma demo_match_literal: "literal_routes_first demo_match"
  by (simp add: literal_routes_first_def demo_match_def download_path_prefix_def)

theorem service_doors_witness:
  "\<exists>st. st_metrics_auth st \<noteq> None \<and>
     fst (serve default_middleware_config 0 5 Map.empty demo_match mac_codecs
       (api_service_of memory_backend (\<lambda>_. replicate 32 CHR ''a'')
          (image_service_over raster_lib (demo_decoders [] (64, 64)) demo_encoders (default_config 4) demo_world 4) st)
       (st_metrics_auth st) ''requests 7'' 0 ''/metrics'' (Map.empty(''authorization'' \<mapsto> ''Bearer token'')) Map.empty)
     = text_response ''requests 7''"
proof -
  obtain config st where c: "init_from_env closed_env = Inr config"
      "api_service_create release_features True True None 4 config = Inr st"
    using closed_service_starts by blast
  obtain config' where "init_from_env closed_env = Inr config'" "ec_metrics_auth_token config' = Some ''token''"
      "ec_allow_unauthenticated_metrics config' = None"
    using closed_env_loads by blast
  then have m: "ec_metrics_auth_token config = Some ''token''" "ec_allow_unauthenticated_metrics config = None"
    using c(1) by simp_all
  have t: "trim ''token'' = ''token''"
    by (rule trim_graphic) (simp_all add: is_graphic_def)
  have v: "value_to_str ''Bearer token'' = Some ''Bearer token''"
    by (simp add: value_to_str_def)
  have "ec_allow_unauthenticated_metrics config \<noteq> Some True"
    by (simp add: m)
  from service_doors [OF c(2) this demo_match_literal, where mw = default_middleware_config and running = 0 and took = 5
      and dropped = Map.empty and cd = mac_codecs and backend = memory_backend and sha = "\<lambda>_. replicate 32 CHR ''a''"
      and im = "image_service_over raster_lib (demo_decoders [] (64, 64)) demo_encoders (default_config 4) demo_world 4"
      and metrics = "''requests 7''" and now = 0 and hs = "Map.empty(''authorization'' \<mapsto> ''Bearer token'')" and s = Map.empty]
  show ?thesis
    using api_service_createD(2) [OF c(2)] by (auto simp: m t v default_middleware_config_def intro!: exI [of _ st])
qed

end
