(* ===== verification/Health_Check.thy ===== *)
theory Health_Check
  imports Errors Performance
begin

text \<open>
  The health-check binary (\<^verbatim>\<open>src/src/bin/healthcheck.rs\<close>): one request over a bare TCP
  connection, and an exit code from the status line of the answer.  The connection is an
  argument: what connecting, writing and reading give within the timeout.

  Shown: the status a server writes is the status read, whatever follows it, and the check
  succeeds for 200 to 299 and for nothing else; a peer that never answers fails it.
\<close>

section \<open>The status line\<close>

text \<open>
  The status line is split by \<^const>\<open>split_whitespace\<close>, on the bytes: \<^verbatim>\<open>from_utf8_lossy\<close> changes
  only what is no UTF-8, and the encodings of white space are found in the same places
  before and after.
\<close>

definition first_line :: "string \<Rightarrow> string" where
  "first_line text =
     (case split_once CHR 0x0A text of
        Some (line, _) \<Rightarrow> if line \<noteq> [] \<and> last line = CHR 0x0D then butlast line else line
      | None \<Rightarrow> text)"

definition parse_status_code :: "string \<Rightarrow> (any_error, nat) result" where
  "parse_status_code response =
     (let status_line = first_line response in
      case split_whitespace status_line of
        _ # code # _ \<Rightarrow>
          (case parse_u16 code of
             Some n \<Rightarrow> Inr n
           | None \<Rightarrow> Inl (plain_error (''non-numeric status code '' @ code @ '' in '' @ status_line)))
      | _ \<Rightarrow> Inl (plain_error (''malformed or empty HTTP response line: '' @ status_line)))"

section \<open>The probe\<close>

record peer =
  pe_connect :: "(any_error, unit) result"
  pe_write :: "string \<Rightarrow> (any_error, unit) result"
  pe_read_to_end :: "(any_error, string) result"

definition crlf :: string where
  "crlf = [CHR 0x0D, CHR 0x0A]"

text \<open>The standard library refuses a timeout of zero when it connects.\<close>

definition probe :: "peer \<Rightarrow> string \<Rightarrow> string \<Rightarrow> nat \<Rightarrow> (any_error, nat) result" where
  "probe stream host_header path timeout =
     bindr (map_err (with_context ''failed to connect'')
              (if timeout = 0 then Inl (plain_error ''cannot set a 0 duration timeout'') else pe_connect stream)) (\<lambda>_.
       let request = ''GET '' @ path @ '' HTTP/1.1'' @ crlf @ ''Host: '' @ host_header @ crlf @ ''Connection: close'' @ crlf
             @ ''User-Agent: emgr-healthcheck'' @ crlf @ crlf in
     bindr (map_err (with_context ''failed to send request'') (pe_write stream request)) (\<lambda>_.
     bindr (map_err (with_context
                (''failed to read response (peer accepted the connection but never responded, or reset it)''))
              (pe_read_to_end stream)) (\<lambda>response.
       if response = []
       then Inl (plain_error ''connection closed with no response (peer accepted but never wrote anything)'')
       else parse_status_code response)))"

record health_env =
  he_http_host :: string
  he_http_port :: nat
  he_http_timeout :: nat
  he_http_path :: string

definition health_address :: "health_env \<Rightarrow> string" where
  "health_address config =
     (if he_http_host config = ''0.0.0.0'' then ''127.0.0.1'' else he_http_host config) @ '':'' @ show_nat (he_http_port config)"

text \<open>The exit code; \<^verbatim>\<open>parse_addr\<close> is the parser of \<^verbatim>\<open>SocketAddr\<close> and \<^verbatim>\<open>dial\<close> what lies behind an address.\<close>

definition health_check_main :: "(string \<Rightarrow> 'a option) \<Rightarrow> ('a \<Rightarrow> peer) \<Rightarrow> health_env \<Rightarrow> nat" where
  "health_check_main parse_addr dial config =
     (case parse_addr (health_address config) of
        None \<Rightarrow> 1
      | Some socket_addr \<Rightarrow>
          (case probe (dial socket_addr) (he_http_host config) (he_http_path config) (he_http_timeout config) of
             Inr status \<Rightarrow> if 200 \<le> status \<and> status < 300 then 0 else 1
           | Inl e \<Rightarrow> 1))"

section \<open>Reading back a status\<close>

lemma split_status_line:
  assumes "list_all is_graphic v" "v \<noteq> []" "list_all is_graphic w" "w \<noteq> []"
  shows "split_whitespace (v @ CHR '' '' # w @ CHR '' '' # r) = v # w # split_whitespace r"
  using assms by (simp add: split_whitespace_def split_ws_from_word split_ws_from_blank)

lemma first_line_crlf:
  assumes "CHR 0x0A \<notin> set line"
  shows "first_line (line @ CHR 0x0D # CHR 0x0A # rest) = line"
proof -
  have "split_once CHR 0x0A (line @ CHR 0x0D # CHR 0x0A # rest) = Some (line @ [CHR 0x0D], rest)"
    using assms by (induction line) auto
  then show ?thesis
    by (simp add: first_line_def)
qed

lemma status_read_back:
  assumes "n < 65536" "CHR 0x0A \<notin> set reason"
  shows "parse_status_code (''HTTP/1.1 '' @ show_nat n @ '' '' @ reason @ crlf @ rest) = Inr n"
proof -
  have g: "CHR 0x0A \<notin> set (show_nat n)"
    using show_nat_graphic [of n] by (auto simp: list_all_iff is_graphic_def)
  have "first_line ((''HTTP/1.1 '' @ show_nat n @ '' '' @ reason) @ CHR 0x0D # CHR 0x0A # rest) = ''HTTP/1.1 '' @ show_nat n @ '' '' @ reason"
    using assms(2) g by (intro first_line_crlf) simp
  then have l: "first_line (''HTTP/1.1 '' @ show_nat n @ '' '' @ reason @ crlf @ rest) = ''HTTP/1.1'' @ CHR '' '' # show_nat n @ CHR '' '' # reason"
    by (simp add: crlf_def)
  have "split_whitespace (''HTTP/1.1'' @ CHR '' '' # show_nat n @ CHR '' '' # reason)
      = ''HTTP/1.1'' # show_nat n # split_whitespace reason"
    by (rule split_status_line) (simp_all add: is_graphic_def show_nat_graphic)
  then show ?thesis
    using assms(1) unfolding parse_status_code_def l by (simp add: parse_u_show)
qed

text \<open>The check succeeds exactly for the statuses of success, and never for a silent peer.\<close>

lemma health_check_exact:
  assumes "parse_addr (health_address config) = Some a" "dial a = p" "he_http_timeout config > 0"
    and "pe_connect p = Inr ()" "\<And>r. pe_write p r = Inr ()"
    and "n < 65536" "CHR 0x0A \<notin> set reason"
    and "pe_read_to_end p = Inr (''HTTP/1.1 '' @ show_nat n @ '' '' @ reason @ crlf @ rest)"
  shows "health_check_main parse_addr dial config = 0 \<longleftrightarrow> 200 \<le> n \<and> n < 300"
  using assms status_read_back [OF assms(6,7), of rest] by (simp add: health_check_main_def probe_def Let_def)

lemma silent_peer_fails:
  assumes "\<And>a. pe_read_to_end (dial a) = Inr [] \<or> (\<exists>e. pe_read_to_end (dial a) = Inl e)"
  shows "health_check_main parse_addr dial config = 1"
proof -
  have "probe (dial a) h r t \<noteq> Inr n" for a h r t n
    using assms [of a] by (auto simp: probe_def Let_def bindr_Inr_iff simp del: append.simps)
  then show ?thesis
    by (auto simp: health_check_main_def split: option.splits sum.splits)
qed

end
