(* ===== verification/Batch.thy ===== *)
theory Batch
  imports Resize
begin

text \<open>
  \<^verbatim>\<open>ResizeService::resize_batch\<close> (\<^verbatim>\<open>src/src/services/resize/handler.rs\<close>): the requests of a batch
  run through \<^verbatim>\<open>buffer_unordered\<close> over single flight.  As documented, that stream starts requests in order
  while fewer than \<^verbatim>\<open>max_concurrent\<close> are in progress, moves those in any order, and yields each
  answer as it comes.  A panic of one of them unwinds the whole batch and is not a step.

  Shown: no more than \<^verbatim>\<open>max_concurrent\<close> run at a time, each request yields once and with an
  answer of its own, and a batch always ends with every answer, however its requests wait
  for one another; with \<^verbatim>\<open>max_concurrent\<close> zero it never starts.
\<close>

section \<open>The steps\<close>

record 's batch =
  bt_flight :: "'s flight"
  bt_started :: nat
  bt_out :: "(nat \<times> string io) list"

definition in_progress :: "'s batch \<Rightarrow> nat set" where
  "in_progress b = {..<bt_started b} - set (map fst (bt_out b))"

definition unwinds :: "task \<Rightarrow> bool" where
  "unwinds t = (case t of Gone \<Rightarrow> True | Sending _ _ None \<Rightarrow> True | _ \<Rightarrow> False)"

inductive batch_step ::
  "'s resize_service \<Rightarrow> resize_query list \<Rightarrow> nat \<Rightarrow> 's batch \<Rightarrow> 's batch \<Rightarrow> bool"
  for rs :: "'s resize_service" and requests :: "resize_query list" and max_concurrent :: nat
where
  start: "batch_step rs requests max_concurrent b (b\<lparr>bt_started := bt_started b + 1\<rparr>)"
    if "card (in_progress b) < max_concurrent" "bt_started b < length requests"
| work: "batch_step rs requests max_concurrent b (b\<lparr>bt_flight := g\<rparr>)"
    if "i \<in> in_progress b" "flight_step rs (\<lambda>j. requests ! j) i (bt_flight b) g" "\<not> unwinds (fl_task g i)"
| yielded: "batch_step rs requests max_concurrent b (b\<lparr>bt_out := bt_out b @ [(i, r)]\<rparr>)"
    if "i \<in> in_progress b" "fl_task (bt_flight b) i = Answered r"

definition batch_init :: "'s \<Rightarrow> nat \<Rightarrow> 's batch" where
  "batch_init s n = \<lparr> bt_flight = flight_init s n, bt_started = 0, bt_out = [] \<rparr>"

inductive batch_reach ::
  "'s resize_service \<Rightarrow> resize_query list \<Rightarrow> nat \<Rightarrow> 's \<Rightarrow> 's batch \<Rightarrow> bool"
  for rs :: "'s resize_service" and requests :: "resize_query list" and max_concurrent :: nat and s :: 's
where
  reach_init: "batch_reach rs requests max_concurrent s (batch_init s (length requests))"
| reach_step: "batch_reach rs requests max_concurrent s b \<Longrightarrow> batch_step rs requests max_concurrent b c
    \<Longrightarrow> batch_reach rs requests max_concurrent s c"

text \<open>What the function returns: the answers, in the order in which they came.\<close>

definition batch_results :: "'s batch \<Rightarrow> string io list" where
  "batch_results b = map snd (bt_out b)"

section \<open>The invariant\<close>

definition batch_inv :: "'s resize_service \<Rightarrow> resize_query list \<Rightarrow> nat \<Rightarrow> 's batch \<Rightarrow> bool" where
  "batch_inv rs requests max_concurrent b \<longleftrightarrow>
     flight_inv rs (\<lambda>j. requests ! j) (bt_flight b)
   \<and> bt_started b \<le> length requests \<and> card (in_progress b) \<le> max_concurrent
   \<and> distinct (map fst (bt_out b)) \<and> set (map fst (bt_out b)) \<subseteq> {..<bt_started b}
   \<and> (\<forall>i. bt_started b \<le> i \<longrightarrow> fl_task (bt_flight b) i \<in> {Idle, Gone})
   \<and> (\<forall>i < length requests. \<not> unwinds (fl_task (bt_flight b) i))
   \<and> (\<forall>(i, r) \<in> set (bt_out b). fl_task (bt_flight b) i = Answered r)"

lemma batch_invD:
  assumes "batch_inv rs requests max_concurrent b"
  shows "flight_inv rs (\<lambda>j. requests ! j) (bt_flight b)"
    and "bt_started b \<le> length requests" and "card (in_progress b) \<le> max_concurrent"
    and "distinct (map fst (bt_out b))" and "set (map fst (bt_out b)) \<subseteq> {..<bt_started b}"
    and "bt_started b \<le> i \<Longrightarrow> fl_task (bt_flight b) i \<in> {Idle, Gone}"
    and "i < length requests \<Longrightarrow> \<not> unwinds (fl_task (bt_flight b) i)"
    and "(i, r) \<in> set (bt_out b) \<Longrightarrow> fl_task (bt_flight b) i = Answered r"
  using assms unfolding batch_inv_def by blast+

lemma in_progress_start: "bt_started b \<notin> set (map fst (bt_out b)) \<Longrightarrow>
    in_progress (b\<lparr>bt_started := bt_started b + 1\<rparr>) = insert (bt_started b) (in_progress b)"
  by (auto simp: in_progress_def less_Suc_eq)

lemma in_progress_yield: "in_progress (b\<lparr>bt_out := bt_out b @ [(i, r)]\<rparr>) = in_progress b - {i}"
  by (auto simp: in_progress_def)

lemma finite_in_progress [simp]: "finite (in_progress b)"
  by (simp add: in_progress_def)

lemma batch_inv_init: "batch_inv rs requests max_concurrent (batch_init s (length requests))"
proof -
  have "fl_task (bt_flight (batch_init s (length requests))) i = (if i < length requests then Idle else Gone)" for i
    by (simp add: batch_init_def flight_init_def)
  moreover have "flight_inv rs (\<lambda>j. requests ! j) (bt_flight (batch_init s (length requests)))"
    by (simp add: batch_init_def flight_inv_init)
  ultimately show ?thesis
    by (simp add: batch_inv_def in_progress_def unwinds_def) (simp add: batch_init_def)
qed

lemma batch_inv_step:
  assumes inv: "batch_inv rs requests max_concurrent b" and step: "batch_step rs requests max_concurrent b c"
  shows "batch_inv rs requests max_concurrent c"
  using step
proof cases
  case start
  note I = batch_invD [OF inv]
  have "bt_started b \<notin> set (map fst (bt_out b))"
    using I(5) by blast
  from in_progress_start [OF this] have p: "in_progress c = insert (bt_started b) (in_progress b)"
    by (simp add: start(1))
  have "card (in_progress c) \<le> max_concurrent"
    unfolding p using start(2) by (simp add: card_insert_if)
  then show ?thesis
    unfolding batch_inv_def using I start(3) by (auto simp: start(1) subset_iff dest: less_SucI)
next
  case (work i g)
  note I = batch_invD [OF inv]
  note o = step_rank [OF work(3)]
  have i: "i < bt_started b" "i \<notin> set (map fst (bt_out b))"
    using work(2) by (auto simp: in_progress_def)
  have "in_progress c = in_progress b"
    by (simp add: work(1) in_progress_def)
  moreover have "flight_inv rs (\<lambda>j. requests ! j) g"
    by (rule flight_inv_step [OF I(1) work(3)])
  moreover have "fl_task g j \<in> {Idle, Gone}" if "bt_started b \<le> j" for j
    using I(6) [OF that] o i(1) that by (metis leD)
  moreover have "\<not> unwinds (fl_task g j)" if "j < length requests" for j
    using I(7) [OF that] o work(4) by (cases "j = i") auto
  moreover have "fl_task g j = Answered r" if "(j, r) \<in> set (bt_out b)" for j r
    using I(8) [OF that] o i(2) that by (metis fst_conv image_eqI list.set_map)
  ultimately show ?thesis
    unfolding batch_inv_def using I by (auto simp: work(1))
next
  case (yielded i r)
  note I = batch_invD [OF inv]
  have i: "i < bt_started b" "i \<notin> set (map fst (bt_out b))"
    using yielded(2) by (auto simp: in_progress_def)
  have "in_progress c = in_progress b - {i}"
    by (simp add: yielded(1) in_progress_yield)
  then have "card (in_progress c) \<le> max_concurrent"
    using I(3) by (metis card_Diff1_le finite_in_progress le_trans)
  then show ?thesis
    unfolding batch_inv_def using I i yielded(3) by (auto simp: yielded(1))
qed

lemma batch_inv_reach: "batch_reach rs requests max_concurrent s b \<Longrightarrow> batch_inv rs requests max_concurrent b"
  by (induction rule: batch_reach.induct) (auto intro: batch_inv_init batch_inv_step)

section \<open>Progress\<close>

definition batch_left :: "nat \<Rightarrow> 's batch \<Rightarrow> nat" where
  "batch_left n b = flight_left n (bt_flight b) + (n - bt_started b) + (n - length (bt_out b))"

lemma batch_left_step:
  assumes inv: "batch_inv rs requests max_concurrent b" and step: "batch_step rs requests max_concurrent b c"
  shows "batch_left (length requests) c < batch_left (length requests) b"
  using step
proof cases
  case start
  then show ?thesis
    by (simp add: batch_left_def)
next
  case (work i g)
  have "i < length requests"
    using work(2) batch_invD(2) [OF inv] by (auto simp: in_progress_def)
  from flight_left_step [OF work(3) this] show ?thesis
    by (simp add: work(1) batch_left_def)
next
  case (yielded i r)
  have "set (map fst (bt_out b)) \<subset> {..<bt_started b}"
    using yielded(2) batch_invD(5) [OF inv] by (auto simp: in_progress_def)
  from psubset_card_mono [OF _ this] have "length (bt_out b) < bt_started b"
    using distinct_card [OF batch_invD(4) [OF inv]] by simp
  then show ?thesis
    using batch_invD(2) [OF inv] by (simp add: yielded(1) batch_left_def)
qed

interpretation batches: transitions "batch_step rs requests max_concurrent" "batch_inv rs requests max_concurrent"
  "batch_left (length requests)"
  by unfold_locales (fact batch_inv_step, fact batch_left_step)

lemma batch_left_le:
  assumes "batch_inv rs requests max_concurrent b"
  shows "batch_left (length requests) b \<le> 6 * length requests"
proof -
  have "flight_left (length requests) (bt_flight b) \<le> (\<Sum>i<length requests. 4)"
    unfolding flight_left_def by (intro sum_mono) (simp add: rank_def split: task.splits)
  then show ?thesis
    by (simp add: batch_left_def)
qed

lemma batch_out_le:
  assumes "batch_inv rs requests max_concurrent b"
  shows "length (bt_out b) \<le> length requests"
  using card_mono [OF _ batch_invD(5) [OF assms]] distinct_card [OF batch_invD(4) [OF assms]] batch_invD(2) [OF assms] by simp

lemma not_unwinding_step:
  assumes "\<not> finished (fl_task f j)" "\<not> unwinds (fl_task f j)" "\<forall>ch. fl_task f j = Following ch \<longrightarrow> fl_sent f ch \<noteq> None"
  shows "\<exists>g. flight_step rs req j f g \<and> \<not> unwinds (fl_task g j)"
  using assms flight_step_do [where f = f and i = j and rs = rs and req = req]
  by (cases "fl_task f j") (fastforce simp: finished_def unwinds_def split: option.splits)+

lemma batch_moves_on:
  assumes "batch_inv rs requests max_concurrent b" "0 < max_concurrent" "length (bt_out b) < length requests"
  shows "\<exists>c. batch_step rs requests max_concurrent b c"
proof -
  note I = batch_invD [OF assms(1)]
  let ?f = "bt_flight b" and ?req = "\<lambda>j. requests ! j"
  have move: "\<exists>c. batch_step rs requests max_concurrent b c"
    if i: "i \<in> in_progress b" "\<forall>ch. fl_task ?f i = Following ch \<longrightarrow> fl_sent ?f ch \<noteq> None" for i
  proof (cases "\<exists>r. fl_task ?f i = Answered r")
    case True
    then show ?thesis
      using i(1) by (blast intro: batch_step.yielded)
  next
    case False
    have "i < length requests"
      using i(1) I(2) by (auto simp: in_progress_def)
    then have "\<not> unwinds (fl_task ?f i)"
      by (rule I(7))
    moreover from this False have "\<not> finished (fl_task ?f i)"
      by (cases "fl_task ?f i") (simp_all add: finished_def unwinds_def)
    ultimately obtain g where "flight_step rs ?req i ?f g" "\<not> unwinds (fl_task g i)"
      using not_unwinding_step [where f = ?f and j = i and rs = rs and req = ?req] i(2) by blast
    then show ?thesis
      using batch_step.work [OF i(1)] by blast
  qed
  show ?thesis
  proof (cases "in_progress b = {}")
    case True
    then have "{..<bt_started b} = set (map fst (bt_out b))"
      using I(5) by (auto simp: in_progress_def)
    then have "bt_started b = length (bt_out b)"
      using distinct_card [OF I(4)] by (metis card_lessThan length_map)
    then show ?thesis
      using assms(2,3) True batch_step.start [of b max_concurrent requests rs] by auto
  next
    case False
    then obtain i where i: "i \<in> in_progress b"
      by blast
    show ?thesis
    proof (cases "\<exists>ch. fl_task ?f i = Following ch \<and> fl_sent ?f ch = None")
      case True
      then obtain ch j where j: "owns (fl_task ?f j) ch"
        using flight_invD(7) [OF I(1)] by fastforce
      then have "j < bt_started b"
        using I(6) [of j] by (cases "bt_started b \<le> j") auto
      moreover have "j \<notin> set (map fst (bt_out b))"
        using I(8) [of j] j by auto
      ultimately have "j \<in> in_progress b"
        by (simp add: in_progress_def)
      moreover have "\<forall>ch. fl_task ?f j \<noteq> Following ch"
        using j by auto
      ultimately show ?thesis
        by (intro move) auto
    next
      case False
      with i show ?thesis
        by (intro move) auto
    qed
  qed
qed

text \<open>
  C7. A batch is bounded, loses nothing and always ends.  In every state a batch reaches, at
  most \<^verbatim>\<open>max_concurrent\<close> requests are in progress, and each request has been yielded at most
  once, with a success only under its own key.  No batch takes more than six steps per
  request.  And if \<^verbatim>\<open>max_concurrent\<close> is positive, it can be run without a panic to an end where
  every request has been yielded, and stops nowhere before, even when requests of the batch
  follow one another's work.
\<close>
theorem batch_bounded_progress:
  assumes "batch_reach rs requests max_concurrent s b"
  shows "card (in_progress b) \<le> max_concurrent \<and> distinct (map fst (bt_out b))
    \<and> (\<forall>(i, r) \<in> set (bt_out b). i < length requests \<and> right_url rs (requests ! i) r)
    \<and> (\<forall>k c. (batch_step rs requests max_concurrent ^^ k) b c \<longrightarrow> k \<le> 6 * length requests)
    \<and> (0 < max_concurrent \<longrightarrow>
         (\<exists>c. (batch_step rs requests max_concurrent)\<^sup>*\<^sup>* b c \<and> length (batch_results c) = length requests)
       \<and> (length (batch_results b) < length requests \<longrightarrow> (\<exists>c. batch_step rs requests max_concurrent b c)))"
proof -
  note inv = batch_inv_reach [OF assms]
  note I = batch_invD [OF inv]
  have "i < length requests \<and> right_url rs (requests ! i) r" if "(i, r) \<in> set (bt_out b)" for i r
    using that I(2) I(5) flight_invD(9) [OF I(1) I(8) [OF that]] by force
  moreover have "k \<le> 6 * length requests" if "(batch_step rs requests max_concurrent ^^ k) b c" for k c
    using batches.run_bound [OF that inv] batch_left_le [OF inv] by simp
  moreover have "\<exists>c. (batch_step rs requests max_concurrent)\<^sup>*\<^sup>* b c \<and> length (batch_results c) = length requests"
    if m: "0 < max_concurrent"
  proof -
    obtain c where c: "(batch_step rs requests max_concurrent)\<^sup>*\<^sup>* b c" "batch_inv rs requests max_concurrent c"
        "\<forall>d. \<not> batch_step rs requests max_concurrent c d"
      using batches.runs_to_end [OF inv] by blast
    then have "length (bt_out c) = length requests"
      using batch_moves_on [OF c(2) m] batch_out_le [OF c(2)] by (meson le_neq_implies_less)
    with c(1) show ?thesis
      by (auto simp: batch_results_def)
  qed
  moreover have "\<exists>c. batch_step rs requests max_concurrent b c"
    if "0 < max_concurrent" "length (batch_results b) < length requests"
    using batch_moves_on [OF inv] that by (simp add: batch_results_def)
  ultimately show ?thesis
    using I(3,4) by auto
qed

theorem batch_bounded_progress_witness:
  "\<exists>b c. batch_reach demo_service [demo_req 0, demo_req 1] 2 Map.empty b \<and> in_progress b = {0}
     \<and> batch_step demo_service [demo_req 0, demo_req 1] 2 b c"
proof -
  let ?q = "[demo_req 0, demo_req 1]"
  define b where "b = (batch_init (Map.empty :: memory) (length ?q))\<lparr>bt_started := bt_started (batch_init (Map.empty :: memory) (length ?q)) + 1\<rparr>"
  have r: "batch_reach demo_service ?q 2 Map.empty b"
    unfolding b_def by (rule reach_step [OF reach_init], rule start) (simp_all add: in_progress_def batch_init_def)
  have "in_progress b = {0}" "length (batch_results b) < length ?q"
    by (auto simp: b_def in_progress_def batch_init_def batch_results_def)
  then show ?thesis
    using batch_bounded_progress [OF r] r by auto
qed

text \<open>
  With \<^verbatim>\<open>max_concurrent\<close> zero nothing ever starts: the future stays pending.  And two answers
  may come in the other order than their requests, so the list does not tell which is whose.
\<close>

lemma batch_zero_hangs:
  assumes "requests \<noteq> []"
  shows "\<not> batch_step rs requests 0 (batch_init s (length requests)) c" "batch_results (batch_init s (length requests)) = []"
  by (auto simp: batch_step.simps in_progress_def batch_init_def batch_results_def)

end
