(* ===== verification/Spec2Isabelle.thy ===== *)
theory Spec2Isabelle
  imports Router Health_Check Batch
begin

text \<open>
  A model of an image-resizing HTTP service and its correctness.

  The program.  A request names its source and its processing options in a signed path.
  The resize handler checks the path's signature, expands presets, parses the options
  and the source, negotiates the output format, and asks the resize service for the
  result.  That service derives a cache key from the request, looks it up in the
  storage backend, and on a miss fetches the source through a guard against
  server-side request forgery, processes it on a blocking thread and stores it under
  the key; concurrent requests for one key share the work of one leader.  The answer
  is a permanent redirect to the key on the CDN.  A second, unsigned route serves
  stored objects by key.

  The theories, in the order of their imports (paths are under \<^verbatim>\<open>src/src\<close>).

  \<^item> \<^verbatim>\<open>Prelude\<close>: bytes, strings, results, integer parsing and printing as the Rust
    standard library has them, and the collections \<^verbatim>\<open>result_simps\<close> and \<^verbatim>\<open>str_simps\<close>.
  \<^item> \<^verbatim>\<open>Float_Model\<close>, \<^verbatim>\<open>Float_Display\<close>: binary32 and binary64 with correct rounding, casts,
    parsing and shortest decimal output, and the error bounds on rounding.
  \<^item> \<^verbatim>\<open>Params\<close> (\<^verbatim>\<open>models/params.rs\<close>): the request model.
  \<^item> \<^verbatim>\<open>Options\<close>, \<^verbatim>\<open>Url\<close> (\<^verbatim>\<open>modules/url\<close>): the option grammar with every arm of
    \<^verbatim>\<open>ProcessingOptions::parse\<close>, presets, the allowlist of options, sources, and the whole path.
  \<^item> \<^verbatim>\<open>Errors\<close>, \<^verbatim>\<open>Signing\<close>, \<^verbatim>\<open>Negotiation\<close>, \<^verbatim>\<open>Http_Date\<close> (\<^verbatim>\<open>modules/utils\<close>, \<^verbatim>\<open>modules/signing\<close>,
    \<^verbatim>\<open>modules/negotiation.rs\<close>): error classes and status codes, the signature gate, Accept
    headers, and IMF dates against the Gregorian calendar.
  \<^item> \<^verbatim>\<open>Cache_Key\<close>, \<^verbatim>\<open>Key_Validation\<close> (\<^verbatim>\<open>services/cache\<close>, \<^verbatim>\<open>services/storage/key_validation.rs\<close>):
    the hashed stream of a request, which determines it, and the language of keys.
  \<^item> \<^verbatim>\<open>Storage\<close>, \<^verbatim>\<open>Storage_Local\<close> (\<^verbatim>\<open>services/storage\<close>): the contract of a backend as the locale
    \<^verbatim>\<open>storage_backend\<close>, the in-memory backend and the local file system as its
    interpretations, the storage service, and the choice of backend.  The file system
    has directories, files, symbolic links and failing system calls; an upload is the
    list of the states it passes through.
  \<^item> \<^verbatim>\<open>Transitions\<close>: the locale \<^verbatim>\<open>transitions\<close> of step relations with an invariant and a rank, which
    single flight and batches interpret.
  \<^item> \<^verbatim>\<open>Resize\<close> (\<^verbatim>\<open>services/resize\<close>): the pipeline of a miss, and single flight as a step relation
    over any number of requests in any interleaving, with panics and cancellations.
  \<^item> \<^verbatim>\<open>Performance\<close> (\<^verbatim>\<open>config/performance.rs\<close>, \<^verbatim>\<open>modules/utils/cgroup.rs\<close>): profiles, environment
    overrides, CPU quotas.
  \<^item> \<^verbatim>\<open>Source_Guard\<close>, \<^verbatim>\<open>Fetch\<close> (\<^verbatim>\<open>services/image/source_guard.rs\<close>, the fetcher of
    \<^verbatim>\<open>services/image/handler.rs\<close>): blocked ranges on machine words, literals in every
    spelling, resolution, the redirect loop with the connections it makes, the size cap.
  \<^item> \<^verbatim>\<open>Image_Service\<close> (\<^verbatim>\<open>services/image/handler.rs\<close>): watermark fetches and load shedding.
  \<^item> \<^verbatim>\<open>Byte_Order\<close>, \<^verbatim>\<open>Avif_Meta\<close> (\<^verbatim>\<open>services/image/avif_meta.rs\<close>): integers in byte strings, and the
    reader of AVIF containers with its budgets.
  \<^item> \<^verbatim>\<open>Geometry\<close>, \<^verbatim>\<open>Pixels\<close>, \<^verbatim>\<open>Encode\<close> (\<^verbatim>\<open>services/image/handler.rs\<close>): every size and rectangle the
    pipeline computes, the arithmetic on pixels, and the bytes around the codecs.
  \<^item> \<^verbatim>\<open>Image_Ops\<close>, \<^verbatim>\<open>Codecs\<close>, \<^verbatim>\<open>Pipeline\<close> (\<^verbatim>\<open>services/image/handler.rs\<close>, \<^verbatim>\<open>services/image/avif_codec.rs\<close>):
    the operations on pictures, the calls of the decoders and encoders, and the still and
    the animated path from a source to an answer; \<^verbatim>\<open>image_service_over\<close> puts them into the
    image service.
  \<^item> \<^verbatim>\<open>Http_Api\<close> (\<^verbatim>\<open>modules/api\<close>, \<^verbatim>\<open>modules/router/middlewares.rs\<close>, \<^verbatim>\<open>modules/metrics_auth\<close>):
    the handlers, conditional requests, saturation, and the metrics endpoint.
  \<^item> \<^verbatim>\<open>Storage_S3\<close> (\<^verbatim>\<open>services/storage/s3_handler.rs\<close>): the S3 backend over its client, which keeps
    the contract over every bucket that behaves as a map.
  \<^item> \<^verbatim>\<open>Batch\<close> (\<^verbatim>\<open>resize_batch\<close> of \<^verbatim>\<open>services/resize/handler.rs\<close>): a bounded batch over single flight.
  \<^item> \<^verbatim>\<open>Startup\<close> (\<^verbatim>\<open>modules/env\<close>, \<^verbatim>\<open>ApiService::create\<close>, \<^verbatim>\<open>main.rs\<close>): the environment, the service
    it makes or the error it ends with, worker threads and the drain at shutdown.
  \<^item> \<^verbatim>\<open>Router\<close> (\<^verbatim>\<open>modules/router\<close>, \<^verbatim>\<open>services/health\<close>): the routes behind the layers of the service.
  \<^item> \<^verbatim>\<open>Health_Check\<close> (\<^verbatim>\<open>bin/healthcheck.rs\<close>): the probe and its exit code.

  What the lemmas show.  Option parsing keeps every value in range and reports the first
  error; paths split and rebuild; the gate opens for a valid signature or the explicit
  escape and for nothing else, and a URL signed with the service's key is admitted as what
  it was built from; a negotiated format is the one the weights of the header's media
  ranges dictate; keys identify requests and validate; a backend that
  keeps its contract behaves as a map with expiry, and all three backends keep it; an upload
  is atomic for readers even when it fails half way, and a failed sidecar leaves the old
  expiry; single flight has one leader per key, answers each request with its own key, never
  deadlocks, and whatever is dropped ends with an answer for every request that was not; the
  fetcher connects only to checked addresses; and what a resize stored is what a
  download serves.  Sizes fit their boxes in spite of rounding, the prediction before a
  decode is the size after it, a single picture that is encoded is within the limits,
  colours stay between the colours they mix, the hand-written containers read back, and
  the AVIF reader returns what a container says.  A service that starts has its gates
  closed unless it was told otherwise, and its routes answer accordingly; a batch stays
  within its bound and ends with every answer.

  Bounds.  A path lookup follows at most 40 symbolic links, as Linux does.  The redirect
  loop is structural in the number of attempts left, and a run of single flight of \<^verbatim>\<open>n\<close>
  requests has at most four steps for each of them, a batch six.  Every other function is total
  without fuel.

  What is not modelled, and why.  Code of other crates is an argument, with hypotheses where a
  property leans on it: SHA-256, HMAC, base64, percent decoding, URL parsing, DNS, the HTTP
  client, the S3 client, the \<^verbatim>\<open>image\<close> and \<^verbatim>\<open>fast_image_resize\<close> crates, every decoder and
  encoder, and the matcher of routes.  The layers of \<^verbatim>\<open>tower\<close> (compression, CORS, rate
  limits), sockets, signals, the runtime, log lines, the exporters of \<^verbatim>\<open>modules/tracer\<close> and
  the installation of the TLS provider are input and output around the modelled parts.
  The benchmarks and the codec report only measure.
  Rendered texts of parse errors are kept as templates with their arguments.
\<close>

section \<open>From a signed path to the stored bytes\<close>

lemma content_type_generated:
  assumes "rq_format q \<noteq> AutoFormat"
  shows "content_type_for_key (generate_key sha pre q)
    = ''image/'' @ (if rq_format q = Jpg then ''jpeg'' else image_format_display (rq_format q))"
proof -
  have "rsplit_once CHR ''.'' (generate_key sha pre q) = Some (pre @ hex_lower (sha (key_stream q)), image_format_display (rq_format q))"
    by (cases "rq_format q") (simp_all add: rsplit_once_Some_iff generate_key_def image_format_display_def)
  then show ?thesis
    using assms by (cases "rq_format q")
      (simp_all add: content_type_for_key_def image_format_display_def image_format_from_str_def)
qed

context storage_backend
begin

lemma resize_then_download_over:
  assumes service: "ap_resize_service api = resize_service_with sv sha pre im" "sv_backend sv = b" "sv_key_prefix sv = pre"
      "invar s" "\<And>k. valid_key pre k \<Longrightarrow> valid k" "valid_key pre (generate_key sha pre query)"
    and request: "admit cd api path hs = Inr (query, negotiated)"
      "fst (service_check_cache sv now (generate_key sha pre query) s) = Inr False"
      "resize_handler cd api now path hs s = (resp, s')" "resp_status resp = 301"
    and time: "t < time_limit"
  shows "\<exists>source conns body ct. download_image (im_config im) (im_world im) (rq_url query) = (Inr source, conns)
    \<and> fst (process_image im source query) = Inr (body, ct)
    \<and> (''location'', get_cdn_url sv (generate_key sha pre query)) \<in> set (resp_headers resp)
    \<and> fst (download_handler api t (generate_key sha pre query) s') = success_response (generate_key sha pre query) body
    \<and> content_type_for_key (generate_key sha pre query)
        = ''image/'' @ (if rq_format query = Jpg then ''jpeg'' else image_format_display (rq_format query))
    \<and> invar s'"
proof -
  let ?rs = "ap_resize_service api" and ?key = "generate_key sha pre query"
  have rs: "rs_storage ?rs = sv" "cache_key ?rs query = ?key" "rs_cache_ttl ?rs = None"
      "rs_download ?rs u = fst (download_image (im_config im) (im_world im) u)"
      "rs_process ?rs b q = fst (process_image im b q)" for u b q
    by (simp_all add: service(1) resize_service_with_def cache_key_def)
  have fmt: "rq_format query \<noteq> AutoFormat"
    using admit_Inr [OF request(1)] by simp
  have alone: "resize_alone ?rs now query s = (Inr (get_cdn_url sv ?key), s')"
      "resp = redirect_response cd (get_cdn_url sv ?key) negotiated"
    using resize_handler_301 [OF request(3,4)] request(1) rs(1,2) by auto
  obtain source body ct where w: "fst (download_image (im_config im) (im_world im) (rq_url query)) = Inr source"
      "fst (process_image im source query) = Inr (body, ct)" "invar s'"
      "fst (service_get_image sv t ?key s') = Inr body"
    using resize_alone_stores [where rs = ?rs and s = s and q = query,
        unfolded rs, OF service(2) _ service(4) _ alone(1) request(2)] service(3,5,6) time by auto
  have dl: "fst (download_handler api t ?key s') = success_response ?key body"
    using w(4) by (auto simp: download_handler_def resize_download_def rs(1) split: prod.splits sum.splits)
  have loc: "(''location'', get_cdn_url sv ?key) \<in> set (resp_headers resp)"
    using redirect_response_301(1) request(4) unfolding alone(2) by blast
  show ?thesis
    using w(1-3) dl loc content_type_generated [OF fmt]
    by (cases "download_image (im_config im) (im_world im) (rq_url query)") auto
qed

end

text \<open>
  C1. From the environment to the stored bytes.  Take a service that \<^verbatim>\<open>ApiService::create\<close>
  made, over the local file system and the pixel pipeline.  When a request it admits misses
  the cache and is answered with a 301, its source was downloaded through the guard and
  processed; the redirect points at the CDN URL of the generated key; from then on a
  download of that key answers 200 with exactly the processed bytes and the content type of
  the requested format; and unless that format can be animated, those bytes are the
  encoding of a picture within the configured width and height.
\<close>
theorem resize_then_download:
  assumes create: "api_service_create f otel tls env_storage_type cpus config = Inr st"
    and api: "api = api_service_of (local_backend pid base) sha im st" "im = image_service_over il de en (st_performance st) w permits"
    and disk: "local_invar base (ec_sub_path config) s"
    and crates: "\<And>m. length (sha m) = 32" "list_all (\<lambda>b. 32 \<le> byte b \<and> byte b \<noteq> 127) (ec_sub_path config)" "image_lib_sizes il"
    and request: "admit cd api path hs = Inr (query, negotiated)" "key = cache_key (ap_resize_service api) query"
      "fst (service_check_cache (rs_storage (ap_resize_service api)) now key s) = Inr False"
      "resize_handler cd api now path hs s = (resp, s')" "resp_status resp = 301"
    and time: "t < time_limit"
  shows "\<exists>source conns body ct. download_image (st_performance st) w (rq_url query) = (Inr source, conns)
    \<and> fst (process_image im source query) = Inr (body, ct)
    \<and> (''location'', get_cdn_url (rs_storage (ap_resize_service api)) key) \<in> set (resp_headers resp)
    \<and> fst (download_handler api t key s') = success_response key body
    \<and> content_type_for_key key = ''image/'' @ (if rq_format query = Jpg then ''jpeg'' else image_format_display (rq_format query))
    \<and> local_invar base (ec_sub_path config) s'
    \<and> (rq_format query \<notin> {Gif, Webp} \<longrightarrow>
         (\<exists>final fmt icc exif. encode_output il en final fmt icc exif query (st_performance st) = Inr body
            \<and> fst (il_dimensions il final) \<le> pc_max_output_width (st_performance st)
            \<and> snd (il_dimensions il final) \<le> pc_max_output_height (st_performance st)))"
proof -
  let ?sv = "\<lparr> sv_backend = local_backend pid base, sv_cdn_base_url = st_cdn_base_url st, sv_key_prefix = st_key_prefix st \<rparr>"
    and ?pre = "ec_sub_path config"
  note st = api_service_createD [OF create]
  have pre: "st_key_prefix st = ?pre" "st_minio_sub_path st = ?pre"
    using storage_service_new_names [OF st(5)] st(6) by (simp_all add: storage_config_of_def)
  have svc: "ap_resize_service api = resize_service_with ?sv sha ?pre im" "rs_storage (ap_resize_service api) = ?sv"
      "key = generate_key sha ?pre query"
      "sv_backend ?sv = local_backend pid base" "sv_key_prefix ?sv = ?pre"
    by (simp_all add: api(1) request(2) api_service_of_def pre resize_service_with_def cache_key_def)
  have "rq_format query \<noteq> AutoFormat"
    using admit_Inr [OF request(1)] by simp
  then have valid: "valid_key ?pre (generate_key sha ?pre query)"
    by (rule generated_key_valid [OF crates(1,2)])
  have im: "im_config im = st_performance st" "im_world im = w"
    by (simp_all add: api(2) image_service_over_def)
  obtain source conns body ct where r: "download_image (st_performance st) w (rq_url query) = (Inr source, conns)"
      "fst (process_image im source query) = Inr (body, ct)" "(''location'', get_cdn_url ?sv key) \<in> set (resp_headers resp)"
      "fst (download_handler api t key s') = success_response key body"
      "content_type_for_key key = ''image/'' @ (if rq_format query = Jpg then ''jpeg'' else image_format_display (rq_format query))"
      "local_invar base ?pre s'"
    using storage_backend.resize_then_download_over [OF local.storage_backend_axioms svc(1,4,5) disk _ valid request(1)
        request(3) [unfolded svc(2,3)] request(4,5) time]
    unfolding svc(3) im by blast
  moreover have "rq_format query \<notin> {Gif, Webp} \<Longrightarrow> \<exists>final fmt icc exif. encode_output il en final fmt icc exif query (st_performance st) = Inr body
      \<and> fst (il_dimensions il final) \<le> pc_max_output_width (st_performance st)
      \<and> snd (il_dimensions il final) \<le> pc_max_output_height (st_performance st)"
    using served_picture_within [OF crates(3) _ _ r(2) [unfolded api(2)]] by blast
  ultimately show ?thesis
    unfolding svc(2) by blast
qed

text \<open>
  The service of a closed environment over an empty disk, with pictures of 64 by 64 pixels
  behind every URL, and a request that carries the MAC of its path.
\<close>

definition png_world :: world where
  "png_world = demo_world\<lparr>w_send := (\<lambda>_ _ _. Some \<lparr> hr_status = 200, hr_location = None,
     hr_content_length = Some 12, hr_chunks = [Some png_bytes] \<rparr>)\<rparr>"

definition started_api :: "started \<Rightarrow> local_state api_service" where
  "started_api st = api_service_of (local_backend 1 [''data'']) (\<lambda>_. replicate 32 CHR ''a'')
     (image_service_over raster_lib (demo_decoders [] (64, 64)) demo_encoders (st_performance st) png_world 1) st"

definition signed_png_path :: string where
  "signed_png_path = ''/mac/plain/http://cdn/.png''"

definition png_admitted :: "env_config \<Rightarrow> started \<Rightarrow> resize_query \<Rightarrow> bool" where
  "png_admitted c st q \<longleftrightarrow> plain_png q \<and> ec_sub_path c = [] \<and> st_minio_sub_path st = []
     \<and> pc_max_src_resolution_mp (st_performance st) = 50 \<and> pc_max_output_width (st_performance st) = 4096
     \<and> pc_max_output_height (st_performance st) = 4096
     \<and> (case fst (download_image (st_performance st) png_world (rq_url q)) of Inl _ \<Rightarrow> False | Inr b \<Rightarrow> b = png_bytes)
     \<and> value_from_str (get_cdn_url (rs_storage (ap_resize_service (started_api st)))
          (cache_key (ap_resize_service (started_api st)) q)) \<noteq> None
     \<and> fst (service_check_cache (rs_storage (ap_resize_service (started_api st))) 0
          (cache_key (ap_resize_service (started_api st)) q) (fresh_state [''data''])) = Inr False"

lemma started_png:
  "case init_from_env closed_env of Inl _ \<Rightarrow> False | Inr c \<Rightarrow>
     (case api_service_create release_features True True None 4 c of Inl _ \<Rightarrow> False | Inr st \<Rightarrow>
        (case admit mac_codecs (started_api st) signed_png_path Map.empty of Inl _ \<Rightarrow> False | Inr (q, n) \<Rightarrow> png_admitted c st q))"
  by code_simp

theorem resize_then_download_witness:
  "\<exists>api q s'. resp_body (fst (download_handler api 5 (cache_key (ap_resize_service api) q) (s' :: local_state))) = ''png''
     \<and> (\<exists>final. fst (il_dimensions raster_lib final) \<le> 4096 \<and> snd (il_dimensions raster_lib final) \<le> 4096
          \<and> (\<exists>fmt icc exif config. encode_output raster_lib demo_encoders final fmt icc exif q config = Inr ''png''))"
proof -
  obtain c st q n where c: "api_service_create release_features True True None 4 c = Inr st"
      "admit mac_codecs (started_api st) signed_png_path Map.empty = Inr (q, n)" "png_admitted c st q"
    using started_png by (auto split: sum.splits prod.splits)
  let ?rs = "ap_resize_service (started_api st)" and ?s = "fresh_state [''data'']"
    and ?im = "image_service_over raster_lib (demo_decoders [] (64, 64)) demo_encoders (st_performance st) png_world 1"
  note q = c(3) [unfolded png_admitted_def]
  have wm: "rq_watermark q = None" and fmt: "rq_format q = Png"
    using q by (simp_all add: plain_png_def)
  have im: "fst (process_image ?im png_bytes q) = Inr (''png'', ''image/png'')"
    using plain_png_processed(1) [of q "st_performance st"] q wm
    by (simp add: process_image_def download_watermark_if_needed_def image_service_over_def)
  have dl: "fst (download_image (st_performance st) png_world (rq_url q)) = Inr png_bytes"
    using q by (auto split: sum.splits)
  have rs: "sv_backend (rs_storage ?rs) = local_backend 1 [''data'']" "sv_key_prefix (rs_storage ?rs) = []"
      "rs_cache_ttl ?rs = None" "rs_download ?rs (rq_url q) = Inr png_bytes" "rs_process ?rs png_bytes q = Inr (''png'', ''image/png'')"
    using q im dl storage_service_new_names [OF api_service_createD(5) [OF c(1)]]
    by (simp_all add: started_api_def api_service_of_def resize_service_with_def storage_config_of_def image_service_over_def)
  have "cache_key ?rs q = generate_key (\<lambda>_. replicate 32 CHR ''a'') [] q"
    using q by (simp add: started_api_def api_service_of_def resize_service_with_def cache_key_def)
  then have k: "valid_key (sv_key_prefix (rs_storage ?rs)) (cache_key ?rs q)"
    unfolding rs(2) by (simp add: generated_key_valid fmt)
  have "fst (resize_alone ?rs 0 q ?s) = Inr (get_cdn_url (rs_storage ?rs) (cache_key ?rs q))"
    by (rule storage_backend.resize_alone_succeeds [OF local.storage_backend_axioms rs(1) _ fresh_invar k rs(3-5)]) (simp add: rs(2))
  then obtain s1 where "perform_resize (started_api st) 0 q ?s = (Inr (get_cdn_url (rs_storage ?rs) (cache_key ?rs q)), s1)"
    by (cases "resize_alone ?rs 0 q ?s") (simp add: perform_resize_def)
  then have "resp_status (fst (resize_handler mac_codecs (started_api st) 0 signed_png_path Map.empty ?s)) = 301"
    using q by (auto simp: resize_handler_def handle_def c(2) redirect_response_def)
  moreover obtain resp s' where r: "resize_handler mac_codecs (started_api st) 0 signed_png_path Map.empty ?s = (resp, s')"
    by fastforce
  ultimately have st: "resp_status resp = 301"
    by simp
  have d: "local_invar [''data''] (ec_sub_path c) ?s" "fst (service_check_cache (rs_storage ?rs) 0 (cache_key ?rs q) ?s) = Inr False"
    using q by (simp_all add: fresh_invar)
  obtain source conns body ct final fmt icc exif where w: "download_image (st_performance st) png_world (rq_url q) = (Inr source, conns)"
      "fst (process_image ?im source q) = Inr (body, ct)"
      "fst (download_handler (started_api st) 5 (cache_key ?rs q) s') = success_response (cache_key ?rs q) body"
      "encode_output raster_lib demo_encoders final fmt icc exif q (st_performance st) = Inr body"
      "fst (il_dimensions raster_lib final) \<le> 4096" "snd (il_dimensions raster_lib final) \<le> 4096"
    using resize_then_download [OF c(1) started_api_def refl d(1) _ _ raster_lib_sizes c(2) refl d(2) r st, of 5] q
    by (auto simp: time_limit_def fmt)
  have "body = ''png''"
    using w(1,2) dl im by simp
  then have "resp_body (fst (download_handler (started_api st) 5 (cache_key ?rs q) s')) = ''png''"
      "encode_output raster_lib demo_encoders final fmt icc exif q (st_performance st) = Inr ''png''"
    using w(3,4) by (simp_all add: success_response_def)
  with w(5,6) show ?thesis
    by blast
qed

end
